(* ===== verification/Prelude.thy ===== *)
theory Prelude
  imports Main "HOL-Library.Word"
begin

text \<open>
  Shared vocabulary of the development: the machine types of the C code, the result type in
  which every \<open>assert\<close>, \<open>panic\<close>, reboot and exit of the source is a value, little-endian byte
  encodings, and generic lemmas on words, lists and results that the component theories use.
\<close>

unbundle bit_operations_syntax

subsection \<open>Machine types\<close>

type_synonym u8 = "8 word"
type_synonym u16 = "16 word"
type_synonym u32 = "32 word"
type_synonym u64 = "64 word"

subsection \<open>Results: how a C routine can end\<close>

text \<open>
  \<open>Panic\<close> is the \<open>panic\<close> macro, \<open>AssertFail\<close> a failed \<open>assert\<close> or \<open>demand\<close>, \<open>Reboot\<close> is
  \<open>rpi_reboot\<close> or \<open>clean_reboot\<close>, \<open>ExitOk\<close> a call of \<open>exit(0)\<close>.  \<open>OutOfFuel\<close> is returned only
  by models of loops that wait for an event: the fuel bounds the number of iterations looked at.
  \<open>NullDeref\<close>, \<open>OutOfBounds\<close> and \<open>DivByZero\<close> are what the C code does without a check of its own
  (undefined behaviour): a theorem that a routine returns \<open>Inr\<close> says it makes none.
\<close>

datatype fault =
    Panic string | AssertFail string | Reboot | ExitOk | NullDeref | OutOfBounds | DivByZero | OutOfFuel

type_synonym 'a res = "fault + 'a"

text \<open>Sequencing: the first fault ends the routine.\<close>

definition bnd :: "'a res \<Rightarrow> ('a \<Rightarrow> 'b res) \<Rightarrow> 'b res" where
  "bnd m f = (case m of Inl e \<Rightarrow> Inl e | Inr x \<Rightarrow> f x)"

text \<open>\<open>assert(b)\<close>: nothing on success, a fault that carries the asserted text on failure.\<close>

definition check :: "bool \<Rightarrow> string \<Rightarrow> unit res" where
  "check b msg = (if b then Inr () else Inl (AssertFail msg))"

named_theorems res_simps \<open>rewriting of \<open>bnd\<close> and \<open>check\<close>\<close>

lemma bnd_Inr [simp]: "bnd (Inr x) f = f x"
  by (simp add: bnd_def)

lemma bnd_Inl [simp]: "bnd (Inl e) f = Inl e"
  by (simp add: bnd_def)

lemma bnd_eq_Inr [res_simps]: "bnd m f = Inr y \<longleftrightarrow> (\<exists>x. m = Inr x \<and> f x = Inr y)"
  by (cases m) auto

lemma bnd_eq_Inl [res_simps]:
  "bnd m f = Inl e \<longleftrightarrow> m = Inl e \<or> (\<exists>x. m = Inr x \<and> f x = Inl e)"
  by (cases m) auto

lemma bnd_assoc: "bnd (bnd m f) g = bnd m (\<lambda>x. bnd (f x) g)"
  by (cases m) auto

lemma bnd_if: "bnd (if b then m else n) f = (if b then bnd m f else bnd n f)"
  by simp

lemma check_True [simp]: "check True msg = Inr ()"
  by (simp add: check_def)

lemma check_False [simp]: "check False msg = Inl (AssertFail msg)"
  by (simp add: check_def)

lemma check_eq_Inr [res_simps]: "check b msg = Inr u \<longleftrightarrow> b"
  by (auto simp: check_def)

lemma check_eq_Inl [res_simps]: "check b msg = Inl e \<longleftrightarrow> \<not> b \<and> e = AssertFail msg"
  by (auto simp: check_def)

lemma bnd_check: "b \<Longrightarrow> bnd (check b msg) f = f ()"
  by simp

lemma bnd_cong [fundef_cong]:
  "m = m' \<Longrightarrow> (\<And>x. m' = Inr x \<Longrightarrow> f x = g x) \<Longrightarrow> bnd m f = bnd m' g"
  by (cases m') auto

text \<open>Array accesses of the C code, by an unsigned index.\<close>

definition arr_get :: "'a list \<Rightarrow> nat \<Rightarrow> 'a res" where
  "arr_get xs i = (if i < length xs then Inr (xs ! i) else Inl OutOfBounds)"

definition arr_set :: "'a list \<Rightarrow> nat \<Rightarrow> 'a \<Rightarrow> 'a list res" where
  "arr_set xs i x = (if i < length xs then Inr (xs[i := x]) else Inl OutOfBounds)"

lemma arr_get_in [simp]: "i < length xs \<Longrightarrow> arr_get xs i = Inr (xs ! i)"
  by (simp add: arr_get_def)

lemma arr_set_in [simp]: "i < length xs \<Longrightarrow> arr_set xs i x = Inr (xs[i := x])"
  by (simp add: arr_set_def)

lemma arr_get_eq_Inr [res_simps]: "arr_get xs i = Inr y \<longleftrightarrow> i < length xs \<and> y = xs ! i"
  by (auto simp: arr_get_def)

lemma arr_set_eq_Inr [res_simps]: "arr_set xs i x = Inr ys \<longleftrightarrow> i < length xs \<and> ys = xs[i := x]"
  by (auto simp: arr_set_def)

subsection \<open>Words and bits\<close>

definition bool_u32 :: "bool \<Rightarrow> u32" where
  "bool_u32 b = (if b then 1 else 0)"

lemma unat_u32_lt [simp]: "unat (x :: u32) < 4294967296"
  using unsigned_less [where ?'a = nat, of x] by simp

lemma unat_u8_lt [simp]: "unat (x :: u8) < 256"
  using unsigned_less [where ?'a = nat, of x] by simp

lemma unat_add_small: "unat (x :: u32) + unat y < 4294967296 \<Longrightarrow> unat (x + y) = unat x + unat y"
  by (simp add: unat_word_ariths)

lemma unat_inc_less: "(c :: u32) < n \<Longrightarrow> unat (c + 1) = unat c + 1"
proof -
  assume "c < n"
  then have "unat c < unat n" by (simp add: word_less_nat_alt)
  then have "unat c + 1 < 4294967296" using unat_u32_lt [of n] by linarith
  then show ?thesis using unat_add_small [of c 1] by simp
qed

lemma and_one_eq_bit0: "(x :: u32) AND 1 = (if bit x 0 then 1 else 0)"
  by (auto intro!: bit_word_eqI simp: bit_and_iff bit_1_iff)

lemma and_push1: "(x :: u32) AND push_bit i 1 \<noteq> 0 \<longleftrightarrow> bit x i"
  using and_exp_eq_0_iff_not_bit [of x i] by (simp add: push_bit_eq_mult)

lemma bit_ucast_u8_u32: "bit (ucast (b :: u8) :: u32) n \<longleftrightarrow> n < 8 \<and> bit b n"
  by (auto simp: bit_ucast_iff dest: bit_imp_le_length)

lemma bit_ucast_u32_u8: "bit (ucast (w :: u32) :: u8) n \<longleftrightarrow> n < 8 \<and> bit w n"
  by (auto simp: bit_ucast_iff)

lemma bit_u32_beyond: "32 \<le> n \<Longrightarrow> \<not> bit (w :: u32) n"
  by (auto dest: bit_imp_le_length)

lemma bit_u8_beyond: "8 \<le> n \<Longrightarrow> \<not> bit (w :: u8) n"
  by (auto dest: bit_imp_le_length)

lemma all_less_32:
  "(\<forall>i < 32. P i) \<longleftrightarrow> P 0 \<and> P 1 \<and> P 2 \<and> P 3 \<and> P 4 \<and> P 5 \<and> P 6 \<and> P 7 \<and> P 8 \<and> P 9 \<and> P 10 \<and>
     P 11 \<and> P 12 \<and> P 13 \<and> P 14 \<and> P 15 \<and> P 16 \<and> P 17 \<and> P 18 \<and> P 19 \<and> P 20 \<and> P 21 \<and> P 22 \<and> P 23 \<and>
     P 24 \<and> P 25 \<and> P 26 \<and> P 27 \<and> P 28 \<and> P 29 \<and> P 30 \<and> P (31 :: nat)"
  by (simp add: numeral_eq_Suc All_less_Suc conj_ac)

lemma u32_bound_bit: "unat (p :: u32) < 2 ^ n \<Longrightarrow> bit p i \<Longrightarrow> i < n"
proof -
  assume "unat p < 2 ^ n" and b: "bit p i"
  then have "take_bit n p = p" by (simp add: word_unat_eq_iff unsigned_take_bit_eq take_bit_nat_eq_self)
  then show ?thesis using b by (metis bit_take_bit_iff)
qed

lemma all_less_8:
  "(\<forall>i < 8. P i) \<longleftrightarrow> P 0 \<and> P 1 \<and> P 2 \<and> P 3 \<and> P 4 \<and> P 5 \<and> P 6 \<and> P (7 :: nat)"
  by (simp add: numeral_eq_Suc All_less_Suc conj_ac)

lemma u8_eq_iff: "(a :: u8) = b \<longleftrightarrow> (\<forall>i < 8. bit a i = bit b i)"
  by (auto intro: bit_word_eqI)

lemma u32_eq_iff: "(a :: u32) = b \<longleftrightarrow> (\<forall>i < 32. bit a i = bit b i)"
  by (auto intro: bit_word_eqI)

subsection \<open>Little-endian bytes\<close>

text \<open>The four bytes of a 32-bit word as the code sends them: least significant first.\<close>

definition le32 :: "u32 \<Rightarrow> u8 list" where
  "le32 u = [ucast u, ucast (drop_bit 8 u), ucast (drop_bit 16 u), ucast (drop_bit 24 u)]"

text \<open>\<open>u = b0; u |= b1 << 8; u |= b2 << 16; u |= b3 << 24\<close>.\<close>

definition of_le32 :: "u8 \<Rightarrow> u8 \<Rightarrow> u8 \<Rightarrow> u8 \<Rightarrow> u32" where
  "of_le32 b0 b1 b2 b3 =
     ucast b0 OR push_bit 8 (ucast b1) OR push_bit 16 (ucast b2) OR push_bit 24 (ucast b3)"

lemma le32_ne [simp]: "le32 u \<noteq> []"
  by (simp add: le32_def)

lemma length_le32 [simp]: "length (le32 u) = 4"
  by (simp add: le32_def)

lemma bit_of_le32:
  "bit (of_le32 b0 b1 b2 b3) n \<longleftrightarrow>
     (if n < 8 then bit b0 n else if n < 16 then bit b1 (n - 8)
      else if n < 24 then bit b2 (n - 16) else bit b3 (n - 24) \<and> n < 32)"
  by (auto simp: of_le32_def bit_or_iff bit_push_bit_iff bit_ucast_u8_u32 dest: bit_imp_le_length)

lemma of_le32_le32:
  "of_le32 (ucast u) (ucast (drop_bit 8 u)) (ucast (drop_bit 16 u)) (ucast (drop_bit 24 u)) = u"
  by (rule bit_word_eqI) (auto simp: bit_of_le32 bit_ucast_u32_u8 bit_drop_bit_eq)

lemma le32_of_le32 [simp]: "le32 (of_le32 b0 b1 b2 b3) = [b0, b1, b2, b3]"
  unfolding le32_def list.inject
  by (intro conjI TrueI bit_word_eqI)
     (auto simp: bit_of_le32 bit_ucast_u32_u8 bit_drop_bit_eq)

subsection \<open>Lists\<close>

lemma nth_append_mid: "(xs @ x # ys) ! length xs = x"
  by simp

lemma list_update_last: "(xs @ [y])[length xs := x] = xs @ [x]"
  by simp

subsection \<open>Stacks (\<open>rpi-constants.h\<close>)\<close>

definition INT_STACK_ADDR :: u32 where "INT_STACK_ADDR = 0x9000000"
definition STACK_ADDR :: u32 where "STACK_ADDR = 0x8000000"

end
