(* ===== verification/Circular.thy ===== *)
theory Circular
  imports Prelude
begin

text \<open>
  The circular FIFO of \<open>libpi/libc/circular.h\<close>, on which the interrupt handlers and the
  blocking readers of the kernel meet: the record \<open>cq_t\<close>, every operation, the abstract queue
  they implement, the interface \<open>fifo\<close> its clients rely on, and the clients of the header itself
  (\<open>cq_push_n\<close>, \<open>cq_pop_n\<close>, the 32-bit wrappers).  The capacity \<open>CQ_N\<close> and the element type
  \<open>cqe_t\<close> are macros of the header: the operations take the first as an argument \<open>n\<close> and are
  polymorphic in the second.
\<close>

subsection \<open>State\<close>

record 'e cq =
  c_buf :: "'e list"
  c_fence :: u32
  c_head :: u32
  c_tail :: u32
  c_overflow :: u32
  c_errors_fatal_p :: bool

text \<open>The default of the macro \<open>CQ_N\<close>.\<close>

definition CQ_N :: u32 where
  "CQ_N = 8192"

subsection \<open>Operations\<close>

definition cq_empty :: "'e cq \<Rightarrow> bool" where
  "cq_empty q \<longleftrightarrow> c_head q = c_tail q"

definition cq_full :: "u32 \<Rightarrow> 'e cq \<Rightarrow> bool" where
  "cq_full n q \<longleftrightarrow> (c_head q + 1) mod n = c_tail q"

definition cq_nelem :: "u32 \<Rightarrow> 'e cq \<Rightarrow> u32" where
  "cq_nelem n q = (c_head q - c_tail q) mod n"

definition cq_nspace :: "u32 \<Rightarrow> 'e cq \<Rightarrow> u32" where
  "cq_nspace n q = (n - 1) - cq_nelem n q"

text \<open>The C function returns 0 and leaves \<open>*e\<close> alone, or returns 1 with the element in \<open>*e\<close>.\<close>

definition cq_pop_nonblock :: "u32 \<Rightarrow> 'e cq \<Rightarrow> ('e option \<times> 'e cq) res" where
  "cq_pop_nonblock n c =
     (if cq_empty c then Inr (None, c)
      else let tl = c_tail c in
        bnd (arr_get (c_buf c) (unat tl)) (\<lambda>e.
        Inr (Some e, c\<lparr>c_tail := (tl + 1) mod n\<rparr>)))"

text \<open>
  The blocking pop spins until an interrupt handler has put something in the queue.  \<open>ie\<close> is
  \<open>cpsr_int_enabled()\<close>; \<open>env\<close> lists what the handlers do to the queue between two polls.
\<close>

fun cq_pop :: "u32 \<Rightarrow> bool \<Rightarrow> ('e cq \<Rightarrow> 'e cq) list \<Rightarrow> 'e cq
    \<Rightarrow> ('e \<times> ('e cq \<Rightarrow> 'e cq) list \<times> 'e cq) res" where
  "cq_pop n ie env c =
     bnd (cq_pop_nonblock n c) (\<lambda>(r, c').
       case r of
         Some e \<Rightarrow> Inr (e, env, c')
       | None \<Rightarrow>
           if \<not> ie then Inl (Panic ''will deadlock: interrupts not enabled [FIXME]'')
           else (case env of [] \<Rightarrow> Inl OutOfFuel | f # fs \<Rightarrow> cq_pop n ie fs (f c')))"

definition cq_push :: "u32 \<Rightarrow> 'e cq \<Rightarrow> 'e \<Rightarrow> (bool \<times> 'e cq) res" where
  "cq_push n c x =
     (if cq_full n c then Inr (False, c)
      else let hd = c_head c in
        bnd (check (0 < cq_nspace n c) ''cq_nspace(c) > 0'') (\<lambda>_.
        bnd (arr_set (c_buf c) (unat hd) x) (\<lambda>buf.
        Inr (True, c\<lparr>c_buf := buf, c_head := (hd + 1) mod n\<rparr>))))"

definition cq_peek :: "'e cq \<Rightarrow> 'e option res" where
  "cq_peek c =
     (if cq_empty c then Inr None
      else bnd (arr_get (c_buf c) (unat (c_tail c))) (\<lambda>e. Inr (Some e)))"

fun cq_pop_n :: "u32 \<Rightarrow> bool \<Rightarrow> ('e cq \<Rightarrow> 'e cq) list \<Rightarrow> 'e cq \<Rightarrow> nat
    \<Rightarrow> ('e list \<times> ('e cq \<Rightarrow> 'e cq) list \<times> 'e cq) res" where
  "cq_pop_n n ie env c 0 = Inr ([], env, c)"
| "cq_pop_n n ie env c (Suc k) =
     bnd (cq_pop n ie env c) (\<lambda>(e, env', c').
     bnd (cq_pop_n n ie env' c' k) (\<lambda>(es, r). Inr (e # es, r)))"

definition cq_pop_n_noblk :: "u32 \<Rightarrow> bool \<Rightarrow> ('e cq \<Rightarrow> 'e cq) list \<Rightarrow> 'e cq \<Rightarrow> u32
    \<Rightarrow> ('e list option \<times> ('e cq \<Rightarrow> 'e cq) list \<times> 'e cq) res" where
  "cq_pop_n_noblk n ie env q k =
     (if cq_nelem n q < k then Inr (None, env, q)
      else bnd (cq_pop_n n ie env q (unat k)) (\<lambda>(es, env', q'). Inr (Some es, env', q')))"

definition cq_peek_n :: "u32 \<Rightarrow> bool \<Rightarrow> ('e cq \<Rightarrow> 'e cq) list \<Rightarrow> 'e cq \<Rightarrow> u32
    \<Rightarrow> ('e list option \<times> ('e cq \<Rightarrow> 'e cq) list \<times> 'e cq) res" where
  "cq_peek_n n ie env c k =
     (let sz = cq_nelem n c in
      if sz < k then Inr (None, env, c)
      else let tl = c_tail c in
        bnd (cq_pop_n_noblk n ie env c k) (\<lambda>(r, env', c').
          case r of
            None \<Rightarrow> Inr (None, env', c')
          | Some es \<Rightarrow>
              let c'' = c'\<lparr>c_tail := tl\<rparr> in
              bnd (check (sz = cq_nelem n c'') ''sz == cq_nelem(c)'') (\<lambda>_.
              Inr (Some es, env', c''))))"

text \<open>The loop of \<open>cq_push_n\<close>, for any push operation.\<close>

fun push_loop :: "('q \<Rightarrow> 'e \<Rightarrow> (bool \<times> 'q) res) \<Rightarrow> 'q \<Rightarrow> 'e list \<Rightarrow> 'q res" where
  "push_loop push c [] = Inr c"
| "push_loop push c (x # xs) =
     bnd (push c x) (\<lambda>(ok, c').
       if \<not> ok then Inl (Panic ''impossible: buffer should have space'')
       else push_loop push c' xs)"

definition cq_push_n :: "u32 \<Rightarrow> 'e cq \<Rightarrow> 'e list \<Rightarrow> (bool \<times> 'e cq) res" where
  "cq_push_n n c data =
     bnd (check (of_nat (length data) \<noteq> (0 :: u32)) ''n'') (\<lambda>_.
       if cq_nspace n c < of_nat (length data) then Inr (False, c)
       else bnd (push_loop (cq_push n) c data) (\<lambda>c'. Inr (True, c')))"

definition cq_push32 :: "u32 \<Rightarrow> u8 cq \<Rightarrow> u32 \<Rightarrow> (bool \<times> u8 cq) res" where
  "cq_push32 n c x = cq_push_n n c (le32 x)"

definition u32_of_bytes :: "u8 list \<Rightarrow> u32 res" where
  "u32_of_bytes bs =
     (case bs of [b0, b1, b2, b3] \<Rightarrow> Inr (of_le32 b0 b1 b2 b3) | _ \<Rightarrow> Inl OutOfBounds)"

definition cq_pop32_noblk :: "u32 \<Rightarrow> bool \<Rightarrow> (u8 cq \<Rightarrow> u8 cq) list \<Rightarrow> u8 cq
    \<Rightarrow> (u32 option \<times> (u8 cq \<Rightarrow> u8 cq) list \<times> u8 cq) res" where
  "cq_pop32_noblk n ie env c =
     bnd (cq_pop_n_noblk n ie env c 4) (\<lambda>(r, env', c').
       case r of
         None \<Rightarrow> Inr (None, env', c')
       | Some bs \<Rightarrow> bnd (u32_of_bytes bs) (\<lambda>x. Inr (Some x, env', c')))"

definition cq_pop32 :: "u32 \<Rightarrow> bool \<Rightarrow> (u8 cq \<Rightarrow> u8 cq) list \<Rightarrow> u8 cq
    \<Rightarrow> (u32 \<times> (u8 cq \<Rightarrow> u8 cq) list \<times> u8 cq) res" where
  "cq_pop32 n ie env c =
     bnd (cq_pop_n n ie env c 4) (\<lambda>(bs, env', c').
     bnd (u32_of_bytes bs) (\<lambda>x. Inr (x, env', c')))"

definition cq_ok :: "'e cq \<Rightarrow> unit res" where
  "cq_ok c = (if c_fence c \<noteq> 0x12345678 then Inl (Panic ''fence is corrupted'') else Inr ())"

text \<open>
  \<open>cq_init\<close> clears the whole structure, sets the fields and checks the empty queue; \<open>z\<close> is the
  all-zero element of the element type.
\<close>

definition cq_init :: "u32 \<Rightarrow> 'e \<Rightarrow> bool \<Rightarrow> 'e cq res" where
  "cq_init n z errors_fatal_p =
     (let c = \<lparr>c_buf = replicate (unat n) z, c_fence = 0x12345678, c_head = 0, c_tail = 0,
               c_overflow = 0, c_errors_fatal_p = errors_fatal_p\<rparr> in
      bnd (check (cq_empty c) ''cq_empty(c)'') (\<lambda>_.
      bnd (check (\<not> cq_full n c) ''!cq_full(c)'') (\<lambda>_.
      bnd (check (cq_nelem n c = 0) ''cq_nelem(c) == 0'') (\<lambda>_.
      bnd (cq_pop_nonblock n c) (\<lambda>(r, c').
      bnd (check (r = None) ''cq_pop_nonblock(c,&e) == 0 && e == 0x12'') (\<lambda>_.
      Inr c'))))))"

definition cq_ckpt :: "'e cq \<Rightarrow> u32" where
  "cq_ckpt c = c_tail c"

definition cq_restore :: "'e cq \<Rightarrow> u32 \<Rightarrow> 'e cq" where
  "cq_restore c ckpt = c\<lparr>c_tail := ckpt\<rparr>"


subsection \<open>The abstract queue\<close>

text \<open>
  A capacity is admissible when it divides the range of the unsigned counters: the code computes
  \<open>(head - tail) % CQ_N\<close> with a subtraction that wraps at \<open>2^32\<close>.
\<close>

definition cq_size_ok :: "u32 \<Rightarrow> bool" where
  "cq_size_ok n \<longleftrightarrow> 1 < unat n \<and> unat n dvd 4294967296"

definition cq_wf :: "u32 \<Rightarrow> 'e cq \<Rightarrow> bool" where
  "cq_wf n c \<longleftrightarrow> length (c_buf c) = unat n \<and> unat (c_head c) < unat n \<and> unat (c_tail c) < unat n"

definition cq_count :: "u32 \<Rightarrow> 'e cq \<Rightarrow> nat" where
  "cq_count n c =
     (if unat (c_tail c) \<le> unat (c_head c) then unat (c_head c) - unat (c_tail c)
      else unat n + unat (c_head c) - unat (c_tail c))"

definition cq_slot :: "u32 \<Rightarrow> 'e cq \<Rightarrow> nat \<Rightarrow> nat" where
  "cq_slot n c i =
     (let j = unat (c_tail c) + i in if j < unat n then j else j - unat n)"

text \<open>The stored elements, oldest first.\<close>

definition cq_list :: "u32 \<Rightarrow> 'e cq \<Rightarrow> 'e list" where
  "cq_list n c = map (\<lambda>i. c_buf c ! cq_slot n c i) [0..<cq_count n c]"

lemma length_cq_list [simp]: "length (cq_list n c) = cq_count n c"
  by (simp add: cq_list_def)

lemma cq_size_ok_CQ_N: "cq_size_ok CQ_N"
  by (simp add: cq_size_ok_def CQ_N_def)

lemma cq_count_lt: "cq_wf n c \<Longrightarrow> cq_count n c < unat n"
  by (auto simp: cq_wf_def cq_count_def)

lemma unat_inc_mod:
  assumes "cq_size_ok n" and "unat h < unat n"
  shows "unat ((h + 1) mod n) = (if unat h + 1 = unat n then 0 else unat h + 1)"
proof -
  have "unat n < 4294967296" by simp
  then have "unat h + unat (1 :: u32) < 4294967296"
    using assms(2) by (simp only: unat_1)
  then have "unat (h + 1) = unat h + 1"
    using unat_add_small by simp
  then show ?thesis
    using assms by (auto simp: unat_mod_distrib mod_if)
qed

lemma mod_wrapped_diff:
  assumes "(n :: nat) dvd w" and "h < n" and "t < n" and "n \<le> w" and "h < t"
  shows "(w + h - t) mod n = n + h - t"
proof -
  obtain k where k: "w = n * k" using assms(1) by (auto elim: dvdE)
  then obtain j where j: "k = Suc j" using assms by (cases k) auto
  have "w + h - t = n * j + (n + h - t)" using assms k j by simp
  then have "(w + h - t) mod n = (n + h - t) mod n" by (metis mod_mult_self4 mult.commute)
  then show ?thesis using assms by simp
qed

lemma unat_cq_nelem:
  assumes "cq_size_ok n" and "cq_wf n c"
  shows "unat (cq_nelem n c) = cq_count n c"
proof -
  let ?h = "unat (c_head c)" and ?t = "unat (c_tail c)" and ?n = "unat n"
  have n: "?n dvd 4294967296" "?n \<le> 4294967296" "?h < ?n" "?t < ?n"
    using assms by (auto simp: cq_size_ok_def cq_wf_def intro: dvd_imp_le)
  have diff: "unat (c_head c - c_tail c) = (if ?t \<le> ?h then ?h - ?t else ?h + 4294967296 - ?t)"
    by (simp add: unat_sub_if_size word_size)
  have "unat (cq_nelem n c) = unat (c_head c - c_tail c) mod ?n"
    by (simp add: cq_nelem_def unat_mod_distrib)
  also have "\<dots> = cq_count n c"
  proof (cases "?t \<le> ?h")
    case True
    then show ?thesis using n diff by (simp add: cq_count_def)
  next
    case False
    then show ?thesis
      using n diff mod_wrapped_diff [of ?n 4294967296 ?h ?t]
      by (simp add: cq_count_def add.commute [of ?h])
  qed
  finally show ?thesis .
qed

lemma unat_cq_nspace:
  assumes "cq_size_ok n" and "cq_wf n c"
  shows "unat (cq_nspace n c) = unat n - 1 - cq_count n c"
proof -
  have "unat (n - 1) = unat n - 1"
    using assms(1) by (subst unat_minus_one) (auto simp: cq_size_ok_def)
  then show ?thesis
    using unat_cq_nelem [OF assms] cq_count_lt [OF assms(2)]
    by (simp add: cq_nspace_def unat_sub_if_size)
qed

lemma cq_empty_iff: "cq_wf n c \<Longrightarrow> cq_empty c \<longleftrightarrow> cq_list n c = []"
  by (auto simp: cq_empty_def cq_list_def cq_count_def cq_wf_def split: if_splits)
     (metis le_antisym unsigned_word_eqI)

lemma cq_full_iff:
  assumes "cq_size_ok n" and "cq_wf n c"
  shows "cq_full n c \<longleftrightarrow> cq_count n c = unat n - 1"
proof -
  have "cq_full n c \<longleftrightarrow> unat ((c_head c + 1) mod n) = unat (c_tail c)"
    by (simp add: cq_full_def word_unat_eq_iff)
  then show ?thesis
    using assms unat_inc_mod [of n "c_head c"]
    by (auto simp: cq_wf_def cq_count_def cq_size_ok_def)
qed


subsection \<open>Push and pop are the operations of a bounded FIFO\<close>

lemma cq_slot_lt: "cq_wf n c \<Longrightarrow> i < cq_count n c \<Longrightarrow> cq_slot n c i < unat n"
  by (auto simp: cq_wf_def cq_count_def cq_slot_def Let_def split: if_splits)

lemma cq_slot_head: "cq_wf n c \<Longrightarrow> cq_slot n c (cq_count n c) = unat (c_head c)"
  by (auto simp: cq_wf_def cq_count_def cq_slot_def Let_def split: if_splits)

lemma cq_slot_not_head:
  "cq_wf n c \<Longrightarrow> i < cq_count n c \<Longrightarrow> cq_slot n c i \<noteq> unat (c_head c)"
  by (auto simp: cq_wf_def cq_count_def cq_slot_def Let_def split: if_splits)

text \<open>
  The two stores of a push and the one of a pop, separately: the element store does not touch the
  queue, advancing \<open>head\<close> appends the stored element, advancing \<open>tail\<close> drops the oldest one.
\<close>

lemma cq_list_store:
  assumes "cq_wf n c"
  shows "cq_list n (c\<lparr>c_buf := (c_buf c)[unat (c_head c) := x]\<rparr>) = cq_list n c"
    and "cq_wf n (c\<lparr>c_buf := (c_buf c)[unat (c_head c) := x]\<rparr>)"
  using assms cq_slot_not_head [OF assms]
  by (auto simp: cq_list_def cq_count_def cq_slot_def cq_wf_def Let_def
      intro!: nth_list_update_neq)

lemma cq_advance_head:
  assumes n: "cq_size_ok n" and wf: "cq_wf n c" and room: "cq_count n c < unat n - 1"
  shows "cq_wf n (c\<lparr>c_head := (c_head c + 1) mod n\<rparr>)"
    and "cq_list n (c\<lparr>c_head := (c_head c + 1) mod n\<rparr>) = cq_list n c @ [c_buf c ! unat (c_head c)]"
proof -
  let ?c = "c\<lparr>c_head := (c_head c + 1) mod n\<rparr>"
  have head': "unat (c_head ?c) = (if unat (c_head c) + 1 = unat n then 0 else unat (c_head c) + 1)"
    using unat_inc_mod [OF n, of "c_head c"] wf by (simp add: cq_wf_def)
  show "cq_wf n ?c"
    using wf n head' by (auto simp: cq_wf_def cq_size_ok_def)
  have "cq_count n ?c = Suc (cq_count n c)"
    using wf room head' n by (auto simp: cq_count_def cq_wf_def cq_size_ok_def)
  moreover have "cq_slot n ?c = cq_slot n c"
    by (simp add: fun_eq_iff cq_slot_def)
  ultimately show "cq_list n ?c = cq_list n c @ [c_buf c ! unat (c_head c)]"
    using cq_slot_head [OF wf] by (simp add: cq_list_def)
qed

lemma cq_advance_tail:
  assumes n: "cq_size_ok n" and wf: "cq_wf n c" and elems: "cq_list n c = x # xs"
  shows "cq_wf n (c\<lparr>c_tail := (c_tail c + 1) mod n\<rparr>)"
    and "cq_list n (c\<lparr>c_tail := (c_tail c + 1) mod n\<rparr>) = xs"
    and "c_buf c ! unat (c_tail c) = x"
proof -
  let ?c = "c\<lparr>c_tail := (c_tail c + 1) mod n\<rparr>"
  have cnt: "cq_count n c = Suc (length xs)"
    using length_cq_list [of n c] elems by simp
  have tail': "unat (c_tail ?c) = (if unat (c_tail c) + 1 = unat n then 0 else unat (c_tail c) + 1)"
    using unat_inc_mod [OF n, of "c_tail c"] wf by (simp add: cq_wf_def)
  show "cq_wf n ?c"
    using wf n tail' by (auto simp: cq_wf_def cq_size_ok_def)
  have "cq_count n ?c = length xs"
    using wf tail' n cnt by (auto simp: cq_count_def cq_wf_def cq_size_ok_def split: if_splits)
  moreover have "i < length xs \<Longrightarrow> cq_slot n ?c i = cq_slot n c (Suc i)" for i
    using wf tail' cnt by (auto simp: cq_slot_def cq_wf_def cq_count_def Let_def split: if_splits)
  ultimately have "cq_list n ?c = map (\<lambda>i. c_buf c ! cq_slot n c (Suc i)) [0..<length xs]"
    by (simp add: cq_list_def)
  also have "\<dots> = map (\<lambda>i. c_buf c ! cq_slot n c i) (map Suc [0..<length xs])"
    by simp
  also have "\<dots> = tl (cq_list n c)"
    by (simp only: cq_list_def cnt map_Suc_upt map_tl [symmetric] tl_upt)
  finally show "cq_list n ?c = xs" by (simp add: elems)
  have "x = cq_list n c ! 0" by (simp add: elems)
  also have "\<dots> = c_buf c ! cq_slot n c 0"
    unfolding cq_list_def using cnt by (subst nth_map) (auto simp del: upt_Suc)
  finally show "c_buf c ! unat (c_tail c) = x" using wf by (simp add: cq_slot_def cq_wf_def)
qed

lemma cq_push_ok:
  assumes n: "cq_size_ok n" and wf: "cq_wf n c" and room: "length (cq_list n c) < unat n - 1"
  obtains c' where "cq_push n c x = Inr (True, c')" and "cq_wf n c'"
    and "cq_list n c' = cq_list n c @ [x]"
proof -
  let ?d = "c\<lparr>c_buf := (c_buf c)[unat (c_head c) := x]\<rparr>"
  let ?c' = "?d\<lparr>c_head := (c_head ?d + 1) mod n\<rparr>"
  have "0 < cq_nspace n c"
    using room by (simp add: word_less_nat_alt unat_cq_nspace [OF n wf])
  then have push: "cq_push n c x = Inr (True, ?c')"
    using wf room by (simp add: cq_push_def cq_full_iff [OF n wf] cq_wf_def Let_def)
  have d: "cq_list n ?d = cq_list n c" "cq_wf n ?d"
    using cq_list_store [OF wf] by auto
  then have "cq_count n ?d < unat n - 1"
    using room by (metis length_cq_list)
  note adv = cq_advance_head [OF n d(2) this]
  have "c_buf ?d ! unat (c_head ?d) = x"
    using wf by (simp add: cq_wf_def)
  then show ?thesis
    using that [OF push adv(1)] adv(2) d(1) by simp
qed

lemma cq_push_full:
  "cq_size_ok n \<Longrightarrow> cq_wf n c \<Longrightarrow> length (cq_list n c) = unat n - 1 \<Longrightarrow>
     cq_push n c x = Inr (False, c)"
  by (simp add: cq_push_def cq_full_iff)

lemma cq_pop_empty:
  "cq_wf n c \<Longrightarrow> cq_list n c = [] \<Longrightarrow> cq_pop_nonblock n c = Inr (None, c)"
  by (simp add: cq_pop_nonblock_def cq_empty_iff)

lemma cq_pop_ok:
  assumes n: "cq_size_ok n" and wf: "cq_wf n c" and elems: "cq_list n c = x # xs"
  obtains c' where "cq_pop_nonblock n c = Inr (Some x, c')" and "cq_wf n c'"
    and "cq_list n c' = xs" and "c' = c\<lparr>c_tail := c_tail c'\<rparr>"
proof -
  note adv = cq_advance_tail [OF assms]
  have "\<not> cq_empty c"
    using cq_empty_iff [OF wf] elems by simp
  then have "cq_pop_nonblock n c = Inr (Some x, c\<lparr>c_tail := (c_tail c + 1) mod n\<rparr>)"
    using wf adv(3) by (simp add: cq_pop_nonblock_def cq_wf_def Let_def)
  then show ?thesis using adv(1,2) by (rule that) simp
qed

lemma cq_peek_eq:
  assumes n: "cq_size_ok n" and wf: "cq_wf n c"
  shows "cq_peek c = Inr (case cq_list n c of [] \<Rightarrow> None | x # _ \<Rightarrow> Some x)"
proof (cases "cq_list n c")
  case Nil
  then show ?thesis using wf by (simp add: cq_peek_def cq_empty_iff)
next
  case (Cons x xs)
  obtain c' where "cq_pop_nonblock n c = Inr (Some x, c')"
    using cq_pop_ok [OF n wf Cons] by blast
  then show ?thesis
    using wf Cons by (auto simp: cq_peek_def cq_pop_nonblock_def cq_empty_iff Let_def res_simps)
qed


subsection \<open>The interface of a bounded FIFO\<close>

text \<open>
  What a client of the queue relies on.  \<open>push\<close> reports success, \<open>pop\<close> yields the oldest element
  if there is one, \<open>abs\<close> is the abstract queue and \<open>cap\<close> the number of elements it can hold.
\<close>

locale fifo =
  fixes cap :: nat
    and push :: "'q \<Rightarrow> 'e \<Rightarrow> (bool \<times> 'q) res"
    and pop :: "'q \<Rightarrow> ('e option \<times> 'q) res"
    and abs :: "'q \<Rightarrow> 'e list"
    and inv :: "'q \<Rightarrow> bool"
  assumes abs_le_cap: "inv q \<Longrightarrow> length (abs q) \<le> cap"
    and push_room: "inv q \<Longrightarrow> length (abs q) < cap \<Longrightarrow>
          \<exists>q'. push q x = Inr (True, q') \<and> inv q' \<and> abs q' = abs q @ [x]"
    and push_full: "inv q \<Longrightarrow> length (abs q) = cap \<Longrightarrow> push q x = Inr (False, q)"
    and pop_elem: "inv q \<Longrightarrow> abs q = x # xs \<Longrightarrow>
          \<exists>q'. pop q = Inr (Some x, q') \<and> inv q' \<and> abs q' = xs"
    and pop_none: "inv q \<Longrightarrow> abs q = [] \<Longrightarrow> pop q = Inr (None, q)"
begin

lemma push_loop_room:
  "inv q \<Longrightarrow> length (abs q) + length xs \<le> cap \<Longrightarrow>
     \<exists>q'. push_loop push q xs = Inr q' \<and> inv q' \<and> abs q' = abs q @ xs"
proof (induction xs arbitrary: q)
  case Nil
  then show ?case by simp
next
  case (Cons x xs)
  from Cons.prems obtain q1 where
    q1: "push q x = Inr (True, q1)" "inv q1" "abs q1 = abs q @ [x]"
    using push_room [of q x] by auto
  with Cons.prems obtain q2 where
    "push_loop push q1 xs = Inr q2" "inv q2" "abs q2 = abs q1 @ xs"
    using Cons.IH [of q1] by auto
  with q1 show ?case by auto
qed

lemma push_never_faults: "inv q \<Longrightarrow> \<exists>ok q'. push q x = Inr (ok, q') \<and> inv q'"
  using abs_le_cap push_room push_full by (metis le_neq_implies_less)

lemma pop_never_faults: "inv q \<Longrightarrow> \<exists>r q'. pop q = Inr (r, q') \<and> inv q'"
  using pop_elem pop_none by (metis neq_Nil_conv)

end

definition cq_inv :: "'e cq \<Rightarrow> bool" where
  "cq_inv = cq_wf CQ_N"

abbreviation cq_abs :: "'e cq \<Rightarrow> 'e list" where
  "cq_abs \<equiv> cq_list CQ_N"

lemma unat_CQ_N [simp]: "unat CQ_N = 8192"
  by (simp add: CQ_N_def)

interpretation cqf: fifo 8191 "cq_push CQ_N" "cq_pop_nonblock CQ_N" "cq_list CQ_N" cq_inv
proof unfold_locales
  fix q :: "'e cq" and x xs
  assume inv: "cq_inv q"
  then have wf: "cq_wf CQ_N q" by (simp add: cq_inv_def)
  show "length (cq_list CQ_N q) \<le> 8191"
    using cq_count_lt [OF wf] by simp
  show "length (cq_list CQ_N q) < 8191 \<Longrightarrow>
     \<exists>q'. cq_push CQ_N q x = Inr (True, q') \<and> cq_inv q' \<and> cq_list CQ_N q' = cq_list CQ_N q @ [x]"
    using cq_push_ok [OF cq_size_ok_CQ_N wf, where x = x] by (auto simp: cq_inv_def)
  show "length (cq_list CQ_N q) = 8191 \<Longrightarrow> cq_push CQ_N q x = Inr (False, q)"
    using cq_push_full [OF cq_size_ok_CQ_N wf] by simp
  show "cq_list CQ_N q = x # xs \<Longrightarrow>
     \<exists>q'. cq_pop_nonblock CQ_N q = Inr (Some x, q') \<and> cq_inv q' \<and> cq_list CQ_N q' = xs"
    using cq_pop_ok [OF cq_size_ok_CQ_N wf] by (metis cq_inv_def)
  show "cq_list CQ_N q = [] \<Longrightarrow> cq_pop_nonblock CQ_N q = Inr (None, q)"
    using cq_pop_empty [OF wf] by simp
qed

subsection \<open>The clients in the header\<close>

lemma cq_pop_avail:
  assumes "cq_inv c" and "cq_abs c = x # xs"
  shows "\<exists>c'. cq_pop CQ_N ie env c = Inr (x, env, c') \<and> cq_inv c' \<and> cq_abs c' = xs \<and>
           c' = c\<lparr>c_tail := c_tail c'\<rparr>"
proof -
  have wf: "cq_wf CQ_N c" using assms(1) by (simp add: cq_inv_def)
  show ?thesis
    by (rule cq_pop_ok [OF cq_size_ok_CQ_N wf assms(2)]) (auto simp: cq_inv_def)
qed

lemma cq_pop_n_avail:
  "cq_inv c \<Longrightarrow> cq_abs c = xs @ ys \<Longrightarrow>
     \<exists>c'. cq_pop_n CQ_N ie env c (length xs) = Inr (xs, env, c') \<and> cq_inv c' \<and> cq_abs c' = ys \<and>
          c' = c\<lparr>c_tail := c_tail c'\<rparr>"
proof (induction xs arbitrary: c)
  case Nil
  then show ?case by simp
next
  case (Cons x xs)
  then obtain c1 where
    c1: "cq_pop CQ_N ie env c = Inr (x, env, c1)" "cq_inv c1" "cq_abs c1 = xs @ ys"
      "c1 = c\<lparr>c_tail := c_tail c1\<rparr>"
    using cq_pop_avail [of c x "xs @ ys" ie env] by auto
  with Cons.IH [of c1] obtain c2 where
    c2: "cq_pop_n CQ_N ie env c1 (length xs) = Inr (xs, env, c2)" "cq_inv c2" "cq_abs c2 = ys"
      "c2 = c1\<lparr>c_tail := c_tail c2\<rparr>"
    by blast
  have "c2 = c\<lparr>c_tail := c_tail c2\<rparr>"
    by (subst c2(4), subst c1(4)) simp
  with c1(1) c2 show ?case by (auto simp del: cq_pop.simps)
qed

lemma cq_push_n_room:
  assumes "cq_inv c" and "data \<noteq> []" and "length (cq_abs c) + length data \<le> 8191"
  shows "\<exists>c'. cq_push_n CQ_N c data = Inr (True, c') \<and> cq_inv c' \<and> cq_abs c' = cq_abs c @ data"
proof -
  have len: "unat (of_nat (length data) :: u32) = length data"
    using assms(3) by (simp add: unat_of_nat)
  then have nz: "of_nat (length data) \<noteq> (0 :: u32)"
    using assms(2) by (metis length_0_conv unat_0)
  have wf: "cq_wf CQ_N c" using assms(1) by (simp add: cq_inv_def)
  have "\<not> cq_nspace CQ_N c < of_nat (length data)"
    using unat_cq_nspace [OF cq_size_ok_CQ_N wf] len assms(3) by (simp add: word_less_nat_alt)
  then show ?thesis
    using nz cqf.push_loop_room [OF assms(1,3)] by (auto simp: cq_push_n_def)
qed

lemma cq_push_n_no_room:
  assumes "cq_inv c" and "data \<noteq> []" and "length data < 4294967296" and "8191 < length (cq_abs c) + length data"
  shows "cq_push_n CQ_N c data = Inr (False, c)"
proof -
  have len: "unat (of_nat (length data) :: u32) = length data"
    using assms(3) by (simp add: unat_of_nat)
  then have nz: "of_nat (length data) \<noteq> (0 :: u32)"
    using assms(2) by (metis length_0_conv unat_0)
  have "unat (cq_nspace CQ_N c) = 8191 - length (cq_abs c)"
    using unat_cq_nspace [OF cq_size_ok_CQ_N, of c] assms(1) by (simp add: cq_inv_def)
  then have "cq_nspace CQ_N c < of_nat (length data)"
    using len assms(4) cqf.abs_le_cap [OF assms(1)] by (auto simp: word_less_nat_alt)
  with nz show ?thesis by (simp add: cq_push_n_def)
qed

text \<open>C8: pushing a block of bytes is all or nothing, and appends it in order.\<close>

theorem cq_push_n_spec:
  assumes "cq_inv c" and "data \<noteq> []" and "length data < 4294967296"
  shows "if length (cq_abs c) + length data \<le> 8191
         then \<exists>c'. cq_push_n CQ_N c data = Inr (True, c') \<and> cq_inv c' \<and> cq_abs c' = cq_abs c @ data
         else cq_push_n CQ_N c data = Inr (False, c)"
  using cq_push_n_room [OF assms(1,2)] cq_push_n_no_room [OF assms] by simp

definition cq_example :: "u8 cq" where
  "cq_example = \<lparr>c_buf = replicate 8192 7, c_fence = 0x12345678, c_head = 8190, c_tail = 8190,
     c_overflow = 0, c_errors_fatal_p = True\<rparr>"

lemma cq_example_inv: "cq_inv cq_example" "cq_abs cq_example = []"
  by (simp_all add: cq_example_def cq_inv_def cq_wf_def cq_list_def cq_count_def)

theorem cq_push_n_spec_witness:
  "\<exists>c'. cq_push_n CQ_N cq_example [1, 2, 3] = Inr (True, c') \<and> cq_inv c' \<and> cq_abs c' = [1, 2, 3]"
  using cq_push_n_spec [OF cq_example_inv(1), of "[1, 2, 3]"] by (simp add: cq_example_inv(2))

text \<open>A 32-bit word pushed on an empty queue is popped as the same word (through the byte order of
  the wrappers and the wrap-around of the indices), without a fault, and leaves it empty.
\<close>

lemma cq_push32_pop32:
  assumes "cq_inv c" and "cq_abs c = []"
  shows "\<exists>c' c''. cq_push32 CQ_N c x = Inr (True, c') \<and>
           cq_pop32_noblk CQ_N ie env c' = Inr (Some x, env, c'') \<and>
           cq_inv c'' \<and> cq_abs c'' = []"
proof -
  obtain c' where push: "cq_push32 CQ_N c x = Inr (True, c')"
    and c': "cq_inv c'" "cq_abs c' = le32 x"
    using cq_push_n_room [OF assms(1), of "le32 x"] assms(2)
    by (auto simp: cq_push32_def le32_def)
  obtain c'' where pop: "cq_pop_n CQ_N ie env c' 4 = Inr (le32 x, env, c'')"
    and c'': "cq_inv c''" "cq_abs c'' = []"
    using cq_pop_n_avail [OF c'(1), of "le32 x" "[]" ie env] c'(2) by auto
  have "unat (cq_nelem CQ_N c') = 4"
    using unat_cq_nelem [OF cq_size_ok_CQ_N, of c'] c' length_cq_list [of CQ_N c']
    by (simp add: cq_inv_def)
  then have "\<not> cq_nelem CQ_N c' < 4"
    by (simp add: word_less_nat_alt)
  then have "cq_pop32_noblk CQ_N ie env c' = Inr (Some x, env, c'')"
    using pop by (simp add: cq_pop32_noblk_def cq_pop_n_noblk_def u32_of_bytes_def le32_def
        of_le32_le32)
  with push c'' show ?thesis by blast
qed

lemma cq_push32_pop32_example:
  "\<exists>c' c''. cq_push32 CQ_N cq_example 0xdeadbeef = Inr (True, c') \<and>
     cq_pop32_noblk CQ_N False [] c' = Inr (Some 0xdeadbeef, [], c'') \<and>
     cq_inv c'' \<and> cq_abs c'' = []"
  using cq_push32_pop32 [OF cq_example_inv] .

text \<open>looking ahead returns the oldest elements and leaves the queue as it was.\<close>

theorem cq_peek_n_nondestructive:
  assumes "cq_inv c" and "cq_abs c = xs @ ys"
  shows "cq_peek_n CQ_N ie env c (of_nat (length xs)) = Inr (Some xs, env, c)"
proof -
  have wf: "cq_wf CQ_N c" using assms(1) by (simp add: cq_inv_def)
  have le: "length xs \<le> 8191"
    using cqf.abs_le_cap [OF assms(1)] assms(2) by simp
  have len: "unat (of_nat (length xs) :: u32) = length xs"
    using le by (simp add: unat_of_nat)
  have cnt: "length xs \<le> cq_count CQ_N c"
    using assms(2) length_cq_list [of CQ_N c] by simp
  then have room: "\<not> cq_nelem CQ_N c < of_nat (length xs)"
    using unat_cq_nelem [OF cq_size_ok_CQ_N wf] len by (simp add: word_less_nat_alt)
  obtain c' where pop: "cq_pop_n CQ_N ie env c (length xs) = Inr (xs, env, c')"
    and frame: "c' = c\<lparr>c_tail := c_tail c'\<rparr>"
    by (rule exE [OF cq_pop_n_avail [OF assms]]) (elim conjE, rule that)
  have "c'\<lparr>c_tail := c_tail c\<rparr> = c\<lparr>c_tail := c_tail c'\<rparr>\<lparr>c_tail := c_tail c\<rparr>"
    using frame by (rule arg_cong)
  then have restore: "c'\<lparr>c_tail := c_tail c\<rparr> = c"
    by simp
  then show ?thesis
    using room pop len cnt restore unat_cq_nelem [OF cq_size_ok_CQ_N wf]
    by (simp add: cq_peek_n_def cq_pop_n_noblk_def Let_def)
qed

definition cq_example2 :: "u8 cq" where
  "cq_example2 = cq_example\<lparr>c_head := 1\<rparr>"

theorem cq_peek_n_nondestructive_witness:
  "cq_peek_n CQ_N False [] cq_example2 (of_nat (length [7, 7 :: u8])) =
     Inr (Some [7, 7], [], cq_example2)"
proof -
  have "cq_inv cq_example2" "cq_abs cq_example2 = [7, 7] @ [7]"
    by (simp_all add: cq_example2_def cq_example_def cq_inv_def cq_wf_def cq_list_def cq_count_def
        cq_slot_def upt_rec [of 0] upt_rec [of "Suc _"])
  then show ?thesis by (rule cq_peek_n_nondestructive)
qed

end
