(* ===== verification/Circular_SPSC.thy ===== *)
theory Circular_SPSC
  imports Circular
begin

text \<open>
  The claim of \<open>circular.h\<close> that one producer (an interrupt handler) and one consumer need no lock:
  "single mutator of head, single mutator of tail = lock free".  \<open>cq_push\<close> and \<open>cq_pop_nonblock\<close>
  are split at their shared-memory accesses, which the header orders with compiler barriers
  (\<open>must occur in order\<close>), and the two sides interleave arbitrarily.  The ghost fields record what
  has been pushed and popped.
\<close>

subsection \<open>Program counters and state\<close>

datatype 'e prod_pc =
    PIdle
  | PChecked 'e u32     \<comment> \<open>\<open>cq_full\<close> was false; \<open>head\<close> has been read\<close>
  | PSpace 'e u32       \<comment> \<open>\<open>assert(cq_nspace(c) > 0)\<close> has passed\<close>
  | PWritten 'e u32     \<comment> \<open>\<open>c_buf[head] = x\<close> has been done\<close>
  | PFailed             \<comment> \<open>the assertion or the store failed\<close>

datatype 'e cons_pc =
    CIdle
  | CChecked u32        \<comment> \<open>\<open>cq_empty\<close> was false; \<open>tail\<close> has been read\<close>
  | CRead 'e u32        \<comment> \<open>\<open>*e = c_buf[tail]\<close> has been done\<close>
  | CFailed             \<comment> \<open>the load was out of bounds\<close>

record 'e spsc =
  shared :: "'e cq"
  prod :: "'e prod_pc"
  cons :: "'e cons_pc"
  pushed :: "'e list"
  popped :: "'e list"

subsection \<open>Steps\<close>

inductive spsc_step :: "u32 \<Rightarrow> 'e spsc \<Rightarrow> 'e spsc \<Rightarrow> bool" for n :: u32 where
  push_full: "prod s = PIdle \<Longrightarrow> cq_full n (shared s) \<Longrightarrow> spsc_step n s s"
| push_begin: "prod s = PIdle \<Longrightarrow> \<not> cq_full n (shared s) \<Longrightarrow>
    spsc_step n s (s\<lparr>prod := PChecked x (c_head (shared s))\<rparr>)"
| push_assert: "prod s = PChecked x hi \<Longrightarrow>
    spsc_step n s (s\<lparr>prod := (if 0 < cq_nspace n (shared s) then PSpace x hi else PFailed)\<rparr>)"
| push_store: "prod s = PSpace x hi \<Longrightarrow>
    spsc_step n s (case arr_set (c_buf (shared s)) (unat hi) x of
        Inl e \<Rightarrow> s\<lparr>prod := PFailed\<rparr>
      | Inr buf \<Rightarrow> s\<lparr>shared := (shared s)\<lparr>c_buf := buf\<rparr>, prod := PWritten x hi\<rparr>)"
| push_publish: "prod s = PWritten x hi \<Longrightarrow>
    spsc_step n s (s\<lparr>shared := (shared s)\<lparr>c_head := (hi + 1) mod n\<rparr>, prod := PIdle,
                     pushed := pushed s @ [x]\<rparr>)"
| pop_none: "cons s = CIdle \<Longrightarrow> cq_empty (shared s) \<Longrightarrow> spsc_step n s s"
| pop_begin: "cons s = CIdle \<Longrightarrow> \<not> cq_empty (shared s) \<Longrightarrow>
    spsc_step n s (s\<lparr>cons := CChecked (c_tail (shared s))\<rparr>)"
| pop_load: "cons s = CChecked ti \<Longrightarrow>
    spsc_step n s (s\<lparr>cons := (case arr_get (c_buf (shared s)) (unat ti) of
        Inl e \<Rightarrow> CFailed | Inr e \<Rightarrow> CRead e ti)\<rparr>)"
| pop_publish: "cons s = CRead e ti \<Longrightarrow>
    spsc_step n s (s\<lparr>shared := (shared s)\<lparr>c_tail := (ti + 1) mod n\<rparr>, cons := CIdle,
                     popped := popped s @ [e]\<rparr>)"

definition spsc_init :: "'e cq \<Rightarrow> 'e spsc" where
  "spsc_init c = \<lparr>shared = c, prod = PIdle, cons = CIdle, pushed = [], popped = []\<rparr>"

text \<open>Reachable from an initialised queue, by any interleaving.\<close>

inductive spsc_reach :: "u32 \<Rightarrow> 'e spsc \<Rightarrow> bool" for n :: u32 where
  start: "cq_init n z fatal = Inr c \<Longrightarrow> spsc_reach n (spsc_init c)"
| step: "spsc_reach n s \<Longrightarrow> spsc_step n s t \<Longrightarrow> spsc_reach n t"

inductive_cases spsc_stepE: "spsc_step n s t"

subsection \<open>The invariant\<close>

fun prod_inv :: "u32 \<Rightarrow> 'e cq \<Rightarrow> 'e prod_pc \<Rightarrow> bool" where
  "prod_inv n c PIdle = True"
| "prod_inv n c (PChecked x hi) = (hi = c_head c \<and> cq_count n c < unat n - 1)"
| "prod_inv n c (PSpace x hi) = (hi = c_head c \<and> cq_count n c < unat n - 1)"
| "prod_inv n c (PWritten x hi) =
     (hi = c_head c \<and> cq_count n c < unat n - 1 \<and> c_buf c ! unat hi = x)"
| "prod_inv n c PFailed = False"

fun cons_inv :: "u32 \<Rightarrow> 'e cq \<Rightarrow> 'e cons_pc \<Rightarrow> bool" where
  "cons_inv n c CIdle = True"
| "cons_inv n c (CChecked ti) = (ti = c_tail c \<and> (\<exists>e xs. cq_list n c = e # xs))"
| "cons_inv n c (CRead e ti) = (ti = c_tail c \<and> (\<exists>xs. cq_list n c = e # xs))"
| "cons_inv n c CFailed = False"

definition spsc_inv :: "u32 \<Rightarrow> 'e spsc \<Rightarrow> bool" where
  "spsc_inv n s \<longleftrightarrow> cq_wf n (shared s) \<and> prod_inv n (shared s) (prod s) \<and>
     cons_inv n (shared s) (cons s) \<and> pushed s = popped s @ cq_list n (shared s)"

text \<open>What each side may do to the queue keeps what the other side knows.\<close>

lemma cons_inv_append:
  "cons_inv n c pc \<Longrightarrow> c_tail c' = c_tail c \<Longrightarrow> cq_list n c' = cq_list n c @ xs \<Longrightarrow>
     cons_inv n c' pc"
  by (cases pc) auto

lemma prod_inv_drop:
  "prod_inv n c pc \<Longrightarrow> c_head c' = c_head c \<Longrightarrow> c_buf c' = c_buf c \<Longrightarrow>
     cq_count n c' \<le> cq_count n c \<Longrightarrow> prod_inv n c' pc"
  by (cases pc) auto

lemma spsc_step_inv:
  assumes n: "cq_size_ok n" and inv: "spsc_inv n s" and step: "spsc_step n s t"
  shows "spsc_inv n t"
proof -
  let ?c = "shared s"
  have wf: "cq_wf n ?c" and p: "prod_inv n ?c (prod s)" and c: "cons_inv n ?c (cons s)"
    and gh: "pushed s = popped s @ cq_list n ?c"
    using inv by (auto simp: spsc_inv_def)
  from step show ?thesis
  proof (cases rule: spsc_step.cases)
    case (push_begin x)
    then show ?thesis
      using wf c gh cq_full_iff [OF n wf] cq_count_lt [OF wf] by (simp add: spsc_inv_def)
  next
    case (push_assert x hi)
    then have "Suc (cq_count n ?c) < unat n" using p by auto
    then show ?thesis
      using push_assert wf c gh p unat_cq_nspace [OF n wf]
      by (simp add: spsc_inv_def word_less_nat_alt)
  next
    case (push_store x hi)
    then have hi: "hi = c_head ?c" "cq_count n ?c < unat n - 1" using p by auto
    let ?d = "?c\<lparr>c_buf := (c_buf ?c)[unat (c_head ?c) := x]\<rparr>"
    have d: "cq_wf n ?d" "cq_list n ?d = cq_list n ?c" using cq_list_store [OF wf] by auto
    then have "cq_count n ?d = cq_count n ?c" by (metis length_cq_list)
    moreover have "cons_inv n ?d (cons s)" using c d(2) by (auto intro: cons_inv_append)
    moreover have "t = s\<lparr>shared := ?d, prod := PWritten x hi\<rparr>"
      using push_store hi wf by (simp add: cq_wf_def)
    ultimately show ?thesis
      using d hi gh wf by (simp add: spsc_inv_def) (simp add: cq_wf_def)
  next
    case (push_publish x hi)
    then have hi: "hi = c_head ?c" "cq_count n ?c < unat n - 1" "c_buf ?c ! unat hi = x"
      using p by auto
    note adv = cq_advance_head [OF n wf hi(2)]
    have "cons_inv n (?c\<lparr>c_head := (c_head ?c + 1) mod n\<rparr>) (cons s)"
      using c adv(2) by (auto intro: cons_inv_append)
    then show ?thesis using push_publish adv hi gh by (simp add: spsc_inv_def)
  next
    case pop_begin
    then show ?thesis
      using wf p gh cq_empty_iff [OF wf] by (auto simp: spsc_inv_def neq_Nil_conv)
  next
    case (pop_load ti)
    then obtain e xs where ti: "ti = c_tail ?c" "cq_list n ?c = e # xs" using c by auto
    then show ?thesis
      using pop_load wf p gh cq_advance_tail(3) [OF n wf ti(2)] by (simp add: spsc_inv_def cq_wf_def)
  next
    case (pop_publish e ti)
    then obtain xs where ti: "ti = c_tail ?c" "cq_list n ?c = e # xs" using c by auto
    let ?d = "?c\<lparr>c_tail := (c_tail ?c + 1) mod n\<rparr>"
    note adv = cq_advance_tail [OF n wf ti(2)]
    have "cq_count n ?d \<le> cq_count n ?c" using adv(2) ti(2) by (metis length_cq_list le_SucI length_Cons order_refl)
    then have "prod_inv n ?d (prod s)" using p by (auto intro: prod_inv_drop)
    then show ?thesis using pop_publish adv ti gh by (simp add: spsc_inv_def)
  qed (use inv in auto)
qed

lemma cq_init_wf: "cq_size_ok n \<Longrightarrow> cq_init n z fatal = Inr c \<Longrightarrow> cq_wf n c \<and> cq_list n c = []"
  by (auto simp: cq_init_def cq_pop_nonblock_def cq_empty_def cq_wf_def cq_list_def cq_count_def
      cq_size_ok_def res_simps Let_def)

lemma spsc_reach_inv: "spsc_reach n s \<Longrightarrow> cq_size_ok n \<Longrightarrow> spsc_inv n s"
proof (induction rule: spsc_reach.induct)
  case (start z fatal c)
  then show ?case using cq_init_wf [OF start(2,1)] by (auto simp: spsc_inv_def spsc_init_def)
next
  case (step s t)
  then show ?case using spsc_step_inv by blast
qed

subsection \<open>Progress: a push or a pop that begins can complete\<close>

lemma push_run:
  assumes r: "spsc_reach n s" and n: "cq_size_ok n" and idle: "prod s = PIdle"
    and room: "\<not> cq_full n (shared s)"
  shows "\<exists>t. spsc_reach n t \<and> prod t = PIdle \<and> cons t = cons s \<and>
           pushed t = pushed s @ [x] \<and> popped t = popped s"
proof -
  let ?h = "c_head (shared s)"
  have wf: "cq_wf n (shared s)"
    using spsc_reach_inv [OF r n] by (simp add: spsc_inv_def)
  let ?s1 = "s\<lparr>prod := PChecked x ?h\<rparr>"
  have r1: "spsc_reach n ?s1"
    using r spsc_step.push_begin [OF idle room] by (rule spsc_reach.step)
  have "0 < unat (cq_nspace n (shared s))"
    using unat_cq_nspace [OF n wf] room cq_full_iff [OF n wf] cq_count_lt [OF wf] by linarith
  then have space: "0 < cq_nspace n (shared s)" by (simp add: word_less_nat_alt)
  let ?s2 = "s\<lparr>prod := PSpace x ?h\<rparr>"
  have r2: "spsc_reach n ?s2"
    using r1 spsc_step.push_assert [of ?s1 x ?h n] space by (auto intro: spsc_reach.step)
  let ?s3 = "s\<lparr>shared := (shared s)\<lparr>c_buf := (c_buf (shared s))[unat ?h := x]\<rparr>, prod := PWritten x ?h\<rparr>"
  have r3: "spsc_reach n ?s3"
    using r2 spsc_step.push_store [of ?s2 x ?h n] wf
    by (auto intro: spsc_reach.step simp: cq_wf_def)
  have "spsc_step n ?s3 (?s3\<lparr>shared := (shared ?s3)\<lparr>c_head := (?h + 1) mod n\<rparr>, prod := PIdle,
      pushed := pushed ?s3 @ [x]\<rparr>)"
    by (rule spsc_step.push_publish) simp
  from spsc_reach.step [OF r3 this] show ?thesis
    by - (rule exI, rule conjI, assumption, simp add: idle)
qed

lemma pop_run:
  assumes r: "spsc_reach n s" and n: "cq_size_ok n" and idle: "cons s = CIdle"
    and elems: "cq_list n (shared s) = e # es"
  shows "\<exists>t. spsc_reach n t \<and> cons t = CIdle \<and> popped t = popped s @ [e] \<and> pushed t = pushed s"
proof -
  let ?t = "c_tail (shared s)"
  have wf: "cq_wf n (shared s)"
    using spsc_reach_inv [OF r n] by (simp add: spsc_inv_def)
  have ne: "\<not> cq_empty (shared s)" using cq_empty_iff [OF wf] elems by simp
  let ?s1 = "s\<lparr>cons := CChecked ?t\<rparr>"
  have r1: "spsc_reach n ?s1"
    using r spsc_step.pop_begin [OF idle ne] by (rule spsc_reach.step)
  let ?s2 = "s\<lparr>cons := CRead e ?t\<rparr>"
  have r2: "spsc_reach n ?s2"
    using r1 spsc_step.pop_load [of ?s1 ?t n] wf cq_advance_tail(3) [OF n wf elems]
    by (auto intro: spsc_reach.step simp: cq_wf_def)
  have "spsc_step n ?s2 (?s2\<lparr>shared := (shared ?s2)\<lparr>c_tail := (?t + 1) mod n\<rparr>, cons := CIdle,
      popped := popped ?s2 @ [e]\<rparr>)"
    by (rule spsc_step.pop_publish) simp
  from spsc_reach.step [OF r2 this] show ?thesis
    by - (rule exI, rule conjI, assumption, simp add: idle)
qed

text \<open>C3: with one producer and one consumer, under every interleaving of their memory accesses, the
  elements popped are exactly a prefix of those pushed, in order, none lost, duplicated or
  reordered; the rest is what the queue holds; and no assertion or array access fails.
\<close>

theorem spsc_linear:
  assumes "spsc_reach CQ_N s"
  shows "pushed s = popped s @ cq_abs (shared s) \<and> prod s \<noteq> PFailed \<and> cons s \<noteq> CFailed"
  using spsc_reach_inv [OF assms cq_size_ok_CQ_N] by (auto simp: spsc_inv_def)

lemma spsc_example_reach: "\<exists>s. spsc_reach CQ_N s \<and> pushed s = [5 :: u8] \<and> popped s = [5]"
proof -
  obtain c :: "u8 cq" where c: "cq_init CQ_N 0 True = Inr c"
    by (auto simp: cq_init_def cq_empty_def cq_full_def cq_nelem_def cq_pop_nonblock_def CQ_N_def
        Let_def)
  have wf: "cq_wf CQ_N c" "cq_abs c = []" using cq_init_wf [OF cq_size_ok_CQ_N c] by auto
  have "\<not> cq_full CQ_N c"
    using cq_full_iff [OF cq_size_ok_CQ_N wf(1)] length_cq_list [of CQ_N c] wf(2) by simp
  then obtain s :: "u8 spsc" where s: "spsc_reach CQ_N s" "cons s = CIdle" "pushed s = [5]" "popped s = []"
    using push_run [OF spsc_reach.start [OF c] cq_size_ok_CQ_N, of 5] by (auto simp: spsc_init_def)
  have "cq_abs (shared s) = [5]"
    using spsc_reach_inv [OF s(1) cq_size_ok_CQ_N] s(3,4) by (simp add: spsc_inv_def)
  with s show ?thesis using pop_run [OF s(1) cq_size_ok_CQ_N s(2), of 5 "[]"] by auto
qed

theorem spsc_linear_witness:
  "\<exists>s. spsc_reach CQ_N s \<and> popped s = [5 :: u8] \<and> pushed s = popped s @ cq_abs (shared s) \<and>
     prod s \<noteq> PFailed \<and> cons s \<noteq> CFailed"
  using spsc_example_reach spsc_linear by blast

end
