(* ===== verification/Queue.thy ===== *)
theory Queue
  imports Prelude
begin

text \<open>
  The intrusive linked queue \<open>libpi/libc/Q.h\<close>.  The header is a template over the element struct
  \<open>E\<close>, of which it uses only the field \<open>next\<close>: a heap maps addresses to elements, the operations
  are parametric in the record that extends \<open>qnode\<close> (address 0 is the null pointer, a heap has no
  block there).  Several queues share one heap: the laws say what an operation does to its own queue
  and that it leaves the others alone.
\<close>

subsection \<open>State\<close>

record qnode =
  nxt :: u32

type_synonym 'm heap = "u32 \<Rightarrow> 'm qnode_scheme option"

record Q_t =
  q_head :: u32
  q_tail :: u32
  q_cnt :: u32

text \<open>Dereferencing a pointer.\<close>

definition deref :: "'m heap \<Rightarrow> u32 \<Rightarrow> 'm qnode_scheme res" where
  "deref h p =
     (if p = 0 then Inl NullDeref
      else case h p of None \<Rightarrow> Inl OutOfBounds | Some t \<Rightarrow> Inr t)"

definition set_next :: "'m heap \<Rightarrow> u32 \<Rightarrow> u32 \<Rightarrow> 'm heap res" where
  "set_next h p v = bnd (deref h p) (\<lambda>t. Inr (h(p \<mapsto> t\<lparr>nxt := v\<rparr>)))"

subsection \<open>Operations\<close>

definition Q_start :: "Q_t \<Rightarrow> u32" where
  "Q_start q = q_head q"

definition Q_next :: "'m heap \<Rightarrow> u32 \<Rightarrow> u32 res" where
  "Q_next h e = bnd (deref h e) (\<lambda>t. Inr (nxt t))"

definition Q_nelem :: "Q_t \<Rightarrow> u32" where
  "Q_nelem q = q_cnt q"

definition Q_empty :: "Q_t \<Rightarrow> bool res" where
  "Q_empty q =
     (if q_head q \<noteq> 0 then Inr False
      else bnd (check (Q_nelem q = 0) ''Q_nelem(q) == 0'') (\<lambda>_.
           bnd (check (q_tail q = 0) ''!q->tail: invalid Q'') (\<lambda>_.
           Inr True)))"

definition Q_pop :: "'m heap \<Rightarrow> Q_t \<Rightarrow> (u32 \<times> Q_t) res" where
  "Q_pop h q =
     (let e = q_head q in
      if e = 0 then
        bnd (Q_empty q) (\<lambda>b. bnd (check b ''Q_empty(q)'') (\<lambda>_. Inr (0, q)))
      else
        bnd (Q_next h e) (\<lambda>n.
        let q' = q\<lparr>q_cnt := q_cnt q - 1, q_head := n\<rparr> in
        Inr (e, if n = 0 then q'\<lparr>q_tail := 0\<rparr> else q')))"

definition Q_append :: "'m heap \<Rightarrow> Q_t \<Rightarrow> u32 \<Rightarrow> ('m heap \<times> Q_t) res" where
  "Q_append h q e =
     bnd (set_next h e 0) (\<lambda>h1.
     let q1 = q\<lparr>q_cnt := q_cnt q + 1\<rparr> in
     if q_tail q1 = 0 then Inr (h1, q1\<lparr>q_head := e, q_tail := e\<rparr>)
     else bnd (set_next h1 (q_tail q1) e) (\<lambda>h2. Inr (h2, q1\<lparr>q_tail := e\<rparr>)))"

definition Q_push :: "'m heap \<Rightarrow> Q_t \<Rightarrow> u32 \<Rightarrow> ('m heap \<times> Q_t) res" where
  "Q_push h q e =
     (let q1 = q\<lparr>q_cnt := q_cnt q + 1\<rparr> in
      bnd (set_next h e (q_head q1)) (\<lambda>h1.
      let q2 = q1\<lparr>q_head := e\<rparr> in
      Inr (h1, if q_tail q2 = 0 then q2\<lparr>q_tail := e\<rparr> else q2)))"

definition Q_mk :: Q_t where
  "Q_mk = \<lparr>q_head = 0, q_tail = 0, q_cnt = 0\<rparr>"

definition Q_init :: "Q_t \<Rightarrow> Q_t" where
  "Q_init q = \<lparr>q_head = 0, q_tail = 0, q_cnt = 0\<rparr>"

definition Q_insert_after :: "'m heap \<Rightarrow> Q_t \<Rightarrow> u32 \<Rightarrow> u32 \<Rightarrow> ('m heap \<times> Q_t) res" where
  "Q_insert_after h q e e_new =
     (if e = 0 then Q_push h q e_new
      else if q_tail q = e then Q_append h q e_new
      else
        let q1 = q\<lparr>q_cnt := q_cnt q + 1\<rparr> in
        bnd (Q_next h e) (\<lambda>n.
        bnd (set_next h e_new n) (\<lambda>h1.
        bnd (set_next h1 e e_new) (\<lambda>h2. Inr (h2, q1)))))"

subsection \<open>The list a queue represents\<close>

fun lseg :: "'m heap \<Rightarrow> u32 \<Rightarrow> u32 list \<Rightarrow> bool" where
  "lseg h p [] = (p = 0)"
| "lseg h p (x # xs) = (p = x \<and> x \<noteq> 0 \<and> (\<exists>t. h x = Some t \<and> lseg h (nxt t) xs))"

definition q_repr :: "'m heap \<Rightarrow> Q_t \<Rightarrow> u32 list \<Rightarrow> bool" where
  "q_repr h q xs \<longleftrightarrow> lseg h (q_head q) xs \<and> distinct xs \<and>
     q_tail q = (if xs = [] then 0 else last xs) \<and> q_cnt q = of_nat (length xs)"

definition valid :: "'m heap \<Rightarrow> u32 \<Rightarrow> bool" where
  "valid h e \<longleftrightarrow> e \<noteq> 0 \<and> h e \<noteq> None"

text \<open>Every field of a block but \<open>next\<close> is kept by the queue operations.\<close>

definition same_but_next :: "'m heap \<Rightarrow> 'm heap \<Rightarrow> bool" where
  "same_but_next h h' \<longleftrightarrow>
     (\<forall>p. (h' p = None) = (h p = None) \<and>
          (\<forall>t t'. h p = Some t \<longrightarrow> h' p = Some t' \<longrightarrow> t' = t\<lparr>nxt := nxt t'\<rparr>))"

lemma same_but_next_refl [simp]: "same_but_next h h"
  by (simp add: same_but_next_def)

lemma same_but_next_trans: "same_but_next h1 h2 \<Longrightarrow> same_but_next h2 h3 \<Longrightarrow> same_but_next h1 h3"
  unfolding same_but_next_def
proof (intro allI conjI impI)
  fix p t t'
  assume a: "\<forall>p. (h2 p = None) = (h1 p = None) \<and>
      (\<forall>t t'. h1 p = Some t \<longrightarrow> h2 p = Some t' \<longrightarrow> t' = t\<lparr>nxt := nxt t'\<rparr>)"
    and b: "\<forall>p. (h3 p = None) = (h2 p = None) \<and>
      (\<forall>t t'. h2 p = Some t \<longrightarrow> h3 p = Some t' \<longrightarrow> t' = t\<lparr>nxt := nxt t'\<rparr>)"
    and t: "h1 p = Some t" "h3 p = Some t'"
  then obtain u where u: "h2 p = Some u" by (metis not_None_eq)
  have "u = t\<lparr>nxt := nxt u\<rparr>" "t' = u\<lparr>nxt := nxt t'\<rparr>" using a b t u by blast+
  then show "t' = t\<lparr>nxt := nxt t'\<rparr>" by (metis qnode.simps(3) qnode.cases_scheme qnode.update_convs(1))
qed auto

lemma same_but_next_upd: "h p = Some t \<Longrightarrow> same_but_next h (h(p \<mapsto> t\<lparr>nxt := v\<rparr>))"
  by (simp add: same_but_next_def)

lemma valid_same: "same_but_next h h' \<Longrightarrow> valid h' e \<longleftrightarrow> valid h e"
  by (simp add: valid_def same_but_next_def)

lemma lseg_valid: "lseg h p xs \<Longrightarrow> x \<in> set xs \<Longrightarrow> valid h x"
  by (induction xs arbitrary: p) (auto simp: valid_def)

lemma lseg_upd_other: "e \<notin> set xs \<Longrightarrow> lseg (h(e := v)) p xs \<longleftrightarrow> lseg h p xs"
  by (induction xs arbitrary: p) auto

lemma lseg_snoc:
  "lseg h p (xs @ [y]) \<Longrightarrow> y \<notin> set xs \<Longrightarrow> e \<notin> set (xs @ [y]) \<Longrightarrow> e \<noteq> 0 \<Longrightarrow> h y = Some ty \<Longrightarrow>
     h e = Some te \<Longrightarrow> nxt te = 0 \<Longrightarrow> lseg (h(y \<mapsto> ty\<lparr>nxt := e\<rparr>)) p (xs @ [y, e])"
proof (induction xs arbitrary: p)
  case Nil
  then show ?case by auto
next
  case (Cons x xs)
  then show ?case by (auto simp: fun_upd_def)
qed

lemma q_repr_upd_other: "q_repr h q xs \<Longrightarrow> e \<notin> set xs \<Longrightarrow> q_repr (h(e := v)) q xs"
  by (simp add: q_repr_def lseg_upd_other)


lemma lseg_frame: "lseg h p xs \<Longrightarrow> \<forall>x \<in> set xs. h' x = h x \<Longrightarrow> lseg h' p xs"
  by (induction xs arbitrary: p) auto

lemma lseg_head: "lseg h p xs \<Longrightarrow> p = (if xs = [] then 0 else hd xs)"
  by (cases xs) auto

lemma lseg_next: "lseg h p (x # xs) \<Longrightarrow> h x = Some t \<Longrightarrow> nxt t = (if xs = [] then 0 else hd xs)"
  by (auto dest: lseg_head)

lemma q_repr_head: "q_repr h q xs \<Longrightarrow> q_head q = (if xs = [] then 0 else hd xs)"
  by (auto simp: q_repr_def dest: lseg_head)

subsection \<open>What each operation does to the list\<close>

lemma Q_empty_repr: "q_repr h q xs \<Longrightarrow> Q_empty q = Inr (xs = [])"
  by (cases xs) (auto simp: q_repr_def Q_empty_def Q_nelem_def)

lemma Q_pop_nil: "q_repr h q [] \<Longrightarrow> Q_pop h q = Inr (0, q)"
  by (simp add: q_repr_def Q_pop_def Q_empty_def Q_nelem_def)

lemma Q_pop_cons:
  assumes "q_repr h q (x # xs)"
  shows "\<exists>q'. Q_pop h q = Inr (x, q') \<and> q_repr h q' xs"
proof -
  obtain t where t: "q_head q = x" "x \<noteq> 0" "h x = Some t" "lseg h (nxt t) xs"
    using assms by (auto simp: q_repr_def)
  have "nxt t = 0 \<longleftrightarrow> xs = []"
    using t(4) by (cases xs) auto
  then show ?thesis
    using assms t by (auto simp: Q_pop_def Q_next_def deref_def q_repr_def Let_def)
qed

lemma Q_append_repr:
  assumes q: "q_repr h q xs" and e: "valid h e" "e \<notin> set xs"
  shows "\<exists>h' q'. Q_append h q e = Inr (h', q') \<and> q_repr h' q' (xs @ [e]) \<and> same_but_next h h' \<and>
           (\<forall>p. p \<notin> set xs \<longrightarrow> p \<noteq> e \<longrightarrow> h' p = h p) \<and> (\<exists>t. h' e = Some t \<and> nxt t = 0)"
proof -
  obtain te where te: "h e = Some te" "e \<noteq> 0" using e(1) by (auto simp: valid_def)
  let ?h1 = "h(e \<mapsto> te\<lparr>nxt := 0\<rparr>)"
  have h1: "set_next h e 0 = Inr ?h1" "same_but_next h ?h1"
    using te by (auto simp: set_next_def deref_def intro: same_but_next_upd)
  have lseg1: "lseg ?h1 (q_head q) xs" using q e(2) by (simp add: q_repr_def lseg_upd_other)
  show ?thesis
  proof (cases xs rule: rev_cases)
    case Nil
    then show ?thesis using q h1 te by (auto simp: Q_append_def q_repr_def Let_def)
  next
    case (snoc ys y)
    obtain ty where ty: "h y = Some ty" and y: "q_tail q = y" "y \<noteq> 0" "y \<noteq> e"
      using q snoc e(2) lseg_valid [of h "q_head q" xs y] by (auto simp: q_repr_def valid_def)
    let ?h2 = "?h1(y \<mapsto> ty\<lparr>nxt := e\<rparr>)"
    have "lseg ?h2 (q_head q) (ys @ [y, e])"
      using lseg1 snoc q e(2) te ty y by (intro lseg_snoc) (auto simp: q_repr_def)
    moreover have "set_next ?h1 y e = Inr ?h2" "same_but_next h ?h2"
      using y ty h1(2) same_but_next_upd [of ?h1 y ty e] same_but_next_trans
      by (auto simp: set_next_def deref_def)
    ultimately show ?thesis
      using q snoc e h1 y by (auto simp: Q_append_def q_repr_def Let_def)
  qed
qed

lemma Q_push_repr:
  assumes q: "q_repr h q xs" and e: "valid h e" "e \<notin> set xs"
  shows "\<exists>h' q'. Q_push h q e = Inr (h', q') \<and> q_repr h' q' (e # xs) \<and> same_but_next h h' \<and>
           (\<forall>p. p \<noteq> e \<longrightarrow> h' p = h p)"
proof -
  obtain te where te: "h e = Some te" "e \<noteq> 0" using e(1) by (auto simp: valid_def)
  let ?h1 = "h(e \<mapsto> te\<lparr>nxt := q_head q\<rparr>)"
  have "set_next h e (q_head q) = Inr ?h1" "same_but_next h ?h1"
    using te by (auto simp: set_next_def deref_def intro: same_but_next_upd)
  moreover have "lseg ?h1 (q_head q) xs" using q e(2) by (simp add: q_repr_def lseg_upd_other)
  moreover have "xs \<noteq> [] \<Longrightarrow> last xs \<noteq> 0"
    using q lseg_valid [of h "q_head q" xs "last xs"] by (simp add: q_repr_def valid_def)
  ultimately show ?thesis
    using q e te by (auto simp: Q_push_def q_repr_def Let_def)
qed

lemma Q_insert_after_repr:
  assumes q: "q_repr h q (xs @ e # ys)" and n: "valid h e_new" "e_new \<notin> set (xs @ e # ys)"
  shows "\<exists>h' q'. Q_insert_after h q e e_new = Inr (h', q') \<and> q_repr h' q' (xs @ e # e_new # ys) \<and>
    same_but_next h h' \<and> (\<forall>p. p \<notin> set (xs @ e # ys) \<longrightarrow> p \<noteq> e_new \<longrightarrow> h' p = h p)"
proof (cases "ys = []")
  case True
  have "e \<noteq> 0" "q_tail q = e"
    using q True lseg_valid [of h "q_head q" "xs @ [e]" e] by (auto simp: q_repr_def valid_def)
  then show ?thesis using Q_append_repr [OF q n] True by (auto simp: Q_insert_after_def)
next
  case False
  have e: "e \<noteq> 0" "q_tail q \<noteq> e"
    using q False lseg_valid [of h "q_head q" "xs @ e # ys" e]
    by (auto simp: q_repr_def valid_def last_append split: if_splits)
  obtain te tn where t: "h e = Some te" "h e_new = Some tn" "e_new \<noteq> 0" "e_new \<noteq> e"
    using n q lseg_valid [of h "q_head q" "xs @ e # ys" e] by (auto simp: q_repr_def valid_def)
  let ?h1 = "h(e_new \<mapsto> tn\<lparr>nxt := nxt te\<rparr>)"
  let ?h = "?h1(e \<mapsto> te\<lparr>nxt := e_new\<rparr>)"
  have "same_but_next ?h1 ?h" using t by (intro same_but_next_upd) simp
  then have same: "same_but_next h ?h"
    using same_but_next_trans [OF same_but_next_upd] t(2) by blast
  have "lseg h p (xs @ e # ys) \<Longrightarrow> distinct (xs @ e # ys) \<Longrightarrow> e_new \<notin> set (xs @ e # ys) \<Longrightarrow>
      lseg ?h p (xs @ e # e_new # ys)" for p
  proof (induction xs arbitrary: p)
    case Nil
    then show ?case using t by (auto intro: lseg_frame)
  next
    case (Cons x xs)
    then show ?case by auto
  qed
  then have "lseg ?h (q_head q) (xs @ e # e_new # ys)" using q n by (simp add: q_repr_def)
  then show ?thesis
    using q n e t False same
    by (auto simp: Q_insert_after_def Q_next_def set_next_def deref_def q_repr_def Let_def)
qed

subsection \<open>The interface of a queue in a shared heap\<close>

locale intrusive_queue =
  fixes empty :: "'q \<Rightarrow> bool res"
    and pop :: "'m heap \<Rightarrow> 'q \<Rightarrow> (u32 \<times> 'q) res"
    and append :: "'m heap \<Rightarrow> 'q \<Rightarrow> u32 \<Rightarrow> ('m heap \<times> 'q) res"
    and push :: "'m heap \<Rightarrow> 'q \<Rightarrow> u32 \<Rightarrow> ('m heap \<times> 'q) res"
    and rel :: "'m heap \<Rightarrow> 'q \<Rightarrow> u32 list \<Rightarrow> bool"
  assumes rel_valid: "rel h q xs \<Longrightarrow> x \<in> set xs \<Longrightarrow> valid h x"
    and rel_distinct: "rel h q xs \<Longrightarrow> distinct xs"
    and rel_frame: "rel h q xs \<Longrightarrow> \<forall>p \<in> set xs. h' p = h p \<Longrightarrow> rel h' q xs"
    and empty_law: "rel h q xs \<Longrightarrow> empty q = Inr (xs = [])"
    and pop_nil: "rel h q [] \<Longrightarrow> pop h q = Inr (0, q)"
    and pop_cons: "rel h q (x # xs) \<Longrightarrow> \<exists>q'. pop h q = Inr (x, q') \<and> rel h q' xs"
    and append_law: "rel h q xs \<Longrightarrow> valid h e \<Longrightarrow> e \<notin> set xs \<Longrightarrow>
          \<exists>h' q'. append h q e = Inr (h', q') \<and> rel h' q' (xs @ [e]) \<and> same_but_next h h' \<and>
                  (\<forall>p. p \<notin> set xs \<longrightarrow> p \<noteq> e \<longrightarrow> h' p = h p) \<and> (\<exists>t. h' e = Some t \<and> nxt t = 0)"
    and push_law: "rel h q xs \<Longrightarrow> valid h e \<Longrightarrow> e \<notin> set xs \<Longrightarrow>
          \<exists>h' q'. push h q e = Inr (h', q') \<and> rel h' q' (e # xs) \<and> same_but_next h h' \<and>
                  (\<forall>p. p \<noteq> e \<longrightarrow> h' p = h p)"
begin

text \<open>Appending and then popping a non-empty queue rotates it: the step of a round-robin.\<close>

lemma append_pop:
  assumes "rel h q (x # xs)" and "valid h e" and "e \<notin> set (x # xs)"
  shows "\<exists>h' q1 q'. append h q e = Inr (h', q1) \<and> pop h' q1 = Inr (x, q') \<and>
           rel h' q' (xs @ [e]) \<and> same_but_next h h' \<and>
           (\<forall>p. p \<notin> set (x # xs) \<longrightarrow> p \<noteq> e \<longrightarrow> h' p = h p) \<and> (\<exists>t. h' e = Some t \<and> nxt t = 0)"
proof -
  obtain h' q1 where "append h q e = Inr (h', q1)" and r: "rel h' q1 (x # xs @ [e])"
    and "same_but_next h h'" "\<forall>p. p \<notin> set (x # xs) \<longrightarrow> p \<noteq> e \<longrightarrow> h' p = h p"
      "\<exists>t. h' e = Some t \<and> nxt t = 0"
    using append_law [OF assms] by auto
  moreover obtain q' where "pop h' q1 = Inr (x, q')" "rel h' q' (xs @ [e])"
    using pop_cons [OF r] by blast
  ultimately show ?thesis by blast
qed

text \<open>An operation on one queue leaves a queue of other blocks alone.\<close>

lemma append_other:
  assumes "rel h q xs" and "valid h e" and "e \<notin> set xs" and "append h q e = Inr (h', q')"
    and "rel h q2 ys" and "e \<notin> set ys" and "set xs \<inter> set ys = {}"
  shows "rel h' q2 ys"
proof -
  have "\<forall>p. p \<notin> set xs \<longrightarrow> p \<noteq> e \<longrightarrow> h' p = h p"
    using append_law [OF assms(1-3)] assms(4) by auto
  then show ?thesis using assms(5-7) by (intro rel_frame [OF assms(5)]) auto
qed

lemma push_other:
  assumes "rel h q xs" and "valid h e" and "e \<notin> set xs" and "push h q e = Inr (h', q')"
    and "rel h q2 ys" and "e \<notin> set ys"
  shows "rel h' q2 ys"
proof -
  have "\<forall>p. p \<noteq> e \<longrightarrow> h' p = h p"
    using push_law [OF assms(1-3)] assms(4) by auto
  then show ?thesis using assms(5,6) by (intro rel_frame [OF assms(5)]) auto
qed

end

interpretation Qq: intrusive_queue Q_empty Q_pop Q_append Q_push q_repr
proof unfold_locales
  fix h :: "'m heap" and h' q xs x e
  show "q_repr h q xs \<Longrightarrow> x \<in> set xs \<Longrightarrow> valid h x"
    by (auto simp: q_repr_def dest: lseg_valid)
  show "q_repr h q xs \<Longrightarrow> distinct xs" by (simp add: q_repr_def)
  show "q_repr h q xs \<Longrightarrow> \<forall>p \<in> set xs. h' p = h p \<Longrightarrow> q_repr h' q xs"
    by (auto simp: q_repr_def intro: lseg_frame)
  show "q_repr h q xs \<Longrightarrow> Q_empty q = Inr (xs = [])" by (rule Q_empty_repr)
  show "q_repr h q [] \<Longrightarrow> Q_pop h q = Inr (0, q)" by (rule Q_pop_nil)
  show "q_repr h q (x # xs) \<Longrightarrow> \<exists>q'. Q_pop h q = Inr (x, q') \<and> q_repr h q' xs" by (rule Q_pop_cons)
qed (erule (2) Q_append_repr, erule (2) Q_push_repr)

definition q_example_heap :: "unit heap" where
  "q_example_heap = [16 \<mapsto> \<lparr>nxt = 32\<rparr>, 32 \<mapsto> \<lparr>nxt = 0\<rparr>, 48 \<mapsto> \<lparr>nxt = 0\<rparr>]"

definition q_example :: Q_t where
  "q_example = \<lparr>q_head = 16, q_tail = 32, q_cnt = 2\<rparr>"

lemma q_example_repr: "q_repr q_example_heap q_example [16, 32]"
  by (simp add: q_repr_def q_example_heap_def q_example_def)

text \<open>an element inserted after another one stands right behind it, nothing else of the order
  changes, only the links of the blocks of the queue and of the new one are written, and every other
  field of every block is kept.\<close>

lemma Q_insert_after_spec:
  assumes "q_repr h q (xs @ e # ys)" and "valid h e_new" and "e_new \<notin> set (xs @ e # ys)"
  shows "\<exists>h' q'. Q_insert_after h q e e_new = Inr (h', q') \<and> q_repr h' q' (xs @ e # e_new # ys) \<and>
    same_but_next h h' \<and> (\<forall>p. p \<notin> set (xs @ e # ys) \<longrightarrow> p \<noteq> e_new \<longrightarrow> h' p = h p)"
  using assms by (rule Q_insert_after_repr)

lemma Q_insert_after_spec_example:
  "\<exists>h' q'. Q_insert_after q_example_heap q_example 16 48 = Inr (h', q') \<and> q_repr h' q' [16, 48, 32] \<and>
     same_but_next q_example_heap h' \<and>
     (\<forall>p. p \<notin> set [16, 32] \<longrightarrow> p \<noteq> 48 \<longrightarrow> h' p = q_example_heap p)"
  using Q_insert_after_spec [of q_example_heap q_example "[]" 16 "[32]" 48] q_example_repr
  by (simp add: valid_def q_example_heap_def)

end
