(* ===== verification/Ram.thy ===== *)
theory Ram
  imports Prelude
begin

text \<open>
  Memory as words at word-aligned addresses, with the multiple stores and loads of the assembly of the labs:
  the context switch of \<open>Threads\<close> and the instructions of \<open>Arm\<close> use them.
\<close>

subsection \<open>Multiple stores and loads\<close>

fun stm :: "(u32 \<Rightarrow> u32) \<Rightarrow> u32 \<Rightarrow> u32 list \<Rightarrow> u32 \<Rightarrow> u32" where
  "stm ram p [] = ram"
| "stm ram p (w # ws) = stm (ram(p := w)) (p + 4) ws"

fun ldm :: "(u32 \<Rightarrow> u32) \<Rightarrow> u32 \<Rightarrow> nat \<Rightarrow> u32 list" where
  "ldm ram p 0 = []"
| "ldm ram p (Suc n) = ram p # ldm ram (p + 4) n"

text \<open>Multiple loads and stores fault on an address that is not a multiple of four.\<close>

definition aligned_access :: "u32 \<Rightarrow> unit res" where
  "aligned_access p = (if p AND 3 = 0 then Inr () else Inl OutOfBounds)"

lemma ldm_numeral: "ldm m p (numeral n) = m p # ldm m (p + 4) (pred_numeral n)"
  by (simp add: numeral_eq_Suc)

lemma length_ldm [simp]: "length (ldm ram p n) = n"
  by (induction n arbitrary: p) simp_all

lemma aligned_unat: "(p :: u32) AND 3 = 0 \<longleftrightarrow> unat p mod 4 = 0"
proof -
  have "p AND 3 = take_bit 2 p"
    by (simp add: take_bit_eq_mask mask_eq_exp_minus_1)
  moreover have "unat (take_bit 2 p) = unat p mod 4"
    by (simp only: unsigned_take_bit_eq) (simp add: take_bit_eq_mod)
  ultimately show ?thesis
    by (metis unat_eq_zero)
qed

lemma aligned_add: "(p :: u32) AND 3 = 0 \<Longrightarrow> q AND 3 = 0 \<Longrightarrow> (p + q) AND 3 = 0"
  unfolding aligned_unat by (simp add: unat_word_ariths mod_mod_cancel) (metis add.right_neutral mod_add_eq mod_0)

subsection \<open>What they leave alone\<close>

lemma unat_plus4: "unat (p :: u32) + 4 < 4294967296 \<Longrightarrow> unat (p + 4) = unat p + 4"
  using unat_add_small [of p 4] by simp

lemma stm_other:
  "unat q < unat p \<or> unat p + 4 * length ws \<le> unat q \<Longrightarrow> unat p + 4 * length ws \<le> 4294967296 \<Longrightarrow>
     stm ram p ws q = ram q"
proof (induction ws arbitrary: ram p)
  case (Cons w ws)
  have "q \<noteq> p" using Cons.prems by auto
  show ?case
  proof (cases "ws = []")
    case False
    then have "1 \<le> length ws" by (cases ws) auto
    then have "unat p + 4 < 4294967296" using Cons.prems(2) by simp
    then have "unat (p + 4) = unat p + 4" by (rule unat_plus4)
    then have "stm (ram(p := w)) (p + 4) ws q = (ram(p := w)) q"
      using Cons.prems by (intro Cons.IH) auto
    then show ?thesis using \<open>q \<noteq> p\<close> by simp
  qed (use \<open>q \<noteq> p\<close> in simp)
qed simp

lemma ldm_upd_below:
  "unat q < unat p \<Longrightarrow> unat p + 4 * n \<le> 4294967296 \<Longrightarrow> ldm (ram(q := v)) p n = ldm ram p n"
proof (induction n arbitrary: p)
  case (Suc n)
  have "q \<noteq> p" using Suc.prems by auto
  show ?case
  proof (cases "n = 0")
    case False
    then have "unat (p + 4) = unat p + 4" using Suc.prems by (intro unat_plus4) simp
    then show ?thesis using Suc \<open>q \<noteq> p\<close> by simp
  qed (use \<open>q \<noteq> p\<close> in simp)
qed simp

lemma ldm_stm_same: "unat p + 4 * length ws \<le> 4294967296 \<Longrightarrow> ldm (stm ram p ws) p (length ws) = ws"
proof (induction ws arbitrary: ram p)
  case (Cons w ws)
  show ?case
  proof (cases "ws = []")
    case False
    then have "1 \<le> length ws" by (cases ws) auto
    then have u: "unat (p + 4) = unat p + 4" using Cons.prems by (intro unat_plus4) simp
    have "stm (ram(p := w)) (p + 4) ws p = w"
      using Cons.prems u by (subst stm_other) auto
    moreover have "ldm (stm (ram(p := w)) (p + 4) ws) (p + 4) (length ws) = ws"
      using Cons.prems u by (intro Cons.IH) simp
    ultimately show ?thesis by simp
  qed simp
qed simp

lemma ldm_cong:
  "(\<And>q. unat p \<le> unat q \<Longrightarrow> unat q < unat p + 4 * n \<Longrightarrow> ram' q = ram q) \<Longrightarrow>
     unat p + 4 * n \<le> 4294967296 \<Longrightarrow> ldm ram' p n = ldm ram p n"
proof (induction n arbitrary: p)
  case (Suc n)
  show ?case
  proof (cases "n = 0")
    case False
    then have u: "unat (p + 4) = unat p + 4" using Suc.prems by (intro unat_plus4) simp
    show ?thesis using Suc.prems Suc.IH [of "p + 4"] u by simp
  qed (use Suc.prems in simp)
qed simp

lemma ldm_stm_other:
  assumes "unat p + 4 * n \<le> unat q \<or> unat q + 4 * length ws \<le> unat p"
    and "unat p + 4 * n \<le> 4294967296" and "unat q + 4 * length ws \<le> 4294967296"
  shows "ldm (stm ram q ws) p n = ldm ram p n"
  using assms by (intro ldm_cong) (auto intro!: stm_other)

end
