(* ===== verification/Threads.thy ===== *)
theory Threads
  imports Queue Ram
begin

text \<open>
  The non-preemptive threads package of \<open>labs/6-threads/code-threads\<close>: \<open>rpi-thread.c\<close>, the context
  switch and the trampoline of \<open>rpi-thread-asm.S\<close> and the red zone of \<open>redzone.h\<close>.

  A thread block is a record in a heap indexed by its address (its saved stack pointer is at offset
  0, its stack starts at offset 24); the words of the stacks and the red zone are the RAM.  The
  processor is the registers the package touches.  The C code sees \<open>rpi_cswitch\<close> as a call: every
  routine is modelled up to the instruction at which the processor continues in the other thread, and
  \<open>rpi_thread_start\<close> has a second part that runs when its own context is resumed.  The block
  allocator \<open>kmalloc_aligned\<close> is shipped as an object file and is the parameter \<open>kma\<close>.  Trace
  output is left out.
\<close>

subsection \<open>State\<close>

record rpi_thread = qnode +
  saved_sp :: u32
  tid :: u32
  fn :: u32
  targ :: u32
  annot :: u32

type_synonym th_heap = "unit rpi_thread_ext heap"

record cpu =
  c_r0 :: u32
  c_r1 :: u32
  c_r4_11 :: "u32 list"
  c_sp :: u32
  c_lr :: u32
  c_pc :: u32

text \<open>Code addresses: the trampoline, the instruction after its \<open>blx r1\<close>, the one after the
  \<open>blx lr\<close> of the context switch, and those after the calls of \<open>rpi_cswitch\<close> in the C routines.\<close>

record code_labels =
  l_trampoline :: u32
  l_tramp_exit :: u32
  l_cswitch_end :: u32
  l_ret_exit :: u32
  l_ret_yield :: u32
  l_ret_start :: u32

record 'k kern =
  k_heap :: th_heap
  k_ram :: "u32 \<Rightarrow> u32"
  runq :: Q_t
  freeq :: Q_t
  cur_thread :: u32
  scheduler_thread :: u32
  next_tid :: u32
  nalloced :: u32
  cpu :: cpu
  kmem :: 'k

text \<open>\<open>kma n a m\<close> returns an address, the contents of the block's fields and the allocator's state.\<close>

type_synonym 'k kma = "nat \<Rightarrow> nat \<Rightarrow> 'k \<Rightarrow> (u32 \<times> rpi_thread \<times> 'k) res"

definition THREAD_MAXSTACK :: nat where
  "THREAD_MAXSTACK = 1024 * 8 div 4"

definition stack_off :: nat where
  "stack_off = 24"

definition sizeof_thread :: nat where
  "sizeof_thread = stack_off + 4 * THREAD_MAXSTACK"

text \<open>\<open>&t->stack[i]\<close>.\<close>

definition stack_addr :: "u32 \<Rightarrow> nat \<Rightarrow> u32" where
  "stack_addr t i = t + of_nat (stack_off + 4 * i)"

subsection \<open>The red zone: addresses 0 to 4095 must stay zero\<close>

definition RZ_NBYTES :: nat where
  "RZ_NBYTES = 4096"

definition rz_ok :: "(u32 \<Rightarrow> u32) \<Rightarrow> bool" where
  "rz_ok ram = list_all (\<lambda>i. ram (of_nat (4 * i)) = 0) [0..<RZ_NBYTES div 4]"

text \<open>\<open>redzone_check\<close> reports every corrupted word (offset and value) on the console and returns whether there was
  none; it never stops the program.  Of its callers only \<open>redzone_init\<close> looks at the result.\<close>

definition rz_reports :: "(u32 \<Rightarrow> u32) \<Rightarrow> (nat \<times> u32) list" where
  "rz_reports ram =
     map (\<lambda>i. (4 * i, ram (of_nat (4 * i)))) (filter (\<lambda>i. ram (of_nat (4 * i)) \<noteq> 0) [0..<RZ_NBYTES div 4])"

definition redzone_check :: "'k kern \<Rightarrow> ((nat \<times> u32) list \<times> bool) res" where
  "redzone_check k =
     Inr (rz_reports (k_ram k), length (rz_reports (k_ram k)) = 0)"

definition redzone_init :: "'k kern \<Rightarrow> 'k kern res" where
  "redzone_init k =
     (let k1 = k\<lparr>k_ram := (\<lambda>p. if unat p < RZ_NBYTES then 0 else k_ram k p)\<rparr> in
      bnd (redzone_check k1) (\<lambda>(_, ok). bnd (check ok ''redzone_check(0)'') (\<lambda>_. Inr k1)))"

subsection \<open>The context switch\<close>

definition put_saved_sp :: "th_heap \<Rightarrow> u32 \<Rightarrow> u32 \<Rightarrow> th_heap res" where
  "put_saved_sp h p v = bnd (deref h p) (\<lambda>t. Inr (h(p \<mapsto> t\<lparr>saved_sp := v\<rparr>)))"

text \<open>\<open>push {r4-r11, lr}; str sp, [r0]; mov sp, r1; pop {r4-r11, lr}; blx lr\<close>.\<close>

definition rpi_cswitch :: "code_labels \<Rightarrow> u32 \<Rightarrow> u32 \<Rightarrow> 'k kern \<Rightarrow> 'k kern res" where
  "rpi_cswitch L old_save new_sp k =
     (let c = cpu k; sp = c_sp c - 36 in
      bnd (aligned_access sp) (\<lambda>_.
      let ram = stm (k_ram k) sp (c_r4_11 c @ [c_lr c]) in
      bnd (put_saved_sp (k_heap k) old_save sp) (\<lambda>h.
      bnd (aligned_access new_sp) (\<lambda>_.
      let ws = ldm ram new_sp 9 in
      Inr (k\<lparr>k_ram := ram, k_heap := h,
             cpu := \<lparr>c_r0 = old_save, c_r1 = new_sp, c_r4_11 = take 8 ws, c_sp = new_sp + 36,
                     c_lr = l_cswitch_end L, c_pc = ws ! 8\<rparr>\<rparr>)))))"

text \<open>The branch-and-link of a C call of \<open>rpi_cswitch\<close>: \<open>lr\<close> is the return address.\<close>

definition call_cswitch ::
    "code_labels \<Rightarrow> u32 \<Rightarrow> u32 \<Rightarrow> u32 \<Rightarrow> 'k kern \<Rightarrow> 'k kern res" where
  "call_cswitch L ret old_save new_sp k =
     rpi_cswitch L old_save new_sp (k\<lparr>cpu := (cpu k)\<lparr>c_lr := ret\<rparr>\<rparr>)"

text \<open>\<open>mov r0, r5; mov r1, r4; blx r1\<close>: the first instructions of a forked thread.\<close>

definition rpi_init_trampoline :: "code_labels \<Rightarrow> cpu \<Rightarrow> cpu" where
  "rpi_init_trampoline L c =
     c\<lparr>c_r0 := c_r4_11 c ! 1, c_r1 := c_r4_11 c ! 0, c_lr := l_tramp_exit L,
       c_pc := c_r4_11 c ! 0\<rparr>"

subsection \<open>The C routines\<close>

definition th_alloc :: "'k kma \<Rightarrow> 'k kern \<Rightarrow> (u32 \<times> 'k kern) res" where
  "th_alloc kma k =
     bnd (redzone_check k) (\<lambda>_.
     bnd (Q_pop (k_heap k) (freeq k)) (\<lambda>(t, fq).
     let k1 = k\<lparr>freeq := fq\<rparr> in
     bnd (if t = 0
          then bnd (kma sizeof_thread 8 (kmem k1)) (\<lambda>(p, blk, m).
               Inr (p, k1\<lparr>kmem := m, k_heap := (k_heap k1)(p \<mapsto> blk),
                          nalloced := nalloced k1 + 1\<rparr>))
          else Inr (t, k1)) (\<lambda>(t, k2).
     bnd (check (unat (stack_addr t 0) mod 8 = 0) ''stack must be 8-byte aligned'') (\<lambda>_.
     bnd (deref (k_heap k2) t) (\<lambda>b.
     Inr (t, k2\<lparr>k_heap := (k_heap k2)(t \<mapsto> b\<lparr>tid := next_tid k2\<rparr>),
                next_tid := next_tid k2 + 1\<rparr>))))))"

definition th_free :: "'k kern \<Rightarrow> u32 \<Rightarrow> 'k kern res" where
  "th_free k th =
     bnd (redzone_check k) (\<lambda>_.
     bnd (Q_push (k_heap k) (freeq k) th) (\<lambda>(h, q). Inr (k\<lparr>k_heap := h, freeq := q\<rparr>)))"

definition rpi_cur_thread :: "'k kern \<Rightarrow> u32" where
  "rpi_cur_thread k = cur_thread k"

definition rpi_fork ::
    "code_labels \<Rightarrow> 'k kma \<Rightarrow> u32 \<Rightarrow> u32 \<Rightarrow> 'k kern \<Rightarrow> (u32 \<times> 'k kern) res" where
  "rpi_fork L kma code arg k =
     bnd (redzone_check k) (\<lambda>_.
     bnd (th_alloc kma k) (\<lambda>(t, k1).
     bnd (deref (k_heap k1) t) (\<lambda>b.
     let stack_top = stack_addr t THREAD_MAXSTACK - 4 * 9;
         ram = (k_ram k1)(stack_top + 4 * 8 := l_trampoline L, stack_top := code,
                          stack_top + 4 := arg);
         h = (k_heap k1)(t \<mapsto> b\<lparr>fn := code, targ := arg, saved_sp := stack_top\<rparr>) in
     bnd (Q_append h (runq k1) t) (\<lambda>(h', q).
     Inr (t, k1\<lparr>k_heap := h', k_ram := ram, runq := q\<rparr>)))))"

definition rpi_exit :: "code_labels \<Rightarrow> 'k kern \<Rightarrow> 'k kern res" where
  "rpi_exit L k =
     bnd (redzone_check k) (\<lambda>_.
     let old = rpi_cur_thread k in
     bnd (Q_next (k_heap k) old) (\<lambda>n.
     bnd (if n \<noteq> 0
          then bnd (Q_pop (k_heap k) (runq k)) (\<lambda>(_, q). Inr (n, k\<lparr>runq := q\<rparr>))
          else Inr (scheduler_thread k, k)) (\<lambda>(next, k1).
     bnd (th_free k1 old) (\<lambda>k2.
     bnd (deref (k_heap k2) next) (\<lambda>b.
     call_cswitch L (l_ret_exit L) old (saved_sp b) (k2\<lparr>cur_thread := next\<rparr>))))))"

definition rpi_yield :: "code_labels \<Rightarrow> 'k kern \<Rightarrow> 'k kern res" where
  "rpi_yield L k =
     bnd (redzone_check k) (\<lambda>_.
     bnd (Q_empty (runq k)) (\<lambda>e.
     if e then Inr k
     else
       let old = cur_thread k in
       bnd (Q_append (k_heap k) (runq k) old) (\<lambda>(h1, q1).
       bnd (Q_pop h1 q1) (\<lambda>(next, q2).
       bnd (deref h1 next) (\<lambda>b.
       call_cswitch L (l_ret_yield L) old (saved_sp b)
         (k\<lparr>k_heap := h1, runq := q2, cur_thread := next\<rparr>))))))"

text \<open>\<open>rpi_thread_start\<close> up to the switch to the first thread; \<open>None\<close>: nothing to run, it returned.\<close>

definition rpi_thread_start ::
    "code_labels \<Rightarrow> 'k kma \<Rightarrow> 'k kern \<Rightarrow> ('k kern \<times> bool) res" where
  "rpi_thread_start L kma k =
     bnd (redzone_init k) (\<lambda>k0.
     bnd (Q_empty (runq k0)) (\<lambda>e.
     if e then bnd (redzone_check k0) (\<lambda>_. Inr (k0, False))
     else
       bnd (if scheduler_thread k0 = 0
            then bnd (th_alloc kma k0) (\<lambda>(s, k1). Inr (k1\<lparr>scheduler_thread := s\<rparr>))
            else Inr k0) (\<lambda>k1.
       let s = scheduler_thread k1 in
       bnd (put_saved_sp (k_heap k1) s (stack_addr s THREAD_MAXSTACK)) (\<lambda>h.
       let k2 = k1\<lparr>k_heap := h\<rparr> in
       bnd (Q_pop (k_heap k2) (runq k2)) (\<lambda>(next, q).
       bnd (deref (k_heap k2) next) (\<lambda>b.
       bnd (call_cswitch L (l_ret_start L) s (saved_sp b) (k2\<lparr>runq := q, cur_thread := next\<rparr>))
         (\<lambda>k3. Inr (k3, True))))))))"

text \<open>The rest of \<open>rpi_thread_start\<close>, run when the scheduler's context is resumed.\<close>

definition rpi_thread_start_end :: "'k kern \<Rightarrow> unit res" where
  "rpi_thread_start_end k =
     bnd (deref (k_heap k) (cur_thread k)) (\<lambda>c.
     bnd (deref (k_heap k) (scheduler_thread k)) (\<lambda>s.
     bnd (check (tid c = tid s) ''cur_thread->tid == scheduler_thread->tid'') (\<lambda>_.
     bnd (redzone_check k) (\<lambda>_. Inr ()))))"

text \<open>\<open>rpi_print_regs\<close> checks that \<open>sp\<close> is in the running thread's stack, prints, and reboots.\<close>

definition rpi_print_regs :: "'k kern \<Rightarrow> u32 \<Rightarrow> (nat \<times> u32) list \<times> fault" where
  "rpi_print_regs k sp =
     (if deref (k_heap k) (cur_thread k) = Inl NullDeref then ([], NullDeref)
      else if \<not> sp < stack_addr (cur_thread k) THREAD_MAXSTACK
      then ([], AssertFail ''sp < &cur_thread->stack[THREAD_MAXSTACK]'')
      else if \<not> stack_addr (cur_thread k) 0 \<le> sp
      then ([], AssertFail ''sp >= &cur_thread->stack[0]'')
      else (map (\<lambda>i. (if i = 8 then 14 else i + 4, k_ram k (sp + of_nat (4 * i)))) [0..<9], Reboot))"

subsection \<open>The red zone\<close>

lemma unat_rz: "i < 1024 \<Longrightarrow> unat (4 * word_of_nat i :: u32) < 4096"
proof -
  assume "i < 1024"
  moreover have "(4 * word_of_nat i :: u32) = word_of_nat (4 * i)" by simp
  ultimately show ?thesis by (simp only: unat_of_nat) (simp add: take_bit_eq_mod)
qed

lemma rz_ok_cong: "(\<And>q. unat q < 4096 \<Longrightarrow> ram' q = ram q) \<Longrightarrow> rz_ok ram' = rz_ok ram"
  by (auto simp: rz_ok_def RZ_NBYTES_def list_all_iff unat_rz)

lemma rz_reports_ok: "rz_reports ram = [] \<longleftrightarrow> rz_ok ram"
  by (auto simp: rz_reports_def rz_ok_def list_all_iff filter_empty_conv)

lemma rz_ok_stm:
  "4096 \<le> unat p \<Longrightarrow> unat p + 4 * length ws \<le> 4294967296 \<Longrightarrow> rz_ok (stm ram p ws) = rz_ok ram"
  by (intro rz_ok_cong stm_other) auto

lemma rz_ok_upd: "4096 \<le> unat p \<Longrightarrow> rz_ok (ram(p := v)) = rz_ok ram"
  by (intro rz_ok_cong) auto

subsection \<open>Well-formed states and their abstraction\<close>

text \<open>A register context: what a thread sees when it is resumed.\<close>

record ctx =
  x_regs :: "u32 list"
  x_sp :: u32
  x_pc :: u32

definition ctx_of :: "cpu \<Rightarrow> ctx" where
  "ctx_of c = \<lparr>x_regs = c_r4_11 c, x_sp = c_sp c, x_pc = c_pc c\<rparr>"

text \<open>The context stored in the stack of a thread that is not running.\<close>

definition saved_ctx :: "'k kern \<Rightarrow> u32 \<Rightarrow> ctx" where
  "saved_ctx k t =
     (let sp = saved_sp (the (k_heap k t)); ws = ldm (k_ram k) sp 9 in
      \<lparr>x_regs = take 8 ws, x_sp = sp + 36, x_pc = ws ! 8\<rparr>)"

text \<open>The stack a context is saved on: the scheduler runs on the stack of the caller of
  \<open>rpi_thread_start\<close>, the bytes \<open>M = (lo, hi)\<close>; every other thread on the array in its block.\<close>

definition home :: "nat \<times> nat \<Rightarrow> u32 \<Rightarrow> u32 \<Rightarrow> nat \<times> nat" where
  "home M s t = (if t = s then M else (unat t + stack_off, unat t + sizeof_thread))"

definition in_stack :: "nat \<times> nat \<Rightarrow> u32 \<Rightarrow> nat \<Rightarrow> bool" where
  "in_stack S sp n \<longleftrightarrow> fst S \<le> unat sp \<and> unat sp + n \<le> snd S \<and> sp AND 3 = 0"

definition separate :: "u32 \<Rightarrow> u32 \<Rightarrow> bool" where
  "separate t u \<longleftrightarrow>
     t = u \<or> unat t + sizeof_thread \<le> unat u \<or> unat u + sizeof_thread \<le> unat t"

definition block_ok :: "nat \<times> nat \<Rightarrow> u32 \<Rightarrow> bool" where
  "block_ok M t \<longleftrightarrow>
     RZ_NBYTES \<le> unat t \<and> unat t + sizeof_thread < 4294967296 \<and> unat t mod 8 = 0 \<and>
     (snd M \<le> unat t \<or> unat t + sizeof_thread \<le> fst M)"

text \<open>Thread blocks are above the red zone, aligned, and overlap neither each other nor the main
  stack.\<close>

definition heap_wf :: "nat \<times> nat \<Rightarrow> th_heap \<Rightarrow> bool" where
  "heap_wf M h \<longleftrightarrow>
     RZ_NBYTES \<le> fst M \<and> snd M < 4294967296 \<and>
     (\<forall>t \<in> dom h. block_ok M t \<and> (\<forall>u \<in> dom h. separate t u))"

definition resumable :: "nat \<times> nat \<Rightarrow> 'k kern \<Rightarrow> u32 \<Rightarrow> bool" where
  "resumable M k t \<longleftrightarrow>
     (\<exists>b. k_heap k t = Some b \<and> in_stack (home M (scheduler_thread k) t) (saved_sp b) 36)"

text \<open>The running thread has room for its nine saved registers on its stack.\<close>

definition can_save :: "nat \<times> nat \<Rightarrow> 'k kern \<Rightarrow> u32 \<Rightarrow> bool" where
  "can_save M k t \<longleftrightarrow>
     in_stack (home M (scheduler_thread k) t) (c_sp (cpu k) - 36) 36 \<and> length (c_r4_11 (cpu k)) = 8"

text \<open>The run queue is \<open>rs\<close>, the free queue is \<open>fs\<close>, the current thread and the scheduler are on
  neither, and every thread of the run queue has its context on its own stack.  This much holds
  whether threads run or not.\<close>

definition q_inv :: "nat \<times> nat \<Rightarrow> 'k kern \<Rightarrow> u32 list \<Rightarrow> u32 list \<Rightarrow> bool" where
  "q_inv M k rs fs \<longleftrightarrow>
     heap_wf M (k_heap k) \<and> q_repr (k_heap k) (runq k) rs \<and> q_repr (k_heap k) (freeq k) fs \<and>
     set rs \<inter> set fs = {} \<and> cur_thread k \<notin> set rs \<union> set fs \<and>
     scheduler_thread k \<notin> set rs \<union> set fs \<and>
     {cur_thread k, scheduler_thread k} \<subseteq> insert 0 (dom (k_heap k)) \<and>
     (\<forall>t \<in> set rs. resumable M k t) \<and> rz_ok (k_ram k)"

text \<open>While a thread runs: the scheduler waits with its context on the main stack, and the \<open>next\<close>
  field of the running thread is null or the head of the run queue, on which \<open>rpi_exit\<close> relies.\<close>

definition th_inv :: "nat \<times> nat \<Rightarrow> 'k kern \<Rightarrow> u32 list \<Rightarrow> u32 list \<Rightarrow> bool" where
  "th_inv M k rs fs \<longleftrightarrow>
     q_inv M k rs fs \<and> cur_thread k \<in> dom (k_heap k) \<and> scheduler_thread k \<noteq> cur_thread k \<and>
     resumable M k (scheduler_thread k) \<and>
     (\<forall>b. k_heap k (cur_thread k) = Some b \<longrightarrow> nxt b \<noteq> 0 \<longrightarrow> rs \<noteq> [] \<and> nxt b = hd rs)"

type_synonym sched = "(u32 \<times> ctx) \<times> (u32 \<times> ctx) list"

definition sched_of :: "'k kern \<Rightarrow> u32 list \<Rightarrow> sched" where
  "sched_of k rs = ((cur_thread k, ctx_of (cpu k)), map (\<lambda>t. (t, saved_ctx k t)) rs)"

text \<open>The contract of the package: round robin over register contexts.  \<open>ret\<close> is the address at
  which the thread that gives up the processor will continue.\<close>

fun sched_yield :: "u32 \<Rightarrow> sched \<Rightarrow> sched" where
  "sched_yield ret ((t, x), []) = ((t, x), [])"
| "sched_yield ret ((t, x), (u, y) # r) = ((u, y), r @ [(t, x\<lparr>x_pc := ret\<rparr>)])"

fun sched_exit :: "u32 \<times> ctx \<Rightarrow> sched \<Rightarrow> sched" where
  "sched_exit s (_, []) = (s, [])"
| "sched_exit s (_, u # r) = (u, r)"

fun sched_fork :: "u32 \<times> ctx \<Rightarrow> sched \<Rightarrow> sched" where
  "sched_fork t (c, r) = (c, r @ [t])"

lemmas kern_simps = stack_off_def sizeof_thread_def THREAD_MAXSTACK_def RZ_NBYTES_def stack_addr_def

subsection \<open>Frame lemmas\<close>

lemma q_repr_upd_same_next:
  assumes "h x = Some b" and "nxt b' = nxt b" and "q_repr h q xs"
  shows "q_repr (h(x \<mapsto> b')) q xs"
proof -
  have "lseg h p ys \<Longrightarrow> lseg (h(x \<mapsto> b')) p ys" for p ys
    using assms(1,2) by (induction ys arbitrary: p) auto
  then show ?thesis using assms(3) by (simp add: q_repr_def)
qed

lemma same_but_next_fields:
  fixes h h' :: th_heap
  assumes "same_but_next h h'" and "h t = Some b"
  obtains b' where "h' t = Some b'" and "saved_sp b' = saved_sp b" and "tid b' = tid b"
proof -
  have "h' t \<noteq> None" using assms by (simp add: same_but_next_def)
  then obtain b' where b': "h' t = Some b'" by blast
  then have e: "b' = b\<lparr>nxt := nxt b'\<rparr>" using assms by (auto simp: same_but_next_def)
  have "saved_sp b' = saved_sp b" "tid b' = tid b" by (subst e, simp)+
  then show ?thesis using that b' by blast
qed

lemma same_but_next_dom: "same_but_next h h' \<Longrightarrow> dom h' = dom h"
  by (simp add: same_but_next_def dom_def)

lemma heap_wf_dom: "dom h' = dom h \<Longrightarrow> heap_wf M h' = heap_wf M h"
  by (simp add: heap_wf_def)

lemma saved_ctx_same:
  assumes "same_but_next (k_heap k) (k_heap k')" and "k_ram k' = k_ram k" and "t \<in> dom (k_heap k)"
  shows "saved_ctx k' t = saved_ctx k t"
proof -
  obtain b b' where "k_heap k t = Some b" "k_heap k' t = Some b'" "saved_sp b' = saved_sp b"
    using assms same_but_next_fields [OF assms(1)] by (metis domD)
  then show ?thesis using assms(2) by (simp add: saved_ctx_def)
qed

lemma resumable_same:
  assumes "same_but_next (k_heap k) (k_heap k')" and "scheduler_thread k' = scheduler_thread k"
    and "resumable M k t"
  shows "resumable M k' t"
proof -
  obtain b where b: "k_heap k t = Some b" "in_stack (home M (scheduler_thread k) t) (saved_sp b) 36"
    using assms(3) by (auto simp: resumable_def)
  obtain b' where "k_heap k' t = Some b'" "saved_sp b' = saved_sp b"
    using same_but_next_fields [OF assms(1) b(1)] by blast
  then show ?thesis using b(2) assms(2) by (simp add: resumable_def)
qed

lemma heap_wf_valid: "heap_wf M h \<Longrightarrow> t \<in> dom h \<Longrightarrow> valid h t"
proof -
  assume "heap_wf M h" and t: "t \<in> dom h"
  then have "4096 \<le> unat t" by (simp add: heap_wf_def block_ok_def RZ_NBYTES_def)
  then have "t \<noteq> 0" by auto
  then show ?thesis using t by (simp add: valid_def domIff)
qed

lemma heap_wf_deref: "heap_wf M h \<Longrightarrow> h t = Some b \<Longrightarrow> deref h t = Inr b"
  using heap_wf_valid [of M h t] by (auto simp: deref_def valid_def)

lemma home_apart:
  assumes "heap_wf M h" and "t \<in> dom h" and "u \<in> dom h" and "t \<noteq> u"
    and "in_stack (home M s t) p n" and "in_stack (home M s u) q m"
  shows "unat p + n \<le> unat q \<or> unat q + m \<le> unat p"
proof -
  have "separate t u" "block_ok M t" "block_ok M u" using assms(1-3) by (auto simp: heap_wf_def)
  then show ?thesis
    using assms(4-6) by (auto simp: in_stack_def separate_def home_def block_ok_def kern_simps split: if_splits)
qed

lemma home_bounds:
  "heap_wf M h \<Longrightarrow> t \<in> dom h \<Longrightarrow> in_stack (home M s t) p n \<Longrightarrow> 4096 \<le> unat p \<and> unat p + n \<le> 4294967296"
proof -
  assume wf: "heap_wf M h" "t \<in> dom h" and i: "in_stack (home M s t) p n"
  have "RZ_NBYTES \<le> fst M" "snd M < 4294967296" "block_ok M t" using wf by (simp_all add: heap_wf_def)
  then show ?thesis using i
    by (cases "t = s") (auto simp: in_stack_def block_ok_def home_def RZ_NBYTES_def)
qed

subsection \<open>The context switch saves one context and restores another\<close>

lemma call_cswitch_spec:
  assumes wf: "heap_wf M (k_heap k)" and old: "k_heap k old = Some b0" and room: "can_save M k old"
    and t: "k_heap k t = Some bt" "in_stack (home M (scheduler_thread k) t) (saved_sp bt) 36" "t \<noteq> old"
  obtains k' c ram where "call_cswitch L ret old (saved_sp bt) k = Inr k'"
    and "k' = k\<lparr>k_ram := ram, k_heap := (k_heap k)(old \<mapsto> b0\<lparr>saved_sp := c_sp (cpu k) - 36\<rparr>), cpu := c\<rparr>"
    and "ctx_of c = saved_ctx k t"
    and "saved_ctx k' old = (ctx_of (cpu k))\<lparr>x_pc := ret\<rparr>" and "resumable M k' old"
    and "\<forall>u. resumable M k u \<longrightarrow> u \<noteq> old \<longrightarrow> resumable M k' u \<and> saved_ctx k' u = saved_ctx k u"
    and "rz_ok ram = rz_ok (k_ram k)"
proof -
  let ?S = "home M (scheduler_thread k)" and ?c = "cpu k" and ?sp = "c_sp (cpu k) - 36"
  let ?ws = "c_r4_11 ?c @ [ret]"
  let ?ram = "stm (k_ram k) ?sp ?ws"
  let ?h = "(k_heap k)(old \<mapsto> b0\<lparr>saved_sp := ?sp\<rparr>)"
  let ?l = "ldm ?ram (saved_sp bt) 9"
  let ?c' = "\<lparr>c_r0 = old, c_r1 = saved_sp bt, c_r4_11 = take 8 ?l, c_sp = saved_sp bt + 36,
              c_lr = l_cswitch_end L, c_pc = ?l ! 8\<rparr>"
  let ?k = "k\<lparr>k_ram := ?ram, k_heap := ?h, cpu := ?c'\<rparr>"
  have len: "length ?ws = 9" and st: "in_stack (?S old) ?sp 36" using room by (auto simp: can_save_def)
  have bo: "4096 \<le> unat ?sp \<and> unat ?sp + 36 \<le> 4294967296"
    using home_bounds [OF wf _ st] old by auto
  have run: "call_cswitch L ret old (saved_sp bt) k = Inr ?k"
    using st t heap_wf_deref [OF wf old]
    by (simp add: call_cswitch_def rpi_cswitch_def aligned_access_def put_saved_sp_def in_stack_def
        Let_def)
  have ldm: "ldm ?ram (saved_sp b) 9 = ldm (k_ram k) (saved_sp b) 9"
    if "k_heap k u = Some b" "in_stack (?S u) (saved_sp b) 36" "u \<noteq> old" for u b
  proof -
    have "u \<in> dom (k_heap k)" "old \<in> dom (k_heap k)" using that(1) old by auto
    then show ?thesis
      using home_apart [OF wf _ _ that(3,2) st] home_bounds [OF wf _ that(2)] bo len
      by (intro ldm_stm_other) auto
  qed
  have c': "ctx_of ?c' = saved_ctx k t"
    using t(1) ldm [OF t] by (simp add: ctx_of_def saved_ctx_def Let_def)
  have ldo: "ldm ?ram ?sp 9 = ?ws"
    using ldm_stm_same [of ?sp ?ws "k_ram k"] bo unfolding len by simp
  have so: "saved_ctx ?k old = (ctx_of ?c)\<lparr>x_pc := ret\<rparr>"
    using len by (simp add: saved_ctx_def ldo ctx_of_def nth_append Let_def)
  have other: "resumable M ?k u \<and> saved_ctx ?k u = saved_ctx k u" if "resumable M k u" "u \<noteq> old" for u
    using that ldm by (auto simp: resumable_def saved_ctx_def Let_def)
  have "rz_ok ?ram = rz_ok (k_ram k)"
    using bo len by (intro rz_ok_stm) auto
  moreover have "resumable M ?k old" using st by (simp add: resumable_def)
  ultimately show ?thesis using that [OF run refl c' so] other by blast
qed

text \<open>The state in which a routine calls the context switch: the queues and \<open>cur_thread\<close> are
  updated, the context of \<open>old\<close> is not saved yet.\<close>

definition switching :: "nat \<times> nat \<Rightarrow> u32 \<Rightarrow> 'k kern \<Rightarrow> u32 list \<Rightarrow> u32 list \<Rightarrow> bool" where
  "switching M old k rs fs \<longleftrightarrow>
     heap_wf M (k_heap k) \<and> q_repr (k_heap k) (runq k) rs \<and> q_repr (k_heap k) (freeq k) fs \<and>
     set rs \<inter> set fs = {} \<and> cur_thread k \<notin> set rs \<union> set fs \<and>
     scheduler_thread k \<in> dom (k_heap k) \<and> scheduler_thread k \<notin> set rs \<union> set fs \<and>
     old \<in> dom (k_heap k) \<and> cur_thread k \<noteq> old \<and> resumable M k (cur_thread k) \<and>
     (\<forall>u \<in> set rs \<union> {scheduler_thread k}. u = old \<or> resumable M k u) \<and>
     (\<forall>b. k_heap k (cur_thread k) = Some b \<longrightarrow> cur_thread k \<noteq> scheduler_thread k \<longrightarrow> nxt b \<noteq> 0 \<longrightarrow> rs \<noteq> [] \<and> nxt b = hd rs) \<and>
     rz_ok (k_ram k) \<and> can_save M k old"

lemma switch_inv:
  assumes "switching M old k rs fs"
  obtains k' where
    "bnd (deref (k_heap k) (cur_thread k)) (\<lambda>b. call_cswitch L ret old (saved_sp b) k) = Inr k'"
    and "scheduler_thread k \<noteq> cur_thread k \<Longrightarrow> th_inv M k' rs fs"
    and "q_inv M k' rs fs"
    and "cur_thread k' = cur_thread k" and "scheduler_thread k' = scheduler_thread k"
    and "ctx_of (cpu k') = saved_ctx k (cur_thread k)"
    and "saved_ctx k' old = (ctx_of (cpu k))\<lparr>x_pc := ret\<rparr>"
    and "\<And>u. u \<in> set rs \<union> {scheduler_thread k} \<Longrightarrow> u \<noteq> old \<Longrightarrow> saved_ctx k' u = saved_ctx k u"
proof -
  let ?t = "cur_thread k"
  obtain bt where bt: "k_heap k ?t = Some bt" "in_stack (home M (scheduler_thread k) ?t) (saved_sp bt) 36"
    using assms by (auto simp: switching_def resumable_def)
  obtain b0 where b0: "k_heap k old = Some b0" using assms by (auto simp: switching_def)
  have wf: "heap_wf M (k_heap k)" and room: "can_save M k old" and ne: "?t \<noteq> old"
    using assms by (auto simp: switching_def)
  obtain k' c ram where run: "call_cswitch L ret old (saved_sp bt) k = Inr k'"
    and k': "k' = k\<lparr>k_ram := ram, k_heap := (k_heap k)(old \<mapsto> b0\<lparr>saved_sp := c_sp (cpu k) - 36\<rparr>), cpu := c\<rparr>"
    and c: "ctx_of c = saved_ctx k ?t"
    and so: "saved_ctx k' old = (ctx_of (cpu k))\<lparr>x_pc := ret\<rparr>" and ro: "resumable M k' old"
    and other: "\<forall>u. resumable M k u \<longrightarrow> u \<noteq> old \<longrightarrow> resumable M k' u \<and> saved_ctx k' u = saved_ctx k u"
    and rz: "rz_ok ram = rz_ok (k_ram k)"
    by (rule call_cswitch_spec [OF wf b0 room bt ne, of L ret])
  have "dom (k_heap k') = dom (k_heap k)" using b0 by (auto simp: k')
  then have "heap_wf M (k_heap k')" using wf heap_wf_dom by blast
  moreover have q: "q_repr (k_heap k') q xs" if "q_repr (k_heap k) q xs" for q xs
    using that b0 k' q_repr_upd_same_next [OF b0 _ that, of "b0\<lparr>saved_sp := c_sp (cpu k) - 36\<rparr>"] by simp
  moreover have "\<forall>u \<in> set rs \<union> {scheduler_thread k}. resumable M k' u"
    using assms other ro by (auto simp: switching_def)
  ultimately have qi: "q_inv M k' rs fs" and "resumable M k' (scheduler_thread k)"
    using assms k' rz bt(1) unfolding q_inv_def switching_def by auto
  then have inv: "th_inv M k' rs fs" if "scheduler_thread k \<noteq> ?t"
    using assms that k' bt b0 ne unfolding th_inv_def switching_def by auto
  have run': "bnd (deref (k_heap k) ?t) (\<lambda>b. call_cswitch L ret old (saved_sp b) k) = Inr k'"
    using heap_wf_deref [OF wf bt(1)] run by simp
  have f: "cur_thread k' = ?t" "scheduler_thread k' = scheduler_thread k"
    "ctx_of (cpu k') = saved_ctx k ?t"
    using k' c by simp_all
  have oth: "saved_ctx k' u = saved_ctx k u" if "u \<in> set rs \<union> {scheduler_thread k}" "u \<noteq> old" for u
  proof -
    have "resumable M k u" using assms that unfolding switching_def by blast
    then show ?thesis using other that(2) by blast
  qed
  show ?thesis by (rule that [OF run' inv qi f so oth])
qed

lemma rpi_yield_refines_lemma:
  assumes inv: "th_inv M k (t # ts) fs" and room: "can_save M k (cur_thread k)"
  shows "\<exists>k'. rpi_yield L k = Inr k' \<and> th_inv M k' (ts @ [cur_thread k]) fs \<and>
     sched_of k' (ts @ [cur_thread k]) = sched_yield (l_ret_yield L) (sched_of k (t # ts)) \<and>
     scheduler_thread k' = scheduler_thread k \<and>
     saved_ctx k' (scheduler_thread k) = saved_ctx k (scheduler_thread k)"
proof -
  let ?c = "cur_thread k" and ?s = "scheduler_thread k"
  have wf: "heap_wf M (k_heap k)" and q: "q_repr (k_heap k) (runq k) (t # ts)"
    and c: "?c \<in> dom (k_heap k)" "?c \<notin> set (t # ts)"
    and fs: "q_repr (k_heap k) (freeq k) fs" "set (t # ts) \<inter> set fs = {}" "?c \<notin> set fs"
    and s: "?s \<in> dom (k_heap k)" "?s \<notin> set (t # ts)" "?s \<notin> set fs" "?s \<noteq> ?c"
    and res: "\<forall>u \<in> set (t # ts) \<union> {?s}. resumable M k u" and rz: "rz_ok (k_ram k)"
    using inv by (auto simp: th_inv_def q_inv_def resumable_def)
  obtain h1 q1 q2 where qa: "Q_append (k_heap k) (runq k) ?c = Inr (h1, q1)"
    and qp: "Q_pop h1 q1 = Inr (t, q2)" and q2: "q_repr h1 q2 (ts @ [?c])"
    and same: "same_but_next (k_heap k) h1"
    and frame: "\<forall>p. p \<notin> set (t # ts) \<longrightarrow> p \<noteq> ?c \<longrightarrow> h1 p = k_heap k p"
    and q1: "q_repr h1 q1 (t # ts @ [?c])"
    using Qq.append_pop [OF q heap_wf_valid [OF wf c(1)] c(2)]
      Qq.append_law [OF q heap_wf_valid [OF wf c(1)] c(2)] by auto
  let ?k = "k\<lparr>k_heap := h1, runq := q2, cur_thread := t\<rparr>"
  have dom: "dom h1 = dom (k_heap k)" by (rule same_but_next_dom [OF same])
  have res1: "resumable M ?k u" if "resumable M k u" for u
    using resumable_same [of k ?k M u] same that by simp
  have ctx1: "saved_ctx ?k u = saved_ctx k u" if "u \<in> dom (k_heap k)" for u
    using saved_ctx_same [of k ?k u] same that by simp
  have can1: "can_save M ?k ?c" using room by (simp add: can_save_def)
  have "q_repr h1 (freeq k) fs"
    using Qq.rel_frame [OF fs(1), of h1] frame fs by fastforce
  moreover have "\<forall>b. h1 t = Some b \<longrightarrow> nxt b \<noteq> 0 \<longrightarrow> nxt b = hd (ts @ [?c])"
    using q1 lseg_next [of h1 t t "ts @ [?c]"] by (auto simp: q_repr_def)
  ultimately have sw: "switching M ?c ?k (ts @ [?c]) fs"
    using wf q2 c fs s res rz can1 dom res1 heap_wf_dom [OF dom] Qq.rel_distinct [OF q]
    by (auto simp: switching_def)
  obtain k' where run: "bnd (deref h1 t) (\<lambda>b. call_cswitch L (l_ret_yield L) ?c (saved_sp b) ?k) = Inr k'"
    and k': "th_inv M k' (ts @ [?c]) fs" "cur_thread k' = t" "scheduler_thread k' = ?s"
      "ctx_of (cpu k') = saved_ctx ?k t" "saved_ctx k' ?c = (ctx_of (cpu k))\<lparr>x_pc := l_ret_yield L\<rparr>"
    and ctx: "\<And>u. u \<in> set (ts @ [?c]) \<union> {?s} \<Longrightarrow> u \<noteq> ?c \<Longrightarrow> saved_ctx k' u = saved_ctx ?k u"
    using switch_inv [OF sw, of L "l_ret_yield L"] s by auto
  have "rpi_yield L k = Inr k'"
    using run qa qp rz Q_empty_repr [OF q] by (simp add: rpi_yield_def redzone_check_def)
  moreover have inset: "u \<in> dom (k_heap k)" if "u \<in> set (t # ts) \<union> {?s}" for u
    using res that by (auto simp: resumable_def)
  have same_ctx: "saved_ctx k' u = saved_ctx k u" if "u \<in> set ts \<union> {?s}" for u
  proof -
    have "u \<in> dom (k_heap k)" "u \<noteq> ?c" using that inset c(2) s(4) by auto
    then show ?thesis using ctx [of u] ctx1 that by simp
  qed
  ultimately show ?thesis
    using k' same_ctx ctx1 inset by (simp add: sched_of_def)
qed

lemma rpi_exit_lemma:
  assumes inv: "th_inv M k rs fs" and room: "can_save M k (cur_thread k)"
    and b: "k_heap k (cur_thread k) = Some b"
  obtains k' where "rpi_exit L k = Inr k'"
    and "nxt b \<noteq> 0 \<Longrightarrow> th_inv M k' (tl rs) (cur_thread k # fs) \<and>
           sched_of k' (tl rs) = sched_exit (scheduler_thread k, saved_ctx k (scheduler_thread k)) (sched_of k rs)"
    and "nxt b = 0 \<Longrightarrow> q_inv M k' rs (cur_thread k # fs) \<and> cur_thread k' = scheduler_thread k \<and>
           ctx_of (cpu k') = saved_ctx k (scheduler_thread k)"
    and "scheduler_thread k' = scheduler_thread k"
proof -
  let ?c = "cur_thread k" and ?s = "scheduler_thread k"
  have wf: "heap_wf M (k_heap k)" and q: "q_repr (k_heap k) (runq k) rs"
    and c: "?c \<in> dom (k_heap k)" "?c \<notin> set rs" "?c \<notin> set fs"
    and fs: "q_repr (k_heap k) (freeq k) fs" "set rs \<inter> set fs = {}"
    and s: "?s \<in> dom (k_heap k)" "?s \<notin> set rs" "?s \<notin> set fs" "?s \<noteq> ?c"
    and res: "\<forall>u \<in> set rs \<union> {?s}. resumable M k u" and rz: "rz_ok (k_ram k)"
    and link: "nxt b \<noteq> 0 \<Longrightarrow> rs \<noteq> [] \<and> nxt b = hd rs"
    using inv b by (auto simp: th_inv_def q_inv_def resumable_def)
  define rs' n where rs': "rs' = (if nxt b \<noteq> 0 then tl rs else rs)"
    and n_def: "n = (if nxt b \<noteq> 0 then nxt b else ?s)"
  obtain q1 where qp: "(if nxt b \<noteq> 0 then bnd (Q_pop (k_heap k) (runq k)) (\<lambda>(_, q). Inr (nxt b, k\<lparr>runq := q\<rparr>))
      else Inr (?s, k)) = Inr (n, k\<lparr>runq := q1\<rparr>)" and q1: "q_repr (k_heap k) q1 rs'"
  proof (cases "nxt b = 0")
    case False
    then obtain t ts where rs: "rs = t # ts" using link by (cases rs) auto
    obtain q1 where "Q_pop (k_heap k) (runq k) = Inr (t, q1)" "q_repr (k_heap k) q1 ts"
      using Qq.pop_cons q rs by blast
    then show ?thesis using False rs that by (simp add: rs' n_def)
  qed (use q that [of "runq k"] in \<open>simp add: rs' n_def\<close>)
  obtain h2 q2 where qf: "Q_push (k_heap k) (freeq k) ?c = Inr (h2, q2)" and q2: "q_repr h2 q2 (?c # fs)"
    and same: "same_but_next (k_heap k) h2" and frame: "\<forall>p. p \<noteq> ?c \<longrightarrow> h2 p = k_heap k p"
    using Qq.push_law [OF fs(1) heap_wf_valid [OF wf c(1)] c(3)] by blast
  let ?k = "k\<lparr>runq := q1, k_heap := h2, freeq := q2, cur_thread := n\<rparr>"
  have dom: "dom h2 = dom (k_heap k)" by (rule same_but_next_dom [OF same])
  have res1: "resumable M ?k u" if "resumable M k u" for u
    using resumable_same [of k ?k M u] same that by simp
  have ctx1: "saved_ctx ?k u = saved_ctx k u" if "u \<in> dom (k_heap k)" for u
    using saved_ctx_same [of k ?k u] same that by simp
  have can1: "can_save M ?k ?c" using room by (simp add: can_save_def)
  have sub: "set rs' \<subseteq> set rs" by (cases rs) (auto simp: rs')
  have "h2 p = k_heap k p" if "p \<in> set rs'" for p
    using that frame sub c(2) by (metis subsetD)
  then have q1': "q_repr h2 q1 rs'" by (intro Qq.rel_frame [OF q1]) auto
  have n: "n \<noteq> ?c \<and> n \<notin> set rs' \<and> n \<notin> set fs \<and> resumable M k n"
  proof (cases "nxt b = 0")
    case False
    then obtain t ts where rs: "rs = t # ts" and "nxt b = t" using link by (cases rs) auto
    then show ?thesis using False c fs res Qq.rel_distinct [OF q] by (auto simp: rs' n_def)
  qed (use s res in \<open>simp add: rs' n_def\<close>)
  have link1: "rs' \<noteq> [] \<and> nxt b' = hd rs'" if b': "h2 n = Some b'" "nxt b' \<noteq> 0" "n \<noteq> ?s" for b'
  proof -
    have "nxt b \<noteq> 0" using b'(3) by (auto simp: n_def)
    obtain t ts where rs: "rs = t # ts" and t: "nxt b = t" using link \<open>nxt b \<noteq> 0\<close> by (cases rs) auto
    have "k_heap k t = Some b'" using frame n b' t \<open>nxt b \<noteq> 0\<close> by (auto simp: n_def)
    moreover have "lseg (k_heap k) t (t # ts)" using q rs by (auto simp: q_repr_def)
    ultimately have "nxt b' = (if ts = [] then 0 else hd ts)" by (intro lseg_next)
    moreover have "rs' = ts" using \<open>nxt b \<noteq> 0\<close> rs rs' by simp
    ultimately show ?thesis using b'(2) by (simp split: if_splits)
  qed
  have apart: "set rs' \<inter> set (?c # fs) = {}" "?s \<notin> set rs' \<union> set (?c # fs)"
    "n \<notin> set rs' \<union> set (?c # fs)"
    using sub c fs s n by auto
  have ready: "resumable M ?k u" if "u \<in> set rs' \<union> {?s}" for u
    using that sub res by (intro res1) auto
  have sw: "switching M ?c ?k rs' (?c # fs)"
    unfolding switching_def
    using wf q1' q2 c(1) s(1) rz can1 dom res1 n heap_wf_dom [OF dom] apart ready link1
    by simp
  obtain k' where run: "bnd (deref h2 n) (\<lambda>b. call_cswitch L (l_ret_exit L) ?c (saved_sp b) ?k) = Inr k'"
    and k': "?s \<noteq> n \<Longrightarrow> th_inv M k' rs' (?c # fs)" "q_inv M k' rs' (?c # fs)"
      "cur_thread k' = n" "scheduler_thread k' = ?s" "ctx_of (cpu k') = saved_ctx ?k n"
    and ctx: "\<And>u. u \<in> set rs' \<union> {?s} \<Longrightarrow> u \<noteq> ?c \<Longrightarrow> saved_ctx k' u = saved_ctx ?k u"
    using switch_inv [OF sw, of L "l_ret_exit L"] by auto
  have run': "rpi_exit L k = Inr k'"
    using run qp qf rz heap_wf_deref [OF wf b]
    by (simp add: rpi_exit_def redzone_check_def rpi_cur_thread_def Q_next_def th_free_def Let_def)
  have inset: "u \<in> dom (k_heap k)" if "u \<in> set rs \<union> {?s}" for u
    using res that by (auto simp: resumable_def)
  have same_ctx: "saved_ctx k' u = saved_ctx k u" if "u \<in> set rs'" for u
    using ctx [of u] ctx1 inset sub c(2) that by fastforce
  have cpu': "ctx_of (cpu k') = saved_ctx k n"
    using k'(5) ctx1 inset n by (auto simp: resumable_def)
  show ?thesis
  proof (rule that [OF run'])
    assume nb: "nxt b \<noteq> 0"
    then obtain t ts where rs: "rs = t # ts" "nxt b = t" using link by (cases rs) auto
    then have e: "n = t" "rs' = ts" "?s \<noteq> n" using nb s by (auto simp: n_def rs')
    then show "th_inv M k' (tl rs) (?c # fs) \<and>
        sched_of k' (tl rs) = sched_exit (?s, saved_ctx k ?s) (sched_of k rs)"
      using k'(1,3) cpu' same_ctx rs by (simp add: sched_of_def)
  next
    assume "nxt b = 0"
    then have "n = ?s" "rs' = rs" by (simp_all add: n_def rs')
    then show "q_inv M k' rs (?c # fs) \<and> cur_thread k' = ?s \<and> ctx_of (cpu k') = saved_ctx k ?s"
      using k'(2,3) cpu' by simp
  qed (rule k'(4))
qed

subsection \<open>Allocating and forking\<close>

text \<open>\<open>t\<close> is the block the next \<open>th_alloc\<close> returns: the first free one, else a fresh one of
  \<open>kmalloc_aligned\<close>, aligned and apart from everything in use.\<close>

definition can_alloc ::
    "nat \<times> nat \<Rightarrow> 'k kma \<Rightarrow> 'k kern \<Rightarrow> u32 list \<Rightarrow> u32 \<Rightarrow> u32 list \<Rightarrow> bool" where
  "can_alloc M kma k fs t fs' \<longleftrightarrow>
     fs = t # fs' \<or>
     fs = [] \<and> fs' = [] \<and> (\<exists>blk m. kma sizeof_thread 8 (kmem k) = Inr (t, blk, m)) \<and>
     k_heap k t = None \<and> block_ok M t \<and> (\<forall>u \<in> dom (k_heap k). separate t u \<and> separate u t)"

lemma and3_iff: "(x :: u32) AND 3 = 0 \<longleftrightarrow> unat x mod 4 = 0"
proof -
  have "x AND 3 = take_bit 2 x" by (simp add: take_bit_eq_mask mask_eq_exp_minus_1)
  moreover have "unat (take_bit 2 x) = unat x mod 4" by (simp add: take_bit_eq_mod unat_mod_distrib)
  ultimately show ?thesis by (metis unsigned_0 unat_eq_zero)
qed

lemma stack_top:
  assumes "block_ok M t"
  shows "unat (stack_addr t THREAD_MAXSTACK - 36) = unat t + 8180" and "unat (stack_addr t 0) = unat t + 24"
proof -
  have lt: "unat t + 8216 < 4294967296" using assms by (simp add: block_ok_def kern_simps)
  have "unat (t + 8180) = unat t + 8180" using lt unat_add_small [of t 8180] by simp
  moreover have "stack_addr t THREAD_MAXSTACK - 36 = t + 8180" by (simp add: kern_simps)
  ultimately show "unat (stack_addr t THREAD_MAXSTACK - 36) = unat t + 8180" by (simp only:)
  show "unat (stack_addr t 0) = unat t + 24"
    using lt unat_add_small [of t 24] by (simp add: kern_simps)
qed

lemma q_repr_dom: "q_repr h q xs \<Longrightarrow> x \<in> set xs \<Longrightarrow> x \<in> dom h"
  using lseg_valid by (fastforce simp: q_repr_def valid_def)

lemma th_alloc_lemma:
  assumes inv: "q_inv M k rs fs" and src: "can_alloc M kma k fs t fs'"
  obtains h' fq m na where
    "th_alloc kma k = Inr (t, k\<lparr>freeq := fq, kmem := m, nalloced := na, k_heap := h',
                                next_tid := next_tid k + 1\<rparr>)"
    and "heap_wf M h'" and "q_repr h' (runq k) rs" and "q_repr h' fq fs'"
    and "\<exists>b. h' t = Some b \<and> tid b = next_tid k" and "\<forall>u. u \<noteq> t \<longrightarrow> h' u = k_heap k u"
    and "t \<notin> set rs \<union> set fs'" and "t \<noteq> cur_thread k" and "t \<noteq> scheduler_thread k" and "block_ok M t"
    and "set fs' \<subseteq> set fs"
proof -
  have wf: "heap_wf M (k_heap k)" and q: "q_repr (k_heap k) (runq k) rs" "q_repr (k_heap k) (freeq k) fs"
    and d: "set rs \<inter> set fs = {}" "cur_thread k \<notin> set fs" "scheduler_thread k \<notin> set fs"
      "{cur_thread k, scheduler_thread k} \<subseteq> insert 0 (dom (k_heap k))" and rz: "rz_ok (k_ram k)"
    using inv by (auto simp: q_inv_def)
  show ?thesis
  proof (cases "fs = t # fs'")
    case True
    obtain fq where fq: "Q_pop (k_heap k) (freeq k) = Inr (t, fq)" "q_repr (k_heap k) fq fs'"
      using Qq.pop_cons q(2) True by blast
    obtain b where b: "k_heap k t = Some b" using q_repr_dom [OF q(2)] True by auto
    let ?h = "(k_heap k)(t \<mapsto> b\<lparr>tid := next_tid k\<rparr>)"
    have t: "block_ok M t" "t \<noteq> 0" using wf b heap_wf_valid [OF wf] by (auto simp: heap_wf_def valid_def)
    have al: "unat (stack_addr t 0) mod 8 = 0"
      using stack_top(2) [OF t(1)] t(1) by (simp add: block_ok_def mod_add_eq [symmetric])
    have run: "th_alloc kma k = Inr (t, k\<lparr>freeq := fq, kmem := kmem k, nalloced := nalloced k, k_heap := ?h,
        next_tid := next_tid k + 1\<rparr>)"
      using fq rz t al heap_wf_deref [OF wf b] by (simp add: th_alloc_def redzone_check_def)
    have "dom ?h = dom (k_heap k)" using b by auto
    then have "heap_wf M ?h" using wf heap_wf_dom by blast
    moreover have "q_repr ?h q' xs" if "q_repr (k_heap k) q' xs" for q' xs
      using q_repr_upd_same_next [OF b _ that] by simp
    moreover have "t \<notin> set rs \<union> set fs'" using d True Qq.rel_distinct [OF q(2)] by auto
    ultimately show ?thesis using that [OF run] q(1) fq t d True by auto
  next
    case False
    then have fs: "fs = []" "fs' = []" "k_heap k t = None" "block_ok M t"
      and sep: "\<forall>u \<in> dom (k_heap k). separate t u \<and> separate u t" using src by (auto simp: can_alloc_def)
    obtain blk m where kma: "kma sizeof_thread 8 (kmem k) = Inr (t, blk, m)"
      using src False by (auto simp: can_alloc_def)
    let ?h = "(k_heap k)(t \<mapsto> blk\<lparr>tid := next_tid k\<rparr>)"
    have "4096 \<le> unat t" using fs by (simp add: block_ok_def RZ_NBYTES_def)
    then have t0: "t \<noteq> 0" by auto
    have al: "unat (stack_addr t 0) mod 8 = 0"
      using stack_top(2) [OF fs(4)] fs(4) by (simp add: block_ok_def mod_add_eq [symmetric])
    have run: "th_alloc kma k = Inr (t, k\<lparr>freeq := freeq k, kmem := m, nalloced := nalloced k + 1,
        k_heap := ?h, next_tid := next_tid k + 1\<rparr>)"
      using Qq.pop_nil [of "k_heap k" "freeq k"] q(2) fs rz t0 al kma
      by (simp add: th_alloc_def redzone_check_def deref_def)
    have "heap_wf M ?h" using wf fs(4) sep by (auto simp: heap_wf_def separate_def)
    moreover have fr: "t \<notin> set rs" using q_repr_dom [OF q(1)] fs(3) by auto
    moreover have "q_repr ?h (runq k) rs" using q(1) fr by (intro Qq.rel_frame [OF q(1)]) auto
    moreover have "q_repr ?h (freeq k) []" using q(2) fs by (simp add: q_repr_def)
    moreover have "t \<noteq> cur_thread k" "t \<noteq> scheduler_thread k" using d(4) fs(3) t0 by auto
    ultimately show ?thesis using that [OF run] fs by auto
  qed
qed

lemma forked_ctx:
  assumes "block_ok M t" and "k_heap k t = Some b" and "saved_sp b = stack_addr t THREAD_MAXSTACK - 4 * 9"
    and "k_ram k = ram(saved_sp b + 4 * 8 := tramp, saved_sp b := code, saved_sp b + 4 := arg)"
  shows "x_pc (saved_ctx k t) = tramp" and "x_regs (saved_ctx k t) ! 0 = code"
    and "x_regs (saved_ctx k t) ! 1 = arg" and "x_sp (saved_ctx k t) = stack_addr t THREAD_MAXSTACK"
proof -
  have n9: "(9 :: nat) = Suc (Suc (Suc (Suc (Suc (Suc (Suc (Suc (Suc 0))))))))" by simp
  show "x_pc (saved_ctx k t) = tramp" "x_regs (saved_ctx k t) ! 0 = code"
    "x_regs (saved_ctx k t) ! 1 = arg" "x_sp (saved_ctx k t) = stack_addr t THREAD_MAXSTACK"
    using assms(2,4) unfolding saved_ctx_def Let_def n9 by (simp_all add: add.assoc) (simp add: assms(3))
qed

lemma stack_area_apart:
  assumes "heap_wf M h" and "t \<in> dom h" and "u \<in> dom h" and "u \<noteq> t" and "t \<noteq> s"
    and "in_stack (home M s u) p 36"
    and "\<And>q. ram' q \<noteq> ram q \<Longrightarrow> unat t + stack_off \<le> unat q \<and> unat q + 4 \<le> unat t + sizeof_thread \<and> q AND 3 = 0"
  shows "ldm ram' p 9 = ldm ram p 9"
proof (rule ldm_cong)
  fix q :: u32 assume "unat p \<le> unat q" "unat q < unat p + 4 * 9"
  show "ram' q = ram q"
  proof (rule ccontr)
    assume "ram' q \<noteq> ram q"
    then have "in_stack (home M s t) q 4" using assms(5,7) by (auto simp: in_stack_def home_def)
    then show False
      using home_apart [OF assms(1,3,2,4,6)] \<open>unat p \<le> unat q\<close> \<open>unat q < unat p + 4 * 9\<close> by fastforce
  qed
qed (use home_bounds [OF assms(1,3,6)] in simp)

lemma rpi_fork_lemma:
  assumes inv: "q_inv M k rs fs" and src: "can_alloc M kma k fs t fs'"
  obtains k' where "rpi_fork L kma code arg k = Inr (t, k')" and "q_inv M k' (rs @ [t]) fs'"
    and "\<And>u. u \<in> dom (k_heap k) \<Longrightarrow> u \<noteq> t \<Longrightarrow> resumable M k u \<Longrightarrow>
           resumable M k' u \<and> saved_ctx k' u = saved_ctx k u"
    and "x_pc (saved_ctx k' t) = l_trampoline L" and "x_regs (saved_ctx k' t) ! 0 = code"
    and "x_regs (saved_ctx k' t) ! 1 = arg" and "x_sp (saved_ctx k' t) = stack_addr t THREAD_MAXSTACK"
    and "\<exists>b. k_heap k' t = Some b \<and> tid b = next_tid k" and "next_tid k' = next_tid k + 1"
    and "cur_thread k' = cur_thread k" and "scheduler_thread k' = scheduler_thread k" and "cpu k' = cpu k"
    and "\<And>u. u \<noteq> t \<Longrightarrow> u \<notin> set rs \<Longrightarrow> k_heap k' u = k_heap k u"
    and "t \<noteq> cur_thread k" and "t \<noteq> scheduler_thread k"
proof -
  obtain h1 fq m na where al: "th_alloc kma k = Inr (t, k\<lparr>freeq := fq, kmem := m, nalloced := na,
      k_heap := h1, next_tid := next_tid k + 1\<rparr>)" (is "_ = Inr (t, ?k1)")
    and wf1: "heap_wf M h1" and q1: "q_repr h1 (runq k) rs" and f1: "q_repr h1 fq fs'"
    and b1: "\<exists>b. h1 t = Some b \<and> tid b = next_tid k" and same1: "\<forall>u. u \<noteq> t \<longrightarrow> h1 u = k_heap k u"
    and t: "t \<notin> set rs \<union> set fs'" "t \<noteq> cur_thread k" "t \<noteq> scheduler_thread k" "block_ok M t"
    and sub: "set fs' \<subseteq> set fs"
    by (rule th_alloc_lemma [OF inv src])
  obtain b where b: "h1 t = Some b" "tid b = next_tid k" using b1 by blast
  let ?sp = "stack_addr t THREAD_MAXSTACK - 4 * 9"
  let ?ram = "(k_ram k)(?sp + 4 * 8 := l_trampoline L, ?sp := code, ?sp + 4 := arg)"
  let ?h = "h1(t \<mapsto> b\<lparr>fn := code, targ := arg, saved_sp := ?sp\<rparr>)"
  have dom: "dom ?h = dom h1" using b by auto
  have wfh: "heap_wf M ?h" using wf1 heap_wf_dom [OF dom] by blast
  have qh: "q_repr ?h q xs" if "q_repr h1 q xs" for q xs
    using q_repr_upd_same_next [OF b(1) _ that] by simp
  obtain h' q' where ap: "Q_append ?h (runq k) t = Inr (h', q')" and q': "q_repr h' q' (rs @ [t])"
    and same: "same_but_next ?h h'" and frame: "\<forall>p. p \<notin> set rs \<longrightarrow> p \<noteq> t \<longrightarrow> h' p = ?h p"
    using Qq.append_law [OF qh [OF q1] heap_wf_valid [OF wfh], of t] t(1) dom b(1) by blast
  let ?k' = "?k1\<lparr>k_heap := h', k_ram := ?ram, runq := q'\<rparr>"
  have rz: "redzone_check k = Inr ([], True)"
    using inv by (simp add: q_inv_def redzone_check_def rz_reports_ok)
  have run: "rpi_fork L kma code arg k = Inr (t, ?k')"
    using rz al ap heap_wf_deref [OF wf1 b(1)] by (simp add: rpi_fork_def Let_def)
  have sp: "unat ?sp = unat t + 8180" using stack_top(1) [OF t(4)] by simp
  have tb: "unat t + 8216 < 4294967296" "unat t mod 8 = 0" using t(4) by (auto simp: block_ok_def kern_simps)
  have sp4: "unat (?sp + 4) = unat t + 8184" "unat (?sp + 4 * 8) = unat t + 8212"
    using sp tb unat_add_small [of ?sp 4] unat_add_small [of ?sp 32] by simp_all
  have ram: "unat t + stack_off \<le> unat q \<and> unat q + 4 \<le> unat t + sizeof_thread \<and> q AND 3 = 0"
    if "?ram q \<noteq> k_ram k q" for q
  proof -
    have "q = ?sp \<or> q = ?sp + 4 \<or> q = ?sp + 4 * 8" using that by (auto split: if_splits)
    moreover have "(unat t + 8180) mod 4 = 0" "(unat t + 8184) mod 4 = 0" "(unat t + 8212) mod 4 = 0"
      using tb(2) by presburger+
    ultimately show ?thesis using sp sp4 unfolding and3_iff by (auto simp: kern_simps)
  qed
  have ht: "?h t = Some (b\<lparr>fn := code, targ := arg, saved_sp := ?sp\<rparr>)" by simp
  obtain b' where b': "h' t = Some b'" "saved_sp b' = ?sp" "tid b' = next_tid k"
    by (rule same_but_next_fields [OF same ht]) (use b(2) in simp)
  have rest: "resumable M ?k' u \<and> saved_ctx ?k' u = saved_ctx k u"
    if u: "u \<in> dom (k_heap k)" "u \<noteq> t" "resumable M k u" for u
  proof -
    obtain c where c: "k_heap k u = Some c" "in_stack (home M (scheduler_thread k) u) (saved_sp c) 36"
      using u(3) by (auto simp: resumable_def)
    have "?h u = Some c" using same1 c u by simp
    then obtain c' where c': "h' u = Some c'" "saved_sp c' = saved_sp c"
      using same_but_next_fields [OF same] by blast
    have "u \<in> dom ?h" "t \<in> dom ?h" using \<open>?h u = Some c\<close> by auto
    then have "ldm ?ram (saved_sp c) 9 = ldm (k_ram k) (saved_sp c) 9"
      using stack_area_apart [OF wfh _ _ u(2) t(3) c(2)] ram by blast
    then show ?thesis using c c' by (simp add: resumable_def saved_ctx_def Let_def)
  qed
  have rt: "resumable M ?k' t"
    using b' sp tb t(3) by (simp add: resumable_def in_stack_def home_def kern_simps and3_iff; presburger)
  have rzr: "rz_ok ?ram = rz_ok (k_ram k)"
    using sp sp4 t(4) by (subst rz_ok_upd, simp add: block_ok_def RZ_NBYTES_def)+ simp
  have hk: "h' u = k_heap k u" if "u \<noteq> t" "u \<notin> set rs" for u
    using frame same1 that by auto
  have dom': "dom (k_heap k) \<subseteq> dom h'"
  proof
    fix u assume "u \<in> dom (k_heap k)"
    then have "u \<in> dom ?h" using same1 b(1) by (cases "u = t") (auto simp: domIff)
    then show "u \<in> dom h'" using same_but_next_dom [OF same] by simp
  qed
  have f': "q_repr h' fq fs'"
  proof (rule Qq.rel_frame [OF qh [OF f1]])
    have "set rs \<inter> set fs' = {}" using inv sub by (auto simp: q_inv_def)
    then show "\<forall>p \<in> set fs'. h' p = ?h p" using frame t(1) by blast
  qed
  have qi: "q_inv M ?k' (rs @ [t]) fs'"
  proof -
    have "heap_wf M h'" using wfh heap_wf_dom [OF same_but_next_dom [OF same]] by blast
    moreover have "resumable M ?k' u" if "u \<in> set rs" for u
    proof -
      have "resumable M k u" "u \<noteq> t" using that inv t(1) by (auto simp: q_inv_def)
      then show ?thesis using rest by (auto simp: resumable_def)
    qed
    ultimately show ?thesis
      using inv q' f' t rt sub dom' rzr unfolding q_inv_def by auto
  qed
  have ctx: "x_pc (saved_ctx ?k' t) = l_trampoline L" "x_regs (saved_ctx ?k' t) ! 0 = code"
    "x_regs (saved_ctx ?k' t) ! 1 = arg" "x_sp (saved_ctx ?k' t) = stack_addr t THREAD_MAXSTACK"
    by (rule forked_ctx [OF t(4)], use b' in simp, use b' in simp, use b' in simp)+
  show ?thesis
    by (rule that [OF run qi rest ctx]) (use b' hk t in auto)
qed

subsection \<open>Starting the threads\<close>

text \<open>\<open>s\<close> is the scheduler's block: the one of an earlier start, or a new one.\<close>

definition sched_block ::
    "nat \<times> nat \<Rightarrow> 'k kma \<Rightarrow> 'k kern \<Rightarrow> u32 list \<Rightarrow> u32 \<Rightarrow> u32 list \<Rightarrow> bool" where
  "sched_block M kma k fs s fs' \<longleftrightarrow>
     (if scheduler_thread k = 0 then can_alloc M kma k fs s fs'
      else s = scheduler_thread k \<and> fs' = fs)"

lemma redzone_init_ok:
  "redzone_init k = Inr (k\<lparr>k_ram := (\<lambda>p. if unat p < RZ_NBYTES then 0 else k_ram k p)\<rparr>)"
proof -
  have "rz_ok (\<lambda>p. if unat p < RZ_NBYTES then 0 else k_ram k p)"
    by (auto simp: rz_ok_def RZ_NBYTES_def list_all_iff dest: unat_rz)
  then show ?thesis by (simp add: redzone_init_def redzone_check_def rz_reports_ok check_def)
qed

lemma resumable_upd:
  assumes "resumable M k u" and "u \<noteq> 0" and "u \<noteq> s" and "scheduler_thread k = 0 \<or> scheduler_thread k = s"
    and "k_heap k' u = k_heap k u" and "scheduler_thread k' = s"
  shows "resumable M k' u"
  using assms by (auto simp: resumable_def home_def)

lemma sched_block_lemma:
  assumes inv: "q_inv M k rs fs" and src: "sched_block M kma k fs s fs'"
  obtains k1 where
    "(if scheduler_thread k = 0 then bnd (th_alloc kma k) (\<lambda>(s, k1). Inr (k1\<lparr>scheduler_thread := s\<rparr>)) else Inr k) = Inr k1"
    and "heap_wf M (k_heap k1)" and "q_repr (k_heap k1) (runq k1) rs" and "q_repr (k_heap k1) (freeq k1) fs'"
    and "s \<in> dom (k_heap k1)" and "s \<notin> set rs \<union> set fs'" and "set fs' \<subseteq> set fs"
    and "\<forall>u. u \<noteq> s \<longrightarrow> k_heap k1 u = k_heap k u"
    and "k_ram k1 = k_ram k" and "cpu k1 = cpu k" and "scheduler_thread k1 = s" and "cur_thread k1 = cur_thread k"
proof (cases "scheduler_thread k = 0")
  case True
  obtain h' fq m na where al: "th_alloc kma k = Inr (s, k\<lparr>freeq := fq, kmem := m, nalloced := na,
      k_heap := h', next_tid := next_tid k + 1\<rparr>)" (is "_ = Inr (s, ?k1)")
    and f: "heap_wf M h'" "q_repr h' (runq k) rs" "q_repr h' fq fs'" "\<exists>b. h' s = Some b \<and> tid b = next_tid k"
      "\<forall>u. u \<noteq> s \<longrightarrow> h' u = k_heap k u" "s \<notin> set rs \<union> set fs'" "s \<noteq> cur_thread k"
      "s \<noteq> scheduler_thread k" "block_ok M s" "set fs' \<subseteq> set fs"
    by (rule th_alloc_lemma [OF inv, of kma s fs']) (use src True in \<open>auto simp: sched_block_def\<close>)
  let ?k2 = "?k1\<lparr>scheduler_thread := s\<rparr>"
  have run: "(if scheduler_thread k = 0 then bnd (th_alloc kma k) (\<lambda>(s, k1). Inr (k1\<lparr>scheduler_thread := s\<rparr>))
      else Inr k) = Inr ?k2"
    using True by (simp add: al)
  have "s \<in> dom h'" using f(4) by blast
  then show ?thesis by (intro that [OF run]) (simp_all add: f(1-3,5,6,10) del: Un_iff)
next
  case False
  then have "s = scheduler_thread k" "fs' = fs" using src by (simp_all add: sched_block_def)
  then show ?thesis using False inv by (intro that [of k]) (simp_all add: q_inv_def)
qed

lemma rpi_thread_start_lemma:
  assumes init: "redzone_init k = Inr k0" and inv: "q_inv M k0 (t # ts) fs"
    and src: "sched_block M kma k0 fs s fs'"
    and room: "in_stack M (c_sp (cpu k) - 36) 36" "length (c_r4_11 (cpu k)) = 8"
  obtains k' where "rpi_thread_start L kma k = Inr (k', True)" and "th_inv M k' ts fs'"
    and "cur_thread k' = t" and "ctx_of (cpu k') = saved_ctx k0 t"
    and "\<forall>u \<in> set ts. saved_ctx k' u = saved_ctx k0 u"
    and "scheduler_thread k' = s" and "saved_ctx k' s = (ctx_of (cpu k))\<lparr>x_pc := l_ret_start L\<rparr>"
proof -
  have cpu0: "cpu k0 = cpu k" using init by (auto simp: redzone_init_ok)
  have q0: "q_repr (k_heap k0) (runq k0) (t # ts)" and res: "\<forall>u \<in> set (t # ts). resumable M k0 u"
    and wf0: "heap_wf M (k_heap k0)" and d0: "set (t # ts) \<inter> set fs = {}"
    and rz: "rz_ok (k_ram k0)" using inv by (auto simp: q_inv_def)
  obtain k1 where run1: "(if scheduler_thread k0 = 0
        then bnd (th_alloc kma k0) (\<lambda>(s, k1). Inr (k1\<lparr>scheduler_thread := s\<rparr>)) else Inr k0) = Inr k1"
    and k1: "heap_wf M (k_heap k1)" "q_repr (k_heap k1) (runq k1) (t # ts)" "q_repr (k_heap k1) (freeq k1) fs'"
      "s \<in> dom (k_heap k1)" "s \<notin> set (t # ts) \<union> set fs'" "set fs' \<subseteq> set fs"
      "\<forall>u. u \<noteq> s \<longrightarrow> k_heap k1 u = k_heap k0 u"
      "k_ram k1 = k_ram k0" "cpu k1 = cpu k0" "scheduler_thread k1 = s" "cur_thread k1 = cur_thread k0"
    by (rule sched_block_lemma [OF inv src])
  obtain bs where bs: "k_heap k1 s = Some bs" using k1(4) by auto
  let ?h = "(k_heap k1)(s \<mapsto> bs\<lparr>saved_sp := stack_addr s THREAD_MAXSTACK\<rparr>)"
  have put: "put_saved_sp (k_heap k1) s (stack_addr s THREAD_MAXSTACK) = Inr ?h"
    using heap_wf_deref [OF k1(1) bs] by (simp add: put_saved_sp_def)
  have dom: "dom ?h = dom (k_heap k1)" using bs by auto
  have wf: "heap_wf M ?h" using k1(1) heap_wf_dom [OF dom] by blast
  have qh: "q_repr ?h q xs" if "q_repr (k_heap k1) q xs" for q xs
    using q_repr_upd_same_next [OF bs _ that] by simp
  obtain q where qp: "Q_pop ?h (runq k1) = Inr (t, q)" and q: "q_repr ?h q ts"
    using Qq.pop_cons [OF qh [OF k1(2)]] by blast
  let ?k = "k1\<lparr>k_heap := ?h, runq := q, cur_thread := t\<rparr>"
  have td: "t \<noteq> s" "t \<notin> set ts" using k1(5) Qq.rel_distinct [OF q0] by auto
  have same: "?h u = k_heap k0 u" if "u \<noteq> s" for u using k1(7) that by simp
  have s01: "scheduler_thread k0 = 0 \<or> scheduler_thread k0 = s" using src by (auto simp: sched_block_def split: if_splits)
  have res1: "resumable M ?k u" if u: "u \<in> set (t # ts)" for u
  proof (rule resumable_upd [of M k0 u s])
    show "u \<noteq> 0" using q_repr_dom [OF q0 u] heap_wf_valid [OF wf0] by (auto simp: valid_def)
    show "u \<noteq> s" using u k1(5) by auto
  qed (use u res s01 same k1(5,10) in auto)
  have link: "rs \<noteq> [] \<and> nxt b = hd rs" if "?h t = Some b" "nxt b \<noteq> 0" "rs = ts" for b rs
  proof -
    have "lseg ?h t (t # ts)" using qh [OF k1(2)] by (auto simp: q_repr_def)
    then have "nxt b = (if ts = [] then 0 else hd ts)" using that(1) by (rule lseg_next)
    then show ?thesis using that(2,3) by (simp split: if_splits)
  qed
  have can: "can_save M ?k s" using room cpu0 k1(9,10) by (simp add: can_save_def home_def)
  have sw: "switching M s ?k ts fs'"
    unfolding switching_def
    using wf q qh [OF k1(3)] d0 k1(4-6,8,10) td res1 rz can link dom bs by auto
  obtain k' where run: "bnd (deref ?h t) (\<lambda>b. call_cswitch L (l_ret_start L) s (saved_sp b) ?k) = Inr k'"
    and k': "s \<noteq> t \<Longrightarrow> th_inv M k' ts fs'" "cur_thread k' = t" "scheduler_thread k' = s"
      "ctx_of (cpu k') = saved_ctx ?k t" "saved_ctx k' s = (ctx_of (cpu k1))\<lparr>x_pc := l_ret_start L\<rparr>"
    and ctx: "\<And>u. u \<in> set ts \<union> {s} \<Longrightarrow> u \<noteq> s \<Longrightarrow> saved_ctx k' u = saved_ctx ?k u"
    using switch_inv [OF sw, of L "l_ret_start L"] k1(10) by auto
  have ctx0: "saved_ctx ?k u = saved_ctx k0 u" if "u \<noteq> s" for u
    using same [OF that] k1(8) that by (simp add: saved_ctx_def)
  obtain bt where "deref ?h t = Inr bt" "call_cswitch L (l_ret_start L) s (saved_sp bt) ?k = Inr k'"
    using run by (auto simp only: bnd_eq_Inr)
  then have fin: "rpi_thread_start L kma k = Inr (k', True)"
    using init run1 put qp Q_empty_repr [OF q0] k1(10)
    by (simp add: rpi_thread_start_def Let_def)
  have "\<forall>u \<in> set ts. saved_ctx k' u = saved_ctx k0 u" using ctx ctx0 k1(5) by auto
  then show ?thesis using that [OF fin] k' ctx0 td cpu0 k1(9) by auto
qed

subsection \<open>A concrete state\<close>

text \<open>Three blocks of a bump allocator: the scheduler, the running thread and a forked one.\<close>

definition ex_kma :: "u32 kma" where
  "ex_kma n al m =
     Inr (m, \<lparr>nxt = 0, saved_sp = 0, tid = 0, fn = 0, targ = 0, annot = 0\<rparr>, m + 65536)"

definition ex_block :: "u32 \<Rightarrow> u32 \<Rightarrow> u32 \<Rightarrow> rpi_thread" where
  "ex_block n sp i = \<lparr>nxt = n, saved_sp = sp, tid = i, fn = 0, targ = 0, annot = 0\<rparr>"

definition ex_main :: "nat \<times> nat" where
  "ex_main = (32768, 65536)"

definition ex_kern :: "u32 kern" where
  "ex_kern = \<lparr>
     k_heap = [1048576 \<mapsto> ex_block 0 40000 1, 1114112 \<mapsto> ex_block 1179648 0 2,
               1179648 \<mapsto> ex_block 0 1187828 3],
     k_ram = (\<lambda>_. 0), runq = \<lparr>q_head = 1179648, q_tail = 1179648, q_cnt = 1\<rparr>,
     freeq = \<lparr>q_head = 0, q_tail = 0, q_cnt = 0\<rparr>, cur_thread = 1114112,
     scheduler_thread = 1048576, next_tid = 4, nalloced = 3,
     cpu = \<lparr>c_r0 = 0, c_r1 = 0, c_r4_11 = replicate 8 0, c_sp = 1122000, c_lr = 0, c_pc = 0\<rparr>,
     kmem = 1245184\<rparr>"

text \<open>The same machine with only one, running, thread.\<close>

definition ex_kern1 :: "u32 kern" where
  "ex_kern1 = ex_kern\<lparr>
     k_heap := [1048576 \<mapsto> ex_block 0 40000 1, 1114112 \<mapsto> ex_block 0 0 2],
     runq := \<lparr>q_head = 0, q_tail = 0, q_cnt = 0\<rparr>, next_tid := 3, nalloced := 2, kmem := 1179648\<rparr>"

text \<open>Before the first start: one thread was forked, the caller runs on the main stack.\<close>

definition ex_kern0 :: "u32 kern" where
  "ex_kern0 = ex_kern\<lparr>
     k_heap := [1179648 \<mapsto> ex_block 0 1187828 1],
     cur_thread := 0, scheduler_thread := 0, next_tid := 2, nalloced := 1,
     cpu := (cpu ex_kern)\<lparr>c_sp := 50000\<rparr>\<rparr>"

definition ex_labels :: code_labels where
  "ex_labels = \<lparr>l_trampoline = 33024, l_tramp_exit = 33036, l_cswitch_end = 33020,
                l_ret_exit = 33280, l_ret_yield = 33536, l_ret_start = 33792\<rparr>"

lemmas ex_defs = ex_kern_def ex_kern1_def ex_kern0_def ex_block_def ex_main_def

lemmas ex_inv_simps = th_inv_def q_inv_def heap_wf_def block_ok_def separate_def resumable_def
  home_def in_stack_def q_repr_def and3_iff kern_simps

lemma rz_ok_zero: "rz_ok (\<lambda>_. 0)"
  by (simp add: rz_ok_def list_all_iff)

lemma ex_kern_inv: "th_inv ex_main ex_kern [1179648] []"
  by (simp add: ex_defs ex_inv_simps rz_ok_zero)

lemma ex_kern_room: "can_save ex_main ex_kern (cur_thread ex_kern)"
  by (simp add: ex_defs can_save_def home_def in_stack_def and3_iff kern_simps)

lemma ex_kern1_inv: "th_inv ex_main ex_kern1 [] []"
  by (simp add: ex_defs ex_inv_simps rz_ok_zero)

lemma ex_kern1_room: "can_save ex_main ex_kern1 (cur_thread ex_kern1)"
  by (simp add: ex_defs can_save_def home_def in_stack_def and3_iff kern_simps)

lemma ex_kern_alloc: "can_alloc ex_main ex_kma ex_kern [] 1245184 []"
  by (simp add: ex_defs can_alloc_def ex_kma_def separate_def block_ok_def kern_simps)

lemma ex_kern1_alloc: "can_alloc ex_main ex_kma ex_kern1 [] 1179648 []"
  by (simp add: ex_defs can_alloc_def ex_kma_def separate_def block_ok_def kern_simps)

lemma ex_kern0_init: "redzone_init ex_kern0 = Inr ex_kern0"
  by (simp add: redzone_init_ok ex_defs fun_eq_iff)

lemma ex_kern0_inv: "q_inv ex_main ex_kern0 [1179648] []"
  by (simp add: ex_defs ex_inv_simps rz_ok_zero)

lemma ex_kern0_alloc: "sched_block ex_main ex_kma ex_kern0 [] 1245184 []"
  by (simp add: ex_defs sched_block_def can_alloc_def ex_kma_def separate_def block_ok_def kern_simps)

lemma ex_kern0_room: "in_stack ex_main (c_sp (cpu ex_kern0) - 36) 36 \<and> length (c_r4_11 (cpu ex_kern0)) = 8"
  by (simp add: ex_defs in_stack_def and3_iff)

subsection \<open>Properties\<close>

text \<open>C1: \<open>rpi_yield\<close> implements a round robin over register contexts.  The running thread goes to the
  end of the run queue with exactly the registers, stack pointer and return address it called with,
  the head of the queue runs with exactly the context it was saved with, every other thread and the
  scheduler keep theirs, and the invariant of the package is kept; with no other thread runnable,
  nothing changes.\<close>

theorem rpi_yield_round_robin:
  assumes "th_inv M k rs fs" and "can_save M k (cur_thread k)"
  shows "\<exists>k' rs'. rpi_yield L k = Inr k' \<and> th_inv M k' rs' fs \<and>
           sched_of k' rs' = sched_yield (l_ret_yield L) (sched_of k rs) \<and>
           saved_ctx k' (scheduler_thread k') = saved_ctx k (scheduler_thread k)"
proof (cases rs)
  case Nil
  then have "rpi_yield L k = Inr k"
    using assms(1) Q_empty_repr [of "k_heap k" "runq k" rs]
    by (simp add: rpi_yield_def th_inv_def q_inv_def redzone_check_def)
  then show ?thesis using assms(1) Nil by (auto simp: sched_of_def)
next
  case (Cons t ts)
  then show ?thesis using rpi_yield_refines_lemma [of M k t ts fs L] assms by auto
qed

theorem rpi_yield_round_robin_witness:
  "\<exists>k' rs'. rpi_yield ex_labels ex_kern = Inr k' \<and> th_inv ex_main k' rs' [] \<and>
     sched_of k' rs' = sched_yield (l_ret_yield ex_labels) (sched_of ex_kern [1179648]) \<and>
     saved_ctx k' (scheduler_thread k') = saved_ctx ex_kern (scheduler_thread ex_kern)"
  by (rule rpi_yield_round_robin [OF ex_kern_inv ex_kern_room])

text \<open>\<open>rpi_exit\<close>.  When the running thread's \<open>next\<close> field is set, it is the head of the run queue and
  that thread runs next with its saved context; otherwise the scheduler's context is resumed.  In both
  cases the thread's block is put on the free queue and the package's invariants are kept.\<close>

lemma rpi_exit_next:
  assumes "th_inv M k rs fs" and "can_save M k (cur_thread k)" and "k_heap k (cur_thread k) = Some b"
  shows "\<exists>k'. rpi_exit L k = Inr k' \<and>
    (if nxt b \<noteq> 0
     then th_inv M k' (tl rs) (cur_thread k # fs) \<and>
          sched_of k' (tl rs) = sched_exit (scheduler_thread k, saved_ctx k (scheduler_thread k)) (sched_of k rs)
     else q_inv M k' rs (cur_thread k # fs) \<and> cur_thread k' = scheduler_thread k \<and>
          ctx_of (cpu k') = saved_ctx k (scheduler_thread k))"
  by (rule rpi_exit_lemma [OF assms, of L]) auto

lemma rpi_exit_next_example:
  "\<exists>k'. rpi_exit ex_labels ex_kern = Inr k' \<and> th_inv ex_main k' [] [1114112] \<and>
     cur_thread k' = 1179648 \<and> ctx_of (cpu k') = saved_ctx ex_kern 1179648"
  using rpi_exit_next [OF ex_kern_inv ex_kern_room, of "ex_block 1179648 0 2" ex_labels]
  by (simp add: ex_defs sched_of_def)

lemma rpi_fork_appends_lemma:
  assumes "th_inv M k rs fs" and "can_alloc M kma k fs t fs'"
  shows "\<exists>k' x. rpi_fork L kma code arg k = Inr (t, k') \<and> th_inv M k' (rs @ [t]) fs' \<and>
    sched_of k' (rs @ [t]) = sched_fork (t, x) (sched_of k rs) \<and>
    x_pc x = l_trampoline L \<and> x_regs x ! 0 = code \<and> x_regs x ! 1 = arg \<and>
    x_sp x = stack_addr t THREAD_MAXSTACK \<and>
    (\<exists>b. k_heap k' t = Some b \<and> tid b = next_tid k) \<and> next_tid k' = next_tid k + 1 \<and>
    t \<notin> set rs \<union> {cur_thread k, scheduler_thread k} \<and>
    cur_thread k' = cur_thread k \<and> scheduler_thread k' = scheduler_thread k \<and> cpu k' = cpu k \<and>
    saved_ctx k' (scheduler_thread k') = saved_ctx k (scheduler_thread k) \<and>
    (\<forall>u. u \<in> dom (k_heap k) \<and> u \<noteq> t \<and> resumable M k u \<longrightarrow> resumable M k' u \<and> saved_ctx k' u = saved_ctx k u) \<and>
    (\<forall>u. u \<noteq> t \<and> u \<notin> set rs \<longrightarrow> k_heap k' u = k_heap k u)"
proof -
  have inv: "q_inv M k rs fs" using assms(1) by (simp add: th_inv_def)
  obtain k' where run: "rpi_fork L kma code arg k = Inr (t, k')" and qi: "q_inv M k' (rs @ [t]) fs'"
    and rest: "\<And>u. u \<in> dom (k_heap k) \<Longrightarrow> u \<noteq> t \<Longrightarrow> resumable M k u \<Longrightarrow>
           resumable M k' u \<and> saved_ctx k' u = saved_ctx k u"
    and x: "x_pc (saved_ctx k' t) = l_trampoline L" "x_regs (saved_ctx k' t) ! 0 = code"
      "x_regs (saved_ctx k' t) ! 1 = arg" "x_sp (saved_ctx k' t) = stack_addr t THREAD_MAXSTACK"
    and n: "\<exists>b. k_heap k' t = Some b \<and> tid b = next_tid k" "next_tid k' = next_tid k + 1"
      "cur_thread k' = cur_thread k" "scheduler_thread k' = scheduler_thread k" "cpu k' = cpu k"
    and hk: "\<And>u. u \<noteq> t \<Longrightarrow> u \<notin> set rs \<Longrightarrow> k_heap k' u = k_heap k u"
    and t: "t \<noteq> cur_thread k" "t \<noteq> scheduler_thread k"
    by (rule rpi_fork_lemma [OF inv assms(2), of L code arg]) blast
  have rs: "t \<notin> set rs" using qi Qq.rel_distinct by (fastforce simp: q_inv_def)
  have c: "k_heap k' (cur_thread k) = k_heap k (cur_thread k)" using hk t inv by (auto simp: q_inv_def)
  have s: "resumable M k' (scheduler_thread k)" "saved_ctx k' (scheduler_thread k) = saved_ctx k (scheduler_thread k)"
    using rest [of "scheduler_thread k"] t assms(1) by (auto simp: th_inv_def resumable_def)
  have ctx: "saved_ctx k' u = saved_ctx k u" if "u \<in> set rs" for u
  proof -
    have "resumable M k u" using inv that by (simp add: q_inv_def)
    then show ?thesis using rest [of u] rs that by (auto simp: resumable_def)
  qed
  have "th_inv M k' (rs @ [t]) fs'"
    using assms(1) qi s c n by (auto simp: th_inv_def)
  moreover have "sched_of k' (rs @ [t]) = sched_fork (t, saved_ctx k' t) (sched_of k rs)"
    using n ctx by (auto simp: sched_of_def)
  ultimately show ?thesis
    using run x n t rs s(2) rest hk by (intro exI [of _ k'] exI [of _ "saved_ctx k' t"]) auto
qed

text \<open>C16: \<open>rpi_fork\<close> from a running thread.  It returns a block that is neither running, nor runnable,
  nor the scheduler's, gives it the next thread id, and puts it at the end of the run queue with a
  context that enters the trampoline with the code in \<open>r4\<close> and the argument in \<open>r5\<close> on an empty stack of
  its own.  The caller keeps running with its registers, the scheduler thread stays the scheduler thread, every
  context saved anywhere (the scheduler's and those of the run queue among them) stays resumable and the same, and no
  block outside the run queue is written other than the new one's.\<close>

theorem rpi_fork_appends:
  assumes "th_inv M k rs fs" and "can_alloc M kma k fs t fs'"
  shows "\<exists>k' x. rpi_fork L kma code arg k = Inr (t, k') \<and> th_inv M k' (rs @ [t]) fs' \<and>
    sched_of k' (rs @ [t]) = sched_fork (t, x) (sched_of k rs) \<and>
    x_pc x = l_trampoline L \<and> x_regs x ! 0 = code \<and> x_regs x ! 1 = arg \<and>
    x_sp x = stack_addr t THREAD_MAXSTACK \<and>
    (\<exists>b. k_heap k' t = Some b \<and> tid b = next_tid k) \<and> next_tid k' = next_tid k + 1 \<and>
    t \<notin> set rs \<union> {cur_thread k, scheduler_thread k} \<and>
    cur_thread k' = cur_thread k \<and> scheduler_thread k' = scheduler_thread k \<and> cpu k' = cpu k \<and>
    saved_ctx k' (scheduler_thread k') = saved_ctx k (scheduler_thread k) \<and>
    (\<forall>u. u \<in> dom (k_heap k) \<and> u \<noteq> t \<and> resumable M k u \<longrightarrow> resumable M k' u \<and> saved_ctx k' u = saved_ctx k u) \<and>
    (\<forall>u. u \<noteq> t \<and> u \<notin> set rs \<longrightarrow> k_heap k' u = k_heap k u)"
  by (rule rpi_fork_appends_lemma [OF assms, of L code arg])

theorem rpi_fork_appends_witness:
  "\<exists>k' x. rpi_fork ex_labels ex_kma 32768 77 ex_kern = Inr (1245184, k') \<and>
    th_inv ex_main k' [1179648, 1245184] [] \<and>
    sched_of k' [1179648, 1245184] = sched_fork (1245184, x) (sched_of ex_kern [1179648]) \<and>
    x_pc x = l_trampoline ex_labels \<and> x_regs x ! 0 = 32768 \<and> x_regs x ! 1 = 77 \<and>
    scheduler_thread k' = scheduler_thread ex_kern \<and> cpu k' = cpu ex_kern \<and>
    saved_ctx k' (scheduler_thread k') = saved_ctx ex_kern (scheduler_thread ex_kern)"
  using rpi_fork_appends [OF ex_kern_inv ex_kern_alloc, of ex_labels 32768 77] by force

text \<open>C22: \<open>rpi_thread_start\<close> saves the caller's registers, stack pointer and return address as the
  scheduler's context and runs the oldest forked thread with the context it was forked with: the
  trampoline then calls its code with its argument.  The rest of the queue keeps its order and
  contexts, and the invariant of running threads holds.\<close>

theorem rpi_thread_start_runs_first:
  assumes "redzone_init k = Inr k0" and "q_inv M k0 (t # ts) fs" and "sched_block M kma k0 fs s fs'"
    and "in_stack M (c_sp (cpu k) - 36) 36 \<and> length (c_r4_11 (cpu k)) = 8"
  shows "\<exists>k' x. rpi_thread_start L kma k = Inr (k', True) \<and> th_inv M k' ts fs' \<and> scheduler_thread k' = s \<and>
    sched_of k' ts = ((t, x), map (\<lambda>u. (u, saved_ctx k0 u)) ts) \<and> x = saved_ctx k0 t \<and>
    saved_ctx k' s = (ctx_of (cpu k))\<lparr>x_pc := l_ret_start L\<rparr> \<and>
    c_pc (rpi_init_trampoline L (cpu k')) = x_regs x ! 0 \<and>
    c_r0 (rpi_init_trampoline L (cpu k')) = x_regs x ! 1"
proof -
  obtain k' where k': "rpi_thread_start L kma k = Inr (k', True)" "th_inv M k' ts fs'"
    "cur_thread k' = t" "ctx_of (cpu k') = saved_ctx k0 t"
    "\<forall>u \<in> set ts. saved_ctx k' u = saved_ctx k0 u" "scheduler_thread k' = s"
    "saved_ctx k' s = (ctx_of (cpu k))\<lparr>x_pc := l_ret_start L\<rparr>"
    by (rule rpi_thread_start_lemma [OF assms(1-3), of L]) (use assms(4) in auto)
  moreover have "c_r4_11 (cpu k') = x_regs (saved_ctx k0 t)"
    using k'(4) by (metis ctx.select_convs(1) ctx_of_def)
  ultimately show ?thesis by (simp add: sched_of_def rpi_init_trampoline_def)
qed

theorem rpi_thread_start_runs_first_witness:
  "\<exists>k' x. rpi_thread_start ex_labels ex_kma ex_kern0 = Inr (k', True) \<and> th_inv ex_main k' [] [] \<and>
    scheduler_thread k' = 1245184 \<and>
    sched_of k' [] = ((1179648, x), []) \<and> x = saved_ctx ex_kern0 1179648 \<and>
    saved_ctx k' 1245184 = (ctx_of (cpu ex_kern0))\<lparr>x_pc := l_ret_start ex_labels\<rparr> \<and>
    c_pc (rpi_init_trampoline ex_labels (cpu k')) = x_regs x ! 0 \<and>
    c_r0 (rpi_init_trampoline ex_labels (cpu k')) = x_regs x ! 1"
  using rpi_thread_start_runs_first [OF ex_kern0_init ex_kern0_inv ex_kern0_alloc ex_kern0_room, of ex_labels]
  by simp

text \<open>C26: a thread that runs alone, forks another and exits loses it.  Its \<open>next\<close> field is still null from
  the time it was taken off the queue, so \<open>rpi_exit\<close> resumes the scheduler although a thread is
  runnable, and \<open>rpi_thread_start\<close> accepts that as the end of all threads.\<close>

theorem fork_exit_abandons_runnable:
  assumes "th_inv M k [] fs" and "can_save M k (cur_thread k)" and "can_alloc M kma k fs t fs'"
  shows "\<exists>k1 k2. rpi_fork L kma code arg k = Inr (t, k1) \<and> rpi_exit L k1 = Inr k2 \<and>
    cur_thread k2 = scheduler_thread k2 \<and> q_repr (k_heap k2) (runq k2) [t] \<and>
    rpi_thread_start_end k2 = Inr ()"
proof -
  let ?c = "cur_thread k" and ?s = "scheduler_thread k"
  have inv: "q_inv M k [] fs" using assms(1) by (simp add: th_inv_def)
  obtain b where b: "k_heap k ?c = Some b" "nxt b = 0" using assms(1) by (auto simp: th_inv_def)
  obtain k1 where run: "rpi_fork L kma code arg k = Inr (t, k1)" and qi: "q_inv M k1 ([] @ [t]) fs'"
    and rest: "\<And>u. u \<in> dom (k_heap k) \<Longrightarrow> u \<noteq> t \<Longrightarrow> resumable M k u \<Longrightarrow>
           resumable M k1 u \<and> saved_ctx k1 u = saved_ctx k u"
    and n: "cur_thread k1 = ?c" "scheduler_thread k1 = ?s" "cpu k1 = cpu k"
    and hk: "\<And>u. u \<noteq> t \<Longrightarrow> u \<notin> set [] \<Longrightarrow> k_heap k1 u = k_heap k u"
    and t: "t \<noteq> ?c" "t \<noteq> ?s"
    by (rule rpi_fork_lemma [OF inv assms(3), of L code arg]) blast
  have b1: "k_heap k1 (cur_thread k1) = Some b" using hk t b n by auto
  have "resumable M k1 (scheduler_thread k1)"
    using rest [of ?s] t assms(1) n by (auto simp: th_inv_def resumable_def)
  then have inv1: "th_inv M k1 [t] fs'" using assms(1) qi b b1 n by (auto simp: th_inv_def)
  have room: "can_save M k1 (cur_thread k1)" using assms(2) n by (simp add: can_save_def)
  obtain k2 where ex: "rpi_exit L k1 = Inr k2" and q2: "q_inv M k2 [t] (cur_thread k1 # fs')"
    and c2: "cur_thread k2 = scheduler_thread k1" "scheduler_thread k2 = scheduler_thread k1"
    by (rule rpi_exit_lemma [OF inv1 room b1, of L]) (use b(2) in auto)
  have "?s \<noteq> 0" using assms(1) heap_wf_valid [of M "k_heap k"]
    by (auto simp: th_inv_def q_inv_def resumable_def valid_def)
  then obtain bs where "k_heap k2 ?s = Some bs" using q2 c2 n by (auto simp: q_inv_def)
  then have "rpi_thread_start_end k2 = Inr ()"
    using q2 c2 n heap_wf_deref [of M "k_heap k2" ?s bs]
    by (simp add: rpi_thread_start_end_def q_inv_def redzone_check_def)
  then show ?thesis using run ex c2 q2 by (auto simp: q_inv_def)
qed

theorem fork_exit_abandons_runnable_witness:
  "\<exists>k1 k2. rpi_fork ex_labels ex_kma 32768 77 ex_kern1 = Inr (1179648, k1) \<and> rpi_exit ex_labels k1 = Inr k2 \<and>
    cur_thread k2 = scheduler_thread k2 \<and> q_repr (k_heap k2) (runq k2) [1179648] \<and>
    rpi_thread_start_end k2 = Inr ()"
  by (rule fork_exit_abandons_runnable [OF ex_kern1_inv ex_kern1_room ex_kern1_alloc])

end
