(* ===== verification/ThreadRuns.thy ===== *)
theory ThreadRuns
  imports Threads
begin

text \<open>
  Runs of the thread package: a system of threads as a step relation.  A step is the running thread computing on its
  registers and its own stack, or calling \<open>rpi_yield\<close>, \<open>rpi_fork\<close> or \<open>rpi_exit\<close>.  Every run keeps the invariant of the
  package and is a run of an abstract scheduler over register contexts.
\<close>

subsection \<open>Steps of the package\<close>

text \<open>The allocator gives a block whatever the free list is (a hypothesis on \<open>kmalloc\<close>).  An exit steps to the next thread
  when the \<open>next\<close> field of the running one is set; otherwise the run is over and \<open>rpi_thread_start\<close> returns.\<close>

inductive kern_step ::
    "nat \<times> nat \<Rightarrow> code_labels \<Rightarrow> 'k kma \<Rightarrow> 'k kern \<Rightarrow> 'k kern \<Rightarrow> bool"
  for M :: "nat \<times> nat" and L :: code_labels and kma :: "'k kma" where
  compute: "k' = k\<lparr>cpu := c, k_ram := ram\<rparr> \<Longrightarrow> can_save M k' (cur_thread k') \<Longrightarrow>
    \<forall>p. ram p \<noteq> k_ram k p \<longrightarrow> fst (home M (scheduler_thread k) (cur_thread k)) \<le> unat p \<and>
      unat p < snd (home M (scheduler_thread k) (cur_thread k)) \<Longrightarrow> kern_step M L kma k k'"
| yield: "rpi_yield L k = Inr k' \<Longrightarrow> kern_step M L kma k k'"
| fork: "\<forall>fs. q_repr (k_heap k) (freeq k) fs \<longrightarrow> (\<exists>t fs'. can_alloc M kma k fs t fs') \<Longrightarrow>
    rpi_fork L kma code arg k = Inr (t, k') \<Longrightarrow> kern_step M L kma k k'"
| exit: "k_heap k (cur_thread k) = Some b \<Longrightarrow> nxt b \<noteq> 0 \<Longrightarrow> rpi_exit L k = Inr k' \<Longrightarrow> kern_step M L kma k k'"

inductive_cases kern_stepE: "kern_step M L kma k k'"

text \<open>The abstract scheduler: the running thread may change its own context; a thread gives up the processor and gets exactly
  the context it gave it up with when it runs again; a new thread goes to the end of the queue.\<close>

inductive sched_step :: "u32 \<Rightarrow> sched \<Rightarrow> sched \<Rightarrow> bool" for ret :: u32 where
  "sched_step ret ((t, x), r) ((t, x'), r)"
| "sched_step ret s (sched_yield ret s)"
| "u \<noteq> t \<Longrightarrow> u \<notin> fst ` set r \<Longrightarrow> sched_step ret ((t, x), r) (sched_fork (u, y) ((t, x), r))"
| "r \<noteq> [] \<Longrightarrow> sched_step ret (c, r) (sched_exit d (c, r))"

text \<open>A system that runs: the package's invariant, and room for a context switch on the running thread's stack.\<close>

definition running :: "nat \<times> nat \<Rightarrow> 'k kern \<Rightarrow> u32 list \<Rightarrow> u32 list \<Rightarrow> bool" where
  "running M k rs fs \<longleftrightarrow> th_inv M k rs fs \<and> can_save M k (cur_thread k)"

subsection \<open>Every step keeps the invariant\<close>

text \<open>A thread that is resumed with its saved context has room to save it again.\<close>

lemma resumed_can_save:
  assumes "resumable M k t" and "cur_thread k' = t" and "scheduler_thread k' = scheduler_thread k"
    and "ctx_of (cpu k') = saved_ctx k t"
  shows "can_save M k' (cur_thread k')"
proof -
  have "c_sp (cpu k') = saved_sp (the (k_heap k t)) + 36" "length (c_r4_11 (cpu k')) = 8"
    using assms(4) by (simp_all add: ctx_of_def saved_ctx_def Let_def)
  then show ?thesis
    using assms(1-3) by (auto simp: can_save_def resumable_def)
qed

lemma home_disjoint:
  assumes "heap_wf M h" and "t \<in> dom h" and "u \<in> dom h" and "t \<noteq> u"
  shows "snd (home M s t) \<le> fst (home M s u) \<or> snd (home M s u) \<le> fst (home M s t)"
proof -
  have "separate t u" "block_ok M t" "block_ok M u"
    using assms(1-3) by (auto simp: heap_wf_def)
  then show ?thesis
    using assms(4) by (auto simp: separate_def home_def block_ok_def kern_simps)
qed

lemma own_stack_frame:
  assumes wf: "heap_wf M (k_heap k)" and c: "cur_thread k \<in> dom (k_heap k)" and u: "resumable M k u" "u \<noteq> cur_thread k"
    and own: "\<forall>p. ram p \<noteq> k_ram k p \<longrightarrow> fst (home M (scheduler_thread k) (cur_thread k)) \<le> unat p \<and>
      unat p < snd (home M (scheduler_thread k) (cur_thread k))"
  shows "saved_ctx (k\<lparr>cpu := x, k_ram := ram\<rparr>) u = saved_ctx k u"
proof -
  obtain b where b: "k_heap k u = Some b" "in_stack (home M (scheduler_thread k) u) (saved_sp b) 36"
    using u(1) by (auto simp: resumable_def)
  have "snd (home M (scheduler_thread k) u) \<le> fst (home M (scheduler_thread k) (cur_thread k)) \<or>
      snd (home M (scheduler_thread k) (cur_thread k)) \<le> fst (home M (scheduler_thread k) u)"
    using home_disjoint [OF wf _ c u(2)] b(1) by blast
  then have "ram q = k_ram k q" if "unat (saved_sp b) \<le> unat q" "unat q < unat (saved_sp b) + 4 * 9" for q
    using own b(2) that by (fastforce simp: in_stack_def)
  moreover have "unat (saved_sp b) + 4 * 9 \<le> 4294967296"
    using home_bounds [OF wf _ b(2)] b(1) by auto
  ultimately have "ldm ram (saved_sp b) 9 = ldm (k_ram k) (saved_sp b) 9"
    by (intro ldm_cong) auto
  then show ?thesis
    by (simp add: saved_ctx_def b(1))
qed

lemma running_facts:
  assumes "running M k rs fs"
  shows "heap_wf M (k_heap k)" and "cur_thread k \<in> dom (k_heap k)" and "scheduler_thread k \<noteq> cur_thread k"
    and "cur_thread k \<notin> set rs" and "\<forall>t \<in> set rs. resumable M k t" and "resumable M k (scheduler_thread k)"
    and "rz_ok (k_ram k)" and "q_repr (k_heap k) (freeq k) fs"
  using assms by (auto simp: running_def th_inv_def q_inv_def)

lemma compute_keeps:
  assumes run: "running M k rs fs" and k': "k' = k\<lparr>cpu := c, k_ram := ram\<rparr>" and can: "can_save M k' (cur_thread k')"
    and own: "\<forall>p. ram p \<noteq> k_ram k p \<longrightarrow> fst (home M (scheduler_thread k) (cur_thread k)) \<le> unat p \<and>
      unat p < snd (home M (scheduler_thread k) (cur_thread k))"
  shows "running M k' rs fs \<and> sched_step ret (sched_of k rs) (sched_of k' rs)"
proof -
  note f = running_facts [OF run]
  have "block_ok M (cur_thread k)"
    using f(1,2) by (simp add: heap_wf_def)
  then have "4096 \<le> fst (home M (scheduler_thread k) (cur_thread k))"
    using f(3) by (simp add: home_def block_ok_def kern_simps)
  then have "ram q = k_ram k q" if "unat q < 4096" for q
    using own that by fastforce
  then have "rz_ok ram"
    using f(7) rz_ok_cong [of ram "k_ram k"] by simp
  moreover have res: "resumable M k' t = resumable M k t" for t
    by (simp add: resumable_def k')
  ultimately have "th_inv M k' rs fs"
    using run by (simp add: running_def th_inv_def q_inv_def k' res [unfolded k'])
  moreover have "saved_ctx k' t = saved_ctx k t" if "t \<in> set rs" for t
    unfolding k' using f(4,5) that by (intro own_stack_frame [OF f(1,2) _ _ own]) auto
  then have "sched_of k' rs = ((cur_thread k, ctx_of c), snd (sched_of k rs))"
    by (simp add: sched_of_def k')
  then have "sched_step ret (sched_of k rs) (sched_of k' rs)"
    using sched_step.intros(1) [of ret "cur_thread k" "ctx_of (cpu k)" "snd (sched_of k rs)" "ctx_of c"]
    by (simp only: sched_of_def snd_conv)
  ultimately show ?thesis
    using can by (simp add: running_def)
qed

lemma yield_keeps:
  assumes run: "running M k rs fs"
  shows "\<exists>k' rs'. rpi_yield L k = Inr k' \<and> running M k' rs' fs \<and> sched_of k' rs' = sched_yield (l_ret_yield L) (sched_of k rs)"
proof (cases rs)
  case Nil
  then have "rpi_yield L k = Inr k"
    using run Q_empty_repr [of "k_heap k" "runq k" rs]
    by (simp add: rpi_yield_def running_def th_inv_def q_inv_def redzone_check_def)
  then show ?thesis
    using run Nil by (auto simp: sched_of_def)
next
  case (Cons t ts)
  obtain k' where k': "rpi_yield L k = Inr k'" "th_inv M k' (ts @ [cur_thread k]) fs"
    "sched_of k' (ts @ [cur_thread k]) = sched_yield (l_ret_yield L) (sched_of k (t # ts))"
    "scheduler_thread k' = scheduler_thread k"
    using rpi_yield_refines_lemma [of M k t ts fs L] run Cons by (auto simp: running_def)
  have "cur_thread k' = t" "ctx_of (cpu k') = saved_ctx k t"
    using k'(3) by (simp_all add: sched_of_def)
  then have "can_save M k' (cur_thread k')"
    using running_facts(5) [OF run] k'(4) Cons by (intro resumed_can_save) auto
  then show ?thesis
    using k' Cons by (auto simp: running_def)
qed

lemma fork_keeps:
  assumes run: "running M k rs fs" and al: "can_alloc M kma k fs t fs'"
  shows "\<exists>k'. rpi_fork L kma code arg k = Inr (t, k') \<and> running M k' (rs @ [t]) fs' \<and>
    sched_step ret (sched_of k rs) (sched_of k' (rs @ [t]))"
proof -
  obtain k' x where k': "rpi_fork L kma code arg k = Inr (t, k')" "th_inv M k' (rs @ [t]) fs'"
    "sched_of k' (rs @ [t]) = sched_fork (t, x) (sched_of k rs)" "t \<notin> set rs \<union> {cur_thread k, scheduler_thread k}"
    "cur_thread k' = cur_thread k" "scheduler_thread k' = scheduler_thread k" "cpu k' = cpu k"
    using rpi_fork_appends_lemma [of M k rs fs kma t fs' L code arg] run al by (auto simp: running_def)
  have "can_save M k' (cur_thread k')"
    using run k'(5-7) by (simp add: running_def can_save_def)
  moreover have "sched_step ret (sched_of k rs) (sched_fork (t, x) (sched_of k rs))"
    using k'(4) unfolding sched_of_def by (intro sched_step.intros(3)) force+
  ultimately show ?thesis
    using k' by (auto simp: running_def)
qed

lemma exit_keeps:
  assumes run: "running M k rs fs" and b: "k_heap k (cur_thread k) = Some b" "nxt b \<noteq> 0"
  shows "\<exists>k'. rpi_exit L k = Inr k' \<and> running M k' (tl rs) (cur_thread k # fs) \<and>
    sched_step ret (sched_of k rs) (sched_of k' (tl rs))"
proof -
  let ?d = "(scheduler_thread k, saved_ctx k (scheduler_thread k))"
  obtain k' where k': "rpi_exit L k = Inr k'" "th_inv M k' (tl rs) (cur_thread k # fs)"
    "sched_of k' (tl rs) = sched_exit ?d (sched_of k rs)" "scheduler_thread k' = scheduler_thread k"
    using rpi_exit_lemma [of M k rs fs b L] run b by (auto simp: running_def)
  obtain t ts where rs: "rs = t # ts"
    using run b by (cases rs) (auto simp: running_def th_inv_def)
  have "cur_thread k' = t" "ctx_of (cpu k') = saved_ctx k t"
    using k'(3) by (simp_all add: sched_of_def rs)
  then have "can_save M k' (cur_thread k')"
    using running_facts(5) [OF run] k'(4) rs by (intro resumed_can_save) auto
  moreover have "sched_step ret (sched_of k rs) (sched_exit ?d (sched_of k rs))"
    by (simp add: sched_of_def rs sched_step.intros(4) del: sched_exit.simps)
  ultimately show ?thesis
    using k' by (auto simp: running_def)
qed

lemma step_keeps:
  assumes run: "running M k rs fs" and step: "kern_step M L kma k k'"
  shows "\<exists>rs' fs'. running M k' rs' fs' \<and> sched_step (l_ret_yield L) (sched_of k rs) (sched_of k' rs')"
  using step
proof cases
  case (compute c ram)
  then show ?thesis
    using compute_keeps [OF run] by blast
next
  case yield
  then show ?thesis
    using yield_keeps [OF run, of L] sched_step.intros(2) [of "l_ret_yield L" "sched_of k rs"] by fastforce
next
  case (fork code arg t)
  then obtain t1 fs' where "can_alloc M kma k fs t1 fs'"
    using running_facts(8) [OF run] by blast
  then show ?thesis
    using fork_keeps [OF run, of kma t1 fs' L code arg "l_ret_yield L"] fork(2) by auto
next
  case (exit b)
  then show ?thesis
    using exit_keeps [OF run exit(1,2), of L "l_ret_yield L"] by auto
qed

subsection \<open>Runs\<close>

text \<open>C2: Every run of the thread package, of any length, with threads that compute on their own stacks and yield, fork and
  exit in any order, keeps the package's invariant; it is a run of the abstract scheduler, so a thread always resumes
  with exactly the registers, stack pointer and return address with which it gave up the processor; and in every state of the
  run a yield succeeds.\<close>

theorem runs_refine_scheduler:
  assumes "rtranclp (kern_step M L kma) k k'" and "th_inv M k rs fs" and "can_save M k (cur_thread k)"
  shows "\<exists>rs' fs' k''. th_inv M k' rs' fs' \<and> can_save M k' (cur_thread k') \<and>
    rtranclp (sched_step (l_ret_yield L)) (sched_of k rs) (sched_of k' rs') \<and> rpi_yield L k' = Inr k''"
proof -
  have "\<exists>rs' fs'. running M k' rs' fs' \<and> rtranclp (sched_step (l_ret_yield L)) (sched_of k rs) (sched_of k' rs')"
    using assms(1)
  proof (induction rule: rtranclp_induct)
    case base
    then show ?case
      using assms(2,3) by (auto simp: running_def)
  next
    case (step y z)
    then show ?case
      using step_keeps [of M y _ _ L kma z] by (meson rtranclp.rtrancl_into_rtrancl)
  qed
  then show ?thesis
    using yield_keeps [of M k' _ _ L] by (fastforce simp: running_def)
qed

theorem runs_refine_scheduler_witness:
  "\<exists>k' rs' fs' k''. rtranclp (kern_step ex_main ex_labels ex_kma) ex_kern k' \<and> k' \<noteq> ex_kern \<and>
     th_inv ex_main k' rs' fs' \<and> can_save ex_main k' (cur_thread k') \<and>
     rtranclp (sched_step (l_ret_yield ex_labels)) (sched_of ex_kern [1179648]) (sched_of k' rs') \<and>
     rpi_yield ex_labels k' = Inr k''"
proof -
  have "running ex_main ex_kern [1179648] []"
    by (simp add: running_def ex_kern_inv ex_kern_room)
  then obtain k' rs' where k': "rpi_yield ex_labels ex_kern = Inr k'"
    "sched_of k' rs' = sched_yield (l_ret_yield ex_labels) (sched_of ex_kern [1179648])"
    using yield_keeps by blast
  then have "cur_thread k' = 1179648"
    by (simp add: sched_of_def)
  then have "k' \<noteq> ex_kern"
    by (auto simp: ex_kern_def)
  moreover have "rtranclp (kern_step ex_main ex_labels ex_kma) ex_kern k'"
    using kern_step.yield [OF k'(1)] by blast
  ultimately show ?thesis
    using runs_refine_scheduler [of ex_main ex_labels ex_kma ex_kern k'] ex_kern_inv ex_kern_room by blast
qed

text \<open>On the abstract scheduler the round robin is fair: with \<open>n\<close> threads ahead of it, a waiting thread runs after
  \<open>n + 1\<close> yields, with its saved context.\<close>

lemma yields_reach:
  "\<exists>r'. (sched_yield ret ^^ Suc (length ahead)) (c, ahead @ u # r) = (u, r')"
proof (induction ahead arbitrary: c r)
  case Nil
  then show ?case by (cases c, cases u) simp
next
  case (Cons a ahead)
  obtain t x where c: "c = (t, x)"
    by (cases c)
  have "sched_yield ret (c, (a # ahead) @ u # r) = (a, ahead @ u # r @ [(t, x\<lparr>x_pc := ret\<rparr>)])"
    by (cases a) (simp add: c)
  then show ?case
    using Cons.IH [of a "r @ [(t, x\<lparr>x_pc := ret\<rparr>)]"] by (simp only: length_Cons funpow_Suc_right [of "Suc _"] o_apply)
qed

end
