(* ===== verification/LibcMem.thy ===== *)
theory LibcMem
  imports Prelude "HOL-Library.List_Lexorder"
begin

text \<open>
  The memory and string routines of \<open>libpi/libc\<close>: \<open>memcpy.c\<close>, \<open>memmove.c\<close>, \<open>memset.c\<close>, \<open>memcmp.c\<close>,
  \<open>memiszero.c\<close>, \<open>strlen.c\<close>, \<open>strcmp.c\<close>, \<open>strncmp.c\<close>, \<open>strcpy.c\<close>, \<open>strcat.c\<close>, \<open>strchr.c\<close>, \<open>putk.c\<close>.

  Memory is a map from addresses to bytes; a store of a wider type writes its little-endian bytes,
  so a loop over 64-bit words reads eight bytes and then writes them.  Plain \<open>char\<close> is unsigned on
  ARM.  The loops over a zero-terminated string take fuel: at most \<open>fuel\<close> characters are looked at.
\<close>

type_synonym mem = "u32 \<Rightarrow> u8"

subsection \<open>Blocks of memory\<close>

definition rd :: "mem \<Rightarrow> u32 \<Rightarrow> nat \<Rightarrow> u8 list" where
  "rd m a n = map (\<lambda>i. m (a + of_nat i)) [0..<n]"

fun wr :: "mem \<Rightarrow> u32 \<Rightarrow> u8 list \<Rightarrow> mem" where
  "wr m a [] = m"
| "wr m a (b # bs) = wr (m(a := b)) (a + 1) bs"

definition aligned :: "u32 \<Rightarrow> u32 \<Rightarrow> bool" where
  "aligned p n = (p mod n = 0)"

text \<open>\<open>for(i = 0; i < n; i++) d[i] = s[i]\<close> on units of \<open>w\<close> bytes.\<close>

fun copy_up :: "nat \<Rightarrow> mem \<Rightarrow> u32 \<Rightarrow> u32 \<Rightarrow> nat \<Rightarrow> mem" where
  "copy_up w m d s 0 = m"
| "copy_up w m d s (Suc n) =
     copy_up w (wr m d (rd m s w)) (d + of_nat w) (s + of_nat w) n"

definition memcpy :: "mem \<Rightarrow> u32 \<Rightarrow> u32 \<Rightarrow> u32 \<Rightarrow> mem \<times> u32" where
  "memcpy m dst src nbytes =
     (if aligned dst 8 \<and> aligned src 8 \<and> aligned nbytes 8
      then copy_up 8 m dst src (unat (nbytes div 8))
      else if aligned dst 4 \<and> aligned src 4 \<and> aligned nbytes 4
      then copy_up 4 m dst src (unat (nbytes div 4))
      else copy_up 1 m dst src (unat nbytes), dst)"

text \<open>\<open>while(count--) *a-- = *b--\<close>.\<close>

fun copy_down :: "mem \<Rightarrow> u32 \<Rightarrow> u32 \<Rightarrow> nat \<Rightarrow> mem" where
  "copy_down m a b 0 = m"
| "copy_down m a b (Suc n) = copy_down (m(a := m b)) (a - 1) (b - 1) n"

definition memmove :: "mem \<Rightarrow> u32 \<Rightarrow> u32 \<Rightarrow> u32 \<Rightarrow> mem \<times> u32" where
  "memmove m dst src count =
     (if src = dst then (m, dst)
      else if dst < src then (copy_up 1 m dst src (unat count), dst)
      else (copy_down m (dst + (count - 1)) (src + (count - 1)) (unat count), dst))"

text \<open>\<open>while(n-- > 0) *p++ = c\<close> on units of \<open>w\<close> bytes: the memory and the pointer after the loop.\<close>

fun fill_up :: "u8 list \<Rightarrow> mem \<Rightarrow> u32 \<Rightarrow> nat \<Rightarrow> mem \<times> u32" where
  "fill_up unit m p 0 = (m, p)"
| "fill_up unit m p (Suc n) = fill_up unit (wr m p unit) (p + of_nat (length unit)) n"

definition memset :: "mem \<Rightarrow> u32 \<Rightarrow> u32 \<Rightarrow> u32 \<Rightarrow> mem \<times> u32" where
  "memset m dst c n =
     (if n = 0 then (m, dst)
      else if c = 0 \<and> aligned dst 8 \<and> aligned n 8
      then fill_up (replicate 8 0) m dst (unat (n div 8))
      else if c = 0 \<and> aligned dst 4 \<and> aligned n 4
      then fill_up (replicate 4 0) m dst (unat (n div 4))
      else fill_up [ucast c] m dst (unat n))"

fun memcmp_loop :: "mem \<Rightarrow> u32 \<Rightarrow> u32 \<Rightarrow> nat \<Rightarrow> int" where
  "memcmp_loop m s1 s2 0 = 0"
| "memcmp_loop m s1 s2 (Suc n) =
     (let v = int (unat (m s1)) - int (unat (m s2)) in
      if v \<noteq> 0 then v else memcmp_loop m (s1 + 1) (s2 + 1) n)"

definition memcmp :: "mem \<Rightarrow> u32 \<Rightarrow> u32 \<Rightarrow> u32 \<Rightarrow> int" where
  "memcmp m s1 s2 nbytes = memcmp_loop m s1 s2 (unat nbytes)"

fun memiszero_loop :: "mem \<Rightarrow> u32 \<Rightarrow> nat \<Rightarrow> bool" where
  "memiszero_loop m p 0 = True"
| "memiszero_loop m p (Suc n) = (if m p \<noteq> 0 then False else memiszero_loop m (p + 1) n)"

definition memiszero :: "mem \<Rightarrow> u32 \<Rightarrow> u32 \<Rightarrow> bool" where
  "memiszero m p n = memiszero_loop m p (unat n)"

subsection \<open>Zero-terminated strings\<close>

fun strlen :: "nat \<Rightarrow> mem \<Rightarrow> u32 \<Rightarrow> u32 \<Rightarrow> u32 res" where
  "strlen 0 m p ret = Inl OutOfFuel"
| "strlen (Suc f) m p ret = (if m (p + ret) \<noteq> 0 then strlen f m p (ret + 1) else Inr ret)"

fun strcmp :: "nat \<Rightarrow> mem \<Rightarrow> u32 \<Rightarrow> u32 \<Rightarrow> int res" where
  "strcmp 0 m a b = Inl OutOfFuel"
| "strcmp (Suc f) m a b =
     (if m a \<noteq> 0 \<and> m a = m b then strcmp f m (a + 1) (b + 1)
      else Inr (int (unat (m a)) - int (unat (m b))))"

fun strncmp_loop :: "mem \<Rightarrow> u32 \<Rightarrow> u32 \<Rightarrow> nat \<Rightarrow> int" where
  "strncmp_loop m s1 s2 0 = 0"
| "strncmp_loop m s1 s2 (Suc n) =
     (if m s1 \<noteq> m s2 then int (unat (m s1)) - int (unat (m s2))
      else strncmp_loop m (s1 + 1) (s2 + 1) n)"

definition strncmp :: "mem \<Rightarrow> u32 \<Rightarrow> u32 \<Rightarrow> u32 \<Rightarrow> int" where
  "strncmp m s1 s2 n = strncmp_loop m s1 s2 (unat n)"

fun strcpy_loop :: "nat \<Rightarrow> mem \<Rightarrow> u32 \<Rightarrow> u32 \<Rightarrow> mem res" where
  "strcpy_loop 0 m s s2 = Inl OutOfFuel"
| "strcpy_loop (Suc f) m s s2 =
     (let m1 = m(s := m s2) in
      if m s2 \<noteq> 0 then strcpy_loop f m1 (s + 1) (s2 + 1) else Inr m1)"

definition strcpy :: "nat \<Rightarrow> mem \<Rightarrow> u32 \<Rightarrow> u32 \<Rightarrow> (mem \<times> u32) res" where
  "strcpy f m s1 s2 = bnd (strcpy_loop f m s1 s2) (\<lambda>m1. Inr (m1, s1))"

text \<open>\<open>do c = *s1++; while(c != 0)\<close>: the pointer one behind the terminator.\<close>

fun strcat_end :: "nat \<Rightarrow> mem \<Rightarrow> u32 \<Rightarrow> u32 res" where
  "strcat_end 0 m s1 = Inl OutOfFuel"
| "strcat_end (Suc f) m s1 = (if m s1 \<noteq> 0 then strcat_end f m (s1 + 1) else Inr (s1 + 1))"

fun strcat_copy :: "nat \<Rightarrow> mem \<Rightarrow> u32 \<Rightarrow> u32 \<Rightarrow> mem res" where
  "strcat_copy 0 m s1 s2 = Inl OutOfFuel"
| "strcat_copy (Suc f) m s1 s2 =
     (let c = m s2; m1 = m(s1 + 1 := c) in
      if c \<noteq> 0 then strcat_copy f m1 (s1 + 1) (s2 + 1) else Inr m1)"

definition strcat :: "nat \<Rightarrow> mem \<Rightarrow> u32 \<Rightarrow> u32 \<Rightarrow> (mem \<times> u32) res" where
  "strcat f m dest src =
     bnd (strcat_end f m dest) (\<lambda>s1.
     bnd (strcat_copy f m (s1 - 2) src) (\<lambda>m1. Inr (m1, dest)))"

text \<open>The null pointer is 0; the pointer returned otherwise is that of the first match.\<close>

fun strchr :: "nat \<Rightarrow> mem \<Rightarrow> u32 \<Rightarrow> u32 \<Rightarrow> u32 res" where
  "strchr 0 m s c = Inl OutOfFuel"
| "strchr (Suc f) m s c =
     (if m s = ucast c then Inr s
      else if m s \<noteq> 0 then strchr f m (s + 1) c else Inr 0)"

text \<open>\<open>putk\<close> sends the characters to \<open>rpi_putchar\<close>, a function pointer \<open>putchar.c\<close> keeps; here the
  characters are appended to the output so far.\<close>

fun putk :: "nat \<Rightarrow> mem \<Rightarrow> u32 \<Rightarrow> u8 list \<Rightarrow> u8 list res" where
  "putk 0 m p out = Inl OutOfFuel"
| "putk (Suc f) m p out = (if m p \<noteq> 0 then putk f m (p + 1) (out @ [m p]) else Inr out)"

record putchar_state =
  rpi_putchar :: nat

definition rpi_putchar_set :: "putchar_state \<Rightarrow> nat \<Rightarrow> nat \<times> putchar_state" where
  "rpi_putchar_set st putc = (rpi_putchar st, st\<lparr>rpi_putchar := putc\<rparr>)"

subsection \<open>What the copies do\<close>

text \<open>All bytes of the source at once.\<close>

definition copied :: "mem \<Rightarrow> u32 \<Rightarrow> u32 \<Rightarrow> nat \<Rightarrow> mem" where
  "copied m d s n = (\<lambda>p. if unat d \<le> unat p \<and> unat p < unat d + n then m (s + (p - d)) else m p)"

definition filled :: "mem \<Rightarrow> u32 \<Rightarrow> u8 \<Rightarrow> nat \<Rightarrow> mem" where
  "filled m d c n = (\<lambda>p. if unat d \<le> unat p \<and> unat p < unat d + n then c else m p)"

lemma unat_plus1: "unat (p :: u32) + 1 < 4294967296 \<Longrightarrow> unat (p + 1) = unat p + 1"
  using unat_add_small [of p 1] by simp

lemma unat_plus_nat: "unat (p :: u32) + n < 4294967296 \<Longrightarrow> unat (p + of_nat n) = unat p + n"
  using unat_add_small [of p "of_nat n"] by (simp add: unat_of_nat)

lemma unat_minus: "unat (d :: u32) \<le> unat p \<Longrightarrow> unat (p - d) = unat p - unat d"
  by (simp add: unat_sub_if_size)

lemma wr_apply:
  "unat a + length bs \<le> 4294967296 \<Longrightarrow>
     wr m a bs p = (if unat a \<le> unat p \<and> unat p < unat a + length bs then bs ! (unat p - unat a) else m p)"
proof (induction bs arbitrary: m a)
  case (Cons b bs)
  show ?case
  proof (cases "bs = []")
    case True
    have "p = a \<longleftrightarrow> unat a \<le> unat p \<and> unat p < unat a + 1"
      by (metis Suc_eq_plus1 le_less_Suc_eq lessI order.refl word_unat_eq_iff)
    then show ?thesis using True by auto
  next
    case False
    then have "1 \<le> length bs" by (cases bs) auto
    then have u: "unat (a + 1) = unat a + 1" using Cons.prems by (intro unat_plus1) simp
    have pa: "p = a \<longleftrightarrow> unat p = unat a" by (simp add: word_unat_eq_iff)
    have "wr (m(a := b)) (a + 1) bs p =
        (if unat a + 1 \<le> unat p \<and> unat p < unat a + 1 + length bs then bs ! (unat p - (unat a + 1))
         else (m(a := b)) p)"
      using Cons.prems u by (subst Cons.IH) simp_all
    then show ?thesis using pa by (auto simp: nth_Cons')
  qed
qed auto

lemma length_rd [simp]: "length (rd m a n) = n"
  by (simp add: rd_def)

lemma nth_rd [simp]: "i < n \<Longrightarrow> rd m a n ! i = m (a + of_nat i)"
  by (simp add: rd_def)

lemma wr_rd:
  assumes "unat d + n \<le> 4294967296"
  shows "wr m d (rd m s n) = copied m d s n"
proof
  fix p
  have "unat d \<le> unat p \<Longrightarrow> word_of_nat (unat p - unat d) = p - d"
    by (simp add: unat_minus [symmetric])
  then show "wr m d (rd m s n) p = copied m d s n p"
    using assms by (auto simp: wr_apply copied_def)
qed


lemma copy_up_copied:
  assumes "0 < w" and "unat d + w * n \<le> 4294967296" and "unat s + w * n \<le> 4294967296"
    and "unat d \<le> unat s \<or> unat s + w * n \<le> unat d"
  shows "copy_up w m d s n = copied m d s (w * n)"
  using assms
proof (induction n arbitrary: m d s)
  case 0
  then show ?case by (auto simp: copied_def fun_eq_iff)
next
  case (Suc n)
  let ?m = "copied m d s w" and ?w = "of_nat w :: u32"
  have w1: "wr m d (rd m s w) = ?m" using Suc.prems by (intro wr_rd) simp
  show ?case
  proof (cases "n = 0")
    case False
    then have "0 < w * n" using Suc.prems(1) by simp
    moreover have "w * Suc n = w + w * n" by simp
    ultimately have "unat d + w < 4294967296" "unat s + w < 4294967296" using Suc.prems by linarith+
    then have u: "unat (d + ?w) = unat d + w" "unat (s + ?w) = unat s + w"
      by (auto intro: unat_plus_nat)
    have IH: "copy_up w ?m (d + ?w) (s + ?w) n = copied ?m (d + ?w) (s + ?w) (w * n)"
      using Suc.prems u by (intro Suc.IH) auto
    have "copied ?m (d + ?w) (s + ?w) (w * n) p = copied m d s (w * Suc n) p" for p
    proof (cases "unat d + w \<le> unat p \<and> unat p < unat d + w + w * n")
      case True
      let ?q = "s + (p - d)"
      have "unat (p - d) = unat p - unat d" using True by (intro unat_minus) simp
      moreover have "unat s + (unat p - unat d) < 4294967296"
        using True Suc.prems(3) by (simp add: algebra_simps; arith)
      ultimately have uq: "unat ?q = unat s + (unat p - unat d)"
        using unat_add_small [of s "p - d"] by simp
      have "copied ?m (d + ?w) (s + ?w) (w * n) p = ?m (s + ?w + (p - (d + ?w)))"
        using True u unfolding copied_def [of ?m] by simp
      also have "s + ?w + (p - (d + ?w)) = ?q" by simp
      also have "\<not> (unat d \<le> unat ?q \<and> unat ?q < unat d + w)"
        using Suc.prems True uq by (auto simp: not_less)
      then have "?m ?q = m ?q" by (auto simp: copied_def)
      finally show ?thesis using True u by (auto simp: copied_def)
    next
      case False
      then show ?thesis using u by (auto simp: copied_def)
    qed
    then show ?thesis using IH w1 by auto
  qed (use w1 in simp)
qed

lemma copy_down_copied:
  "unat d + n \<le> 4294967296 \<Longrightarrow> unat s + n \<le> 4294967296 \<Longrightarrow> unat s \<le> unat d \<Longrightarrow>
     copy_down m (d + (of_nat n - 1)) (s + (of_nat n - 1)) n = copied m d s n"
proof (induction n arbitrary: m)
  case 0
  then show ?case by (auto simp: copied_def fun_eq_iff)
next
  case (Suc n)
  let ?a = "d + of_nat n" and ?b = "s + of_nat n"
  have u: "unat ?a = unat d + n" "unat ?b = unat s + n"
    using Suc.prems by (intro unat_plus_nat; simp)+
  have IH: "copy_down (m(?a := m ?b)) (d + (of_nat n - 1)) (s + (of_nat n - 1)) n =
      copied (m(?a := m ?b)) d s n"
    using Suc.prems by (intro Suc.IH) auto
  have "copied (m(?a := m ?b)) d s n p = copied m d s (Suc n) p" for p
  proof (cases "unat d \<le> unat p \<and> unat p < unat d + n")
    case True
    let ?q = "s + (p - d)"
    have "unat (p - d) = unat p - unat d" using True by (intro unat_minus) simp
    moreover have "unat s + (unat p - unat d) < 4294967296" using True Suc.prems by arith
    ultimately have "unat ?q = unat s + (unat p - unat d)"
      using unat_add_small [of s "p - d"] by simp
    then have "unat ?q \<noteq> unat ?a" using u True Suc.prems by arith
    then have "?q \<noteq> ?a" by metis
    then show ?thesis using True by (simp add: copied_def)
  next
    case False
    have "p = ?a \<longleftrightarrow> unat p = unat d + n" using u(1) by (simp add: word_unat_eq_iff)
    then show ?thesis using False by (auto simp: copied_def)
  qed
  then show ?case using IH by (auto simp: algebra_simps)
qed

lemma fill_up_filled:
  "unit = replicate w c \<Longrightarrow> unat d + w * n \<le> 4294967296 \<Longrightarrow>
     fill_up unit m d n = (filled m d c (w * n), d + of_nat (w * n))"
proof (induction n arbitrary: m d)
  case 0
  then show ?case by (auto simp: filled_def fun_eq_iff)
next
  case (Suc n)
  let ?w = "of_nat w :: u32"
  have w1: "wr m d unit = filled m d c w" using Suc.prems by (intro ext) (auto simp: wr_apply filled_def)
  show ?case
  proof (cases "n = 0 \<or> w = 0")
    case False
    then have "0 < w * n" by simp
    moreover have "w * Suc n = w + w * n" by simp
    ultimately have "unat d + w < 4294967296" using Suc.prems by linarith
    then have u: "unat (d + ?w) = unat d + w" by (rule unat_plus_nat)
    have "fill_up unit (filled m d c w) (d + ?w) n =
        (filled (filled m d c w) (d + ?w) c (w * n), d + ?w + of_nat (w * n))"
      using Suc.prems u by (intro Suc.IH) simp_all
    moreover have "filled (filled m d c w) (d + ?w) c (w * n) = filled m d c (w * Suc n)"
      using u by (auto simp: filled_def)
    ultimately show ?thesis using w1 Suc.prems(1) by (simp add: algebra_simps)
  qed (use w1 Suc in \<open>auto simp: filled_def\<close>)
qed


lemma aligned_units:
  assumes "aligned n k" and "0 < unat k"
  shows "unat k * unat (n div k) = unat n"
proof -
  have "unat n mod unat k = 0" using assms(1) by (simp add: aligned_def unat_mod_distrib [symmetric])
  then show ?thesis by (metis add_0_right mult.commute div_mult_mod_eq unat_div_distrib)
qed

lemma aligned_units_word:
  "aligned n 8 \<Longrightarrow> 8 * (n div 8) = n" "aligned n 4 \<Longrightarrow> 4 * (n div 4) = n"
proof -
  assume "aligned n 8"
  then have "of_nat (8 * unat (n div 8)) = (of_nat (unat n) :: u32)" using aligned_units [of n 8] by simp
  then show "8 * (n div 8) = n" by simp
next
  assume "aligned n 4"
  then have "of_nat (4 * unat (n div 4)) = (of_nat (unat n) :: u32)" using aligned_units [of n 4] by simp
  then show "4 * (n div 4) = n" by simp
qed

lemma memcpy_copied:
  assumes "unat dst + unat n \<le> 4294967296" and "unat src + unat n \<le> 4294967296"
    and "unat dst \<le> unat src \<or> unat src + unat n \<le> unat dst"
  shows "memcpy m dst src n = (copied m dst src (unat n), dst)"
proof -
  have "8 * unat (n div 8) = unat n" if "aligned n 8" using aligned_units [OF that] by simp
  moreover have "4 * unat (n div 4) = unat n" if "aligned n 4" using aligned_units [OF that] by simp
  ultimately show ?thesis
    using assms copy_up_copied [of 8 dst "unat (n div 8)" src m] copy_up_copied [of 4 dst "unat (n div 4)" src m]
      copy_up_copied [of 1 dst "unat n" src m]
    by (auto simp: memcpy_def)
qed

lemma copied_same: "copied m d d n = m"
  by (auto simp: copied_def)

lemma memmove_copied:
  assumes "unat dst + unat n \<le> 4294967296" and "unat src + unat n \<le> 4294967296"
  shows "memmove m dst src n = (copied m dst src (unat n), dst)"
proof (cases "src = dst \<or> dst < src")
  case True
  then show ?thesis
    using assms copy_up_copied [of 1 dst "unat n" src m]
    by (auto simp: memmove_def copied_same word_less_nat_alt)
next
  case False
  then have "unat src \<le> unat dst" by (simp add: word_less_nat_alt)
  then show ?thesis
    using assms copy_down_copied [of dst "unat n" src m] False by (simp add: memmove_def)
qed

lemma memset_filled:
  assumes "unat dst + unat n \<le> 4294967296"
  shows "memset m dst c n = (filled m dst (ucast c) (unat n), dst + n)"
proof -
  have "8 * unat (n div 8) = unat n" if "aligned n 8" using aligned_units [OF that] by simp
  moreover have "4 * unat (n div 4) = unat n" if "aligned n 4" using aligned_units [OF that] by simp
  moreover have "filled m dst (ucast c) 0 = m" by (auto simp: filled_def fun_eq_iff)
  ultimately show ?thesis
    using assms fill_up_filled [of "replicate 8 0" 8 0 dst "unat (n div 8)" m]
      fill_up_filled [of "replicate 4 0" 4 0 dst "unat (n div 4)" m]
      fill_up_filled [of "[ucast c]" 1 "ucast c" dst "unat n" m]
    by (auto simp: memset_def aligned_units_word)
qed

subsection \<open>Strings\<close>

text \<open>The string at \<open>p\<close>: the bytes before the first zero.\<close>

fun cstr :: "mem \<Rightarrow> u32 \<Rightarrow> u8 list \<Rightarrow> bool" where
  "cstr m p [] = (m p = 0)"
| "cstr m p (c # cs) = (c \<noteq> 0 \<and> m p = c \<and> cstr m (p + 1) cs)"

lemma strlen_cstr:
  "cstr m (p + r) s \<Longrightarrow> length s < f \<Longrightarrow> strlen f m p r = Inr (r + of_nat (length s))"
proof (induction s arbitrary: f r)
  case Nil
  then show ?case by (cases f) auto
next
  case (Cons c s)
  then obtain g where "f = Suc g" by (cases f) auto
  then show ?case using Cons.IH [of "r + 1" g] Cons.prems by (auto simp: algebra_simps)
qed

lemma uint_pos: "0 < uint (x :: u8) \<longleftrightarrow> x \<noteq> 0"
proof -
  have "0 \<le> uint x" by simp
  moreover have "uint x = 0 \<longleftrightarrow> x = 0" by (rule uint_0_iff)
  ultimately show ?thesis by linarith
qed

lemma strcmp_cstr:
  assumes "cstr m a s" and "cstr m b t" and "length s < f"
  shows "\<exists>r. strcmp f m a b = Inr r \<and> (r = 0 \<longleftrightarrow> s = t) \<and> (r < 0 \<longleftrightarrow> s < t)"
  using assms
proof (induction s arbitrary: a b t f)
  case Nil
  then obtain g where "f = Suc g" by (cases f) auto
  then show ?case using Nil
    by (cases t) (auto simp: uint_pos uint_0_iff)
next
  case (Cons c s)
  then obtain g where f: "f = Suc g" by (cases f) auto
  show ?case
  proof (cases t)
    case Nil
    then show ?thesis using Cons.prems f by (auto simp: uint_pos uint_0_iff)
  next
    case t: (Cons d u)
    show ?thesis
    proof (cases "c = d")
      case True
      then show ?thesis using Cons.IH [of "a + 1" "b + 1" u g] Cons.prems f t by auto
    next
      case False
      then show ?thesis using Cons.prems f t by (auto simp: word_less_def word_uint_eq_iff)
    qed
  qed
qed

lemma memcmp_loop_zero:
  "memcmp_loop m s1 s2 n = 0 \<longleftrightarrow> rd m s1 n = rd m s2 n"
proof (induction n arbitrary: s1 s2)
  case (Suc n)
  have split: "rd m a (Suc n) = m a # rd m (a + 1) n" for a
    by (rule nth_equalityI) (auto simp: nth_Cons' algebra_simps of_nat_diff)
  show ?case using Suc by (auto simp: split Let_def word_uint_eq_iff)
qed (simp add: rd_def)

subsection \<open>Properties\<close>

text \<open>C13: for regions that do not wrap around the address space, \<open>memmove\<close> copies all bytes as if at
  once, whatever the overlap, changes no other byte and returns the destination; \<open>memcpy\<close>, whose unit is
  one, four or eight bytes by alignment, does the same when the regions are disjoint or the destination
  is not above the source.\<close>

theorem memmove_simultaneous:
  assumes "unat dst + unat n \<le> 4294967296" and "unat src + unat n \<le> 4294967296"
  shows "memmove m dst src n = (copied m dst src (unat n), dst) \<and>
    (unat dst \<le> unat src \<or> unat src + unat n \<le> unat dst \<longrightarrow> memcpy m dst src n = memmove m dst src n)"
  using assms memmove_copied memcpy_copied by auto

theorem memmove_simultaneous_witness:
  "memmove (\<lambda>p. ucast p) 4096 4100 12 = (copied (\<lambda>p. ucast p) 4096 4100 12, 4096) \<and>
    memcpy (\<lambda>p. ucast p) 4096 4100 12 = memmove (\<lambda>p. ucast p) 4096 4100 12"
  using memmove_simultaneous [of 4096 12 4100 "\<lambda>p. ucast p"] by simp

text \<open>\<open>memset\<close> sets exactly the \<open>n\<close> bytes from \<open>dst\<close> on to the low byte of \<open>c\<close>, also when it
  clears in units of four or eight bytes; it returns the address behind them, not \<open>dst\<close>.\<close>

lemma memset_fills:
  assumes "unat dst + unat n \<le> 4294967296"
  shows "memset m dst c n = (filled m dst (ucast c) (unat n), dst + n)"
  using assms by (rule memset_filled)

lemma memset_fills_example:
  "memset (\<lambda>_. 7) 4096 0 24 = (filled (\<lambda>_. 7) 4096 0 24, 4120)"
  using memset_fills [of 4096 24 "\<lambda>_. 7" 0] by simp

text \<open>\<open>strcmp\<close> of two zero-terminated strings returns zero exactly on equal strings, and a negative
  number exactly when the first is smaller in the lexicographic order of unsigned characters; it looks
  at no more characters than the shorter string has, terminator included.\<close>

lemma strcmp_lexicographic:
  assumes "cstr m a s" and "cstr m b t" and "length s < fuel"
  shows "\<exists>r. strcmp fuel m a b = Inr r \<and> (r = 0 \<longleftrightarrow> s = t) \<and> (r < 0 \<longleftrightarrow> s < t)"
  using assms by (rule strcmp_cstr)

definition ex_mem :: mem where
  "ex_mem = (\<lambda>_. 0)(4096 := 97, 4097 := 98, 8192 := 97, 8193 := 99)"

lemma strcmp_lexicographic_example:
  "\<exists>r. strcmp 3 ex_mem 4096 8192 = Inr r \<and> (r = 0 \<longleftrightarrow> [97, 98 :: u8] = [97, 99]) \<and>
     (r < 0 \<longleftrightarrow> [97, 98 :: u8] < [97, 99])"
  by (rule strcmp_lexicographic) (simp_all add: ex_mem_def)

end
