(* ===== verification/Crc.thy ===== *)
theory Crc
  imports Prelude
begin

text \<open>
  The CRC-32 of \<open>libpi/libc/crc.c\<close> (\<open>libunix/crc.c\<close> is the same file): the table of 256 words and the
  byte loop.  The bootloader's two sides compare these sums.  The reference is the bitwise division by
  the reflected polynomial \<open>0xEDB88320\<close>.
\<close>

definition crc32_tab :: "u32 list" where
  "crc32_tab =
    [0, 1996959894, 3993919788, 2567524794, 124634137, 1886057615, 3915621685, 2657392035,
     249268274, 2044508324, 3772115230, 2547177864, 162941995, 2125561021, 3887607047, 2428444049,
     498536548, 1789927666, 4089016648, 2227061214, 450548861, 1843258603, 4107580753, 2211677639,
     325883990, 1684777152, 4251122042, 2321926636, 335633487, 1661365465, 4195302755, 2366115317,
     997073096, 1281953886, 3579855332, 2724688242, 1006888145, 1258607687, 3524101629, 2768942443,
     901097722, 1119000684, 3686517206, 2898065728, 853044451, 1172266101, 3705015759, 2882616665,
     651767980, 1373503546, 3369554304, 3218104598, 565507253, 1454621731, 3485111705, 3099436303,
     671266974, 1594198024, 3322730930, 2970347812, 795835527, 1483230225, 3244367275, 3060149565,
     1994146192, 31158534, 2563907772, 4023717930, 1907459465, 112637215, 2680153253, 3904427059,
     2013776290, 251722036, 2517215374, 3775830040, 2137656763, 141376813, 2439277719, 3865271297,
     1802195444, 476864866, 2238001368, 4066508878, 1812370925, 453092731, 2181625025, 4111451223,
     1706088902, 314042704, 2344532202, 4240017532, 1658658271, 366619977, 2362670323, 4224994405,
     1303535960, 984961486, 2747007092, 3569037538, 1256170817, 1037604311, 2765210733, 3554079995,
     1131014506, 879679996, 2909243462, 3663771856, 1141124467, 855842277, 2852801631, 3708648649,
     1342533948, 654459306, 3188396048, 3373015174, 1466479909, 544179635, 3110523913, 3462522015,
     1591671054, 702138776, 2966460450, 3352799412, 1504918807, 783551873, 3082640443, 3233442989,
     3988292384, 2596254646, 62317068, 1957810842, 3939845945, 2647816111, 81470997, 1943803523,
     3814918930, 2489596804, 225274430, 2053790376, 3826175755, 2466906013, 167816743, 2097651377,
     4027552580, 2265490386, 503444072, 1762050814, 4150417245, 2154129355, 426522225, 1852507879,
     4275313526, 2312317920, 282753626, 1742555852, 4189708143, 2394877945, 397917763, 1622183637,
     3604390888, 2714866558, 953729732, 1340076626, 3518719985, 2797360999, 1068828381, 1219638859,
     3624741850, 2936675148, 906185462, 1090812512, 3747672003, 2825379669, 829329135, 1181335161,
     3412177804, 3160834842, 628085408, 1382605366, 3423369109, 3138078467, 570562233, 1426400815,
     3317316542, 2998733608, 733239954, 1555261956, 3268935591, 3050360625, 752459403, 1541320221,
     2607071920, 3965973030, 1969922972, 40735498, 2617837225, 3943577151, 1913087877, 83908371,
     2512341634, 3803740692, 2075208622, 213261112, 2463272603, 3855990285, 2094854071, 198958881,
     2262029012, 4057260610, 1759359992, 534414190, 2176718541, 4139329115, 1873836001, 414664567,
     2282248934, 4279200368, 1711684554, 285281116, 2405801727, 4167216745, 1634467795, 376229701,
     2685067896, 3608007406, 1308918612, 956543938, 2808555105, 3495958263, 1231636301, 1047427035,
     2932959818, 3654703836, 1088359270, 936918000, 2847714899, 3736837829, 1202900863, 817233897,
     3183342108, 3401237130, 1404277552, 615818150, 3134207493, 3453421203, 1423857449, 601450431,
     3009837614, 3294710456, 1567103746, 711928724, 3020668471, 3272380065, 1510334235, 755167117]"

fun our_crc32_loop :: "u8 list \<Rightarrow> u32 \<Rightarrow> u32" where
  "our_crc32_loop [] crc = crc"
| "our_crc32_loop (p # ps) crc =
     our_crc32_loop ps (crc32_tab ! unat ((crc XOR ucast p) AND 255) XOR drop_bit 8 crc)"

text \<open>\<open>buf\<close> is the \<open>size\<close> bytes at the pointer.\<close>

definition our_crc32_inc :: "u8 list \<Rightarrow> u32 \<Rightarrow> u32" where
  "our_crc32_inc buf crc = our_crc32_loop buf (crc XOR NOT 0) XOR NOT 0"

definition our_crc32 :: "u8 list \<Rightarrow> u32" where
  "our_crc32 buf = our_crc32_inc buf 0"

subsection \<open>Reference: bitwise polynomial division\<close>

definition crc_bit :: "u32 \<Rightarrow> u32" where
  "crc_bit c = (if c AND 1 = 1 then drop_bit 1 c XOR 3988292384 else drop_bit 1 c)"

definition crc_byte :: "u8 \<Rightarrow> u32 \<Rightarrow> u32" where
  "crc_byte b c = (crc_bit ^^ 8) (c XOR ucast b)"

definition crc_ref :: "u8 list \<Rightarrow> u32" where
  "crc_ref bs = fold crc_byte bs (NOT 0) XOR NOT 0"

lemma length_crc32_tab: "length crc32_tab = 256"
  by (simp add: crc32_tab_def)

subsection \<open>The table is the effect of eight division steps on every byte\<close>

lemma crc_bit_alt: "crc_bit c = (if bit c 0 then drop_bit 1 c XOR 3988292384 else drop_bit 1 c)"
  by (simp add: crc_bit_def and_one_eq_bit0)

lemma crc_bit_xor: "crc_bit (x XOR y) = crc_bit x XOR crc_bit y"
  by (cases "bit x 0"; cases "bit y 0")
     (simp_all add: crc_bit_alt bit_xor_iff drop_bit_xor xor.assoc xor.left_commute xor.commute)

lemma crc_steps_xor: "(crc_bit ^^ n) (x XOR y) = (crc_bit ^^ n) x XOR (crc_bit ^^ n) y"
  by (induction n) (simp_all add: crc_bit_xor)

lemma crc_steps_8:
  "(crc_bit ^^ 8) x = crc_bit (crc_bit (crc_bit (crc_bit (crc_bit (crc_bit (crc_bit (crc_bit x)))))))"
  by (simp add: numeral_eq_Suc)

text \<open>Linear maps on the numbers below \<open>2 ^ 8\<close> are determined by the powers of two.\<close>

fun expand :: "u32 list \<Rightarrow> u32 list \<Rightarrow> u32 list" where
  "expand [] t = t"
| "expand (b # bs) t = expand bs (t @ map (\<lambda>x. x XOR b) t)"

lemma of_nat_add_pow:
  assumes "i < 2 ^ k"
  shows "(of_nat (2 ^ k + i) :: u32) = of_nat i XOR of_nat (2 ^ k)"
proof -
  have "\<not> bit i k" using assms by (simp add: bit_iff_odd)
  then have "2 ^ k AND i = 0" by (auto intro!: bit_eqI simp: bit_and_iff bit_exp_iff)
  then have "2 ^ k + i = i XOR 2 ^ k" by (simp add: disjunctive_add_eq_xor xor.commute)
  then show ?thesis by (simp only: of_nat_xor_eq)
qed

lemma expand_steps:
  "k + length bs = 8 \<Longrightarrow> bs = map (\<lambda>j. (crc_bit ^^ 8) (2 ^ j)) [k..<8] \<Longrightarrow>
     expand bs (map (\<lambda>i. (crc_bit ^^ 8) (of_nat i)) [0..<2 ^ k]) =
     map (\<lambda>i. (crc_bit ^^ 8) (of_nat i)) [0..<256]"
proof (induction bs arbitrary: k)
  case (Cons b bs)
  let ?L = "crc_bit ^^ 8"
  have k: "k < 8" using Cons.prems(1) by simp
  then have up: "[k..<8] = k # [Suc k..<8]" by (rule upt_conv_Cons)
  have b: "b = ?L (2 ^ k)" and bs: "bs = map (\<lambda>j. ?L (2 ^ j)) [Suc k..<8]"
    using Cons.prems(2) by (simp_all add: up)
  have "map (\<lambda>i. ?L (of_nat i)) [0..<2 ^ Suc k] =
      map (\<lambda>i. ?L (of_nat i)) [0..<2 ^ k] @ map (\<lambda>i. ?L (of_nat (2 ^ k + i))) [0..<2 ^ k]"
    by (rule nth_equalityI) (auto simp: nth_append)
  also have "map (\<lambda>i. ?L (of_nat (2 ^ k + i))) [0..<2 ^ k] =
      map (\<lambda>x. x XOR b) (map (\<lambda>i. ?L (of_nat i)) [0..<2 ^ k])"
    using of_nat_add_pow [of _ k] by (auto simp: crc_steps_xor b)
  finally show ?case using Cons.IH [of "Suc k"] Cons.prems(1) bs by (simp del: power_Suc)
qed simp

lemma crc_basis:
  "map (\<lambda>j. (crc_bit ^^ 8) (2 ^ j)) [0..<8] =
     [1996959894, 3993919788, 124634137, 249268274, 498536548, 997073096, 1994146192, 3988292384]"
  by (simp add: crc_steps_8 crc_bit_def upt_rec)

lemma crc_table_correct: "crc32_tab = map (\<lambda>i. (crc_bit ^^ 8) (of_nat i)) [0..<256]"
proof -
  have "(crc_bit ^^ 8) 0 = 0" by (simp add: crc_steps_8 crc_bit_def)
  then have "expand (map (\<lambda>j. (crc_bit ^^ 8) (2 ^ j)) [0..<8]) [0] =
      map (\<lambda>i. (crc_bit ^^ 8) (of_nat i)) [0..<256]"
    using expand_steps [of 0 "map (\<lambda>j. (crc_bit ^^ 8) (2 ^ j)) [0..<8]"] by simp
  moreover have "expand (map (\<lambda>j. (crc_bit ^^ 8) (2 ^ j)) [0..<8]) [0] = crc32_tab"
    by (simp add: crc_basis crc32_tab_def)
  ultimately show ?thesis by simp
qed

lemma crc_tab_nth: "i < 256 \<Longrightarrow> crc32_tab ! i = (crc_bit ^^ 8) (of_nat i)"
  by (simp add: crc_table_correct)

subsection \<open>The byte loop is the division\<close>

lemma crc_bit_even: "\<not> bit y 0 \<Longrightarrow> crc_bit y = drop_bit 1 y"
  by (simp add: crc_bit_alt)

lemma crc_steps_zeros: "\<forall>i<n. \<not> bit y i \<Longrightarrow> (crc_bit ^^ n) y = drop_bit n y"
proof (induction n)
  case (Suc n)
  then have "(crc_bit ^^ n) y = drop_bit n y" by simp
  moreover have "\<not> bit (drop_bit n y) 0" using Suc.prems by (simp add: bit_drop_bit_eq)
  ultimately show ?case by (simp add: crc_bit_even)
qed simp

lemma crc_step_byte:
  "crc32_tab ! unat ((c XOR ucast b) AND 255) XOR drop_bit 8 c = crc_byte b c"
proof -
  let ?x = "c XOR ucast b :: u32"
  have m: "(255 :: u32) = mask 8" by (simp add: mask_eq_exp_minus_1)
  have lt: "unat (?x AND 255) < 256"
    using word_and_le1 [of ?x 255] by (simp add: word_le_nat_alt)
  have "?x = (?x AND 255) XOR (?x AND NOT 255)"
    by (rule bit_word_eqI) (auto simp: bit_simps)
  then have "(crc_bit ^^ 8) ?x = (crc_bit ^^ 8) (?x AND 255) XOR (crc_bit ^^ 8) (?x AND NOT 255)"
    by (metis crc_steps_xor)
  moreover have "(crc_bit ^^ 8) (?x AND NOT 255) = drop_bit 8 (?x AND NOT 255)"
    by (intro crc_steps_zeros) (auto simp: m bit_simps)
  moreover have "drop_bit 8 (?x AND NOT 255) = drop_bit 8 c"
    by (rule bit_word_eqI) (auto simp: m bit_simps bit_u8_beyond dest: bit_imp_le_length)
  ultimately show ?thesis using crc_tab_nth [OF lt] by (simp add: crc_byte_def)
qed

lemma our_crc32_loop_fold: "our_crc32_loop bs c = fold crc_byte bs c"
  by (induction bs arbitrary: c) (simp_all add: crc_step_byte)

lemma xor_cancel: "x XOR z = y XOR z \<longleftrightarrow> x = (y :: u32)"
  by (metis xor.assoc xor_self_eq xor.right_neutral)

lemma crc_steps_inj: "inj (crc_bit ^^ n)"
proof -
  have "x = y" if eq: "crc_bit x = crc_bit y" for x y
  proof -
    have "bit (crc_bit z) 31 = bit z 0" for z
      by (simp add: crc_bit_alt bit_simps bit_u32_beyond)
    then have b0: "bit x 0 = bit y 0" using eq by metis
    have "drop_bit 1 x = drop_bit 1 y" using eq b0 by (auto simp: crc_bit_alt xor_cancel split: if_splits)
    then have "bit x (Suc n) = bit y (Suc n)" for n by (metis bit_drop_bit_eq comp_apply plus_1_eq_Suc)
    then show "x = y" using b0 by (intro bit_word_eqI) (metis not0_implies_Suc)
  qed
  then show ?thesis by (intro inj_fn) (auto simp: inj_def)
qed

lemma crc_byte_inj_state: "crc_byte b c = crc_byte b d \<longleftrightarrow> c = d"
  using crc_steps_inj [of 8] by (auto simp: crc_byte_def xor_cancel dest!: injD)

lemma crc_byte_inj_byte: "crc_byte b c = crc_byte d c \<longleftrightarrow> b = d"
proof -
  have "crc_byte b c = crc_byte d c \<longleftrightarrow> (ucast b :: u32) = ucast d"
    using crc_steps_inj [of 8] xor_cancel [of _ c]
    by (auto simp: crc_byte_def xor.commute [of c] dest!: injD)
  also have "\<dots> \<longleftrightarrow> b = d"
  proof
    assume eq: "(ucast b :: u32) = ucast d"
    show "b = d"
    proof (rule bit_word_eqI)
      fix n assume "n < LENGTH(8)"
      then show "bit b n = bit d n"
        using arg_cong [OF eq, of "\<lambda>x. bit x n"] by (simp add: bit_ucast_u8_u32)
    qed
  qed simp
  finally show ?thesis .
qed

lemma crc_fold_inj: "fold crc_byte bs c = fold crc_byte bs d \<longleftrightarrow> c = d"
  by (induction bs arbitrary: c d) (simp_all add: crc_byte_inj_state)

subsection \<open>Properties\<close>

text \<open>C31: the table-driven loop computes the CRC-32 of the reflected polynomial \<open>0xEDB88320\<close>, bit by bit
  division over all bytes, and a sum continued over a second buffer is the sum of both.\<close>

theorem our_crc32_correct:
  "our_crc32 (xs @ ys) = crc_ref (xs @ ys) \<and> our_crc32_inc ys (our_crc32 xs) = our_crc32 (xs @ ys)"
  by (simp add: our_crc32_def our_crc32_inc_def crc_ref_def our_crc32_loop_fold xor.assoc)

text \<open>Two buffers that differ in one byte have different sums.\<close>

lemma our_crc32_detects_byte:
  "our_crc32 (xs @ b # ys) = our_crc32 (xs @ d # ys) \<longleftrightarrow> b = d"
  by (simp add: our_crc32_def our_crc32_inc_def our_crc32_loop_fold xor_cancel crc_fold_inj
      crc_byte_inj_byte)

end
