(* ===== verification/Printk.thy ===== *)
theory Printk
  imports LibcMem "HOL-Library.Char_ord"
begin

text \<open>
  Formatted output: \<open>libpi/libc/printk.c\<close>, which sends characters through the function pointer
  \<open>rpi_putchar\<close> (the parameter \<open>putchar\<close>, on an output state of its own), and \<open>libpi/libc/sprintk.c\<close>,
  the same formats into a buffer.  Format strings are the characters before the terminator; the
  variable arguments are a list of values, an argument of the wrong kind is \<open>OutOfBounds\<close>.
\<close>

datatype fmt_arg = A32 u32 | A64 u64 | AStr string

type_synonym 'o putc = "char \<Rightarrow> 'o \<Rightarrow> 'o res"

fun arg32 :: "fmt_arg list \<Rightarrow> (u32 \<times> fmt_arg list) res" where
  "arg32 (A32 u # as) = Inr (u, as)"
| "arg32 _ = Inl OutOfBounds"

fun arg64 :: "fmt_arg list \<Rightarrow> (u64 \<times> fmt_arg list) res" where
  "arg64 (A64 u # as) = Inr (u, as)"
| "arg64 _ = Inl OutOfBounds"

fun argstr :: "fmt_arg list \<Rightarrow> (string \<times> fmt_arg list) res" where
  "argstr (AStr s # as) = Inr (s, as)"
| "argstr _ = Inl OutOfBounds"

text \<open>\<open>for(; *s; s++) putchar(*s)\<close>, and the loop that empties \<open>num\<close>.\<close>

fun put_all :: "'o putc \<Rightarrow> string \<Rightarrow> 'o \<Rightarrow> 'o res" where
  "put_all putchar [] out = Inr out"
| "put_all putchar (c # cs) out = bnd (putchar c out) (put_all putchar cs)"

subsection \<open>\<open>printk.c\<close>\<close>

text \<open>The characters put into \<open>num\<close>, least significant digit first.  The alphabet has 2, 10 or 16
  characters; the guard on its length only makes the recursion total.\<close>

function num_digits :: "string \<Rightarrow> u32 \<Rightarrow> string" where
  "num_digits alpha u =
     (let b = of_nat (length alpha); c = alpha ! unat (u mod b); u' = u div b in
      if u' = 0 \<or> length alpha < 2 \<or> 16 < length alpha then [c] else c # num_digits alpha u')"
  by pat_completeness auto
termination
proof (relation "measure (unat \<circ> snd)")
  fix alpha :: string and u b :: u32 and c :: char and u' :: u32
  assume d: "b = of_nat (length alpha)" "c = alpha ! unat (u mod b)" "u' = u div b"
    "\<not> (u' = 0 \<or> length alpha < 2 \<or> 16 < length alpha)"
  then have "unat b = length alpha" by (simp add: unat_of_nat)
  moreover have "u \<noteq> 0" using d by auto
  then have "0 < unat u" by (simp add: unat_gt_0)
  ultimately have "unat (u div b) < unat u" using d by (simp add: unat_div_distrib)
  then show "((alpha, u'), alpha, u) \<in> measure (unat \<circ> snd)" using d by simp
qed simp

declare num_digits.simps [simp del]

definition base_digits :: "nat \<Rightarrow> string option" where
  "base_digits base =
     (if base = 2 then Some ''01'' else if base = 10 then Some ''0123456789''
      else if base = 16 then Some ''0123456789abcdef'' else None)"

definition emit_val :: "'o putc \<Rightarrow> nat \<Rightarrow> u32 \<Rightarrow> 'o \<Rightarrow> 'o res" where
  "emit_val putchar base u out =
     (case base_digits base of
        None \<Rightarrow> Inl (Panic ''invalid base'')
      | Some alpha \<Rightarrow>
          let num = num_digits alpha u in
          if 33 < length num then Inl OutOfBounds else put_all putchar (rev num) out)"

definition hex64 :: "('o putc \<Rightarrow> nat \<Rightarrow> u32 \<Rightarrow> 'o \<Rightarrow> 'o res) \<Rightarrow> 'o putc \<Rightarrow> u64 \<Rightarrow> 'o \<Rightarrow> 'o res" where
  "hex64 ev putchar x out =
     (let hi = ucast (drop_bit 32 x) :: u32; lo = ucast x :: u32 in
      bnd (if hi \<noteq> 0 then ev putchar 16 hi out else Inr out) (ev putchar 16 lo))"

definition low_char :: "u32 \<Rightarrow> char" where
  "low_char u = char_of (unat u mod 256)"

fun vprintk :: "'o putc \<Rightarrow> string \<Rightarrow> fmt_arg list \<Rightarrow> 'o \<Rightarrow> 'o res" where
  "vprintk putchar [] ap out = Inr out"
| "vprintk putchar (c # fmt) ap out =
     (if c \<noteq> CHR ''%'' then bnd (putchar c out) (vprintk putchar fmt ap)
      else case fmt of [] \<Rightarrow> Inl (Panic ''bogus identifier'')
      | d # rest \<Rightarrow>
        (if d = CHR ''b'' then bnd (arg32 ap) (\<lambda>(u, ap).
             bnd (emit_val putchar 2 u out) (vprintk putchar rest ap))
         else if d = CHR ''u'' then bnd (arg32 ap) (\<lambda>(u, ap).
             bnd (emit_val putchar 10 u out) (vprintk putchar rest ap))
         else if d = CHR ''c'' then bnd (arg32 ap) (\<lambda>(u, ap).
             bnd (putchar (low_char u) out) (vprintk putchar rest ap))
         else if d = CHR ''l'' then
           (case rest of e # f # rest2 \<Rightarrow>
              if e = CHR ''l'' \<and> f = CHR ''x'' then
                bnd (putchar (CHR ''0'') out) (\<lambda>out. bnd (putchar (CHR ''x'') out) (\<lambda>out.
                bnd (arg64 ap) (\<lambda>(x, ap).
                bnd (hex64 emit_val putchar x out) (vprintk putchar rest2 ap))))
              else Inl (Panic ''only handling llx format'')
            | _ \<Rightarrow> Inl (Panic ''only handling llx format''))
         else if d = CHR ''x'' \<or> d = CHR ''p'' then
           bnd (putchar (CHR ''0'') out) (\<lambda>out. bnd (putchar (CHR ''x'') out) (\<lambda>out.
           bnd (arg32 ap) (\<lambda>(u, ap).
           bnd (emit_val putchar 16 u out) (vprintk putchar rest ap))))
         else if d = CHR ''d'' then bnd (arg32 ap) (\<lambda>(v, ap).
           if v <s 0 then
             bnd (putchar (CHR ''-'') out) (\<lambda>out.
             bnd (emit_val putchar 10 (- v) out) (vprintk putchar rest ap))
           else bnd (emit_val putchar 10 v out) (vprintk putchar rest ap))
         else if d = CHR ''s'' then bnd (argstr ap) (\<lambda>(s, ap).
           bnd (put_all putchar s out) (vprintk putchar rest ap))
         else Inl (Panic ''bogus identifier'')))"

definition printk :: "'o putc \<Rightarrow> string \<Rightarrow> fmt_arg list \<Rightarrow> 'o \<Rightarrow> 'o res" where
  "printk putchar fmt args out = vprintk putchar fmt args out"

subsection \<open>\<open>sprintk.c\<close>\<close>

text \<open>The file's \<open>putchar\<close> stores through \<open>buf_ptr\<close> below \<open>buf_end\<close>; its \<open>emit_val\<close> and its format
  loop are the text of \<open>printk.c\<close> over again with that \<open>putchar\<close>.\<close>

definition s_putchar :: "u32 \<Rightarrow> (mem \<times> u32) putc" where
  "s_putchar buf_end c st =
     (let (m, buf_ptr) = st in
      bnd (check (buf_ptr < buf_end) ''buf_ptr < buf_end'') (\<lambda>_.
      Inr (m(buf_ptr := of_char c), buf_ptr + 1)))"

definition s_emit_val :: "u32 \<Rightarrow> nat \<Rightarrow> u32 \<Rightarrow> mem \<times> u32 \<Rightarrow> (mem \<times> u32) res" where
  "s_emit_val buf_end = emit_val (s_putchar buf_end)"

definition vsnprintk :: "mem \<Rightarrow> u32 \<Rightarrow> u32 \<Rightarrow> string \<Rightarrow> fmt_arg list \<Rightarrow> mem res" where
  "vsnprintk m buf n fmt ap =
     (let buf_ptr = buf; buf_end = buf + n in
      bnd (vprintk (s_putchar buf_end) fmt ap (m, buf_ptr)) (\<lambda>(m, buf_ptr).
      Inr (m(buf_ptr := 0))))"

definition snprintk :: "mem \<Rightarrow> u32 \<Rightarrow> u32 \<Rightarrow> string \<Rightarrow> fmt_arg list \<Rightarrow> mem res" where
  "snprintk m buf n fmt args = vsnprintk m buf n fmt args"

subsection \<open>The digits\<close>

text \<open>The number a list of digits stands for, least significant first.\<close>

fun digits_val :: "string \<Rightarrow> string \<Rightarrow> nat" where
  "digits_val alpha [] = 0"
| "digits_val alpha (c # cs) =
     length (takeWhile (\<lambda>x. x \<noteq> c) alpha) + length alpha * digits_val alpha cs"

lemma takeWhile_index:
  "distinct xs \<Longrightarrow> i < length xs \<Longrightarrow> length (takeWhile (\<lambda>x. x \<noteq> xs ! i) xs) = i"
proof (induction xs arbitrary: i)
  case (Cons x xs)
  then show ?case by (cases i) auto
qed simp

lemma num_digits_facts:
  assumes "2 \<le> length alpha" and "length alpha \<le> 16" and "distinct alpha"
  shows "digits_val alpha (num_digits alpha u) = unat u \<and> num_digits alpha u \<noteq> [] \<and>
    (1 < length (num_digits alpha u) \<longrightarrow> last (num_digits alpha u) \<noteq> alpha ! 0) \<and>
    (u = 0 \<longrightarrow> length (num_digits alpha u) = 1) \<and>
    (u \<noteq> 0 \<longrightarrow> 2 ^ (length (num_digits alpha u) - 1) \<le> unat u \<and> last (num_digits alpha u) \<noteq> alpha ! 0)"
  using assms
proof (induction alpha u rule: num_digits.induct)
  case (1 alpha u)
  let ?n = "length alpha" and ?b = "of_nat (length alpha) :: u32"
  let ?d = "u div ?b" and ?c = "alpha ! unat (u mod ?b)"
  have b: "unat ?b = ?n" using 1 by (simp add: unat_of_nat)
  have u: "unat ?d = unat u div ?n" "unat (u mod ?b) = unat u mod ?n"
    using b by (simp_all add: unat_div_distrib unat_mod_distrib)
  have "0 < ?n" using 1(2) by linarith
  then have lt: "unat (u mod ?b) < ?n" using u by simp
  have pos: "length (takeWhile (\<lambda>x. x \<noteq> ?c) alpha) = unat u mod ?n"
    using takeWhile_index [OF 1(4) lt] u by simp
  show ?case
  proof (cases "?d = 0")
    case True
    then have small: "unat u < ?n" using u(1) 1 by (metis div_eq_0_iff not_numeral_le_zero unsigned_0)
    moreover have "?c \<noteq> alpha ! 0" if "u \<noteq> 0"
    proof -
      have "unat u \<noteq> 0" "0 < ?n" using that \<open>0 < ?n\<close> by (auto simp: unat_eq_zero)
      then show ?thesis using small u 1(4) nth_eq_iff_index_eq [of alpha "unat u" 0] by simp
    qed
    moreover have "num_digits alpha u = [?c]" using True by (subst num_digits.simps) (simp add: Let_def)
    moreover have "u \<noteq> 0 \<Longrightarrow> 1 \<le> unat u" by (simp add: unat_gt_0 Suc_le_eq)
    ultimately show ?thesis using pos by auto
  next
    case False
    then have eq: "num_digits alpha u = ?c # num_digits alpha ?d"
      using 1 by (subst num_digits.simps) (simp add: Let_def)
    have IH: "digits_val alpha (num_digits alpha ?d) = unat ?d \<and> num_digits alpha ?d \<noteq> [] \<and>
       2 ^ (length (num_digits alpha ?d) - 1) \<le> unat ?d \<and> last (num_digits alpha ?d) \<noteq> alpha ! 0"
      using 1(1) [OF refl refl refl] False 1(2-) by simp
    have "2 * unat ?d \<le> ?n * unat ?d" using 1(2) by simp
    also have "\<dots> \<le> unat u" using u by simp
    finally have "2 ^ length (num_digits alpha ?d) \<le> unat u"
      using IH by (cases "num_digits alpha ?d") auto
    moreover have "unat u mod ?n + ?n * (unat u div ?n) = unat u" by simp
    moreover have "u \<noteq> 0" using False by auto
    ultimately show ?thesis unfolding eq using IH pos u(1) by simp
  qed
qed

lemma num_digits_length:
  assumes "2 \<le> length alpha" and "length alpha \<le> 16" and "distinct alpha"
  shows "length (num_digits alpha u) \<le> 32"
proof (cases "u = 0")
  case False
  then have "2 ^ (length (num_digits alpha u) - 1) \<le> unat u" using num_digits_facts [OF assms] by blast
  also have "unat u < 2 ^ 32" using unat_u32_lt [of u] by simp
  finally have "length (num_digits alpha u) - 1 < 32" by (rule power_less_imp_less_exp [rotated]) simp
  then show ?thesis by simp
qed (use num_digits_facts [OF assms, of u] in simp)

lemma base_digits_ok:
  "base_digits base = Some alpha \<Longrightarrow> length alpha = base \<and> 2 \<le> base \<and> base \<le> 16 \<and> distinct alpha \<and> alpha ! 0 = CHR ''0''"
  by (auto simp: base_digits_def split: if_splits)

lemma emit_val_digits:
  "base_digits base = Some alpha \<Longrightarrow>
     emit_val putchar base u out = put_all putchar (rev (num_digits alpha u)) out"
  using base_digits_ok [of base alpha] num_digits_length [of alpha u] by (simp add: emit_val_def)

subsection \<open>The output does not depend on the consumer\<close>

text \<open>The specification of a format: the string \<open>printk\<close> sends to a consumer that never fails.\<close>

definition record_char :: "string putc" where
  "record_char c out = Inr (out @ [c])"

definition format_string :: "string \<Rightarrow> fmt_arg list \<Rightarrow> string res" where
  "format_string fmt ap = vprintk record_char fmt ap ''''"

lemma put_all_append: "put_all p (xs @ ys) out = bnd (put_all p xs out) (put_all p ys)"
  by (induction xs arbitrary: out) (auto simp: bnd_assoc intro!: bnd_cong)

lemma put_all_record: "put_all record_char s out = Inr (out @ s)"
  by (induction s arbitrary: out) (simp_all add: record_char_def)


definition hex64_str :: "u64 \<Rightarrow> string" where
  "hex64_str x =
     (let hi = ucast (drop_bit 32 x) :: u32; lo = ucast x :: u32; d = num_digits ''0123456789abcdef'' in
      (if hi \<noteq> 0 then rev (d hi) else '''') @ rev (d lo))"

lemma emit_val_2: "emit_val p 2 u = put_all p (rev (num_digits ''01'' u))"
  by (rule ext, rule emit_val_digits) (simp add: base_digits_def)

lemma emit_val_10: "emit_val p 10 u = put_all p (rev (num_digits ''0123456789'' u))"
  by (rule ext, rule emit_val_digits) (simp add: base_digits_def)

lemma emit_val_16: "emit_val p 16 u = put_all p (rev (num_digits ''0123456789abcdef'' u))"
  by (rule ext, rule emit_val_digits) (simp add: base_digits_def)

lemma hex64_all: "hex64 emit_val p x = put_all p (hex64_str x)"
  by (rule ext) (simp add: hex64_def hex64_str_def Let_def emit_val_16 put_all_append)

lemma arg32_eq: "arg32 ap = Inr x \<longleftrightarrow> (\<exists>u as. ap = A32 u # as \<and> x = (u, as))"
  by (cases ap rule: arg32.cases) auto

lemma arg64_eq: "arg64 ap = Inr x \<longleftrightarrow> (\<exists>u as. ap = A64 u # as \<and> x = (u, as))"
  by (cases ap rule: arg64.cases) auto

lemma argstr_eq: "argstr ap = Inr x \<longleftrightarrow> (\<exists>s as. ap = AStr s # as \<and> x = (s, as))"
  by (cases ap rule: argstr.cases) auto

lemma put_all_Nil: "put_all p [] = Inr"
  by (rule ext) simp

lemma bnd_right_Inr: "bnd m Inr = m"
  by (cases m) simp_all

lemma record_char_bnd: "bnd (record_char c out) f = f (out @ [c])"
  by (simp add: record_char_def)

lemmas sends_simps = put_all_Nil bnd_right_Inr record_char_bnd emit_val_2 emit_val_10 emit_val_16 hex64_all put_all_record res_simps
  arg32_eq arg64_eq argstr_eq

text \<open>Every format that the recording consumer accepts sends the same string to any consumer.\<close>

lemma vprintk_sends:
  "vprintk record_char fmt ap r = Inr r' \<Longrightarrow> \<exists>s. r' = r @ s \<and> vprintk p fmt ap = put_all p s"
proof (induction fmt arbitrary: ap r rule: length_induct)
  case (1 fmt)
  note prem = 1(2)
  have step: "\<exists>s. r' = r @ s \<and> g = put_all p s"
    if lt: "length f < length fmt" and v: "vprintk record_char f b (r @ t) = Inr r'"
      and g: "g = (\<lambda>out. bnd (put_all p t out) (vprintk p f b))" for f b t g
  proof -
    obtain s where s: "r' = (r @ t) @ s" "vprintk p f b = put_all p s" using 1(1) lt v by blast
    then have "g = put_all p (t @ s)" unfolding g by (simp add: put_all_append [abs_def] fun_eq_iff [of "\<lambda>out. bnd _ _"])
    then show ?thesis using s(1) by auto
  qed
  show ?case
  proof (cases fmt)
    case Nil
    then show ?thesis using prem by (intro exI [of _ "[]"]) (auto simp: fun_eq_iff)
  next
    case fmt: (Cons c rest)
    show ?thesis
    proof (cases "c = CHR ''%''")
      case False
      then show ?thesis
        using prem fmt by (intro step [of rest ap "[c]"]) (auto simp: sends_simps fun_eq_iff)
    next
      case True
      then obtain d f where rest: "rest = d # f" using prem fmt by (cases rest) auto
      note eqs = fmt True rest
      consider (b) "d = CHR ''b''" | (u) "d = CHR ''u''" | (c) "d = CHR ''c''" | (l) "d = CHR ''l''"
        | (x) "d = CHR ''x'' \<or> d = CHR ''p''" | (d) "d = CHR ''d''" | (s) "d = CHR ''s''"
        using prem eqs by (auto split: if_splits)
      then show ?thesis
      proof cases
        case b
        obtain u as where ap: "ap = A32 u # as"
          and v: "vprintk record_char f as (r @ rev (num_digits ''01'' u)) = Inr r'"
          using prem b eqs by (auto simp: sends_simps)
        show ?thesis by (rule step [OF _ v]) (auto simp: eqs b ap sends_simps fun_eq_iff)
      next
        case u
        obtain v as where ap: "ap = A32 v # as"
          and v: "vprintk record_char f as (r @ rev (num_digits ''0123456789'' v)) = Inr r'"
          using prem u eqs by (auto simp: sends_simps)
        show ?thesis by (rule step [OF _ v]) (auto simp: eqs u ap sends_simps fun_eq_iff)
      next
        case c
        obtain u as where ap: "ap = A32 u # as"
          and v: "vprintk record_char f as (r @ [low_char u]) = Inr r'"
          using prem c eqs by (auto simp: sends_simps)
        show ?thesis by (rule step [OF _ v]) (auto simp: eqs c ap sends_simps fun_eq_iff)
      next
        case l
        obtain g where g: "f = CHR ''l'' # CHR ''x'' # g"
          using prem l eqs by (auto split: list.splits if_splits)
        obtain x as where ap: "ap = A64 x # as"
          and v: "vprintk record_char g as (r @ (CHR ''0'' # CHR ''x'' # hex64_str x)) = Inr r'"
          using prem l eqs g by (auto simp: sends_simps)
        show ?thesis by (rule step [OF _ v]) (auto simp: eqs l ap g sends_simps bnd_assoc fun_eq_iff)
      next
        case x
        obtain u as where ap: "ap = A32 u # as"
          and v: "vprintk record_char f as
                    (r @ (CHR ''0'' # CHR ''x'' # rev (num_digits ''0123456789abcdef'' u))) = Inr r'"
          using prem x eqs by (auto simp: sends_simps)
        show ?thesis using x by (intro step [OF _ v]) (auto simp: eqs ap sends_simps bnd_assoc fun_eq_iff)
      next
        case d
        obtain u as where ap: "ap = A32 u # as"
          and v: "vprintk record_char f as (r @ (if u <s 0 then CHR ''-'' # rev (num_digits ''0123456789'' (- u))
                    else rev (num_digits ''0123456789'' u))) = Inr r'"
          using prem d eqs by (auto simp: sends_simps split: if_splits)
        show ?thesis by (rule step [OF _ v]) (auto simp: eqs d ap sends_simps bnd_assoc fun_eq_iff)
      next
        case s
        obtain t as where ap: "ap = AStr t # as" and v: "vprintk record_char f as (r @ t) = Inr r'"
          using prem s eqs by (auto simp: sends_simps)
        show ?thesis by (rule step [OF _ v]) (auto simp: eqs s ap sends_simps fun_eq_iff)
      qed
    qed
  qed
qed

subsection \<open>The buffer version\<close>

lemma wr_snoc: "wr m p (xs @ [c]) = (wr m p xs)(p + of_nat (length xs) := c)"
  by (induction xs arbitrary: m p) (simp_all add: add.assoc)

lemma s_putchar_pair:
  "s_putchar e c (m, p) = (if p < e then Inr (m(p := of_char c), p + 1)
     else Inl (AssertFail ''buf_ptr < buf_end''))"
  by (simp add: s_putchar_def)

lemma put_all_buffer:
  "unat p \<le> unat e \<Longrightarrow>
     put_all (s_putchar e) s (m, p) =
       (if unat p + length s \<le> unat e then Inr (wr m p (map of_char s), p + of_nat (length s))
        else Inl (AssertFail ''buf_ptr < buf_end''))"
proof (induction s arbitrary: m p)
  case (Cons c s)
  show ?case
  proof (cases "unat p = unat e")
    case True
    then have "\<not> p < e" by (simp add: word_less_nat_alt)
    then show ?thesis using True by (simp add: s_putchar_pair)
  next
    case False
    then have lt: "unat p < unat e" using Cons.prems by simp
    then have "p < e" by (simp add: word_less_nat_alt)
    moreover have u: "unat (p + 1) = unat p + 1" using lt unat_u32_lt [of e] by (intro unat_plus1) linarith
    moreover have "put_all (s_putchar e) s (m(p := of_char c), p + 1) =
        (if unat (p + 1) + length s \<le> unat e
         then Inr (wr (m(p := of_char c)) (p + 1) (map of_char s), p + 1 + of_nat (length s))
         else Inl (AssertFail ''buf_ptr < buf_end''))"
      using lt u by (intro Cons.IH) simp
    ultimately show ?thesis by (simp add: s_putchar_pair add.assoc)
  qed
qed simp

lemma snprintk_string:
  assumes "format_string fmt ap = Inr s" and "unat buf + unat n < 4294967296"
  shows "snprintk m buf n fmt ap =
     (if length s \<le> unat n then Inr (wr m buf (map of_char s @ [0]))
      else Inl (AssertFail ''buf_ptr < buf_end''))"
proof -
  have "vprintk (s_putchar (buf + n)) fmt ap = put_all (s_putchar (buf + n)) s"
    using vprintk_sends [of fmt ap "[]" s] assms(1) by (auto simp: format_string_def)
  moreover have "unat (buf + n) = unat buf + unat n" using assms(2) by (rule unat_add_small)
  ultimately show ?thesis
    by (simp add: snprintk_def vsnprintk_def put_all_buffer wr_snoc Let_def)
qed

subsection \<open>Properties\<close>

text \<open>for each of the three bases the code uses, \<open>emit_val\<close> sends the digits of the number, most
  significant first: reading them back gives the number, there is no leading zero (but for the number
  zero, one digit), and the 33 characters of \<open>num\<close> are always enough.\<close>

lemma emit_val_roundtrip:
  assumes "base \<in> {2, 10, 16}"
  shows "\<exists>alpha s. base_digits base = Some alpha \<and> (\<forall>out. emit_val putchar base u out = put_all putchar s out) \<and>
    digits_val alpha (rev s) = unat u \<and> s \<noteq> [] \<and> length s \<le> 32 \<and>
    (1 < length s \<longrightarrow> hd s \<noteq> CHR ''0'') \<and> (u = 0 \<longrightarrow> length s = 1)"
proof -
  obtain alpha where a: "base_digits base = Some alpha" using assms by (auto simp: base_digits_def)
  have ok: "2 \<le> length alpha" "length alpha \<le> 16" "distinct alpha" "alpha ! 0 = CHR ''0''"
    using base_digits_ok [OF a] by auto
  show ?thesis
    using num_digits_facts [OF ok(1-3), of u] num_digits_length [OF ok(1-3), of u] emit_val_digits [OF a, of putchar u] a ok(4)
    by (rule_tac x = alpha in exI, rule_tac x = "rev (num_digits alpha u)" in exI) (auto simp: hd_rev)
qed

lemma emit_val_roundtrip_example:
  "\<exists>alpha s. base_digits 10 = Some alpha \<and> (\<forall>out. emit_val record_char 10 140 out = put_all record_char s out) \<and>
    digits_val alpha (rev s) = 140"
  using emit_val_roundtrip [of 10 record_char 140] by auto

text \<open>C40: \<open>snprintk\<close> and \<open>printk\<close> produce the same characters for every format and argument list that
  \<open>printk\<close> accepts: \<open>printk\<close> hands them to \<open>rpi_putchar\<close> one by one, \<open>snprintk\<close> stores them from \<open>buf\<close>
  on followed by a zero, or stops with a failed assertion when they are more than \<open>n\<close>.  When they are
  exactly \<open>n\<close>, the zero is stored behind the buffer.\<close>

theorem snprintk_eq_printk:
  assumes "format_string fmt ap = Inr s" and "unat buf + unat n < 4294967296"
  shows "(\<forall>out. printk putchar fmt ap out = put_all putchar s out) \<and>
    snprintk m buf n fmt ap =
      (if length s \<le> unat n then Inr (wr m buf (map of_char s @ [0]))
       else Inl (AssertFail ''buf_ptr < buf_end'')) \<and>
    (length s = unat n \<longrightarrow> (\<exists>m'. snprintk m buf n fmt ap = Inr m' \<and> m' (buf + n) = 0))"
proof -
  have "vprintk putchar fmt ap = put_all putchar s"
    using vprintk_sends [of fmt ap "[]" s putchar] assms(1) by (auto simp: format_string_def)
  then show ?thesis using snprintk_string [OF assms, of m] by (auto simp: printk_def wr_snoc)
qed

lemma ex_format: "format_string ''v=%d'' [A32 (- 7)] = Inr ''v=-7''"
  by (simp add: format_string_def sends_simps num_digits.simps word_sless_alt)

theorem snprintk_eq_printk_witness:
  "(\<forall>out. printk record_char ''v=%d'' [A32 (- 7)] out = put_all record_char ''v=-7'' out) \<and>
    snprintk (\<lambda>_. 255) 4096 4 ''v=%d'' [A32 (- 7)] = Inr (wr (\<lambda>_. 255) 4096 [118, 61, 45, 55, 0]) \<and>
    (\<exists>m'. snprintk (\<lambda>_. 255) 4096 4 ''v=%d'' [A32 (- 7)] = Inr m' \<and> m' 4100 = 0)"
  using snprintk_eq_printk [OF ex_format, of 4096 4 record_char "\<lambda>_. 255"] by simp

end
