(* ===== verification/PiRandom.thy ===== *)
theory PiRandom
  imports Prelude "HOL-Library.Signed_Division"
begin

text \<open>
  The random number generator of \<open>libpi/libc/random.c\<close> (the additive feedback generator of glibc) and
  its wrapper \<open>libpi/libc/pi-random.c\<close>, which the fake-pi tests of the labs use to produce the same
  device inputs for everyone.

  A state array is a list of words in which element 0 is the C \<open>state[-1]\<close>; the arrays in use are a map
  from buffer numbers, pointers into the current one are indices.  Null arguments cannot be expressed;
  the other failure return (-1) is \<open>None\<close>.
\<close>

subsection \<open>State\<close>

record random_data =
  fptr :: nat
  rptr :: nat
  rstate :: nat
  rand_type :: nat
  rand_deg :: nat
  rand_sep :: nat
  end_ptr :: nat

type_synonym bufs = "nat \<Rightarrow> u32 list"

definition MAX_TYPES :: nat where
  "MAX_TYPES = 5"

definition poly_seps :: "nat list" where
  "poly_seps = [0, 3, 1, 3, 1]"

definition poly_degrees :: "nat list" where
  "poly_degrees = [0, 7, 15, 31, 63]"

text \<open>\<open>state[i]\<close> of the buffer numbered \<open>b\<close>.\<close>

definition st_get :: "bufs \<Rightarrow> nat \<Rightarrow> nat \<Rightarrow> u32 res" where
  "st_get B b i = arr_get (B b) (i + 1)"

definition st_set :: "bufs \<Rightarrow> nat \<Rightarrow> nat \<Rightarrow> u32 \<Rightarrow> bufs res" where
  "st_set B b i v = bnd (arr_set (B b) (i + 1) v) (\<lambda>xs. Inr (B(b := xs)))"

subsection \<open>Operations\<close>

definition random_r :: "bufs \<Rightarrow> random_data \<Rightarrow> (u32 \<times> bufs \<times> random_data) res" where
  "random_r B r =
     (let b = rstate r in
      if rand_type r = 0 then
        bnd (st_get B b 0) (\<lambda>s0.
        let val = (s0 * 1103515245 + 12345) AND 2147483647 in
        bnd (st_set B b 0 val) (\<lambda>B1. Inr (val, B1, r)))
      else
        bnd (st_get B b (fptr r)) (\<lambda>f.
        bnd (st_get B b (rptr r)) (\<lambda>s.
        let val = f + s in
        bnd (st_set B b (fptr r) val) (\<lambda>B1.
        let result = signed_drop_bit 1 val AND 2147483647;
            f1 = fptr r + 1; r1 = rptr r + 1 in
        if end_ptr r \<le> f1 then Inr (result, B1, r\<lparr>fptr := 0, rptr := r1\<rparr>)
        else Inr (result, B1, r\<lparr>fptr := f1, rptr := (if end_ptr r \<le> r1 then 0 else r1)\<rparr>)))))"

text \<open>One step of the linear congruential generator that fills the array, on signed integers.\<close>

definition lcg :: "int \<Rightarrow> int" where
  "lcg w =
     (let hi = w sdiv 127773; lo = w smod 127773; w1 = 16807 * lo - 2836 * hi in
      if w1 < 0 then w1 + 2147483647 else w1)"

fun srandom_fill :: "bufs \<Rightarrow> nat \<Rightarrow> int \<Rightarrow> nat \<Rightarrow> nat \<Rightarrow> bufs res" where
  "srandom_fill B b w i 0 = Inr B"
| "srandom_fill B b w i (Suc n) =
     (let w1 = lcg w in
      bnd (st_set B b i (word_of_int w1)) (\<lambda>B1. srandom_fill B1 b w1 (i + 1) n))"

fun discard :: "nat \<Rightarrow> bufs \<Rightarrow> random_data \<Rightarrow> (bufs \<times> random_data) res" where
  "discard 0 B r = Inr (B, r)"
| "discard (Suc n) B r = bnd (random_r B r) (\<lambda>(_, B1, r1). discard n B1 r1)"

text \<open>\<open>long int word = seed\<close>, \<open>L\<close> the width of \<open>long\<close>: 32 on the Pi, 64 on a host where fake-pi runs.\<close>

definition long_of :: "nat \<Rightarrow> u32 \<Rightarrow> int" where
  "long_of L seed = signed_take_bit (L - 1) (uint seed)"

definition srandom_r :: "nat \<Rightarrow> u32 \<Rightarrow> bufs \<Rightarrow> random_data \<Rightarrow> (bufs \<times> random_data) option res" where
  "srandom_r L seed B r =
     (if MAX_TYPES \<le> rand_type r then Inr None
      else
        let b = rstate r; seed1 = (if seed = 0 then 1 else seed) in
        bnd (st_set B b 0 seed1) (\<lambda>B1.
        if rand_type r = 0 then Inr (Some (B1, r))
        else
          bnd (srandom_fill B1 b (long_of L seed1) 1 (rand_deg r - 1)) (\<lambda>B2.
          let r1 = r\<lparr>fptr := rand_sep r, rptr := 0\<rparr> in
          bnd (discard (rand_deg r * 10) B2 r1) (\<lambda>x. Inr (Some x)))))"

text \<open>\<open>arg_state\<close> is the buffer number, \<open>n\<close> its size in bytes.\<close>

definition initstate_r :: "nat \<Rightarrow> u32 \<Rightarrow> nat \<Rightarrow> nat \<Rightarrow> bufs \<Rightarrow> random_data \<Rightarrow> (bufs \<times> random_data) option res" where
  "initstate_r L seed arg_state n B r =
     (let type = (if 128 \<le> n then Some (if n < 256 then 3 else 4)
                  else if n < 32 then (if n < 8 then None else Some 0)
                  else Some (if n < 64 then 1 else 2)) in
      case type of None \<Rightarrow> Inr None
      | Some type \<Rightarrow>
          let degree = poly_degrees ! type; separation = poly_seps ! type;
              r1 = r\<lparr>rand_type := type, rand_sep := separation, rand_deg := degree,
                     end_ptr := degree, rstate := arg_state\<rparr> in
          bnd (srandom_r L seed B r1) (\<lambda>s.
          let (B2, r2) = (case s of None \<Rightarrow> (B, r1) | Some x \<Rightarrow> x);
              word = (if type \<noteq> 0 then rptr r2 * MAX_TYPES + type else 0) in
          bnd (arr_set (B2 arg_state) 0 (of_nat word)) (\<lambda>xs.
          Inr (Some (B2(arg_state := xs), r2)))))"

text \<open>The new state's word \<open>state[-1]\<close> is read as a signed integer; a negative type fails.\<close>

definition setstate_r :: "nat \<Rightarrow> bufs \<Rightarrow> random_data \<Rightarrow> (bufs \<times> random_data) option res" where
  "setstate_r arg_state B r =
     (let old = rstate r;
          w = (if rand_type r = 0 then 0 else MAX_TYPES * rptr r + rand_type r) in
      bnd (arr_set (B old) 0 (of_nat w)) (\<lambda>xs.
      let B1 = B(old := xs) in
      bnd (arr_get (B1 arg_state) 0) (\<lambda>m.
      let type = sint m smod 5 in
      if type < 0 then Inr None
      else
        let ty = nat type; degree = poly_degrees ! ty; separation = poly_seps ! ty;
            r1 = r\<lparr>rand_deg := degree, rand_sep := separation, rand_type := ty\<rparr>;
            r2 = (if ty \<noteq> 0
                  then let rear = nat (sint m sdiv 5) in
                       r1\<lparr>rptr := rear, fptr := (rear + separation) mod degree\<rparr>
                  else r1) in
        Inr (Some (B1, r2\<lparr>rstate := arg_state, end_ptr := degree\<rparr>)))))"

subsection \<open>The wrapper\<close>

record pi_rand =
  rnd :: random_data
  rbufs :: bufs
  initialized_p :: bool

definition zero_data :: random_data where
  "zero_data = \<lparr>fptr = 0, rptr = 0, rstate = 0, rand_type = 0, rand_deg = 0, rand_sep = 0, end_ptr = 0\<rparr>"

definition STATESIZE :: nat where
  "STATESIZE = 128"

text \<open>\<open>statebuf\<close> is buffer 0, of 32 words; a nonzero return of a callee is the failed \<open>assert(0)\<close>.\<close>

definition pi_random_seed :: "nat \<Rightarrow> u32 \<Rightarrow> pi_rand \<Rightarrow> pi_rand res" where
  "pi_random_seed L x p =
     bnd (initstate_r L x 0 STATESIZE (rbufs p) zero_data) (\<lambda>i.
     case i of None \<Rightarrow> Inl (AssertFail ''0'')
     | Some (B1, r1) \<Rightarrow>
         bnd (srandom_r L x B1 r1) (\<lambda>s.
         case s of None \<Rightarrow> Inl (AssertFail ''0'')
         | Some (B2, r2) \<Rightarrow> Inr (p\<lparr>rnd := r2, rbufs := B2, initialized_p := True\<rparr>)))"

text \<open>\<open>pi_random\<close> when the generator is initialized.\<close>

definition pi_random_next :: "pi_rand \<Rightarrow> (u32 \<times> pi_rand) res" where
  "pi_random_next p =
     bnd (random_r (rbufs p) (rnd p)) (\<lambda>(x, B, r). Inr (x, p\<lparr>rbufs := B, rnd := r\<rparr>))"

definition pi_random_init :: "nat \<Rightarrow> pi_rand \<Rightarrow> (u32 \<times> pi_rand) res" where
  "pi_random_init L p =
     bnd (check (\<not> initialized_p p) ''!initialized_p'') (\<lambda>_.
     bnd (pi_random_seed L 0 p) (\<lambda>p1.
     bnd (pi_random_next p1) (\<lambda>(u, p2).
     bnd (check (1804289383 = u) ''0x6b8b4567 == u'') (\<lambda>_. Inr (u, p2)))))"

definition pi_random :: "nat \<Rightarrow> pi_rand \<Rightarrow> (u32 \<times> pi_rand) res" where
  "pi_random L p =
     (if \<not> initialized_p p then
        bnd (pi_random_init L p) (\<lambda>(_, p1). pi_random_next (p1\<lparr>initialized_p := True\<rparr>))
      else pi_random_next p)"

subsection \<open>The generator as a recurrence\<close>

text \<open>The state array is a ring: the window lists the last \<open>deg\<close> values from the oldest one, which the
  front pointer designates, to the newest.\<close>

definition gen_ok :: "bufs \<Rightarrow> random_data \<Rightarrow> bool" where
  "gen_ok B r \<longleftrightarrow>
     rand_type r \<noteq> 0 \<and> end_ptr r = rand_deg r \<and> 0 < rand_sep r \<and> rand_sep r < rand_deg r \<and>
     rand_deg r < length (B (rstate r)) \<and> rptr r < rand_deg r \<and>
     fptr r = (rptr r + rand_sep r) mod rand_deg r"

definition window :: "bufs \<Rightarrow> random_data \<Rightarrow> u32 list" where
  "window B r = map (\<lambda>i. B (rstate r) ! (1 + (fptr r + i) mod rand_deg r)) [0..<rand_deg r]"

text \<open>Shift in the sum of the oldest value and the one \<open>sep\<close> places from the end.\<close>

definition lagged :: "nat \<Rightarrow> u32 list \<Rightarrow> u32 list" where
  "lagged sep w = tl w @ [hd w + w ! (length w - sep)]"

lemma mod_succ_cases: "a < (d :: nat) \<Longrightarrow> (a + 1) mod d = (if d \<le> a + 1 then 0 else a + 1)"
  by (auto simp: not_le mod_if)

lemma mod_sum2: "a < (d :: nat) \<Longrightarrow> b < d \<Longrightarrow> (a + b) mod d = (if a + b < d then a + b else a + b - d)"
  by (auto simp: not_less mod_if)

lemma result_shift: "signed_drop_bit 1 (val :: u32) AND 2147483647 = drop_bit 1 val"
proof (rule bit_word_eqI)
  have m: "(2147483647 :: u32) = mask 31" by (simp add: mask_eq_exp_minus_1)
  fix n assume "n < LENGTH(32)"
  then show "bit (signed_drop_bit 1 val AND 2147483647) n = bit (drop_bit 1 val) n"
    by (auto simp: m bit_simps bit_signed_drop_bit_iff min_def dest: bit_imp_le_length)
qed

lemma random_r_window:
  assumes "gen_ok B r"
  obtains B' r' where "random_r B r = Inr (drop_bit 1 (last (window B' r')), B', r')"
    and "gen_ok B' r'" and "window B' r' = lagged (rand_sep r) (window B r)"
    and "rstate r' = rstate r" and "rand_deg r' = rand_deg r" and "rand_sep r' = rand_sep r"
    and "rand_type r' = rand_type r"
proof -
  let ?b = "rstate r" and ?d = "rand_deg r" and ?s = "rand_sep r" and ?f = "fptr r" and ?r = "rptr r"
  have ok: "rand_type r \<noteq> 0" "end_ptr r = ?d" "0 < ?s" "?s < ?d" "?d < length (B ?b)" "?r < ?d"
    "?f = (?r + ?s) mod ?d" "?f < ?d"
    using assms by (auto simp: gen_ok_def)
  let ?val = "B ?b ! (?f + 1) + B ?b ! (?r + 1)"
  let ?B = "B(?b := (B ?b)[?f + 1 := ?val])"
  let ?f' = "(?f + 1) mod ?d" and ?r' = "(?r + 1) mod ?d"
  let ?r1 = "r\<lparr>fptr := ?f', rptr := ?r'\<rparr>"
  have f_eq: "?f = (if ?r + ?s < ?d then ?r + ?s else ?r + ?s - ?d)"
    using ok(7) mod_sum2 [OF ok(6,4)] by simp
  have ne: "?r + 1 < ?d" if "?d \<le> ?f + 1"
    using that f_eq ok(3,4,6) by (simp split: if_splits)
  have run: "random_r B r = Inr (drop_bit 1 ?val, ?B, ?r1)"
    using ok(1-6,8) ne mod_succ_cases [of ?f ?d] mod_succ_cases [of ?r ?d]
    by (auto simp: random_r_def st_get_def st_set_def Let_def result_shift [unfolded One_nat_def])
  have ok': "gen_ok ?B ?r1"
    using ok by (auto simp: gen_ok_def mod_simps add.commute add.left_commute)
  have oldest: "(?f + (?d - ?s)) mod ?d = ?r"
  proof -
    have "(?f + (?d - ?s)) mod ?d = (?r + ?s + (?d - ?s)) mod ?d" using ok(7) by (simp add: mod_simps)
    also have "?r + ?s + (?d - ?s) = ?r + ?d" using ok(4) by simp
    finally show ?thesis using ok(6) by simp
  qed
  have w: "window ?B ?r1 = lagged ?s (window B r)"
  proof (rule nth_equalityI)
    show "length (window ?B ?r1) = length (lagged ?s (window B r))"
      using ok by (simp add: window_def lagged_def)
    fix i assume "i < length (window ?B ?r1)"
    then have i: "i < ?d" by (simp add: window_def)
    have wl: "window ?B ?r1 ! i = ?B ?b ! (1 + (?f + (i + 1)) mod ?d)"
      using i by (simp add: window_def mod_simps add.commute add.left_commute)
    show "window ?B ?r1 ! i = lagged ?s (window B r) ! i"
    proof (cases "i + 1 = ?d")
      case True
      then have e: "(?f + (i + 1)) mod ?d = ?f" using ok(8) by simp
      have "window ?B ?r1 ! i = ?val" unfolding wl e using ok(5,8) by simp
      moreover have "lagged ?s (window B r) ! i = hd (window B r) + window B r ! (?d - ?s)"
      proof -
        have "length (tl (window B r)) = i" "length (window B r) = ?d"
          using True by (simp_all add: window_def)
        then show ?thesis unfolding lagged_def by (metis nth_append_length)
      qed
      moreover have "hd (window B r) = B ?b ! (?f + 1)" "window B r ! (?d - ?s) = B ?b ! (?r + 1)"
        using ok oldest by (simp_all add: window_def hd_map)
      ultimately show ?thesis by simp
    next
      case False
      then have i': "i + 1 < ?d" using i by simp
      have "(?f + (i + 1)) mod ?d \<noteq> ?f"
        using mod_sum2 [of ?f ?d "i + 1"] ok(8) i' by (simp split: if_splits)
      then have "window ?B ?r1 ! i = B ?b ! (1 + (?f + (i + 1)) mod ?d)" unfolding wl by simp
      moreover have "lagged ?s (window B r) ! i = window B r ! (i + 1)"
      proof -
        have "length (tl (window B r)) = ?d - 1" "length (window B r) = ?d" by (simp_all add: window_def)
        moreover have "i < ?d - 1" using i' by simp
        ultimately show ?thesis by (simp add: lagged_def nth_append nth_tl)
      qed
      ultimately show ?thesis using i' by (simp add: window_def)
    qed
  qed
  have "last (window ?B ?r1) = ?val"
  proof -
    have "hd (window B r) = B ?b ! (?f + 1)" "window B r ! (?d - ?s) = B ?b ! (?r + 1)"
      "length (window B r) = ?d"
      using ok oldest by (simp_all add: window_def hd_map)
    then show ?thesis unfolding w by (simp add: lagged_def)
  qed
  then have "random_r B r = Inr (drop_bit 1 (last (window ?B ?r1)), ?B, ?r1)" using run by simp
  then show ?thesis using ok' w by (rule that) simp_all
qed

text \<open>Evaluation: the value after \<open>n\<close> more steps.\<close>

fun lagged_run :: "nat \<Rightarrow> nat \<Rightarrow> u32 list \<Rightarrow> u32 list" where
  "lagged_run s 0 w = w"
| "lagged_run s (Suc n) w = lagged_run s n (lagged s w)"

lemma lagged_run_funpow: "lagged_run s n w = (lagged s ^^ n) w"
  by (induction n arbitrary: w) (simp_all add: funpow_swap1)

subsection \<open>Seeding\<close>

fun lcg_list :: "nat \<Rightarrow> int \<Rightarrow> u32 list" where
  "lcg_list 0 w = []"
| "lcg_list (Suc n) w = word_of_int (lcg w) # lcg_list n (lcg w)"

text \<open>The state array a seed gives before the warm-up, and the window after it.\<close>

definition seed_state :: "nat \<Rightarrow> nat \<Rightarrow> u32 \<Rightarrow> u32 list" where
  "seed_state L deg seed =
     (let s = (if seed = 0 then 1 else seed) in s # lcg_list (deg - 1) (long_of L s))"

definition seed_window :: "nat \<Rightarrow> nat \<Rightarrow> nat \<Rightarrow> u32 \<Rightarrow> u32 list" where
  "seed_window L deg sep seed =
     (let st = seed_state L deg seed in (lagged sep ^^ (deg * 10)) (drop sep st @ take sep st))"

lemma length_lcg_list [simp]: "length (lcg_list n w) = n"
  by (induction n arbitrary: w) simp_all

lemma srandom_fill_run:
  "i + n < length (B b) \<Longrightarrow>
     \<exists>xs. srandom_fill B b w i n = Inr (B(b := xs)) \<and> length xs = length (B b) \<and>
       (\<forall>j. xs ! j = (if i < j \<and> j \<le> i + n then lcg_list n w ! (j - Suc i) else B b ! j))"
proof (induction n arbitrary: B w i)
  case 0
  then show ?case by (intro exI [of _ "B b"]) (auto simp: fun_upd_idem)
next
  case (Suc n)
  let ?B = "B(b := (B b)[i + 1 := word_of_int (lcg w)])"
  have st: "st_set B b i (word_of_int (lcg w)) = Inr ?B" using Suc.prems by (simp add: st_set_def)
  have ih: "i + 1 + n < length (?B b)" using Suc.prems by simp
  obtain xs where xs: "srandom_fill ?B b (lcg w) (i + 1) n = Inr (?B(b := xs))" "length xs = length (?B b)"
    "\<forall>j. xs ! j = (if i + 1 < j \<and> j \<le> i + 1 + n then lcg_list n (lcg w) ! (j - Suc (i + 1)) else ?B b ! j)"
    using Suc.IH [where i = "i + 1" and B = ?B and w = "lcg w"] ih by blast
  have "xs ! j = (if i < j \<and> j \<le> i + Suc n then lcg_list (Suc n) w ! (j - Suc i) else B b ! j)" for j
  proof -
    have "(B b)[i + 1 := word_of_int (lcg w)] ! j = (if j = i + 1 then word_of_int (lcg w) else B b ! j)"
      using Suc.prems by (simp add: nth_list_update)
    then show ?thesis using xs(3) by (auto simp: nth_Cons' Suc_diff_Suc le_Suc_eq not_less_eq)
  qed
  then show ?case using st xs(1,2) by (intro exI [of _ xs]) (auto simp: Let_def fun_eq_iff)
qed

lemma discard_window:
  assumes "gen_ok B r"
  obtains B' r' where "discard n B r = Inr (B', r')" and "gen_ok B' r'"
    and "window B' r' = (lagged (rand_sep r) ^^ n) (window B r)"
    and "rstate r' = rstate r" and "rand_deg r' = rand_deg r" and "rand_sep r' = rand_sep r"
    and "rand_type r' = rand_type r"
proof -
  have "\<exists>B' r'. discard n B r = Inr (B', r') \<and> gen_ok B' r' \<and>
      window B' r' = (lagged (rand_sep r) ^^ n) (window B r) \<and> rstate r' = rstate r \<and>
      rand_deg r' = rand_deg r \<and> rand_sep r' = rand_sep r \<and> rand_type r' = rand_type r"
    using assms
  proof (induction n arbitrary: B r)
    case (Suc n)
    obtain B1 r1 where 1: "random_r B r = Inr (drop_bit 1 (last (window B1 r1)), B1, r1)" "gen_ok B1 r1"
      "window B1 r1 = lagged (rand_sep r) (window B r)" "rstate r1 = rstate r" "rand_deg r1 = rand_deg r"
      "rand_sep r1 = rand_sep r" "rand_type r1 = rand_type r"
      by (rule random_r_window [OF Suc.prems])
    show ?case using 1 Suc.IH [OF 1(2)] by (auto simp: funpow_swap1)
  qed simp
  then show ?thesis using that by blast
qed

lemma srandom_r_lemma:
  assumes "rand_type r \<noteq> 0" and "rand_type r < 5" and "end_ptr r = rand_deg r"
    and "0 < rand_sep r" and "rand_sep r < rand_deg r" and "rand_deg r < length (B (rstate r))"
  obtains B' r' where "srandom_r L seed B r = Inr (Some (B', r'))" and "gen_ok B' r'"
    and "window B' r' = seed_window L (rand_deg r) (rand_sep r) seed"
    and "rstate r' = rstate r" and "rand_deg r' = rand_deg r" and "rand_sep r' = rand_sep r"
    and "rand_type r' = rand_type r"
proof -
  let ?b = "rstate r" and ?d = "rand_deg r" and ?s = "rand_sep r"
  let ?seed = "if seed = 0 then 1 else seed" and ?st = "seed_state L (rand_deg r) seed"
  let ?B1 = "B(?b := (B ?b)[1 := ?seed])"
  have s1: "st_set B ?b 0 ?seed = Inr ?B1" using assms by (simp add: st_set_def)
  obtain xs where fill: "srandom_fill ?B1 ?b (long_of L ?seed) 1 (?d - 1) = Inr (?B1(?b := xs))"
    and len: "length xs = length (?B1 ?b)"
    and nth: "\<forall>j. xs ! j = (if 1 < j \<and> j \<le> 1 + (?d - 1) then lcg_list (?d - 1) (long_of L ?seed) ! (j - Suc 1)
                 else ?B1 ?b ! j)"
    using srandom_fill_run [of 1 "?d - 1" ?B1 ?b "long_of L ?seed"] assms by auto
  let ?B2 = "?B1(?b := xs)" and ?r = "r\<lparr>fptr := ?s, rptr := 0\<rparr>"
  have stj: "xs ! (1 + j) = ?st ! j" if "j < ?d" for j
    using that nth assms by (cases j) (auto simp: seed_state_def Let_def)
  have ok: "gen_ok ?B2 ?r" using assms len by (simp add: gen_ok_def)
  have w: "window ?B2 ?r = drop ?s ?st @ take ?s ?st"
  proof (rule nth_equalityI)
    show "length (window ?B2 ?r) = length (drop ?s ?st @ take ?s ?st)"
      using assms by (simp add: window_def seed_state_def Let_def)
    fix i assume "i < length (window ?B2 ?r)"
    then have i: "i < ?d" by (simp add: window_def)
    have "window ?B2 ?r ! i = ?st ! ((?s + i) mod ?d)"
      using i assms stj [of "(?s + i) mod ?d"] by (simp add: window_def)
    also have "\<dots> = (drop ?s ?st @ take ?s ?st) ! i"
      using i assms mod_sum2 [of ?s ?d i]
      by (auto simp: nth_append seed_state_def Let_def less_diff_conv add.commute)
    finally show "window ?B2 ?r ! i = (drop ?s ?st @ take ?s ?st) ! i" .
  qed
  obtain B' r' where d: "discard (?d * 10) ?B2 ?r = Inr (B', r')" and g: "gen_ok B' r'"
    and w': "window B' r' = (lagged (rand_sep ?r) ^^ (?d * 10)) (window ?B2 ?r)"
    and e: "rstate r' = rstate ?r" "rand_deg r' = rand_deg ?r" "rand_sep r' = rand_sep ?r"
      "rand_type r' = rand_type ?r"
    by (rule discard_window [OF ok])
  have "srandom_r L seed B r = Inr (Some (B', r'))"
    using assms s1 fill d by (simp add: srandom_r_def MAX_TYPES_def Let_def)
  then show ?thesis
    by (rule that) (use g w' w e in \<open>simp_all add: seed_window_def Let_def\<close>)
qed

lemma initstate_type3:
  assumes "32 \<le> length (B 0)"
  obtains B' r' where "initstate_r L seed 0 STATESIZE B r = Inr (Some (B', r'))"
    and "rand_type r' = 3" and "rand_deg r' = 31" and "rand_sep r' = 3" and "end_ptr r' = 31"
    and "rstate r' = 0" and "32 \<le> length (B' 0)"
proof -
  let ?r = "r\<lparr>rand_type := 3, rand_sep := 3, rand_deg := 31, end_ptr := 31, rstate := 0\<rparr>"
  obtain B' r' where s: "srandom_r L seed B ?r = Inr (Some (B', r'))" and g: "gen_ok B' r'"
    and e: "rstate r' = 0" "rand_deg r' = 31" "rand_sep r' = 3" "rand_type r' = 3"
    by (rule srandom_r_lemma [of ?r B L seed]) (use assms in auto)
  have l: "32 \<le> length (B' 0)" "0 < length (B' 0)" "end_ptr r' = 31" using g e by (auto simp: gen_ok_def)
  let ?xs = "(B' 0)[0 := of_nat (rptr r' * MAX_TYPES + 3)]"
  have "initstate_r L seed 0 STATESIZE B r = Inr (Some (B'(0 := ?xs), r'))"
    using s e l by (simp add: initstate_r_def STATESIZE_def poly_degrees_def poly_seps_def Let_def)
  then show ?thesis by (rule that) (use e l in simp_all)
qed

lemma pi_random_seed_lemma:
  assumes "32 \<le> length (rbufs p 0)"
  obtains p' where "pi_random_seed L x p = Inr p'" and "initialized_p p'" and "gen_ok (rbufs p') (rnd p')"
    and "rand_sep (rnd p') = 3" and "window (rbufs p') (rnd p') = seed_window L 31 3 x"
proof -
  obtain B1 r1 where i: "initstate_r L x 0 STATESIZE (rbufs p) zero_data = Inr (Some (B1, r1))"
    and e: "rand_type r1 = 3" "rand_deg r1 = 31" "rand_sep r1 = 3" "end_ptr r1 = 31" "rstate r1 = 0"
      "32 \<le> length (B1 0)"
    by (rule initstate_type3 [of "rbufs p" L x zero_data]) (use assms in auto)
  obtain B2 r2 where s: "srandom_r L x B1 r1 = Inr (Some (B2, r2))" and g: "gen_ok B2 r2"
    and w: "window B2 r2 = seed_window L (rand_deg r1) (rand_sep r1) x" and e2: "rand_sep r2 = rand_sep r1"
    by (rule srandom_r_lemma [of r1 B1 L x]) (use e in auto)
  have "pi_random_seed L x p = Inr (p\<lparr>rnd := r2, rbufs := B2, initialized_p := True\<rparr>)"
    using i s by (simp add: pi_random_seed_def)
  then show ?thesis by (rule that) (use g w e e2 in simp_all)
qed

lemma lcg_nonneg:
  "0 \<le> w \<Longrightarrow> lcg w = (let w1 = 16807 * (w mod 127773) - 2836 * (w div 127773) in
     if w1 < 0 then w1 + 2147483647 else w1)"
  by (simp add: lcg_def signed_divide_int_def signed_modulo_int_def Let_def sgn_if minus_div_mult_eq_mod mult.commute)

lemma lcg_run: "lcg_list (numeral k) w = word_of_int (lcg w) # lcg_list (pred_numeral k) (lcg w)"
  by (simp add: numeral_eq_Suc)

lemma lagged_run_num: "lagged_run s (numeral k) w = lagged_run s (pred_numeral k) (lagged s w)"
  by (simp add: numeral_eq_Suc)

lemma default_seed_state:
  assumes "1 < L"
  shows "seed_state L 31 0 =
   [1, 16807, 282475249, 1622650073, 984943658, 1144108930, 470211272, 101027544, 1457850878, 1458777923,
    2007237709, 823564440, 1115438165, 1784484492, 74243042, 114807987, 1137522503, 1441282327, 16531729,
    823378840, 143542612, 896544303, 1474833169, 1264817709, 1998097157, 1817129560, 1131570933, 197493099,
    1404280278, 893351816, 1505795335]"
proof -
  have "long_of L 1 = 1"
    using assms by (cases "L - 1") (simp_all add: long_of_def signed_take_bit_Suc)
  then have "seed_state L 31 0 = 1 # lcg_list 30 1" by (simp add: seed_state_def)
  then show ?thesis by (simp add: lcg_run lcg_nonneg Let_def)
qed

lemma default_first:
  assumes "1 < L"
  shows "drop_bit 1 (last (lagged 3 (seed_window L 31 3 0))) = (1804289383 :: u32)"
proof -
  have "(lagged 3 ^^ 311) w = lagged 3 ((lagged 3 ^^ 310) w)" for w
    using funpow.simps(2) [of 310 "lagged 3"] by (simp del: funpow.simps)
  then have "lagged 3 (seed_window L 31 3 0) =
      lagged_run 3 311 (drop 3 (seed_state L 31 0) @ take 3 (seed_state L 31 0))"
    by (simp add: seed_window_def lagged_run_funpow Let_def)
  then show ?thesis by (simp add: default_seed_state [OF assms] lagged_run_num lagged_def)
qed

lemma pi_random_next_lemma:
  assumes "gen_ok (rbufs p) (rnd p)" and "initialized_p p"
  obtains p' where
    "pi_random_next p = Inr (drop_bit 1 (last (lagged (rand_sep (rnd p)) (window (rbufs p) (rnd p)))), p')"
    and "gen_ok (rbufs p') (rnd p')" and "initialized_p p'" and "rand_sep (rnd p') = rand_sep (rnd p)"
    and "window (rbufs p') (rnd p') = lagged (rand_sep (rnd p)) (window (rbufs p) (rnd p))"
proof -
  obtain B r where "random_r (rbufs p) (rnd p) = Inr (drop_bit 1 (last (window B r)), B, r)"
    and g: "gen_ok B r" "window B r = lagged (rand_sep (rnd p)) (window (rbufs p) (rnd p))"
      "rand_sep r = rand_sep (rnd p)"
    by (rule random_r_window [OF assms(1)])
  then have "pi_random_next p =
      Inr (drop_bit 1 (last (lagged (rand_sep (rnd p)) (window (rbufs p) (rnd p)))), p\<lparr>rbufs := B, rnd := r\<rparr>)"
    by (simp add: pi_random_next_def)
  then show ?thesis by (rule that) (use g assms in simp_all)
qed

subsection \<open>Properties\<close>

text \<open>The numbers of the generator, and what they should be: for the smallest states the linear congruential generator,
  otherwise the upper 31 bits of the sums of the lagged recurrence on the window the seed determines.\<close>

fun randoms :: "nat \<Rightarrow> bufs \<Rightarrow> random_data \<Rightarrow> (u32 list \<times> bufs \<times> random_data) res" where
  "randoms 0 B r = Inr ([], B, r)"
| "randoms (Suc k) B r = bnd (random_r B r) (\<lambda>(x, B1, r1). bnd (randoms k B1 r1) (\<lambda>(xs, s). Inr (x # xs, s)))"

fun lcg_numbers :: "nat \<Rightarrow> u32 \<Rightarrow> u32 list" where
  "lcg_numbers 0 x = []"
| "lcg_numbers (Suc k) x = (let y = take_bit 31 (x * 1103515245 + 12345) in y # lcg_numbers k y)"

fun lag_numbers :: "nat \<Rightarrow> nat \<Rightarrow> u32 list \<Rightarrow> u32 list" where
  "lag_numbers sep 0 w = []"
| "lag_numbers sep (Suc k) w = drop_bit 1 (last (lagged sep w)) # lag_numbers sep k (lagged sep w)"

definition type_for :: "nat \<Rightarrow> nat" where
  "type_for n = (if n < 32 then 0 else if n < 64 then 1 else if n < 128 then 2 else if n < 256 then 3 else 4)"

definition seeded_numbers :: "nat \<Rightarrow> u32 \<Rightarrow> nat \<Rightarrow> nat \<Rightarrow> u32 list" where
  "seeded_numbers L seed ty k =
     (if ty = 0 then lcg_numbers k (if seed = 0 then 1 else seed)
      else lag_numbers (poly_seps ! ty) k (seed_window L (poly_degrees ! ty) (poly_seps ! ty) seed))"

text \<open>A generator on a buffer that is large enough for its type.\<close>

definition inited :: "nat \<Rightarrow> bufs \<Rightarrow> random_data \<Rightarrow> bool" where
  "inited ty B r \<longleftrightarrow> rand_type r = ty \<and> rand_deg r = poly_degrees ! ty \<and> rand_sep r = poly_seps ! ty \<and>
     end_ptr r = rand_deg r \<and> max 1 (rand_deg r) < length (B (rstate r))"

lemma types_cases: "ty < 5 \<Longrightarrow> ty = 0 \<or> ty = 1 \<or> ty = 2 \<or> ty = 3 \<or> ty = (4 :: nat)"
  by linarith

lemma poly_ok: "0 < ty \<Longrightarrow> ty < 5 \<Longrightarrow> 0 < poly_seps ! ty \<and> poly_seps ! ty < poly_degrees ! ty"
  by (drule types_cases) (auto simp: poly_seps_def poly_degrees_def)

lemma randoms_lcg:
  assumes "rand_type r = 0" and "1 < length (B (rstate r))"
  shows "\<exists>B2. randoms k B r = Inr (lcg_numbers k (B (rstate r) ! 1), B2, r) \<and> length (B2 (rstate r)) = length (B (rstate r))"
  using assms(2)
proof (induction k arbitrary: B)
  case (Suc k)
  let ?b = "rstate r"
  define y where "y = take_bit 31 (B ?b ! 1 * 1103515245 + 12345)"
  have m: "(2147483647 :: u32) = mask 31" by (simp add: mask_eq_exp_minus_1)
  let ?B = "B(?b := (B ?b)[1 := y])"
  have 1: "random_r B r = Inr (y, ?B, r)"
    using assms(1) Suc.prems by (simp add: random_r_def st_get_def st_set_def Let_def y_def m flip: take_bit_eq_mask)
  have g: "1 < length (?B ?b)" and y: "?B ?b ! 1 = y" and l: "length (?B ?b) = length (B ?b)"
    using Suc.prems by simp_all
  obtain B2 where "randoms k ?B r = Inr (lcg_numbers k y, B2, r)" "length (B2 ?b) = length (B ?b)"
    using Suc.IH [of ?B] g unfolding y l by blast
  then show ?case
    using 1 y_def by (simp add: Let_def)
qed simp

lemma randoms_lag:
  assumes "gen_ok B r"
  shows "\<exists>B2 r2. randoms k B r = Inr (lag_numbers (rand_sep r) k (window B r), B2, r2) \<and> gen_ok B2 r2 \<and>
    rstate r2 = rstate r \<and> rand_deg r2 = rand_deg r \<and> rand_sep r2 = rand_sep r \<and> rand_type r2 = rand_type r"
  using assms
proof (induction k arbitrary: B r)
  case (Suc k)
  obtain B1 r1 where 1: "random_r B r = Inr (drop_bit 1 (last (window B1 r1)), B1, r1)" "gen_ok B1 r1"
    "window B1 r1 = lagged (rand_sep r) (window B r)" "rstate r1 = rstate r" "rand_deg r1 = rand_deg r"
    "rand_sep r1 = rand_sep r" "rand_type r1 = rand_type r"
    by (rule random_r_window [OF Suc.prems])
  show ?case using 1 Suc.IH [OF 1(2)] by auto
qed simp

definition seeded :: "nat \<Rightarrow> u32 \<Rightarrow> nat \<Rightarrow> bufs \<Rightarrow> random_data \<Rightarrow> bool" where
  "seeded L seed ty B r \<longleftrightarrow> inited ty B r \<and>
     (if ty = 0 then B (rstate r) ! 1 = (if seed = 0 then 1 else seed)
      else gen_ok B r \<and> window B r = seed_window L (rand_deg r) (rand_sep r) seed)"

lemma seeded_randoms:
  assumes "seeded L seed ty B r" and "ty < 5"
  shows "\<exists>B2 r2. randoms k B r = Inr (seeded_numbers L seed ty k, B2, r2) \<and> inited ty B2 r2"
proof (cases "ty = 0")
  case True
  then show ?thesis
    using assms randoms_lcg [of r B k] by (auto simp: seeded_def inited_def seeded_numbers_def)
next
  case False
  then obtain B2 r2 where "randoms k B r = Inr (lag_numbers (rand_sep r) k (window B r), B2, r2)" "gen_ok B2 r2"
    "rstate r2 = rstate r" "rand_deg r2 = rand_deg r" "rand_sep r2 = rand_sep r" "rand_type r2 = rand_type r"
    using assms randoms_lag [of B r k] by (auto simp: seeded_def)
  then show ?thesis
    using False assms by (auto simp: seeded_def inited_def seeded_numbers_def gen_ok_def)
qed

lemma srandom_r_seeded:
  assumes "inited ty B r" and "ty < 5"
  shows "\<exists>B1 r1. srandom_r L seed B r = Inr (Some (B1, r1)) \<and> seeded L seed ty B1 r1 \<and> rstate r1 = rstate r"
proof (cases "ty = 0")
  case True
  then show ?thesis
    using assms by (auto simp: inited_def srandom_r_def st_set_def seeded_def Let_def MAX_TYPES_def)
next
  case False
  have k: "rand_type r \<noteq> 0" "rand_type r < 5" "end_ptr r = rand_deg r" "0 < rand_sep r" "rand_sep r < rand_deg r"
    "rand_deg r < length (B (rstate r))"
    using False assms poly_ok [of ty] by (auto simp: inited_def)
  obtain B1 r1 where "srandom_r L seed B r = Inr (Some (B1, r1))" "gen_ok B1 r1"
    "window B1 r1 = seed_window L (rand_deg r) (rand_sep r) seed" "rstate r1 = rstate r" "rand_deg r1 = rand_deg r"
    "rand_sep r1 = rand_sep r" "rand_type r1 = rand_type r"
    by (rule srandom_r_lemma [where r = r and B = B and L = L and seed = seed]) (use k in auto)
  then show ?thesis
    using False assms by (auto simp: seeded_def inited_def gen_ok_def)
qed

lemma seeded_word0:
  assumes "seeded L seed ty B r"
  shows "seeded L seed ty (B(rstate r := (B (rstate r))[0 := x])) r"
proof -
  have "window (B(rstate r := (B (rstate r))[0 := x])) r = window B r"
    by (simp add: window_def)
  then show ?thesis
    using assms by (auto simp: seeded_def inited_def gen_ok_def split: if_splits)
qed

lemma initstate_r_seeded:
  assumes "8 \<le> n" and "n \<le> 4 * length (B a)"
  shows "\<exists>B1 r1. initstate_r L seed a n B r = Inr (Some (B1, r1)) \<and> seeded L seed (type_for n) B1 r1"
proof -
  let ?ty = "type_for n"
  let ?r = "r\<lparr>rand_type := ?ty, rand_sep := poly_seps ! ?ty, rand_deg := poly_degrees ! ?ty, end_ptr := poly_degrees ! ?ty, rstate := a\<rparr>"
  have ty: "?ty < 5" by (simp add: type_for_def)
  have "max 1 (poly_degrees ! ?ty) < length (B a)"
    using assms by (auto simp: type_for_def poly_degrees_def)
  then have "inited ?ty B ?r" by (simp add: inited_def)
  then obtain B1 r1 where s: "srandom_r L seed B ?r = Inr (Some (B1, r1))" "seeded L seed ?ty B1 r1" "rstate r1 = a"
    using srandom_r_seeded [OF _ ty] by fastforce
  let ?x = "of_nat (if ?ty \<noteq> 0 then rptr r1 * MAX_TYPES + ?ty else 0)"
  have "0 < length (B1 a)"
    using s(2,3) by (auto simp: seeded_def inited_def)
  moreover have t: "(if 128 \<le> n then Some (if n < 256 then 3 else 4) else if n < 32 then (if n < 8 then None else Some 0)
      else Some (if n < 64 then 1 else 2)) = Some ?ty"
    using assms(1) by (simp add: type_for_def)
  ultimately have "initstate_r L seed a n B r = Inr (Some (B1(a := (B1 a)[0 := ?x]), r1))"
    unfolding initstate_r_def t Let_def option.simps s(1) by simp
  then show ?thesis
    using seeded_word0 [OF s(2), of ?x] s(3) by auto
qed

text \<open>C39: The seed determines the numbers.  After \<open>initstate_r\<close> on a buffer of at least eight bytes, whatever the buffer and the
  generator held before, any count of calls of \<open>random_r\<close> gives the numbers of the reference generator for the type the
  size of the buffer selects: the linear congruential one below 32 bytes, above the additive lagged one started from the
  state of the seed; after a later \<open>srandom_r\<close> with another seed the numbers are again those of that seed.  No array access is
  out of bounds, and a smaller buffer is refused.\<close>

theorem srandom_random_r:
  assumes "n \<le> 4 * length (B a)"
  shows "if n < 8 then initstate_r L seed a n B r = Inr None
    else \<exists>B1 r1 B2 r2 B3 r3 B4 r4. initstate_r L seed a n B r = Inr (Some (B1, r1)) \<and>
      randoms k B1 r1 = Inr (seeded_numbers L seed (type_for n) k, B2, r2) \<and>
      srandom_r L seed2 B2 r2 = Inr (Some (B3, r3)) \<and>
      randoms k2 B3 r3 = Inr (seeded_numbers L seed2 (type_for n) k2, B4, r4)"
proof (cases "n < 8")
  case False
  have ty: "type_for n < 5" by (simp add: type_for_def)
  obtain B1 r1 where 1: "initstate_r L seed a n B r = Inr (Some (B1, r1))" "seeded L seed (type_for n) B1 r1"
    using initstate_r_seeded [of n B a] assms False by fastforce
  obtain B2 r2 where 2: "randoms k B1 r1 = Inr (seeded_numbers L seed (type_for n) k, B2, r2)" "inited (type_for n) B2 r2"
    using seeded_randoms [OF 1(2) ty] by blast
  obtain B3 r3 where 3: "srandom_r L seed2 B2 r2 = Inr (Some (B3, r3))" "seeded L seed2 (type_for n) B3 r3"
    using srandom_r_seeded [OF 2(2) ty] by blast
  show ?thesis
    using 1(1) 2(1) 3(1) seeded_randoms [OF 3(2) ty, of k2] False by auto
qed (simp add: initstate_r_def)

theorem srandom_random_r_witness:
  "\<exists>B1 r1 B2 r2. initstate_r 32 5 0 12 (\<lambda>_. [7, 7, 7]) zero_data = Inr (Some (B1, r1)) \<and>
     randoms 2 B1 r1 = Inr ([1222621274, 554244747], B2, r2) \<and>
   (\<exists>B1 r1 B2 r2. initstate_r 64 0 0 128 (\<lambda>_. replicate 32 9) zero_data = Inr (Some (B1, r1)) \<and>
     randoms 1 B1 r1 = Inr ([1804289383], B2, r2))"
proof -
  have "seeded_numbers 32 5 (type_for 12) 2 = [1222621274, 554244747]"
    by (simp add: seeded_numbers_def type_for_def numeral_2_eq_2 take_bit_eq_mod Let_def)
  moreover have "seeded_numbers 64 0 (type_for 128) 1 = [1804289383]"
    using default_first [of 64] by (simp add: seeded_numbers_def type_for_def poly_seps_def poly_degrees_def)
  ultimately show ?thesis
    using srandom_random_r [of 12 "\<lambda>_. [7, 7, 7]" 0 32 5 zero_data 2 0 0]
      srandom_random_r [of 128 "\<lambda>_. replicate 32 9" 0 64 0 zero_data 1 0 0] by auto
qed

text \<open>\<open>pi_random_init\<close> on a generator that is not initialized never fails its assertions: the first
  number of the default seed is \<open>0x6b8b4567\<close>, the one every fake-pi run starts from; a second
  initialization fails.\<close>

lemma pi_random_init_value:
  assumes "\<not> initialized_p p" and "32 \<le> length (rbufs p 0)" and "1 < L"
  shows "\<exists>p'. pi_random_init L p = Inr (0x6b8b4567, p') \<and> gen_ok (rbufs p') (rnd p') \<and>
    pi_random_init L p' = Inl (AssertFail ''!initialized_p'')"
proof -
  obtain p1 where s: "pi_random_seed L 0 p = Inr p1" and 1: "initialized_p p1" "gen_ok (rbufs p1) (rnd p1)"
    "rand_sep (rnd p1) = 3" "window (rbufs p1) (rnd p1) = seed_window L 31 3 0"
    by (rule pi_random_seed_lemma [OF assms(2), of L 0])
  obtain p2 where n: "pi_random_next p1 =
      Inr (drop_bit 1 (last (lagged (rand_sep (rnd p1)) (window (rbufs p1) (rnd p1)))), p2)"
    and 2: "gen_ok (rbufs p2) (rnd p2)" "initialized_p p2"
    by (rule pi_random_next_lemma [OF 1(2,1)])
  have "pi_random_next p1 = Inr (1804289383, p2)" using n 1(3,4) default_first [OF assms(3)] by simp
  then show ?thesis using s assms(1) 2 by (simp add: pi_random_init_def)
qed

definition ex_rand :: pi_rand where
  "ex_rand = \<lparr>rnd = zero_data, rbufs = (\<lambda>_. replicate 32 0), initialized_p = False\<rparr>"

lemma pi_random_init_value_example:
  "\<exists>p'. pi_random_init 32 ex_rand = Inr (0x6b8b4567, p') \<and>
    pi_random_init 32 p' = Inl (AssertFail ''!initialized_p'')"
  using pi_random_init_value [of ex_rand 32] by (auto simp: ex_rand_def)

end
