(* ===== verification/Bus.thy ===== *)
theory Bus
  imports Prelude
begin

text \<open>
  Device access and the GPIO block: \<open>libpi/src/gpio.c\<close> and \<open>libpi/src/gpio-int.c\<close> (the same code as the
  labs').  Hardware is a parameter: a \<open>bus\<close> is the functions \<open>GET32\<close>, \<open>PUT32\<close>, \<open>dev_barrier\<close> and
  \<open>DEV_VAL32\<close> the drivers call, on a device state.  The locale \<open>device\<close> states the laws of registers
  that hold what was last written, with a budget of operations the bus allows; the simulator of the
  labs is an instance.
\<close>

record 'd bus =
  GET32 :: "u32 \<Rightarrow> 'd \<Rightarrow> (u32 \<times> 'd) res"
  PUT32 :: "u32 \<Rightarrow> u32 \<Rightarrow> 'd \<Rightarrow> 'd res"
  dev_barrier :: "'d \<Rightarrow> 'd res"
  DEV_VAL32 :: "u32 \<Rightarrow> 'd \<Rightarrow> (u32 \<times> 'd) res"

text \<open>Statements one after the other, and \<open>PUT32(a, f(GET32(a)))\<close>.\<close>

fun seq :: "('d \<Rightarrow> 'd res) list \<Rightarrow> 'd \<Rightarrow> 'd res" where
  "seq [] d = Inr d"
| "seq (f # fs) d = bnd (f d) (seq fs)"

definition rmw :: "'d bus \<Rightarrow> u32 \<Rightarrow> (u32 \<Rightarrow> u32) \<Rightarrow> 'd \<Rightarrow> 'd res" where
  "rmw b a f d = bnd (GET32 b a d) (\<lambda>(v, d1). PUT32 b a (f v) d1)"

subsection \<open>\<open>gpio.c\<close>\<close>

definition GPIO_BASE :: u32 where "GPIO_BASE = 0x20200000"
definition gpio_set0 :: u32 where "gpio_set0 = GPIO_BASE + 0x1C"
definition gpio_set1 :: u32 where "gpio_set1 = GPIO_BASE + 0x20"
definition gpio_clr0 :: u32 where "gpio_clr0 = GPIO_BASE + 0x28"
definition gpio_clr1 :: u32 where "gpio_clr1 = GPIO_BASE + 0x2C"
definition gpio_lev0 :: u32 where "gpio_lev0 = GPIO_BASE + 0x34"
definition gpio_eds0 :: u32 where "gpio_eds0 = GPIO_BASE + 0x40"
definition gpio_ren0 :: u32 where "gpio_ren0 = GPIO_BASE + 0x4c"
definition gpio_fen0 :: u32 where "gpio_fen0 = GPIO_BASE + 0x58"

lemmas gpio_addrs = GPIO_BASE_def gpio_set0_def gpio_set1_def gpio_clr0_def gpio_clr1_def
  gpio_lev0_def gpio_eds0_def gpio_ren0_def gpio_fen0_def

definition GPIO_FUNC_INPUT :: u32 where "GPIO_FUNC_INPUT = 0"
definition GPIO_FUNC_OUTPUT :: u32 where "GPIO_FUNC_OUTPUT = 1"
definition GPIO_FUNC_ALT0 :: u32 where "GPIO_FUNC_ALT0 = 4"
definition GPIO_FUNC_ALT5 :: u32 where "GPIO_FUNC_ALT5 = 2"

definition gpio_set_function :: "'d bus \<Rightarrow> u32 \<Rightarrow> u32 \<Rightarrow> 'd \<Rightarrow> 'd res" where
  "gpio_set_function b pin func d =
     (if (32 \<le> pin \<and> pin \<noteq> 47) \<or> 7 < func then Inr d
      else
        let reg_index = pin div 10; bit_start = (pin mod 10) * 3;
            gpio_fseln = GPIO_BASE + 4 * reg_index in
        bnd (GET32 b gpio_fseln d) (\<lambda>(val, d1).
        let val1 = val AND NOT (push_bit (unat bit_start) 7);
            val2 = val1 OR push_bit (unat bit_start) func in
        PUT32 b gpio_fseln val2 d1))"

definition gpio_set_output :: "'d bus \<Rightarrow> u32 \<Rightarrow> 'd \<Rightarrow> 'd res" where
  "gpio_set_output b pin = gpio_set_function b pin GPIO_FUNC_OUTPUT"

definition gpio_set_on :: "'d bus \<Rightarrow> u32 \<Rightarrow> 'd \<Rightarrow> 'd res" where
  "gpio_set_on b pin d =
     (if 32 \<le> pin \<and> pin \<noteq> 47 then Inr d
      else PUT32 b (if pin < 32 then gpio_set0 else gpio_set1) (push_bit (unat (pin mod 32)) 1) d)"

definition gpio_set_off :: "'d bus \<Rightarrow> u32 \<Rightarrow> 'd \<Rightarrow> 'd res" where
  "gpio_set_off b pin d =
     (if 32 \<le> pin \<and> pin \<noteq> 47 then Inr d
      else PUT32 b (if pin < 32 then gpio_clr0 else gpio_clr1) (push_bit (unat (pin mod 32)) 1) d)"

definition gpio_write :: "'d bus \<Rightarrow> u32 \<Rightarrow> u32 \<Rightarrow> 'd \<Rightarrow> 'd res" where
  "gpio_write b pin v d =
     (if 32 \<le> pin \<and> pin \<noteq> 47 then Inr d
      else if v \<noteq> 0 then gpio_set_on b pin d else gpio_set_off b pin d)"

definition gpio_set_input :: "'d bus \<Rightarrow> u32 \<Rightarrow> 'd \<Rightarrow> 'd res" where
  "gpio_set_input b pin = gpio_set_function b pin GPIO_FUNC_INPUT"

text \<open>Returns -1 on a pin it does not know.\<close>

definition gpio_read :: "'d bus \<Rightarrow> u32 \<Rightarrow> 'd \<Rightarrow> (u32 \<times> 'd) res" where
  "gpio_read b pin d =
     (if 32 \<le> pin then Inr (- 1, d)
      else bnd (GET32 b gpio_lev0 d) (\<lambda>(val, d1).
           DEV_VAL32 b (drop_bit (unat pin) val AND 1) d1))"

subsection \<open>\<open>gpio-int.c\<close>\<close>

definition Enable_IRQs_2 :: u32 where "Enable_IRQs_2 = 0x2000b214"
definition IRQ_Pending_2 :: u32 where "IRQ_Pending_2 = 0x2000b208"
definition GPIO_INT0_ENTRY :: u32 where "GPIO_INT0_ENTRY = 49"

definition OR32 :: "'d bus \<Rightarrow> u32 \<Rightarrow> u32 \<Rightarrow> 'd \<Rightarrow> 'd res" where
  "OR32 b addr val = rmw b addr (\<lambda>x. x OR val)"

definition gpio_has_interrupt :: "'d bus \<Rightarrow> 'd \<Rightarrow> (u32 \<times> 'd) res" where
  "gpio_has_interrupt b d =
     bnd (GET32 b IRQ_Pending_2 d) (\<lambda>(status, d1).
     let v = drop_bit (unat (GPIO_INT0_ENTRY mod 32)) status AND 1 in
     bnd (DEV_VAL32 b v d1) (\<lambda>(_, d2). Inr (v, d2)))"

definition gpio_int_rising_edge :: "'d bus \<Rightarrow> u32 \<Rightarrow> 'd \<Rightarrow> 'd res" where
  "gpio_int_rising_edge b pin d =
     (if 32 \<le> pin then Inr d
      else seq [dev_barrier b, OR32 b gpio_ren0 (push_bit (unat pin) 1), dev_barrier b,
                PUT32 b Enable_IRQs_2 (push_bit (unat (GPIO_INT0_ENTRY mod 32)) 1), dev_barrier b] d)"

definition gpio_int_falling_edge :: "'d bus \<Rightarrow> u32 \<Rightarrow> 'd \<Rightarrow> 'd res" where
  "gpio_int_falling_edge b pin d =
     (if 32 \<le> pin then Inr d
      else seq [dev_barrier b, OR32 b gpio_fen0 (push_bit (unat pin) 1), dev_barrier b,
                PUT32 b Enable_IRQs_2 (push_bit (unat (GPIO_INT0_ENTRY mod 32)) 1), dev_barrier b] d)"

definition gpio_event_detected :: "'d bus \<Rightarrow> u32 \<Rightarrow> 'd \<Rightarrow> (u32 \<times> 'd) res" where
  "gpio_event_detected b pin d =
     (if 32 \<le> pin then Inr (0, d)
      else
        bnd (dev_barrier b d) (\<lambda>d1.
        bnd (GET32 b gpio_eds0 d1) (\<lambda>(x, d2).
        let status = drop_bit (unat pin) x AND 1 in
        bnd (dev_barrier b d2) (\<lambda>d3.
        bnd (DEV_VAL32 b status d3) (\<lambda>(_, d4). Inr (status, d4))))))"

definition gpio_event_clear :: "'d bus \<Rightarrow> u32 \<Rightarrow> 'd \<Rightarrow> 'd res" where
  "gpio_event_clear b pin d =
     (if 32 \<le> pin then Inr d
      else seq [dev_barrier b, PUT32 b gpio_eds0 (push_bit (unat pin) 1), dev_barrier b] d)"

text \<open>The 3-bit function field of a pin.\<close>

definition fsel_addr :: "u32 \<Rightarrow> u32" where
  "fsel_addr pin = GPIO_BASE + 4 * (pin div 10)"

definition fsel_set :: "u32 \<Rightarrow> u32 \<Rightarrow> u32 \<Rightarrow> u32" where
  "fsel_set pin func x = (x AND NOT (push_bit (3 * unat (pin mod 10)) 7)) OR push_bit (3 * unat (pin mod 10)) func"

definition pin_function :: "(u32 \<Rightarrow> u32) \<Rightarrow> u32 \<Rightarrow> u32" where
  "pin_function r pin = drop_bit (3 * unat (pin mod 10)) (r (fsel_addr pin)) AND 7"

lemma gpio_set_function_rmw:
  assumes "pin < 32 \<or> pin = 47" and "func \<le> 7"
  shows "gpio_set_function b pin func = rmw b (fsel_addr pin) (fsel_set pin func)"
proof
  fix d
  have "unat (pin mod 10 * 3) = 3 * unat (pin mod 10)"
    using unat_mod_distrib [of pin 10] by (simp add: unat_word_ariths)
  then show "gpio_set_function b pin func d = rmw b (fsel_addr pin) (fsel_set pin func) d"
    using assms by (auto simp: gpio_set_function_def rmw_def fsel_set_def fsel_addr_def Let_def not_le not_less)
qed

lemma bit_7: "bit (7 :: u32) n \<longleftrightarrow> n < 3"
proof -
  have "(7 :: u32) = mask 3" by (simp add: mask_eq_exp_minus_1)
  then show ?thesis by (simp only: bit_mask_iff) auto
qed

lemma bit_le7:
  assumes "(f :: u32) \<le> 7" and "bit f n"
  shows "n < 3"
proof (rule ccontr)
  assume "\<not> n < 3"
  then have "(2 :: nat) ^ 3 \<le> 2 ^ n" by (intro power_increasing) auto
  moreover have "unat f < 8" using assms(1) by (simp add: word_le_nat_alt)
  ultimately have "unat f div 2 ^ n = 0" by simp
  then have "\<not> bit (unat f) n" by (simp add: bit_iff_odd)
  then show False using assms(2) by (simp add: bit_unsigned_iff)
qed

lemma fsel_field:
  assumes i: "i < 10" and j: "j < 10" and f: "f \<le> (7 :: u32)"
  shows "drop_bit (3 * j) ((x AND NOT (push_bit (3 * i) 7)) OR push_bit (3 * i) f) AND 7 =
    (if i = j then f else drop_bit (3 * j) x AND (7 :: u32))"
proof -
  define m where "m = (7 :: u32)"
  have b: "bit m n \<longleftrightarrow> n < 3" for n using bit_7 [of n] by (simp only: m_def)
  note b7 = bit_le7 [OF f]
  have "drop_bit (3 * j) ((x AND NOT (push_bit (3 * i) m)) OR push_bit (3 * i) f) AND m =
    (if i = j then f else drop_bit (3 * j) x AND m)"
  proof (rule bit_word_eqI)
    fix n :: nat
    assume "n < LENGTH(32)"
    have far: "3 * i \<le> 3 * j + n \<Longrightarrow> 3 * j + n - 3 * i < 3 \<Longrightarrow> n < 3 \<Longrightarrow> i = j" by linarith
    show "bit (drop_bit (3 * j) ((x AND NOT (push_bit (3 * i) m)) OR push_bit (3 * i) f) AND m) n =
      bit (if i = j then f else drop_bit (3 * j) x AND m) n"
    proof (cases "n < 3")
      case False
      then show ?thesis using b7 [of n] by (auto simp: bit_simps b)
    next
      case True
      then have "3 * j + n < 32" using j by linarith
      then show ?thesis using True far b7 [of "3 * j + n - 3 * i"] b7 [of n] by (auto simp: bit_simps b not_le)
    qed
  qed
  then show ?thesis by (simp only: m_def)
qed

lemma pin_function_upd:
  assumes p: "p < 32 \<or> p = 47" and q: "q < 54" and f: "f \<le> 7"
  shows "pin_function (r(fsel_addr p := fsel_set p f (r (fsel_addr p)))) q = (if q = p then f else pin_function r q)"
proof -
  have m: "unat (p mod 10) < 10" "unat (q mod 10) < 10" by (simp_all add: unat_mod_distrib)
  have d: "unat (p div 10) < 10" "unat (q div 10) < 10"
    using p q by (auto simp: unat_div_distrib word_less_nat_alt)
  have inj: "x = y" if "fsel_addr x = fsel_addr y" "unat (x div 10) < 10" "unat (y div 10) < 10" "x mod 10 = y mod 10"
    for x y :: u32
  proof -
    have "4 * (x div 10) = 4 * (y div 10)" using that by (simp add: fsel_addr_def)
    then have "unat (4 * (x div 10)) = unat (4 * (y div 10))" by simp
    then have "unat (x div 10) = unat (y div 10)" using that(2,3) by (simp add: unat_word_ariths)
    then have "x div 10 = y div 10" by (simp only: word_unat_eq_iff)
    then show "x = y" using that(4) by (metis div_mult_mod_eq)
  qed
  show ?thesis
  proof (cases "fsel_addr q = fsel_addr p")
    case True
    have "unat (q mod 10) = unat (p mod 10) \<longleftrightarrow> q = p"
      using inj [of q p] True d by (metis word_unat_eq_iff)
    then show ?thesis
      using True fsel_field [OF m f, of "r (fsel_addr p)"]
      by (auto simp: pin_function_def fsel_set_def)
  next
    case False
    then show ?thesis by (auto simp: pin_function_def)
  qed
qed

subsection \<open>Laws of plain registers\<close>

datatype dop = Rmw u32 "u32 \<Rightarrow> u32" | Wr u32 u32 | Bar

fun run_dop :: "'d bus \<Rightarrow> dop \<Rightarrow> 'd \<Rightarrow> 'd res" where
  "run_dop b (Rmw a f) = rmw b a f"
| "run_dop b (Wr a v) = PUT32 b a v"
| "run_dop b Bar = dev_barrier b"

fun abs_dop :: "dop \<Rightarrow> (u32 \<Rightarrow> u32) \<Rightarrow> u32 \<Rightarrow> u32" where
  "abs_dop (Rmw a f) r = r(a := f (r a))"
| "abs_dop (Wr a v) r = r(a := v)"
| "abs_dop Bar r = r"

fun dop_cost :: "(u32 \<Rightarrow> nat) \<Rightarrow> dop \<Rightarrow> nat" where
  "dop_cost cost (Rmw a f) = Suc (cost a)"
| "dop_cost cost (Wr a v) = cost a"
| "dop_cost cost Bar = 1"

fun dop_legal :: "(u32 \<Rightarrow> u32 \<Rightarrow> nat \<Rightarrow> bool) \<Rightarrow> dop \<Rightarrow> (u32 \<Rightarrow> u32) \<Rightarrow> nat \<Rightarrow> bool" where
  "dop_legal legal (Rmw a f) r e = legal a (f (r a)) e"
| "dop_legal legal (Wr a v) r e = legal a v e"
| "dop_legal legal Bar r e = True"

fun dops_legal :: "(u32 \<Rightarrow> u32 \<Rightarrow> nat \<Rightarrow> bool) \<Rightarrow> dop list \<Rightarrow> (u32 \<Rightarrow> u32) \<Rightarrow> nat \<Rightarrow> bool" where
  "dops_legal legal [] r e = True"
| "dops_legal legal (op # ops) r e =
     (dop_legal legal op r e \<and>
      dops_legal legal ops (abs_dop op r) (if op = Bar then Suc e else e))"

text \<open>\<open>legal a v e\<close>: the device accepts the write of \<open>v\<close> to \<open>a\<close> after \<open>e\<close> barriers; \<open>cost a\<close>: what the
  write takes of the budget \<open>can\<close>.\<close>

locale device =
  fixes b :: "'d bus"
    and regs :: "'d \<Rightarrow> u32 \<Rightarrow> u32"
    and readable :: "u32 \<Rightarrow> bool"
    and legal :: "u32 \<Rightarrow> u32 \<Rightarrow> nat \<Rightarrow> bool"
    and cost :: "u32 \<Rightarrow> nat"
    and can :: "'d \<Rightarrow> nat \<Rightarrow> bool"
    and epoch :: "'d \<Rightarrow> nat"
  assumes get_law: "readable a \<Longrightarrow> can d (Suc n) \<Longrightarrow>
        \<exists>d'. GET32 b a d = Inr (regs d a, d') \<and> regs d' = regs d \<and> can d' n \<and> epoch d' = epoch d"
    and put_law: "legal a v (epoch d) \<Longrightarrow> can d (cost a + n) \<Longrightarrow>
        \<exists>d'. PUT32 b a v d = Inr d' \<and> regs d' = (regs d)(a := v) \<and> can d' n \<and> epoch d' = epoch d"
    and barrier_law: "can d (Suc n) \<Longrightarrow>
        \<exists>d'. dev_barrier b d = Inr d' \<and> regs d' = regs d \<and> can d' n \<and> epoch d' = Suc (epoch d)"
begin

lemma rmw_law:
  assumes "readable a" and "legal a (f (regs d a)) (epoch d)" and "can d (Suc (cost a) + n)"
  shows "\<exists>d'. rmw b a f d = Inr d' \<and> regs d' = (regs d)(a := f (regs d a)) \<and> can d' n \<and> epoch d' = epoch d"
proof -
  obtain d1 where 1: "GET32 b a d = Inr (regs d a, d1)" "regs d1 = regs d" "can d1 (cost a + n)" "epoch d1 = epoch d"
    using get_law [OF assms(1), of d "cost a + n"] assms(3) by auto
  obtain d2 where "PUT32 b a (f (regs d a)) d1 = Inr d2" "regs d2 = (regs d1)(a := f (regs d a))" "can d2 n"
    "epoch d2 = epoch d1"
    using put_law [of a "f (regs d a)" d1 n] 1 assms(2) by auto
  then show ?thesis using 1 by (simp add: rmw_def)
qed

lemma dop_law:
  assumes "\<forall>a f. op = Rmw a f \<longrightarrow> readable a" and "dop_legal legal op (regs d) (epoch d)"
    and "can d (dop_cost cost op + n)"
  shows "\<exists>d'. run_dop b op d = Inr d' \<and> regs d' = abs_dop op (regs d) \<and> can d' n \<and>
           epoch d' = (if op = Bar then Suc (epoch d) else epoch d)"
  using assms rmw_law put_law barrier_law by (cases op) auto

lemma dops_law:
  "\<forall>a f. Rmw a f \<in> set ops \<longrightarrow> readable a \<Longrightarrow> dops_legal legal ops (regs d) (epoch d) \<Longrightarrow>
     can d (sum_list (map (dop_cost cost) ops) + n) \<Longrightarrow>
     \<exists>d'. seq (map (run_dop b) ops) d = Inr d' \<and> regs d' = fold abs_dop ops (regs d) \<and> can d' n"
proof (induction ops arbitrary: d)
  case (Cons op ops)
  obtain d1 where 1: "run_dop b op d = Inr d1" "regs d1 = abs_dop op (regs d)"
    "can d1 (sum_list (map (dop_cost cost) ops) + n)" "epoch d1 = (if op = Bar then Suc (epoch d) else epoch d)"
    using dop_law [of op d "sum_list (map (dop_cost cost) ops) + n"] Cons.prems by (auto simp: add.assoc)
  then show ?case using Cons.IH [of d1] Cons.prems by auto
qed simp

end


subsection \<open>Scripts: a driver's conversation with any device\<close>

text \<open>
  For registers that change by themselves (status bits, FIFOs, counters) the device is a script: the list
  of accesses in order, the reads with the value the device answers.  A driver that asks for
  anything else than the next entry is stuck.  A theorem that a driver consumes a script holds of every
  device that gives these answers.
\<close>

datatype io = IRd u32 u32 | IWr u32 u32 | IBar

fun script_get :: "u32 \<Rightarrow> io list \<Rightarrow> (u32 \<times> io list) res" where
  "script_get a (IRd a' v # s) = (if a = a' then Inr (v, s) else Inl (AssertFail ''read''))"
| "script_get a _ = Inl OutOfFuel"

fun script_put :: "u32 \<Rightarrow> u32 \<Rightarrow> io list \<Rightarrow> io list res" where
  "script_put a v (IWr a' v' # s) = (if a = a' \<and> v = v' then Inr s else Inl (AssertFail ''write''))"
| "script_put a v _ = Inl OutOfFuel"

fun script_barrier :: "io list \<Rightarrow> io list res" where
  "script_barrier (IBar # s) = Inr s"
| "script_barrier _ = Inl OutOfFuel"

definition script_bus :: "io list bus" where
  "script_bus = \<lparr>GET32 = script_get, PUT32 = script_put, dev_barrier = script_barrier,
     DEV_VAL32 = (\<lambda>v s. Inr (v, s))\<rparr>"

lemma script_simps [simp]:
  "GET32 script_bus a (IRd a v # s) = Inr (v, s)"
  "PUT32 script_bus a v (IWr a v # s) = Inr s"
  "dev_barrier script_bus (IBar # s) = Inr s"
  "DEV_VAL32 script_bus v s = Inr (v, s)"
  by (simp_all add: script_bus_def)

text \<open>\<open>while(!cond) ;\<close> where \<open>cond\<close> reads the device.\<close>

fun poll :: "nat \<Rightarrow> ('d \<Rightarrow> (bool \<times> 'd) res) \<Rightarrow> 'd \<Rightarrow> 'd res" where
  "poll 0 cond d = Inl OutOfFuel"
| "poll (Suc n) cond d = bnd (cond d) (\<lambda>(ok, d1). if ok then Inr d1 else poll n cond d1)"

text \<open>The reads of a poll that succeeds at its last entry.\<close>

definition polled :: "u32 \<Rightarrow> (u32 \<Rightarrow> bool) \<Rightarrow> u32 list \<Rightarrow> bool" where
  "polled a ok vs \<longleftrightarrow> vs \<noteq> [] \<and> ok (last vs) \<and> (\<forall>v \<in> set (butlast vs). \<not> ok v)"

lemma poll_script:
  assumes cond: "\<And>v s. cond (IRd a v # s) = Inr (ok v, s)"
  shows "polled a ok vs \<Longrightarrow> length vs \<le> fuel \<Longrightarrow> poll fuel cond (map (IRd a) vs @ s) = Inr s"
proof (induction vs arbitrary: fuel)
  case Nil
  then show ?case by (simp add: polled_def)
next
  case (Cons v vs)
  obtain n where n: "fuel = Suc n" using Cons.prems by (cases fuel) auto
  show ?case
  proof (cases "vs = []")
    case True
    then show ?thesis using Cons.prems by (simp add: n cond polled_def)
  next
    case False
    then have "\<not> ok v" "polled a ok vs" using Cons.prems by (auto simp: polled_def)
    then show ?thesis using Cons by (simp add: n cond)
  qed
qed

end
