(* ===== verification/FakePi.thy ===== *)
theory FakePi
  imports Bus PiRandom
begin

text \<open>
  The device simulator \<open>labs/8-uart/3-fake-pi/fake-pi.c\<close> with \<open>fake-random.c\<close>, against which the labs
  cross-check the traces of the students' drivers: GPIO and auxiliary registers, the UART's registers
  with the barrier epoch of their last write, the trace with its limit of 128 statements, and the
  random inputs.  (\<open>pi-random.c\<close> there is \<open>libpi/libc/random.c\<close> with its functions renamed.)

  The trace is the list of events that were printed; a run that exceeds the limit ends in \<open>ExitOk\<close>, as
  does a call of \<open>exit(0)\<close>.
\<close>

subsection \<open>State\<close>

datatype ev =
    EvInit u32 u32 | EvCall | EvBarrier u32 | EvPut u32 u32 | EvGet u32 u32 | EvVal u32
  | EvUartOn u32 u32 u32 | EvUartTurnOff u32 u32 | EvUartTurnOn u32 u32 | EvUartBuf u32 u32
  | EvDelayCycles u32 | EvDelayUs u32 | EvDelayMs u32

record dev_mem =
  dm_addr :: u32
  dm_v :: u32
  dm_epoch :: u32

record fake_rand =
  fr :: random_data
  fr_bufs :: bufs
  init_p :: bool
  nrandom_calls :: u32

record fpi =
  trace_on_p :: bool
  ntrace :: nat
  trace_ops :: nat
  trace_out :: "ev list"
  gpio_fsel0_v :: u32
  gpio_fsel1_v :: u32
  gpio_fsel2_v :: u32
  gpio_fsel3_v :: u32
  gpio_fsel4_v :: u32
  gpio_set0_v :: u32
  gpio_clr0_v :: u32
  gpio_set1_v :: u32
  gpio_clr1_v :: u32
  aux_periph_v :: u32
  dev_barrier_cnt :: u32
  uart_mem :: "dev_mem list"
  uart_off_p :: u32
  frand :: fake_rand

definition max_trace :: nat where "max_trace = 128"
definition fk_fsel0 :: u32 where "fk_fsel0 = GPIO_BASE"
definition fk_fsel1 :: u32 where "fk_fsel1 = GPIO_BASE + 4"
definition fk_fsel2 :: u32 where "fk_fsel2 = GPIO_BASE + 8"
definition fk_fsel3 :: u32 where "fk_fsel3 = GPIO_BASE + 12"
definition fk_fsel4 :: u32 where "fk_fsel4 = GPIO_BASE + 16"
definition aux_periph :: u32 where "aux_periph = GPIO_BASE + 0x15004"
definition uart_start :: u32 where "uart_start = GPIO_BASE + 0x15040"
definition uart_cntrl :: u32 where "uart_cntrl = GPIO_BASE + 0x15060"
definition uart_end :: u32 where "uart_end = uart_start + 12 * 4"
definition uart_n :: nat where "uart_n = unat ((uart_end - uart_start) div 4 + 1)"

lemmas fk_addrs = fk_fsel0_def fk_fsel1_def fk_fsel2_def fk_fsel3_def fk_fsel4_def aux_periph_def
  uart_start_def uart_cntrl_def uart_end_def gpio_addrs

subsection \<open>\<open>fake-random.c\<close>\<close>

text \<open>The static \<open>seed\<close> is 0 and never written.  The host has a \<open>long\<close> of 64 bits; for this seed any width gives the same.\<close>

definition fake_seed :: u32 where "fake_seed = 0"

definition fake_random_seed :: "u32 \<Rightarrow> fake_rand \<Rightarrow> fake_rand res" where
  "fake_random_seed x s =
     bnd (initstate_r 64 fake_seed 0 STATESIZE (fr_bufs s) zero_data) (\<lambda>i.
     case i of None \<Rightarrow> Inl (AssertFail ''0'')
     | Some (B1, r1) \<Rightarrow>
         bnd (srandom_r 64 fake_seed B1 r1) (\<lambda>j.
         case j of None \<Rightarrow> Inl (AssertFail ''0'')
         | Some (B2, r2) \<Rightarrow> Inr (s\<lparr>init_p := True, fr := r2, fr_bufs := B2\<rparr>)))"

definition fake_random :: "fake_rand \<Rightarrow> (u32 \<times> fake_rand) res" where
  "fake_random s =
     bnd (check (init_p s) ''init_p'') (\<lambda>_.
     bnd (random_r (fr_bufs s) (fr s)) (\<lambda>(x, B, r).
     Inr (x, s\<lparr>nrandom_calls := nrandom_calls s + 1, fr := r, fr_bufs := B\<rparr>)))"

definition fake_random_init :: "fake_rand \<Rightarrow> fake_rand res" where
  "fake_random_init s =
     bnd (fake_random_seed 5134 s) (\<lambda>s1.
     bnd (fake_random s1) (\<lambda>(u, s2).
     bnd (check (1804289383 = u) ''0x6b8b4567 == u'') (\<lambda>_. Inr s2)))"

definition fake_random_calls :: "fake_rand \<Rightarrow> u32" where
  "fake_random_calls s = nrandom_calls s"

definition draw :: "fpi \<Rightarrow> (u32 \<times> fpi) res" where
  "draw s = bnd (fake_random (frand s)) (\<lambda>(v, r). Inr (v, s\<lparr>frand := r\<rparr>))"

subsection \<open>Tracing and barriers\<close>

definition trace :: "ev \<Rightarrow> fpi \<Rightarrow> fpi res" where
  "trace e s =
     (if trace_on_p s then
        let s1 = s\<lparr>trace_out := trace_out s @ [e], trace_ops := trace_ops s + 1\<rparr> in
        if max_trace \<le> ntrace s then Inl ExitOk else Inr (s1\<lparr>ntrace := ntrace s + 1\<rparr>)
      else Inr s)"

text \<open>The counter is incremented in the argument of the trace macro: only while tracing is on.\<close>

definition fk_dev_barrier :: "fpi \<Rightarrow> fpi res" where
  "fk_dev_barrier s =
     (if trace_on_p s
      then trace (EvBarrier (dev_barrier_cnt s)) (s\<lparr>dev_barrier_cnt := dev_barrier_cnt s + 1\<rparr>)
      else trace (EvBarrier (dev_barrier_cnt s)) s)"

definition dev_mem_mk :: "u32 \<Rightarrow> u32 \<Rightarrow> fpi \<Rightarrow> dev_mem" where
  "dev_mem_mk addr v s = \<lparr>dm_addr = addr, dm_v = v, dm_epoch = dev_barrier_cnt s\<rparr>"

subsection \<open>The UART's registers\<close>

text \<open>The index of the register in \<open>uart_mem\<close>, \<open>None\<close> for other addresses.\<close>

definition uart_addr_lookup :: "u32 \<Rightarrow> fpi \<Rightarrow> nat option res" where
  "uart_addr_lookup addr s =
     (if addr < uart_start \<or> uart_end < addr then Inr None
      else
        bnd (check (addr mod 4 = 0) ''addr%4==0'') (\<lambda>_.
        let index = unat ((addr - uart_start) div 4) in
        bnd (check (index < uart_n) ''index < uart_n'') (\<lambda>_.
        bnd (arr_get (uart_mem s) index) (\<lambda>m.
        bnd (check (dm_addr m = addr) ''m->addr == addr'') (\<lambda>_. Inr (Some index))))))"

fun uart_mem_fill :: "nat \<Rightarrow> nat \<Rightarrow> u32 \<Rightarrow> fpi \<Rightarrow> fpi res" where
  "uart_mem_fill 0 i addr s = Inr s"
| "uart_mem_fill (Suc n) i addr s =
     bnd (draw s) (\<lambda>(v, s1).
     bnd (arr_set (uart_mem s1) i (dev_mem_mk addr v s1)) (\<lambda>xs.
     uart_mem_fill n (i + 1) (addr + 4) (s1\<lparr>uart_mem := xs\<rparr>)))"

fun uart_mem_verify :: "nat \<Rightarrow> u32 \<Rightarrow> fpi \<Rightarrow> unit res" where
  "uart_mem_verify 0 addr s = Inr ()"
| "uart_mem_verify (Suc n) addr s =
     bnd (uart_addr_lookup addr s) (\<lambda>p.
     case p of None \<Rightarrow> Inl (AssertFail ''p'')
     | Some i \<Rightarrow> bnd (arr_get (uart_mem s) i) (\<lambda>m.
         bnd (check (dm_addr m = addr) ''p->addr == addr'') (\<lambda>_. uart_mem_verify n (addr + 4) s)))"

definition uart_mem_init :: "fpi \<Rightarrow> fpi res" where
  "uart_mem_init s =
     bnd (uart_mem_fill uart_n 0 uart_start s) (\<lambda>s1.
     bnd (uart_mem_verify (unat ((uart_end - uart_start) div 4)) uart_start s1) (\<lambda>_. Inr s1))"

fun flush_list :: "u32 \<Rightarrow> dev_mem list \<Rightarrow> fpi \<Rightarrow> fpi res" where
  "flush_list earliest [] s = Inr s"
| "flush_list earliest (p # ps) s =
     bnd (if earliest \<le> dm_epoch p then trace (EvUartBuf (dm_addr p) (dm_v p)) s else Inr s)
       (flush_list earliest ps)"

definition uart_mem_flush :: "u32 \<Rightarrow> fpi \<Rightarrow> fpi res" where
  "uart_mem_flush earliest_dev s = flush_list earliest_dev (take uart_n (uart_mem s)) s"

definition uart_addr_get :: "u32 \<Rightarrow> fpi \<Rightarrow> u32 option res" where
  "uart_addr_get addr s =
     bnd (uart_addr_lookup addr s) (\<lambda>p.
     case p of None \<Rightarrow> Inr None
     | Some i \<Rightarrow> bnd (arr_get (uart_mem s) i) (\<lambda>m. Inr (Some (dm_v m))))"

text \<open>\<open>True\<close> when the address is a UART register.\<close>

definition uart_addr_put :: "u32 \<Rightarrow> u32 \<Rightarrow> fpi \<Rightarrow> (bool \<times> fpi) res" where
  "uart_addr_put addr v s =
     bnd (uart_addr_lookup addr s) (\<lambda>p.
     case p of None \<Rightarrow> Inr (False, s)
     | Some i \<Rightarrow>
         bnd (arr_get (uart_mem s) i) (\<lambda>m.
         let s1 = s\<lparr>uart_mem := (uart_mem s)[i := m\<lparr>dm_v := v, dm_epoch := dev_barrier_cnt s\<rparr>]\<rparr> in
         bnd (if uart_off_p s1 = 0 then trace (EvUartOn addr v (uart_off_p s1)) s1 else Inr s1) (\<lambda>s2.
         if addr = uart_cntrl then
           if v AND 3 = 0 then
             let s3 = s2\<lparr>uart_off_p := dev_barrier_cnt s2\<rparr> in
             bnd (check (dev_barrier_cnt s3 \<noteq> 0) ''dev_barrier_cnt'') (\<lambda>_.
             bnd (trace (EvUartTurnOff addr v) s3) (\<lambda>s4. Inr (True, s4)))
           else if v AND 3 = 3 then
             let s3 = s2\<lparr>uart_off_p := 0\<rparr> in
             bnd (uart_mem_flush (dev_barrier_cnt s3) s3) (\<lambda>s4.
             bnd (trace (EvUartTurnOn addr v) s4) (\<lambda>s5. Inr (True, s5)))
           else Inl (Panic ''illegal value to turn off/on uart'')
         else Inr (True, s2))))"

subsection \<open>Device memory\<close>

definition fk_PUT32 :: "u32 \<Rightarrow> u32 \<Rightarrow> fpi \<Rightarrow> fpi res" where
  "fk_PUT32 addr v s =
     (let s0 = (if trace_on_p s then s else s\<lparr>trace_out := trace_out s @ [EvInit addr v]\<rparr>) in
      bnd (uart_addr_put addr v s0) (\<lambda>(u, s1).
      if u then Inr s1
      else
        bnd (trace (EvPut addr v) s1) (\<lambda>s2.
        if addr = fk_fsel0 then Inr (s2\<lparr>gpio_fsel0_v := v\<rparr>)
        else if addr = fk_fsel1 then Inr (s2\<lparr>gpio_fsel1_v := v\<rparr>)
        else if addr = fk_fsel2 then Inr (s2\<lparr>gpio_fsel2_v := v\<rparr>)
        else if addr = fk_fsel3 then Inr (s2\<lparr>gpio_fsel3_v := v\<rparr>)
        else if addr = fk_fsel4 then Inr (s2\<lparr>gpio_fsel4_v := v\<rparr>)
        else if addr = gpio_set0 then Inr (s2\<lparr>gpio_set0_v := v\<rparr>)
        else if addr = gpio_set1 then Inr (s2\<lparr>gpio_set1_v := v\<rparr>)
        else if addr = gpio_clr0 then Inr (s2\<lparr>gpio_clr0_v := v\<rparr>)
        else if addr = gpio_clr1 then Inr (s2\<lparr>gpio_clr1_v := v\<rparr>)
        else if addr = aux_periph then Inr (s2\<lparr>aux_periph_v := v\<rparr>)
        else if addr = gpio_lev0 then Inl (Panic ''illegal write to gpio_lev0!'')
        else Inl (Panic ''write to illegal address''))))"

definition fk_GET32 :: "u32 \<Rightarrow> fpi \<Rightarrow> (u32 \<times> fpi) res" where
  "fk_GET32 addr s =
     bnd (uart_addr_get addr s) (\<lambda>u.
     bnd (case u of
            Some v \<Rightarrow> Inr (v, s)
          | None \<Rightarrow>
              if addr = fk_fsel0 then Inr (gpio_fsel0_v s, s)
              else if addr = fk_fsel1 then Inr (gpio_fsel1_v s, s)
              else if addr = fk_fsel2 then Inr (gpio_fsel2_v s, s)
              else if addr = fk_fsel3 then Inr (gpio_fsel3_v s, s)
              else if addr = fk_fsel4 then Inr (gpio_fsel4_v s, s)
              else if addr = gpio_lev0 then draw s
              else if addr = aux_periph then Inr (aux_periph_v s, s)
              else Inl (Panic ''read of illegal address'')) (\<lambda>(v, s1).
     bnd (trace (EvGet addr v) s1) (\<lambda>s2. Inr (v, s2))))"

definition fk_GET8 :: "u32 \<Rightarrow> fpi \<Rightarrow> (u8 \<times> fpi) res" where
  "fk_GET8 addr s =
     bnd (check (addr mod 4 = 0) ''addr%4 == 0'') (\<lambda>_.
     bnd (fk_GET32 addr s) (\<lambda>(v, s1). Inr (ucast (v AND 0xff), s1)))"

definition fk_PUT8 :: "u32 \<Rightarrow> u8 \<Rightarrow> fpi \<Rightarrow> fpi res" where
  "fk_PUT8 addr v s =
     bnd (check (addr mod 4 = 0) ''addr%4 == 0'') (\<lambda>_.
     bnd (fk_GET32 addr s) (\<lambda>(x, s1). fk_PUT32 addr ((x AND NOT 0xff) OR ucast v) s1))"

definition fk_DEV_VAL32 :: "u32 \<Rightarrow> fpi \<Rightarrow> (u32 \<times> fpi) res" where
  "fk_DEV_VAL32 x s = bnd (trace (EvVal x) s) (\<lambda>s1. Inr (x, s1))"

definition fk_delay_cycles :: "u32 \<Rightarrow> fpi \<Rightarrow> fpi res" where
  "fk_delay_cycles n = trace (EvDelayCycles n)"

definition fk_delay_us :: "u32 \<Rightarrow> fpi \<Rightarrow> fpi res" where
  "fk_delay_us n = trace (EvDelayUs n)"

definition fk_delay_ms :: "u32 \<Rightarrow> fpi \<Rightarrow> fpi res" where
  "fk_delay_ms n = trace (EvDelayMs n)"

definition fake_bus :: "fpi bus" where
  "fake_bus = \<lparr>GET32 = fk_GET32, PUT32 = fk_PUT32, dev_barrier = fk_dev_barrier, DEV_VAL32 = fk_DEV_VAL32\<rparr>"

subsection \<open>The main program\<close>

text \<open>Up to the call of \<open>notmain\<close>: \<open>arg\<close> is the seed of a command line with one argument.\<close>

definition fake_boot :: "u32 option \<Rightarrow> fpi \<Rightarrow> fpi res" where
  "fake_boot arg s =
     bnd (case arg of
            None \<Rightarrow> fake_random_init (frand s)
          | Some seed \<Rightarrow> if seed = 0 then Inl (Panic ''seed should be a non-zero number'')
                        else fake_random_seed seed (frand s)) (\<lambda>r.
     let s0 = s\<lparr>frand := r, trace_on_p := False\<rparr> in
     bnd (seq (map (\<lambda>a s. bnd (draw s) (\<lambda>(v, s1). fk_PUT32 a v s1))
            [fk_fsel0, fk_fsel1, fk_fsel2, fk_fsel3, gpio_set0, gpio_clr0]) s0) (\<lambda>s1.
     bnd (uart_mem_init s1) (\<lambda>s2.
     trace EvCall (s2\<lparr>trace_on_p := True\<rparr>))))"

definition fake_main :: "u32 option \<Rightarrow> (fpi \<Rightarrow> fpi res) \<Rightarrow> fpi \<Rightarrow> fpi res" where
  "fake_main arg notmain s =
     bnd (fake_boot arg s) (\<lambda>s1. bnd (notmain s1) (\<lambda>_. Inl ExitOk))"

subsection \<open>The simulator's registers are plain\<close>

definition is_uart :: "u32 \<Rightarrow> bool" where
  "is_uart a \<longleftrightarrow> uart_start \<le> a \<and> a \<le> uart_end \<and> a mod 4 = 0"

definition uidx :: "u32 \<Rightarrow> nat" where
  "uidx a = unat ((a - uart_start) div 4)"

definition fk_inv :: "fpi \<Rightarrow> bool" where
  "fk_inv s \<longleftrightarrow> length (uart_mem s) = 13 \<and>
     (\<forall>i < 13. dm_addr (uart_mem s ! i) = uart_start + 4 * of_nat i)"

definition fk_regs :: "fpi \<Rightarrow> u32 \<Rightarrow> u32" where
  "fk_regs s a =
     (if is_uart a then dm_v (uart_mem s ! uidx a)
      else if a = fk_fsel0 then gpio_fsel0_v s else if a = fk_fsel1 then gpio_fsel1_v s
      else if a = fk_fsel2 then gpio_fsel2_v s else if a = fk_fsel3 then gpio_fsel3_v s
      else if a = fk_fsel4 then gpio_fsel4_v s else if a = gpio_set0 then gpio_set0_v s
      else if a = gpio_set1 then gpio_set1_v s else if a = gpio_clr0 then gpio_clr0_v s
      else if a = gpio_clr1 then gpio_clr1_v s else if a = aux_periph then aux_periph_v s else 0)"

definition fk_readable :: "u32 \<Rightarrow> bool" where
  "fk_readable a \<longleftrightarrow> is_uart a \<or> a \<in> {fk_fsel0, fk_fsel1, fk_fsel2, fk_fsel3, fk_fsel4, aux_periph}"

definition fk_legal :: "u32 \<Rightarrow> u32 \<Rightarrow> nat \<Rightarrow> bool" where
  "fk_legal a v e \<longleftrightarrow>
     (is_uart a \<and> (a = uart_cntrl \<longrightarrow> v AND 3 = 3 \<or> v AND 3 = 0 \<and> 0 < e)) \<or>
     a \<in> {fk_fsel0, fk_fsel1, fk_fsel2, fk_fsel3, fk_fsel4, gpio_set0, gpio_set1, gpio_clr0, gpio_clr1,
          aux_periph}"

definition fk_cost :: "u32 \<Rightarrow> nat" where
  "fk_cost a = (if a = uart_cntrl then 15 else 1)"

definition fk_can :: "fpi \<Rightarrow> nat \<Rightarrow> bool" where
  "fk_can s n \<longleftrightarrow> fk_inv s \<and> trace_on_p s \<and> ntrace s + n \<le> max_trace \<and>
     unat (dev_barrier_cnt s) + n < 4294967296"

lemma uart_n_13: "uart_n = 13"
  by (simp add: uart_n_def fk_addrs)

lemma uidx_facts:
  assumes "is_uart a"
  shows "uidx a < 13" and "a = uart_start + 4 * of_nat (uidx a)"
proof -
  let ?k = "a - uart_start"
  have le: "uart_start \<le> a" "a \<le> uart_end" "a mod 4 = 0" using assms by (auto simp: is_uart_def)
  have un: "unat ?k = unat a - unat uart_start" using le by (simp add: unat_sub_if_size word_le_nat_alt)
  moreover have "unat a \<le> unat uart_start + 48" using le(2) by (simp add: word_le_nat_alt fk_addrs)
  ultimately have k: "unat ?k \<le> 48" by simp
  then show "uidx a < 13" by (simp add: uidx_def unat_div_distrib)
  have "unat (a mod 4) = 0" using le(3) by simp
  then have "unat a mod 4 = 0" by (simp add: unat_mod_distrib)
  moreover have "unat uart_start mod 4 = 0" by (simp add: fk_addrs)
  moreover have "unat uart_start \<le> unat a" using le(1) by (simp add: word_le_nat_alt)
  ultimately have "unat ?k mod 4 = 0" unfolding un by (simp add: mod_eq_0_iff_dvd)
  then have "4 * (unat ?k div 4) = unat ?k" by (metis add_0_right mult_div_mod_eq)
  then have "4 * unat (?k div 4) = unat ?k" by (simp add: unat_div_distrib)
  then have "of_nat (4 * unat (?k div 4)) = (of_nat (unat ?k) :: u32)" by (rule arg_cong)
  then show "a = uart_start + 4 * of_nat (uidx a)" by (simp add: uidx_def)
qed

lemma uidx_inj: "is_uart a \<Longrightarrow> is_uart c \<Longrightarrow> uidx a = uidx c \<longleftrightarrow> a = c"
  using uidx_facts(2) by metis

lemma lookup_uart: "fk_inv s \<Longrightarrow> is_uart a \<Longrightarrow> uart_addr_lookup a s = Inr (Some (uidx a))"
  using uidx_facts [of a]
  by (auto simp: uart_addr_lookup_def is_uart_def fk_inv_def uidx_def uart_n_13 Let_def not_less)

lemma lookup_other: "a < uart_start \<or> uart_end < a \<Longrightarrow> uart_addr_lookup a s = Inr None"
  by (simp add: uart_addr_lookup_def)

text \<open>Tracing keeps everything but the trace.\<close>

lemma trace_ok:
  assumes "trace_on_p s" and "ntrace s < max_trace"
  shows "trace e s = Inr (s\<lparr>trace_out := trace_out s @ [e], trace_ops := trace_ops s + 1, ntrace := ntrace s + 1\<rparr>)"
  using assms by (simp add: trace_def Let_def not_le)

lemma flush_ok:
  "trace_on_p s \<Longrightarrow> ntrace s + length ps \<le> max_trace \<Longrightarrow>
     \<exists>t o' n. flush_list e ps s = Inr (s\<lparr>trace_out := t, trace_ops := o', ntrace := n\<rparr>) \<and>
       n \<le> ntrace s + length ps"
proof (induction ps arbitrary: s)
  case Nil
  show ?case by (intro exI [of _ "trace_out s"] exI [of _ "trace_ops s"] exI [of _ "ntrace s"]) simp
next
  case (Cons p ps)
  show ?case
  proof (cases "e \<le> dm_epoch p")
    case True
    let ?s = "s\<lparr>trace_out := trace_out s @ [EvUartBuf (dm_addr p) (dm_v p)], trace_ops := trace_ops s + 1,
               ntrace := ntrace s + 1\<rparr>"
    have "flush_list e (p # ps) s = flush_list e ps ?s"
      using True Cons.prems by (simp add: trace_ok)
    then show ?thesis using Cons.IH [of ?s] Cons.prems by auto
  next
    case False
    then have "flush_list e (p # ps) s = flush_list e ps s" by simp
    then show ?thesis using Cons.IH [of s] Cons.prems by force
  qed
qed


lemma fk_get_law:
  assumes "fk_readable a" and "fk_can s (Suc n)"
  shows "\<exists>s'. GET32 fake_bus a s = Inr (fk_regs s a, s') \<and> fk_regs s' = fk_regs s \<and> fk_can s' n \<and>
           unat (dev_barrier_cnt s') = unat (dev_barrier_cnt s)"
proof -
  let ?s = "s\<lparr>trace_out := trace_out s @ [EvGet a (fk_regs s a)], trace_ops := trace_ops s + 1,
             ntrace := ntrace s + 1\<rparr>"
  have t: "trace (EvGet a (fk_regs s a)) s = Inr ?s"
    using assms(2) by (intro trace_ok) (auto simp: fk_can_def)
  have "fk_GET32 a s = Inr (fk_regs s a, ?s)"
  proof (cases "is_uart a")
    case True
    have "uart_addr_get a s = Inr (Some (fk_regs s a))"
      using True assms(2) uidx_facts(1) [OF True]
      by (simp add: uart_addr_get_def lookup_uart fk_can_def fk_inv_def fk_regs_def arr_get_def)
    then show ?thesis using t by (simp add: fk_GET32_def)
  next
    case False
    then have c: "a \<in> {fk_fsel0, fk_fsel1, fk_fsel2, fk_fsel3, fk_fsel4, aux_periph}"
      using assms(1) by (simp add: fk_readable_def)
    then have "a < uart_start" by (auto simp: fk_addrs)
    then have "uart_addr_get a s = Inr None" by (simp add: uart_addr_get_def lookup_other)
    then show ?thesis using t c False
      by (auto simp: fk_GET32_def fk_regs_def fk_addrs)
  qed
  moreover have "fk_regs ?s = fk_regs s" by (rule ext) (simp add: fk_regs_def)
  moreover have "fk_can ?s n" using assms(2) by (simp add: fk_can_def fk_inv_def)
  ultimately show ?thesis by (simp add: fake_bus_def)
qed

lemma fk_barrier_law:
  assumes "fk_can s (Suc n)"
  shows "\<exists>s'. dev_barrier fake_bus s = Inr s' \<and> fk_regs s' = fk_regs s \<and> fk_can s' n \<and>
           unat (dev_barrier_cnt s') = Suc (unat (dev_barrier_cnt s))"
proof -
  let ?s = "s\<lparr>dev_barrier_cnt := dev_barrier_cnt s + 1, trace_out := trace_out s @ [EvBarrier (dev_barrier_cnt s)],
             trace_ops := trace_ops s + 1, ntrace := ntrace s + 1\<rparr>"
  have u: "unat (dev_barrier_cnt s + 1) = Suc (unat (dev_barrier_cnt s))"
    using assms unat_add_small [of "dev_barrier_cnt s" 1] by (simp add: fk_can_def)
  have "fk_dev_barrier s = Inr ?s"
    using assms by (simp add: fk_dev_barrier_def trace_def fk_can_def Let_def)
  moreover have "fk_regs ?s = fk_regs s" by (rule ext) (simp add: fk_regs_def)
  moreover have "fk_can ?s n" using assms u by (simp add: fk_can_def fk_inv_def)
  ultimately show ?thesis using u by (simp add: fake_bus_def)
qed


lemma fk_regs_upd:
  assumes "is_uart a" and "length (uart_mem s) = 13"
  shows "fk_regs (s\<lparr>uart_mem := (uart_mem s)[uidx a := m]\<rparr>) = (fk_regs s)(a := dm_v m)"
proof
  fix x
  show "fk_regs (s\<lparr>uart_mem := (uart_mem s)[uidx a := m]\<rparr>) x = ((fk_regs s)(a := dm_v m)) x"
  proof (cases "is_uart x")
    case True
    then have "uidx x = uidx a \<longleftrightarrow> x = a" by (rule uidx_inj [OF _ assms(1)])
    then show ?thesis using True assms uidx_facts(1) [OF assms(1)] by (auto simp: fk_regs_def)
  next
    case False
    then have "x \<noteq> a" using assms(1) by auto
    then show ?thesis using False by (simp add: fk_regs_def)
  qed
qed

lemma fk_regs_quiet [simp]:
  "fk_regs (s\<lparr>trace_out := t\<rparr>) = fk_regs s" "fk_regs (s\<lparr>trace_ops := k\<rparr>) = fk_regs s"
  "fk_regs (s\<lparr>ntrace := k\<rparr>) = fk_regs s" "fk_regs (s\<lparr>uart_off_p := e\<rparr>) = fk_regs s"
  "fk_regs (s\<lparr>dev_barrier_cnt := e\<rparr>) = fk_regs s" "fk_regs (s\<lparr>frand := r\<rparr>) = fk_regs s"
  by (rule ext, simp add: fk_regs_def)+

text \<open>The value and epoch of register \<open>a\<close> are written.\<close>

definition put_reg :: "u32 \<Rightarrow> u32 \<Rightarrow> fpi \<Rightarrow> fpi" where
  "put_reg a v s = s\<lparr>uart_mem := (uart_mem s)[uidx a := (uart_mem s ! uidx a)\<lparr>dm_v := v, dm_epoch := dev_barrier_cnt s\<rparr>]\<rparr>"

lemma put_reg_facts:
  assumes "is_uart a" and "fk_inv s"
  shows "fk_regs (put_reg a v s) = (fk_regs s)(a := v)" and "fk_inv (put_reg a v s)"
    and "ntrace (put_reg a v s) = ntrace s" and "trace_on_p (put_reg a v s) = trace_on_p s"
    and "dev_barrier_cnt (put_reg a v s) = dev_barrier_cnt s" and "uart_off_p (put_reg a v s) = uart_off_p s"
  using assms uidx_facts(1) [OF assms(1)]
  by (auto simp: put_reg_def fk_regs_upd fk_inv_def nth_list_update)

lemma uart_put_step:
  assumes "is_uart a" and "fk_can s (1 + n)"
  obtains s2 where "fk_regs s2 = (fk_regs s)(a := v)" and "fk_can s2 n"
    and "dev_barrier_cnt s2 = dev_barrier_cnt s" and "length (uart_mem s2) = 13"
    and "uart_addr_put a v s =
      (if a = uart_cntrl then
           if v AND 3 = 0 then
             let s3 = s2\<lparr>uart_off_p := dev_barrier_cnt s2\<rparr> in
             bnd (check (dev_barrier_cnt s3 \<noteq> 0) ''dev_barrier_cnt'') (\<lambda>_.
             bnd (trace (EvUartTurnOff a v) s3) (\<lambda>s4. Inr (True, s4)))
           else if v AND 3 = 3 then
             let s3 = s2\<lparr>uart_off_p := 0\<rparr> in
             bnd (uart_mem_flush (dev_barrier_cnt s3) s3) (\<lambda>s4.
             bnd (trace (EvUartTurnOn a v) s4) (\<lambda>s5. Inr (True, s5)))
           else Inl (Panic ''illegal value to turn off/on uart'')
         else Inr (True, s2))"
proof -
  have inv: "fk_inv s" "length (uart_mem s) = 13" using assms(2) by (auto simp: fk_can_def fk_inv_def)
  note f = put_reg_facts [OF assms(1) inv(1)]
  let ?s = "put_reg a v s"
  define s2 where "s2 = (if uart_off_p s = 0 then ?s\<lparr>trace_out := trace_out ?s @ [EvUartOn a v 0],
     trace_ops := trace_ops ?s + 1, ntrace := ntrace s + 1\<rparr> else ?s)"
  have lk: "uart_addr_lookup a s = Inr (Some (uidx a))" by (rule lookup_uart [OF inv(1) assms(1)])
  have m: "arr_get (uart_mem s) (uidx a) = Inr (uart_mem s ! uidx a)"
    using uidx_facts(1) [OF assms(1)] inv by (simp add: arr_get_def)
  have t: "(if uart_off_p ?s = 0 then trace (EvUartOn a v (uart_off_p ?s)) ?s else Inr ?s) = Inr s2"
    using assms(2) f by (simp add: s2_def trace_ok fk_can_def)
  show thesis
  proof (rule that [of s2])
    show "fk_regs s2 = (fk_regs s)(a := v)" using f by (simp add: s2_def)
    show "fk_can s2 n" using f assms(2) by (simp add: s2_def fk_can_def fk_inv_def)
    show "dev_barrier_cnt s2 = dev_barrier_cnt s" using f by (simp add: s2_def)
    show "length (uart_mem s2) = 13" using f by (simp add: s2_def fk_inv_def)
  qed (simp only: uart_addr_put_def lk m t Let_def bnd_Inr option.case put_reg_def [symmetric])
qed

lemma uart_put_law:
  assumes "is_uart a" and "fk_can s (fk_cost a + n)"
    and "a = uart_cntrl \<longrightarrow> v AND 3 = 3 \<or> v AND 3 = 0 \<and> 0 < unat (dev_barrier_cnt s)"
  shows "\<exists>s'. uart_addr_put a v s = Inr (True, s') \<and> fk_regs s' = (fk_regs s)(a := v) \<and> fk_can s' n \<and>
           dev_barrier_cnt s' = dev_barrier_cnt s"
proof (cases "a = uart_cntrl")
  case False
  then have "fk_can s (1 + n)" using assms(2) by (simp add: fk_cost_def)
  then show ?thesis using False uart_put_step [OF assms(1), of s n v] by metis
next
  case True
  have c: "fk_can s (1 + (14 + n))" using assms(2) True by (simp add: fk_cost_def)
  show ?thesis
  proof (rule uart_put_step [OF assms(1) c, of v], goal_cases)
    case (1 s2)
    note c2 = 1(2) [unfolded fk_can_def fk_inv_def] and eq = 1(5) [unfolded if_P [OF True]]
    show ?thesis
    proof (cases "v AND 3 = 3")
      case on: True
      let ?s = "s2\<lparr>uart_off_p := 0\<rparr>"
      obtain t k m where
        fl: "uart_mem_flush (dev_barrier_cnt ?s) ?s = Inr (?s\<lparr>trace_out := t, trace_ops := k, ntrace := m\<rparr>)"
        and m: "m \<le> ntrace ?s + length (take uart_n (uart_mem ?s))"
        using flush_ok [of ?s "take uart_n (uart_mem ?s)" "dev_barrier_cnt ?s"] c2
        by (auto simp: uart_mem_flush_def uart_n_13)
      let ?t = "?s\<lparr>trace_out := t @ [EvUartTurnOn a v], trace_ops := k + 1, ntrace := m + 1\<rparr>"
      have m': "m \<le> ntrace s2 + 13" using m 1(4) by (simp add: uart_n_13)
      have "uart_addr_put a v s = Inr (True, ?t)"
        unfolding eq using on fl m' c2 by (simp add: Let_def trace_ok)
      moreover have "fk_can ?t n" using 1(2) m' by (simp add: fk_can_def fk_inv_def)
      ultimately show ?thesis using 1 by (intro exI [of _ ?t]) simp
    next
      case False
      let ?s = "s2\<lparr>uart_off_p := dev_barrier_cnt s2\<rparr>"
      let ?t = "?s\<lparr>trace_out := trace_out ?s @ [EvUartTurnOff a v], trace_ops := trace_ops ?s + 1,
               ntrace := ntrace ?s + 1\<rparr>"
      have "v AND 3 = 0" "dev_barrier_cnt s2 \<noteq> 0" using False assms(3) True 1(3) by auto
      then have "uart_addr_put a v s = Inr (True, ?t)"
        unfolding eq using c2 by (simp add: Let_def trace_ok check_def)
      moreover have "fk_can ?t n" using 1(2) by (simp add: fk_can_def fk_inv_def)
      ultimately show ?thesis using 1 by (intro exI [of _ ?t]) simp
    qed
  qed
qed

lemma fk_regs_gpio:
  "fk_regs (s\<lparr>gpio_fsel0_v := v\<rparr>) = (fk_regs s)(fk_fsel0 := v)"
  "fk_regs (s\<lparr>gpio_fsel1_v := v\<rparr>) = (fk_regs s)(fk_fsel1 := v)"
  "fk_regs (s\<lparr>gpio_fsel2_v := v\<rparr>) = (fk_regs s)(fk_fsel2 := v)"
  "fk_regs (s\<lparr>gpio_fsel3_v := v\<rparr>) = (fk_regs s)(fk_fsel3 := v)"
  "fk_regs (s\<lparr>gpio_fsel4_v := v\<rparr>) = (fk_regs s)(fk_fsel4 := v)"
  "fk_regs (s\<lparr>gpio_set0_v := v\<rparr>) = (fk_regs s)(gpio_set0 := v)"
  "fk_regs (s\<lparr>gpio_set1_v := v\<rparr>) = (fk_regs s)(gpio_set1 := v)"
  "fk_regs (s\<lparr>gpio_clr0_v := v\<rparr>) = (fk_regs s)(gpio_clr0 := v)"
  "fk_regs (s\<lparr>gpio_clr1_v := v\<rparr>) = (fk_regs s)(gpio_clr1 := v)"
  "fk_regs (s\<lparr>aux_periph_v := v\<rparr>) = (fk_regs s)(aux_periph := v)"
  by (rule ext, simp add: fk_regs_def is_uart_def fk_addrs)+

lemma fk_distinct:
  "distinct [aux_periph, gpio_clr1, gpio_clr0, gpio_set1, gpio_set0, fk_fsel4, fk_fsel3, fk_fsel2, fk_fsel1, fk_fsel0]"
  by (simp add: fk_addrs)

lemma fk_put_law:
  assumes "fk_legal a v (unat (dev_barrier_cnt s))" and "fk_can s (fk_cost a + n)"
  shows "\<exists>s'. PUT32 fake_bus a v s = Inr s' \<and> fk_regs s' = (fk_regs s)(a := v) \<and> fk_can s' n \<and>
           unat (dev_barrier_cnt s') = unat (dev_barrier_cnt s)"
proof -
  have on: "trace_on_p s" using assms(2) by (simp add: fk_can_def)
  show ?thesis
  proof (cases "is_uart a")
    case True
    then have "a = uart_cntrl \<longrightarrow> v AND 3 = 3 \<or> v AND 3 = 0 \<and> 0 < unat (dev_barrier_cnt s)"
      using assms(1) by (auto simp: fk_legal_def fk_addrs)
    from uart_put_law [OF True assms(2) this] obtain s' where
      "uart_addr_put a v s = Inr (True, s')" "fk_regs s' = (fk_regs s)(a := v)" "fk_can s' n"
      "dev_barrier_cnt s' = dev_barrier_cnt s" by blast
    then show ?thesis using on by (simp add: fake_bus_def fk_PUT32_def Let_def)
  next
    case False
    then have c: "a \<in> {fk_fsel0, fk_fsel1, fk_fsel2, fk_fsel3, fk_fsel4, gpio_set0, gpio_set1, gpio_clr0, gpio_clr1,
          aux_periph}" using assms(1) by (simp add: fk_legal_def)
    then have lt: "a < uart_start" by (auto simp: fk_addrs)
    then have nu: "\<not> is_uart x" if "x \<le> a" for x using that by (auto simp: is_uart_def)
    have up: "uart_addr_put a v s = Inr (False, s)" using lt by (simp add: uart_addr_put_def lookup_other)
    let ?s = "s\<lparr>trace_out := trace_out s @ [EvPut a v], trace_ops := trace_ops s + 1, ntrace := ntrace s + 1\<rparr>"
    have can: "fk_can ?s n" using assms(2) by (simp add: fk_can_def fk_inv_def fk_cost_def split: if_splits)
    have tr: "trace (EvPut a v) s = Inr ?s"
      using assms(2) by (intro trace_ok) (auto simp: fk_can_def fk_cost_def split: if_splits)
    have P: "fk_PUT32 a v s = bnd (Inr ?s) (\<lambda>s2.
        if a = fk_fsel0 then Inr (s2\<lparr>gpio_fsel0_v := v\<rparr>)
        else if a = fk_fsel1 then Inr (s2\<lparr>gpio_fsel1_v := v\<rparr>)
        else if a = fk_fsel2 then Inr (s2\<lparr>gpio_fsel2_v := v\<rparr>)
        else if a = fk_fsel3 then Inr (s2\<lparr>gpio_fsel3_v := v\<rparr>)
        else if a = fk_fsel4 then Inr (s2\<lparr>gpio_fsel4_v := v\<rparr>)
        else if a = gpio_set0 then Inr (s2\<lparr>gpio_set0_v := v\<rparr>)
        else if a = gpio_set1 then Inr (s2\<lparr>gpio_set1_v := v\<rparr>)
        else if a = gpio_clr0 then Inr (s2\<lparr>gpio_clr0_v := v\<rparr>)
        else if a = gpio_clr1 then Inr (s2\<lparr>gpio_clr1_v := v\<rparr>)
        else if a = aux_periph then Inr (s2\<lparr>aux_periph_v := v\<rparr>)
        else if a = gpio_lev0 then Inl (Panic ''illegal write to gpio_lev0!'')
        else Inl (Panic ''write to illegal address''))"
      using on up tr by (simp add: fk_PUT32_def)
    have "\<exists>s'. fk_PUT32 a v s = Inr s' \<and> fk_regs s' = (fk_regs s)(a := v) \<and> fk_can s' n \<and>
        dev_barrier_cnt s' = dev_barrier_cnt s"
      unfolding P using c can fk_distinct
      by (elim insertE emptyE) (simp_all add: fk_regs_gpio fk_can_def fk_inv_def)
    then show ?thesis by (auto simp: fake_bus_def)
  qed
qed

interpretation fk: device fake_bus fk_regs fk_readable fk_legal fk_cost fk_can "\<lambda>s. unat (dev_barrier_cnt s)"
  by unfold_locales (rule fk_get_law fk_put_law fk_barrier_law; assumption)+


subsection \<open>Functions of pins\<close>

lemma fsel_fk: "pin < 32 \<or> pin = 47 \<Longrightarrow> fsel_addr pin \<in> {fk_fsel0, fk_fsel1, fk_fsel2, fk_fsel3, fk_fsel4}"
proof -
  assume "pin < 32 \<or> pin = 47"
  then have "unat (pin div 10) \<in> {0, 1, 2, 3, 4}" by (auto simp: unat_div_distrib word_less_nat_alt)
  then have "(of_nat (unat (pin div 10)) :: u32) \<in> of_nat ` {0, 1, 2, 3, 4}" by (rule imageI)
  then have "pin div 10 \<in> {0, 1, 2, 3, 4}" by simp
  then show ?thesis by (auto simp: fsel_addr_def fk_addrs)
qed

text \<open>\<open>gpio_set_function\<close> on the simulator: a valid pin's three bits become \<open>func\<close>, the functions of the
  other pins of the register and all other registers are kept; an invalid pin or function touches
  nothing.\<close>
lemma gpio_set_function_fields:
  assumes "fk_can s (2 + n)"
  shows "if (pin < 32 \<or> pin = 47) \<and> func \<le> 7
    then \<exists>s'. gpio_set_function fake_bus pin func s = Inr s' \<and> fk_can s' n \<and>
      (\<forall>q < 54. pin_function (fk_regs s') q = (if q = pin then func else pin_function (fk_regs s) q)) \<and>
      (\<forall>a. a \<noteq> fsel_addr pin \<longrightarrow> fk_regs s' a = fk_regs s a)
    else gpio_set_function fake_bus pin func s = Inr s"
proof (cases "(pin < 32 \<or> pin = 47) \<and> func \<le> 7")
  case True
  then have a: "fsel_addr pin \<in> {fk_fsel0, fk_fsel1, fk_fsel2, fk_fsel3, fk_fsel4}" using fsel_fk by blast
  then have "fsel_addr pin \<noteq> uart_cntrl" by (auto simp: fk_addrs)
  then obtain s' where "rmw fake_bus (fsel_addr pin) (fsel_set pin func) s = Inr s'" "fk_can s' n"
    "fk_regs s' = (fk_regs s)(fsel_addr pin := fsel_set pin func (fk_regs s (fsel_addr pin)))"
    using fk.rmw_law [of "fsel_addr pin" "fsel_set pin func" s n] a assms
    by (auto simp: fk_readable_def fk_legal_def fk_cost_def)
  then show ?thesis
    using True pin_function_upd [of pin _ func "fk_regs s"] by (auto simp: gpio_set_function_rmw)
next
  case False
  then show ?thesis by (auto simp: gpio_set_function_def not_le)
qed

text \<open>A booted simulator: all registers 0.\<close>

definition ex_fpi :: fpi where
  "ex_fpi = \<lparr>trace_on_p = True, ntrace = 0, trace_ops = 0, trace_out = [], gpio_fsel0_v = 0, gpio_fsel1_v = 0,
     gpio_fsel2_v = 0, gpio_fsel3_v = 0, gpio_fsel4_v = 0, gpio_set0_v = 0, gpio_clr0_v = 0, gpio_set1_v = 0,
     gpio_clr1_v = 0, aux_periph_v = 0, dev_barrier_cnt = 0,
     uart_mem = map (\<lambda>i. \<lparr>dm_addr = uart_start + 4 * of_nat i, dm_v = 0, dm_epoch = 0\<rparr>) [0 ..< 13],
     uart_off_p = 1, frand = \<lparr>fr = zero_data, fr_bufs = undefined, init_p = False, nrandom_calls = 0\<rparr>\<rparr>"

lemma ex_fpi_can: "fk_can ex_fpi 128"
  by (simp add: fk_can_def ex_fpi_def fk_inv_def max_trace_def)

lemma gpio_set_function_fields_example:
  "\<exists>s'. gpio_set_function fake_bus 47 1 ex_fpi = Inr s' \<and> pin_function (fk_regs s') 47 = 1 \<and>
     pin_function (fk_regs s') 46 = pin_function (fk_regs ex_fpi) 46"
proof -
  have "fk_can ex_fpi (2 + 126)" using ex_fpi_can by simp
  from gpio_set_function_fields [OF this, of 47 1] show ?thesis by auto
qed

text \<open>The simulator's random inputs do not depend on the seed: \<open>fake_random_seed\<close> ignores its argument.\<close>
lemma fake_random_seed_ignores: "fake_random_seed x s = fake_random_seed y s"
  by (simp add: fake_random_seed_def)

end
