(* ===== verification/Uart.thy ===== *)
theory Uart
  imports FakePi
begin

text \<open>
  The mini-UART driver \<open>labs/8-uart/2-uart/uart.c\<close> and the bit-banged UART
  \<open>labs/8-uart/1-sw-uart-put8/sw-uart.c\<close>.  Loops that wait for the device have fuel; the initialisation is
  checked on the registers of the simulator, the waiting routines against scripts.
\<close>

subsection \<open>\<open>uart.c\<close>\<close>

definition AUX_ENB :: u32 where "AUX_ENB = 0x20215004"
definition MU_IO :: u32 where "MU_IO = 0x20215040"
definition MU_IER :: u32 where "MU_IER = 0x20215044"
definition MU_IIR :: u32 where "MU_IIR = 0x20215048"
definition MU_LCR :: u32 where "MU_LCR = 0x2021504c"
definition MU_LSR :: u32 where "MU_LSR = 0x20215054"
definition MU_CNTL :: u32 where "MU_CNTL = 0x20215060"
definition MU_BAUD :: u32 where "MU_BAUD = 0x20215068"

lemmas mu_addrs = AUX_ENB_def MU_IO_def MU_IER_def MU_IIR_def MU_LCR_def MU_LSR_def MU_CNTL_def MU_BAUD_def

definition tx_pin :: u32 where "tx_pin = 14"
definition rx_pin :: u32 where "rx_pin = 15"

definition uart_init :: "'d bus \<Rightarrow> 'd \<Rightarrow> 'd res" where
  "uart_init b = seq
     [rmw b AUX_ENB (\<lambda>x. x AND NOT 1),
      dev_barrier b,
      gpio_set_function b tx_pin GPIO_FUNC_ALT5,
      gpio_set_function b rx_pin GPIO_FUNC_ALT5,
      dev_barrier b,
      rmw b AUX_ENB (\<lambda>x. x OR 1),
      dev_barrier b,
      rmw b MU_CNTL (\<lambda>x. x AND NOT 3),
      dev_barrier b,
      PUT32 b MU_IIR 6,
      dev_barrier b,
      rmw b MU_IER (\<lambda>x. x AND NOT 3),
      dev_barrier b,
      PUT32 b MU_BAUD 270,
      dev_barrier b,
      rmw b MU_LCR (\<lambda>x. x OR 3),
      dev_barrier b,
      rmw b MU_CNTL (\<lambda>x. x OR 3),
      dev_barrier b]"

definition uart_can_get8 :: "'d bus \<Rightarrow> 'd \<Rightarrow> (u32 \<times> 'd) res" where
  "uart_can_get8 b d = bnd (GET32 b MU_LSR d) (\<lambda>(v, d1). Inr (v AND 1, d1))"

definition uart_can_put8 :: "'d bus \<Rightarrow> 'd \<Rightarrow> (u32 \<times> 'd) res" where
  "uart_can_put8 b d = bnd (GET32 b MU_LSR d) (\<lambda>(v, d1). Inr (v AND push_bit 5 1, d1))"

definition uart_tx_is_empty :: "'d bus \<Rightarrow> 'd \<Rightarrow> (u32 \<times> 'd) res" where
  "uart_tx_is_empty b d = bnd (GET32 b MU_LSR d) (\<lambda>(v, d1). Inr (v AND push_bit 6 1, d1))"

text \<open>\<open>while(!f()) ;\<close>\<close>

definition wait_for :: "nat \<Rightarrow> ('d \<Rightarrow> (u32 \<times> 'd) res) \<Rightarrow> 'd \<Rightarrow> 'd res" where
  "wait_for fuel f = poll fuel (\<lambda>d. bnd (f d) (\<lambda>(v, d1). Inr (v \<noteq> 0, d1)))"

definition uart_disable :: "'d bus \<Rightarrow> nat \<Rightarrow> 'd \<Rightarrow> 'd res" where
  "uart_disable b fuel = seq
     [wait_for fuel (uart_tx_is_empty b), rmw b AUX_ENB (\<lambda>x. x AND NOT 1), dev_barrier b]"

definition uart_get8 :: "'d bus \<Rightarrow> nat \<Rightarrow> 'd \<Rightarrow> (u32 \<times> 'd) res" where
  "uart_get8 b fuel d =
     bnd (wait_for fuel (uart_can_get8 b) d) (\<lambda>d1.
     bnd (GET32 b MU_IO d1) (\<lambda>(v, d2). Inr (v AND 0xff, d2)))"

definition uart_put8 :: "'d bus \<Rightarrow> nat \<Rightarrow> u8 \<Rightarrow> 'd \<Rightarrow> (u32 \<times> 'd) res" where
  "uart_put8 b fuel c d =
     bnd (wait_for fuel (uart_can_put8 b) d) (\<lambda>d1.
     bnd (GET32 b MU_IO d1) (\<lambda>(v, d2).
     let v1 = v AND NOT 0xff; v2 = v1 OR ucast c in
     bnd (PUT32 b MU_IO v2 d2) (\<lambda>d3. Inr (1, d3))))"

definition uart_has_data :: "'d bus \<Rightarrow> 'd \<Rightarrow> (u32 \<times> 'd) res" where
  "uart_has_data b = uart_can_put8 b"

definition uart_get8_async :: "'d bus \<Rightarrow> nat \<Rightarrow> 'd \<Rightarrow> (u32 \<times> 'd) res" where
  "uart_get8_async b fuel d =
     bnd (uart_has_data b d) (\<lambda>(h, d1). if h = 0 then Inr (- 1, d1) else uart_get8 b fuel d1)"

definition uart_flush_tx :: "'d bus \<Rightarrow> nat \<Rightarrow> 'd \<Rightarrow> 'd res" where
  "uart_flush_tx b fuel = wait_for fuel (uart_tx_is_empty b)"

subsection \<open>\<open>sw-uart.c\<close>\<close>

text \<open>\<open>cyc\<close> is \<open>cycle_cnt_read\<close> (a coprocessor read); \<open>wait_ncycles_exact\<close> is in \<open>wait-routines.h\<close>.\<close>

fun wait_ncycles_exact :: "('d \<Rightarrow> (u32 \<times> 'd) res) \<Rightarrow> nat \<Rightarrow> u32 \<Rightarrow> u32 \<Rightarrow> 'd \<Rightarrow> (u32 \<times> 'd) res" where
  "wait_ncycles_exact cyc 0 s n d = Inl OutOfFuel"
| "wait_ncycles_exact cyc (Suc fuel) s n d =
     bnd (cyc d) (\<lambda>(c, d1). if n \<le> c - s then Inr (c, d1) else wait_ncycles_exact cyc fuel s n d1)"

record sw_uart_t =
  sw_tx :: u32
  sw_rx :: u32
  sw_baud :: u32
  cycle_per_bit :: u32
  usec_per_bit :: u32

text \<open>\<open>gpio_write(tx, v); wait_ncycles_exact(s, u); u += n;\<close> for each value of the list.\<close>

fun put_bits :: "'d bus \<Rightarrow> ('d \<Rightarrow> (u32 \<times> 'd) res) \<Rightarrow> nat \<Rightarrow> u32 \<Rightarrow> u32 \<Rightarrow> u32 \<Rightarrow> u32 \<Rightarrow> u32 list \<Rightarrow> 'd \<Rightarrow> 'd res" where
  "put_bits b cyc fuel tx s n u [] d = Inr d"
| "put_bits b cyc fuel tx s n u (v # vs) d =
     bnd (gpio_write b tx v d) (\<lambda>d1.
     bnd (wait_ncycles_exact cyc fuel s u d1) (\<lambda>(_, d2).
     put_bits b cyc fuel tx s n (u + n) vs d2))"

definition sw_uart_put8 :: "'d bus \<Rightarrow> ('d \<Rightarrow> (u32 \<times> 'd) res) \<Rightarrow> nat \<Rightarrow> sw_uart_t \<Rightarrow> u8 \<Rightarrow> 'd \<Rightarrow> 'd res" where
  "sw_uart_put8 b cyc fuel uart c d =
     (let tx = sw_tx uart; n = cycle_per_bit uart; u = n in
      bnd (cyc d) (\<lambda>(s, d1).
      put_bits b cyc fuel tx s n u
        ([0] @ map (\<lambda>i. drop_bit i (ucast c) AND 1) [0 ..< 8] @ [1]) d1))"

definition sw_uart_init_helper ::
    "'d bus \<Rightarrow> (u32 \<Rightarrow> 'd \<Rightarrow> 'd res) \<Rightarrow> u32 \<Rightarrow> u32 \<Rightarrow> u32 \<Rightarrow> u32 \<Rightarrow> u32 \<Rightarrow> 'd \<Rightarrow> (sw_uart_t \<times> 'd) res" where
  "sw_uart_init_helper b gpio_set_pullup tx rx baud cyc_per_bit us_per_bit d =
     bnd (check (tx \<noteq> 0 \<and> tx < 31) ''tx && tx<31'') (\<lambda>_.
     bnd (check (rx \<noteq> 0 \<and> rx < 31) ''rx && rx<31'') (\<lambda>_.
     bnd (check (cyc_per_bit \<noteq> 0 \<and> us_per_bit < cyc_per_bit) ''cyc_per_bit && cyc_per_bit > usec_per_bit'') (\<lambda>_.
     bnd (check (us_per_bit \<noteq> 0) ''usec_per_bit'') (\<lambda>_.
     let mhz = 700 * 1000 * 1000; derived = cyc_per_bit * baud in
     if \<not> (mhz - baud \<le> derived \<and> derived \<le> mhz + baud) then Inl (Panic ''too much diff'')
     else
       bnd (seq [gpio_set_function b tx GPIO_FUNC_OUTPUT, gpio_write b tx 1,
                 gpio_set_function b rx GPIO_FUNC_INPUT, gpio_set_pullup rx] d) (\<lambda>d1.
       Inr (\<lparr>sw_tx = ucast (ucast tx :: u8), sw_rx = ucast (ucast rx :: u8), sw_baud = baud,
             cycle_per_bit = cyc_per_bit, usec_per_bit = us_per_bit\<rparr>, d1))))))"


subsection \<open>The initialisation on the simulator's registers\<close>

definition uart_ops :: "dop list" where
  "uart_ops =
     [Rmw AUX_ENB (\<lambda>x. x AND NOT 1), Bar,
      Rmw (fsel_addr tx_pin) (fsel_set tx_pin 2), Rmw (fsel_addr rx_pin) (fsel_set rx_pin 2), Bar,
      Rmw AUX_ENB (\<lambda>x. x OR 1), Bar,
      Rmw MU_CNTL (\<lambda>x. x AND NOT 3), Bar, Wr MU_IIR 6, Bar, Rmw MU_IER (\<lambda>x. x AND NOT 3), Bar,
      Wr MU_BAUD 270, Bar, Rmw MU_LCR (\<lambda>x. x OR 3), Bar, Rmw MU_CNTL (\<lambda>x. x OR 3), Bar]"

lemma uart_init_ops: "uart_init b = seq (map (run_dop b) uart_ops)"
proof -
  have "gpio_set_function b tx_pin GPIO_FUNC_ALT5 = rmw b (fsel_addr tx_pin) (fsel_set tx_pin 2)"
    "gpio_set_function b rx_pin GPIO_FUNC_ALT5 = rmw b (fsel_addr rx_pin) (fsel_set rx_pin 2)"
    by (simp_all add: gpio_set_function_rmw tx_pin_def rx_pin_def GPIO_FUNC_ALT5_def)
  then show ?thesis by (simp add: uart_init_def uart_ops_def)
qed

lemma mu_uart:
  "is_uart MU_IO" "is_uart MU_IER" "is_uart MU_IIR" "is_uart MU_LCR" "is_uart MU_LSR" "is_uart MU_CNTL"
  "is_uart MU_BAUD" "is_uart uart_cntrl" "MU_CNTL = uart_cntrl" "AUX_ENB = aux_periph"
  by (simp_all add: is_uart_def mu_addrs fk_addrs)

lemma fsel_tx: "fsel_addr tx_pin = fk_fsel1" and fsel_rx: "fsel_addr rx_pin = fk_fsel1"
  by (simp_all add: fsel_addr_def tx_pin_def rx_pin_def fk_addrs)

lemma mu_ne: "MU_IIR \<noteq> uart_cntrl" "MU_IER \<noteq> uart_cntrl" "MU_BAUD \<noteq> uart_cntrl" "MU_LCR \<noteq> uart_cntrl"
  "MU_LSR \<noteq> uart_cntrl" "MU_IO \<noteq> uart_cntrl"
  by (simp_all add: mu_addrs fk_addrs)

lemma and_not3: "((x :: u32) AND - 4) AND 3 = 0"
  by (simp add: and.assoc)

lemma or3_and3: "((x :: u32) OR 3) AND 3 = 3"
  by (simp add: bit.conj_disj_distrib2)

lemma uart_init_regs:
  assumes "fk_can s 70"
  shows "\<exists>s'. uart_init fake_bus s = Inr s' \<and> fk_regs s' = fold abs_dop uart_ops (fk_regs s) \<and> fk_can s' 10"
  unfolding uart_init_ops
proof (rule fk.dops_law)
  show "\<forall>a f. Rmw a f \<in> set uart_ops \<longrightarrow> fk_readable a"
    by (auto simp: uart_ops_def fk_readable_def mu_uart fsel_tx fsel_rx)
  show "dops_legal fk_legal uart_ops (fk_regs s) (unat (dev_barrier_cnt s))"
    by (simp add: uart_ops_def fk_legal_def mu_uart fsel_tx fsel_rx and_not3 or3_and3 mu_ne mu_ne [symmetric])
  show "fk_can s (sum_list (map (dop_cost fk_cost) uart_ops) + 10)"
    using assms by (simp add: uart_ops_def fk_cost_def mu_addrs fk_addrs fsel_addr_def tx_pin_def rx_pin_def fk_can_def)
qed

lemma uart_regs_facts:
  fixes r :: "u32 \<Rightarrow> u32"
  defines "r' \<equiv> fold abs_dop uart_ops r"
  shows "r' AUX_ENB = r AUX_ENB OR 1" and "r' MU_CNTL = r MU_CNTL OR 3" and "r' MU_IIR = 6"
    and "r' MU_IER = r MU_IER AND NOT 3" and "r' MU_BAUD = 270" and "r' MU_LCR = r MU_LCR OR 3"
    and "a \<notin> {AUX_ENB, MU_CNTL, MU_IIR, MU_IER, MU_BAUD, MU_LCR, fk_fsel1} \<Longrightarrow> r' a = r a"
    and "q < 54 \<Longrightarrow> pin_function r' q = (if q = tx_pin \<or> q = rx_pin then 2 else pin_function r q)"
proof -
  have ne: "AUX_ENB \<noteq> fk_fsel1" "MU_CNTL \<noteq> fk_fsel1" "MU_IIR \<noteq> fk_fsel1" "MU_IER \<noteq> fk_fsel1"
    "MU_BAUD \<noteq> fk_fsel1" "MU_LCR \<noteq> fk_fsel1" by (simp_all add: mu_addrs fk_addrs)
  have d: "distinct [MU_LCR, MU_BAUD, MU_IER, MU_IIR, MU_CNTL, AUX_ENB]" "distinct [AUX_ENB, MU_CNTL, MU_IIR, MU_IER, MU_BAUD, MU_LCR]"
    by (simp_all add: mu_addrs)
  have id: "x AND NOT 1 OR 1 = x OR 1" "x AND NOT 3 OR 3 = x OR 3" for x :: u32
    by (simp_all add: bit.disj_conj_distrib2)
  show "r' AUX_ENB = r AUX_ENB OR 1" "r' MU_CNTL = r MU_CNTL OR 3" "r' MU_IIR = 6"
    "r' MU_IER = r MU_IER AND NOT 3" "r' MU_BAUD = 270" "r' MU_LCR = r MU_LCR OR 3"
    using ne d id by (simp_all add: r'_def uart_ops_def fsel_tx fsel_rx)
  show "a \<notin> {AUX_ENB, MU_CNTL, MU_IIR, MU_IER, MU_BAUD, MU_LCR, fk_fsel1} \<Longrightarrow> r' a = r a"
    by (simp add: r'_def uart_ops_def fsel_tx fsel_rx)
  show "pin_function r' q = (if q = tx_pin \<or> q = rx_pin then 2 else pin_function r q)" if q: "q < 54"
  proof -
    let ?r1 = "r(fsel_addr tx_pin := fsel_set tx_pin 2 (r (fsel_addr tx_pin)))"
    let ?r2 = "?r1(fsel_addr rx_pin := fsel_set rx_pin 2 (?r1 (fsel_addr rx_pin)))"
    have other: "fsel_addr q \<noteq> a" if "a \<in> {AUX_ENB, MU_CNTL, MU_IIR, MU_IER, MU_BAUD, MU_LCR}" for a
    proof
      assume "fsel_addr q = a"
      then have "4 * (q div 10) \<in> {0x15004, 0x15060, 0x15048, 0x15044, 0x15068, 0x1504c :: u32}"
        using that by (auto simp: fsel_addr_def mu_addrs GPIO_BASE_def eq_diff_eq algebra_simps)
      moreover have "unat (4 * (q div 10)) \<le> 20"
        using q by (simp add: unat_word_ariths unat_div_distrib word_less_nat_alt)
      ultimately show False by (auto dest: arg_cong [of _ _ unat])
    qed
    have "r' (fsel_addr q) = ?r2 (fsel_addr q)"
      using other ne by (auto simp: r'_def uart_ops_def fsel_tx fsel_rx)
    then have "pin_function r' q = pin_function ?r2 q" by (simp add: pin_function_def)
    also have "\<dots> = (if q = rx_pin then 2 else pin_function ?r1 q)"
      by (rule pin_function_upd) (simp_all add: rx_pin_def q)
    also have "pin_function ?r1 q = (if q = tx_pin then 2 else pin_function r q)"
      by (rule pin_function_upd) (simp_all add: tx_pin_def q)
    finally show ?thesis by auto
  qed
qed


text \<open>\<open>uart_init\<close> run against the simulator configures the UART: 8 bits, 115200 baud (divisor 270),
  FIFOs cleared, interrupts off, transmitter and receiver on, pins 14 and 15 in ALT5, the UART enabled in the
  shared enable register with its other bits kept; the functions of the other pins and all other
  registers are not changed.\<close>
lemma uart_init_configures:
  assumes "fk_can s 70"
  shows "\<exists>s'. uart_init fake_bus s = Inr s' \<and>
    fk_regs s' AUX_ENB = fk_regs s AUX_ENB OR 1 \<and> fk_regs s' MU_CNTL = fk_regs s MU_CNTL OR 3 \<and>
    fk_regs s' MU_IIR = 6 \<and> fk_regs s' MU_IER = fk_regs s MU_IER AND NOT 3 \<and>
    fk_regs s' MU_BAUD = 270 \<and> fk_regs s' MU_LCR = fk_regs s MU_LCR OR 3 \<and>
    (\<forall>q < 54. pin_function (fk_regs s') q =
       (if q = 14 \<or> q = 15 then GPIO_FUNC_ALT5 else pin_function (fk_regs s) q)) \<and>
    (\<forall>a. a \<notin> {AUX_ENB, MU_CNTL, MU_IIR, MU_IER, MU_BAUD, MU_LCR, fsel_addr 14} \<longrightarrow> fk_regs s' a = fk_regs s a)"
proof -
  obtain s' where "uart_init fake_bus s = Inr s'" "fk_regs s' = fold abs_dop uart_ops (fk_regs s)"
    using uart_init_regs [OF assms] by auto
  moreover have "fsel_addr 14 = fk_fsel1" using fsel_tx by (simp add: tx_pin_def)
  ultimately show ?thesis
    using uart_regs_facts [where r = "fk_regs s"] by (auto simp: tx_pin_def rx_pin_def GPIO_FUNC_ALT5_def)
qed

lemma uart_init_configures_example:
  "\<exists>s'. uart_init fake_bus ex_fpi = Inr s' \<and> fk_regs s' MU_BAUD = 270"
proof -
  have "fk_can ex_fpi 70" using ex_fpi_can by (simp add: fk_can_def)
  from uart_init_configures [OF this] show ?thesis by auto
qed

subsection \<open>Waiting for the device\<close>

lemma wait_for_script:
  assumes "\<And>v s. f (IRd a v # s) = Inr (g v, s)" and "polled a (\<lambda>v. g v \<noteq> 0) vs" and "length vs \<le> fuel"
  shows "wait_for fuel f (map (IRd a) vs @ s) = Inr s"
  unfolding wait_for_def using assms by (intro poll_script [where ok = "\<lambda>v. g v \<noteq> 0"]) auto

lemma and_32: "(v :: u32) AND 32 = 0 \<longleftrightarrow> \<not> bit v 5"
  using and_exp_eq_0_iff_not_bit [of v 5] by simp

text \<open>C19: \<open>uart_put8\<close> writes exactly once, after the status register has shown space, the byte in the low
  bits of the data register, for any number of earlier polls.\<close>
theorem uart_put8_waits:
  assumes "polled MU_LSR (\<lambda>v. bit v 5) vs" and "length vs \<le> fuel"
  shows "uart_put8 script_bus fuel c
      (map (IRd MU_LSR) vs @ [IRd MU_IO x, IWr MU_IO ((x AND NOT 0xff) OR ucast c)] @ s) = Inr (1, s)"
proof -
  have "polled MU_LSR (\<lambda>v. v AND push_bit 5 1 \<noteq> 0) vs"
    using assms(1) by (simp add: polled_def and_32)
  then have "wait_for fuel (uart_can_put8 script_bus) (map (IRd MU_LSR) vs @ t) = Inr t" for t
    using assms(2) by (intro wait_for_script [where g = "\<lambda>v. v AND push_bit 5 1"]) (auto simp: uart_can_put8_def)
  then show ?thesis by (simp add: uart_put8_def Let_def)
qed

theorem uart_put8_waits_witness:
  "uart_put8 script_bus 4 65 [IRd MU_LSR 0, IRd MU_LSR 0x20, IRd MU_IO 0x1ff, IWr MU_IO 0x141] = Inr (1, [])"
  using uart_put8_waits [of "[0, 0x20]" 4 65 "0x1ff" "[]"] by (simp add: polled_def)

text \<open>\<open>uart_get8_async\<close> asks the wrong question: with space to send and nothing received it does not
  return -1 but waits for a byte, for as long as none comes.\<close>
lemma uart_get8_async_blocks:
  "uart_get8_async script_bus fuel (replicate (Suc fuel) (IRd MU_LSR 0x20) @ s) = Inl OutOfFuel"
proof -
  have "wait_for fuel (uart_can_get8 script_bus) (replicate fuel (IRd MU_LSR 0x20) @ t) = Inl OutOfFuel" for t
    by (induction fuel) (simp_all add: wait_for_def uart_can_get8_def)
  then show ?thesis by (simp add: uart_get8_async_def uart_has_data_def uart_can_put8_def uart_get8_def)
qed

subsection \<open>The waveform of the software UART\<close>

lemma wait_cycles_script:
  "polled ccnt (\<lambda>c. n \<le> c - s) cs \<Longrightarrow> length cs \<le> fuel \<Longrightarrow>
     wait_ncycles_exact (GET32 script_bus ccnt) fuel s n (map (IRd ccnt) cs @ r) = Inr (last cs, r)"
proof (induction cs arbitrary: fuel)
  case Nil
  then show ?case by (simp add: polled_def)
next
  case (Cons c cs)
  obtain m where m: "fuel = Suc m" using Cons.prems by (cases fuel) auto
  show ?case
  proof (cases "cs = []")
    case True
    then show ?thesis using Cons.prems by (simp add: m polled_def)
  next
    case False
    then have "\<not> n \<le> c - s" "polled ccnt (\<lambda>c. n \<le> c - s) cs" using Cons.prems by (auto simp: polled_def)
    then show ?thesis using Cons False by (simp add: m)
  qed
qed

text \<open>One bit on the line: a write, then reads of the counter.\<close>

definition line_bit :: "u32 \<Rightarrow> u32 \<Rightarrow> bool \<Rightarrow> u32 list \<Rightarrow> io list" where
  "line_bit ccnt tx v cs = IWr (if v then gpio_set0 else gpio_clr0) (push_bit (unat tx) 1) # map (IRd ccnt) cs"

lemma put_bits_script:
  assumes "tx < 32"
  shows "length css = length vs \<Longrightarrow>
    \<forall>i < length vs. polled ccnt (\<lambda>c. u + of_nat i * n \<le> c - s) (css ! i) \<and> length (css ! i) \<le> fuel \<Longrightarrow>
    put_bits script_bus (GET32 script_bus ccnt) fuel tx s n u vs
      (concat (map2 (\<lambda>v. line_bit ccnt tx (v \<noteq> 0)) vs css) @ r) = Inr r"
proof (induction vs arbitrary: css u)
  case (Cons v vs)
  obtain cs css' where css: "css = cs # css'" using Cons.prems(1) by (cases css) auto
  have tx: "tx mod 32 = tx"
    using assms by (simp add: word_unat_eq_iff unat_mod_distrib word_less_nat_alt)
  have w: "gpio_write script_bus tx v (line_bit ccnt tx (v \<noteq> 0) cs @ t) = Inr (map (IRd ccnt) cs @ t)" for t
    using assms by (auto simp: line_bit_def gpio_write_def gpio_set_on_def gpio_set_off_def tx)
  have first: "polled ccnt (\<lambda>c. u \<le> c - s) cs" "length cs \<le> fuel"
    using Cons.prems(2) [rule_format, of 0] by (simp_all add: css)
  have "put_bits script_bus (GET32 script_bus ccnt) fuel tx s n (u + n) vs
      (concat (map2 (\<lambda>v. line_bit ccnt tx (v \<noteq> 0)) vs css') @ r) = Inr r"
  proof (rule Cons.IH)
    show "length css' = length vs" using Cons.prems(1) css by simp
    show "\<forall>i < length vs. polled ccnt (\<lambda>c. u + n + of_nat i * n \<le> c - s) (css' ! i) \<and> length (css' ! i) \<le> fuel"
    proof (intro allI impI)
      fix i
      assume "i < length vs"
      then show "polled ccnt (\<lambda>c. u + n + of_nat i * n \<le> c - s) (css' ! i) \<and> length (css' ! i) \<le> fuel"
        using Cons.prems(2) [rule_format, of "Suc i"] by (simp add: css algebra_simps)
    qed
  qed
  then show ?case using w wait_cycles_script [OF first] by (simp add: css)
qed simp

text \<open>The ten bits of a frame: a start bit 0, the byte from its lowest bit, a stop bit 1.\<close>

definition frame :: "u8 \<Rightarrow> bool list" where
  "frame c = [False] @ map (bit c) [0 ..< 8] @ [True]"

text \<open>C21: \<open>sw_uart_put8\<close> drives the line with the frame of the byte; bit \<open>i\<close> ends when the cycle counter is
  \<open>(i + 1) * cycle_per_bit\<close> past the start, whatever the earlier waits overshot, also across a wrap-around
  of the counter.\<close>
theorem sw_uart_put8_frame:
  assumes "sw_tx u < 32" and "length css = 10"
    and "\<forall>i < 10. polled ccnt (\<lambda>t. of_nat (i + 1) * cycle_per_bit u \<le> t - s) (css ! i) \<and> length (css ! i) \<le> fuel"
  shows "sw_uart_put8 script_bus (GET32 script_bus ccnt) fuel u c
    (IRd ccnt s # concat (map2 (line_bit ccnt (sw_tx u)) (frame c) css) @ r) = Inr r"
proof -
  let ?vs = "[0] @ map (\<lambda>i. drop_bit i (ucast c) AND 1) [0 ..< 8] @ [1 :: u32]"
  have b: "drop_bit i (ucast c :: u32) AND 1 \<noteq> 0 \<longleftrightarrow> bit c i" if "i < 8" for i
    using that by (simp add: and_one_eq_bit0 bit_simps)
  have fr: "map (\<lambda>v. v \<noteq> 0) ?vs = frame c" using b by (auto simp: frame_def)
  have eq: "map2 (line_bit ccnt (sw_tx u)) (frame c) css = map2 (\<lambda>v. line_bit ccnt (sw_tx u) (v \<noteq> 0)) ?vs css"
    unfolding fr [symmetric] by (simp only: zip_map1 map_map comp_def case_prod_unfold fst_conv snd_conv fst_map_prod)
  have "put_bits script_bus (GET32 script_bus ccnt) fuel (sw_tx u) s (cycle_per_bit u) (cycle_per_bit u) ?vs
      (concat (map2 (\<lambda>v. line_bit ccnt (sw_tx u) (v \<noteq> 0)) ?vs css) @ r) = Inr r"
    using assms by (intro put_bits_script) (auto simp: algebra_simps)
  then show ?thesis unfolding eq by (simp add: sw_uart_put8_def Let_def del: upt_conv_Cons)
qed


lemma all_less_10:
  "(\<forall>i < 10. P i) \<longleftrightarrow> P 0 \<and> P 1 \<and> P 2 \<and> P 3 \<and> P 4 \<and> P 5 \<and> P 6 \<and> P 7 \<and> P 8 \<and> P (9 :: nat)"
  by (simp add: All_less_Suc numeral_eq_Suc conj_ac)

theorem sw_uart_put8_frame_witness:
  "sw_uart_put8 script_bus (GET32 script_bus 0) 2
    \<lparr>sw_tx = 20, sw_rx = 21, sw_baud = 7, cycle_per_bit = 100, usec_per_bit = 1\<rparr> 65
    (IRd 0 0 # concat (map2 (line_bit 0 20) (frame 65)
       [[100], [200], [300], [350, 400], [500], [600], [700], [800], [900], [1000]]) @ []) = Inr []"
proof -
  let ?u = "\<lparr>sw_tx = 20, sw_rx = 21, sw_baud = 7, cycle_per_bit = 100, usec_per_bit = 1\<rparr> :: sw_uart_t"
  let ?css = "[[100], [200], [300], [350, 400], [500], [600], [700], [800], [900], [1000]] :: u32 list list"
  have "\<forall>i < 10. polled 0 (\<lambda>t. of_nat (i + 1) * cycle_per_bit ?u \<le> t - 0) (?css ! i) \<and> length (?css ! i) \<le> 2"
    unfolding all_less_10 by (simp add: polled_def)
  from sw_uart_put8_frame [OF _ _ this, where c = 65 and r = "[]"] show ?thesis by simp
qed

end
