(* ===== verification/Timer.thy ===== *)
theory Timer
  imports Uart
begin

text \<open>
  Time and interrupts: the microsecond timer \<open>libpi/staff-src/timer.c\<close>, the overflow-free stopwatch
  \<open>libpi/include/timeout.h\<close>, the watchdog, the reboot, the interrupt set-up of
  \<open>libpi/staff-src/interrupts-c.c\<close>, the timer interrupt and its handlers of lab 5, the sampling profiler
  \<open>1-gprof/gprof.c\<close> and the system call handlers of \<open>2-syscall\<close>.
\<close>

subsection \<open>\<open>timer.c\<close>\<close>

definition TIMER_CLO :: u32 where "TIMER_CLO = 0x20003004"

definition timer_get_usec_raw :: "'d bus \<Rightarrow> 'd \<Rightarrow> (u32 \<times> 'd) res" where
  "timer_get_usec_raw b = GET32 b TIMER_CLO"

definition timer_get_usec :: "'d bus \<Rightarrow> 'd \<Rightarrow> (u32 \<times> 'd) res" where
  "timer_get_usec b d =
     bnd (dev_barrier b d) (\<lambda>d1.
     bnd (timer_get_usec_raw b d1) (\<lambda>(u, d2).
     bnd (dev_barrier b d2) (\<lambda>d3. Inr (u, d3))))"

definition delay_us :: "'d bus \<Rightarrow> nat \<Rightarrow> u32 \<Rightarrow> 'd \<Rightarrow> 'd res" where
  "delay_us b fuel us d =
     bnd (timer_get_usec b d) (\<lambda>(s, d1).
     poll fuel (\<lambda>d. bnd (timer_get_usec b d) (\<lambda>(e, d2). Inr (us \<le> e - s, d2))) d1)"

definition delay_ms :: "'d bus \<Rightarrow> nat \<Rightarrow> u32 \<Rightarrow> 'd \<Rightarrow> 'd res" where
  "delay_ms b fuel ms = delay_us b fuel (ms * 1000)"

definition delay_sec :: "'d bus \<Rightarrow> nat \<Rightarrow> u32 \<Rightarrow> 'd \<Rightarrow> 'd res" where
  "delay_sec b fuel sec = delay_ms b fuel (sec * 1000)"

subsection \<open>\<open>timeout.h\<close>\<close>

record timeout_t =
  time_last :: u32
  time_usecs :: u64

definition timeout_start :: "'d bus \<Rightarrow> 'd \<Rightarrow> (timeout_t \<times> 'd) res" where
  "timeout_start b d =
     bnd (timer_get_usec b d) (\<lambda>(u, d1). Inr (\<lparr>time_last = u, time_usecs = 0\<rparr>, d1))"

definition timeout_get_usec :: "'d bus \<Rightarrow> timeout_t \<Rightarrow> 'd \<Rightarrow> (u64 \<times> timeout_t \<times> 'd) res" where
  "timeout_get_usec b t d =
     bnd (timer_get_usec b d) (\<lambda>(now, d1).
     let t1 = t\<lparr>time_usecs := time_usecs t + ucast (now - time_last t)\<rparr>;
         t2 = t1\<lparr>time_last := now\<rparr> in
     Inr (time_usecs t2, t2, d1))"

definition timeout_usec :: "'d bus \<Rightarrow> timeout_t \<Rightarrow> u64 \<Rightarrow> 'd \<Rightarrow> (bool \<times> timeout_t \<times> 'd) res" where
  "timeout_usec b t max_usec d =
     bnd (timeout_get_usec b t d) (\<lambda>(u, t1, d1). Inr (max_usec \<le> u, t1, d1))"

definition timeout_msec :: "'d bus \<Rightarrow> timeout_t \<Rightarrow> u64 \<Rightarrow> 'd \<Rightarrow> (bool \<times> timeout_t \<times> 'd) res" where
  "timeout_msec b t max_msec = timeout_usec b t (max_msec * 1000)"

definition timeout_sec :: "'d bus \<Rightarrow> timeout_t \<Rightarrow> u64 \<Rightarrow> 'd \<Rightarrow> (bool \<times> timeout_t \<times> 'd) res" where
  "timeout_sec b t max_sec = timeout_msec b t (max_sec * 1000)"

subsection \<open>\<open>watchdog.c\<close>\<close>

definition PM_RSTC :: u32 where "PM_RSTC = 0x2010001c"
definition PM_RSTS :: u32 where "PM_RSTS = 0x20100020"
definition PM_WDOG :: u32 where "PM_WDOG = 0x20100024"
definition PM_PASSWORD :: u32 where "PM_PASSWORD = 0x5a000000"
definition PM_RSTC_WRCFG_FULL_RESET :: u32 where "PM_RSTC_WRCFG_FULL_RESET = 0x20"
definition PM_RSTC_RESET :: u32 where "PM_RSTC_RESET = 0x102"
definition PM_RSTS_RASPBERRYPI_HALT :: u32 where "PM_RSTS_RASPBERRYPI_HALT = 0x555"

lemmas pm_consts = PM_RSTC_def PM_RSTS_def PM_WDOG_def PM_PASSWORD_def PM_RSTC_WRCFG_FULL_RESET_def
  PM_RSTC_RESET_def PM_RSTS_RASPBERRYPI_HALT_def

text \<open>The state is \<open>heartbeat\<close> and the device.\<close>

definition watchdog_start_ticks :: "'d bus \<Rightarrow> u32 \<Rightarrow> u32 \<times> 'd \<Rightarrow> (u32 \<times> 'd) res" where
  "watchdog_start_ticks b ticks = (\<lambda>(_, d).
     let heartbeat = ticks in
     bnd (seq [PUT32 b PM_WDOG (PM_PASSWORD OR (0xffffff AND heartbeat)),
               PUT32 b PM_RSTC (PM_PASSWORD OR PM_RSTC_WRCFG_FULL_RESET)] d) (\<lambda>d1.
     Inr (heartbeat, d1)))"

definition watchdog_start_us :: "'d bus \<Rightarrow> u32 \<Rightarrow> u32 \<times> 'd \<Rightarrow> (u32 \<times> 'd) res" where
  "watchdog_start_us b us = watchdog_start_ticks b (us div 16)"

definition watchdog_start_ms :: "'d bus \<Rightarrow> u32 \<Rightarrow> u32 \<times> 'd \<Rightarrow> (u32 \<times> 'd) res" where
  "watchdog_start_ms b ms = watchdog_start_us b (ms * 1000)"

definition watchdog_start_sec :: "'d bus \<Rightarrow> u32 \<Rightarrow> u32 \<times> 'd \<Rightarrow> (u32 \<times> 'd) res" where
  "watchdog_start_sec b sec = watchdog_start_ms b (sec * 1000)"

definition watchdog_is_running :: "'d bus \<Rightarrow> 'd \<Rightarrow> (u32 \<times> 'd) res" where
  "watchdog_is_running b d = bnd (GET32 b PM_RSTC d) (\<lambda>(v, d1). Inr (v AND PM_RSTC_WRCFG_FULL_RESET, d1))"

definition watchdog_stop :: "'d bus \<Rightarrow> 'd \<Rightarrow> 'd res" where
  "watchdog_stop b = PUT32 b PM_RSTC (PM_PASSWORD OR PM_RSTC_RESET)"

definition watchdog_resume :: "'d bus \<Rightarrow> 'd \<Rightarrow> 'd res" where
  "watchdog_resume b = PUT32 b PM_RSTC (PM_PASSWORD OR PM_RSTC_WRCFG_FULL_RESET)"

definition watchdog_get_time_left_ticks :: "'d bus \<Rightarrow> 'd \<Rightarrow> (u32 \<times> 'd) res" where
  "watchdog_get_time_left_ticks b d = bnd (GET32 b PM_WDOG d) (\<lambda>(v, d1). Inr (v AND 0xffffff, d1))"

definition watchdog_get_time_left_us :: "'d bus \<Rightarrow> 'd \<Rightarrow> (u32 \<times> 'd) res" where
  "watchdog_get_time_left_us b d = bnd (watchdog_get_time_left_ticks b d) (\<lambda>(v, d1). Inr (v * 16, d1))"

definition watchdog_get_time_left_ms :: "'d bus \<Rightarrow> 'd \<Rightarrow> (u32 \<times> 'd) res" where
  "watchdog_get_time_left_ms b d = bnd (watchdog_get_time_left_us b d) (\<lambda>(v, d1). Inr (v div 1000, d1))"

definition watchdog_get_time_left_sec :: "'d bus \<Rightarrow> 'd \<Rightarrow> (u32 \<times> 'd) res" where
  "watchdog_get_time_left_sec b d = bnd (watchdog_get_time_left_ms b d) (\<lambda>(v, d1). Inr (v div 1000, d1))"

definition watchdog_reboot :: "'d bus \<Rightarrow> u32 \<times> 'd \<Rightarrow> (u32 \<times> 'd) res" where
  "watchdog_reboot b = watchdog_start_ticks b 1"

definition watchdog_shutdown :: "'d bus \<Rightarrow> u32 \<times> 'd \<Rightarrow> (u32 \<times> 'd) res" where
  "watchdog_shutdown b = (\<lambda>(h, d).
     bnd (GET32 b (PM_RSTS OR PM_PASSWORD OR PM_RSTS_RASPBERRYPI_HALT) d) (\<lambda>(v, d1).
     bnd (PUT32 b PM_RSTS v d1) (\<lambda>d2. watchdog_reboot b (h, d2))))"

definition watchdog_feed :: "'d bus \<Rightarrow> u32 \<times> 'd \<Rightarrow> (u32 \<times> 'd) res" where
  "watchdog_feed b = (\<lambda>(h, d).
     bnd (check (h \<noteq> 0) ''heartbeat'') (\<lambda>_. watchdog_start_ticks b h (h, d)))"

subsection \<open>\<open>reboot.c\<close> and \<open>clean-reboot.c\<close>\<close>

text \<open>The state is the cpsr and the device; \<open>reboot_callout\<close> and \<open>putk\<close> are parameters.  The reboot
  itself is the spinning loop at the end.\<close>

definition user_level :: u32 where "user_level = 16"

definition at_user_level :: "u32 \<Rightarrow> bool" where
  "at_user_level cpsr \<longleftrightarrow> cpsr AND 31 = user_level"

definition set_user_level :: "u32 \<Rightarrow> u32" where
  "set_user_level cpsr = (cpsr AND NOT 31) OR user_level"

definition rpi_reboot_spin :: "'d bus \<Rightarrow> nat \<Rightarrow> ('d \<Rightarrow> 'd res) \<Rightarrow> u32 \<times> 'd \<Rightarrow> (u32 \<times> 'd) res" where
  "rpi_reboot_spin b fuel reboot_callout = (\<lambda>(cpsr, d).
     let cpsr1 = (if at_user_level cpsr then set_user_level cpsr else cpsr) in
     bnd (seq [reboot_callout, uart_flush_tx b fuel, delay_ms b fuel 10,
               PUT32 b PM_WDOG (PM_PASSWORD OR 1),
               PUT32 b PM_RSTC (PM_PASSWORD OR PM_RSTC_WRCFG_FULL_RESET)] d) (\<lambda>d1.
     Inr (cpsr1, d1)))"

definition rpi_reboot :: "'d bus \<Rightarrow> nat \<Rightarrow> ('d \<Rightarrow> 'd res) \<Rightarrow> u32 \<times> 'd \<Rightarrow> unit res" where
  "rpi_reboot b fuel reboot_callout s = bnd (rpi_reboot_spin b fuel reboot_callout s) (\<lambda>_. Inl Reboot)"

definition clean_reboot ::
    "'d bus \<Rightarrow> nat \<Rightarrow> (string \<Rightarrow> 'd \<Rightarrow> 'd res) \<Rightarrow> ('d \<Rightarrow> 'd res) \<Rightarrow> u32 \<times> 'd \<Rightarrow> unit res" where
  "clean_reboot b fuel putk reboot_callout = (\<lambda>(cpsr, d).
     bnd (seq [putk (''DONE!!!'' @ [CHR 0x0A]), uart_flush_tx b fuel, delay_ms b fuel 10] d) (\<lambda>d1.
     rpi_reboot b fuel reboot_callout (cpsr, d1)))"

subsection \<open>\<open>interrupts-c.c\<close>\<close>

definition IRQ_Base :: u32 where "IRQ_Base = 0x2000b200"
definition IRQ_basic_pending :: u32 where "IRQ_basic_pending = IRQ_Base + 0"
definition Enable_Basic_IRQs :: u32 where "Enable_Basic_IRQs = IRQ_Base + 0x18"
definition Disable_IRQs_1 :: u32 where "Disable_IRQs_1 = IRQ_Base + 0x1c"
definition Disable_IRQs_2 :: u32 where "Disable_IRQs_2 = IRQ_Base + 0x20"
definition RPI_BASIC_ARM_TIMER_IRQ :: u32 where "RPI_BASIC_ARM_TIMER_IRQ = 1"

definition bcm_set_interrupts_off :: "'d bus \<Rightarrow> 'd \<Rightarrow> 'd res" where
  "bcm_set_interrupts_off b = seq
     [dev_barrier b, PUT32 b Disable_IRQs_1 0xffffffff, PUT32 b Disable_IRQs_2 0xffffffff, dev_barrier b]"

text \<open>The state is the words of memory (by address) and the device.\<close>

fun copy_vec :: "nat \<Rightarrow> u32 \<Rightarrow> u32 \<Rightarrow> (u32 \<Rightarrow> u32) \<Rightarrow> (u32 \<Rightarrow> u32)" where
  "copy_vec 0 dst src m = m"
| "copy_vec (Suc n) dst src m = copy_vec n (dst + 4) (src + 4) (m(dst := m src))"

definition int_init_vec :: "'d bus \<Rightarrow> u32 \<Rightarrow> u32 \<Rightarrow> (u32 \<Rightarrow> u32) \<times> 'd \<Rightarrow> ((u32 \<Rightarrow> u32) \<times> 'd) res" where
  "int_init_vec b vec vec_end = (\<lambda>(m, d).
     bnd (seq [PUT32 b Disable_IRQs_1 0xffffffff, PUT32 b Disable_IRQs_2 0xffffffff, dev_barrier b] d) (\<lambda>d1.
     Inr (copy_vec (unat ((vec_end - vec) div 4)) 0 vec m, d1)))"

subsection \<open>The timer interrupt\<close>

definition arm_timer_Load :: u32 where "arm_timer_Load = 0x2000B400"
definition arm_timer_Control :: u32 where "arm_timer_Control = 0x2000B408"
definition arm_timer_IRQClear :: u32 where "arm_timer_IRQClear = 0x2000B40C"

definition timer_interrupt_init :: "'d bus \<Rightarrow> u32 \<Rightarrow> 'd \<Rightarrow> 'd res" where
  "timer_interrupt_init b ncycles = seq
     [PUT32 b Enable_Basic_IRQs RPI_BASIC_ARM_TIMER_IRQ,
      PUT32 b arm_timer_Load ncycles,
      PUT32 b arm_timer_Control
        (push_bit 1 1 OR push_bit 7 1 OR push_bit 5 1 OR push_bit 2 2)]"

record tstat =
  cnt :: u32
  period :: u32
  period_sum :: u32
  last_clk :: u32

text \<open>\<open>interrupt_vector\<close> of \<open>0-timer-int/timer.c\<close>.\<close>

definition interrupt_vector :: "'d bus \<Rightarrow> tstat \<times> 'd \<Rightarrow> (tstat \<times> 'd) res" where
  "interrupt_vector b = (\<lambda>(t, d).
     bnd (dev_barrier b d) (\<lambda>d1.
     bnd (GET32 b IRQ_basic_pending d1) (\<lambda>(pending, d2).
     if pending AND RPI_BASIC_ARM_TIMER_IRQ = 0 then Inr (t, d2)
     else
       bnd (PUT32 b arm_timer_IRQClear 1 d2) (\<lambda>d3.
       bnd (dev_barrier b d3) (\<lambda>d4.
       let t1 = t\<lparr>cnt := cnt t + 1\<rparr> in
       bnd (timer_get_usec b d4) (\<lambda>(clk, d5).
       let t2 = t1\<lparr>period := if last_clk t1 \<noteq> 0 then clk - last_clk t1 else 0\<rparr>;
           t3 = t2\<lparr>period_sum := period_sum t2 + period t2\<rparr>;
           t4 = t3\<lparr>last_clk := clk\<rparr> in
       Inr (t4, d5)))))))"

subsection \<open>\<open>gprof.c\<close>\<close>

text \<open>\<open>code_start\<close>, \<open>code_end\<close> come from the linker script, \<open>dump\<close> is the address of the function
  \<open>gprof_dump\<close> and \<open>dump_end\<close> the value of the external char \<open>gprof_dump_end\<close>, which the code reads.\<close>

record layout =
  code_start :: u32
  code_end :: u32
  dump :: u32
  dump_end :: u8

definition gprof_init :: "layout \<Rightarrow> u32 list" where
  "gprof_init L = replicate (unat ((code_end L - code_start L) div 4)) 0"

definition gprof_inc :: "layout \<Rightarrow> u32 \<Rightarrow> u32 list \<Rightarrow> u32 list res" where
  "gprof_inc L pc table =
     (if dump L \<le> pc \<and> pc < ucast (dump_end L) then Inr table
      else
        let index = unat ((pc - code_start L) div 4) in
        bnd (arr_get table index) (\<lambda>v. arr_set table index (v + 1)))"

text \<open>The lines \<open>gprof_dump\<close> prints: addresses and counts.\<close>

definition gprof_dump :: "layout \<Rightarrow> u32 \<Rightarrow> u32 list \<Rightarrow> (u32 \<times> u32) list" where
  "gprof_dump L min_val table =
     concat (map (\<lambda>i. if min_val < table ! i then [(code_start L + of_nat i * 4, table ! i)] else [])
       [0 ..< length table])"

definition gprof_interrupt :: "'d bus \<Rightarrow> layout \<Rightarrow> u32 \<Rightarrow> tstat \<times> u32 list \<times> 'd \<Rightarrow> (tstat \<times> u32 list \<times> 'd) res" where
  "gprof_interrupt b L pc = (\<lambda>(t, table, d).
     bnd (dev_barrier b d) (\<lambda>d1.
     bnd (GET32 b IRQ_basic_pending d1) (\<lambda>(pending, d2).
     if pending AND RPI_BASIC_ARM_TIMER_IRQ = 0 then Inr (t, table, d2)
     else
       bnd (PUT32 b arm_timer_IRQClear 1 d2) (\<lambda>d3.
       let t1 = t\<lparr>cnt := cnt t + 1\<rparr> in
       bnd (gprof_inc L pc table) (\<lambda>table1.
       bnd (timer_get_usec b d3) (\<lambda>(clk, d4).
       let t2 = t1\<lparr>period := if last_clk t1 \<noteq> 0 then clk - last_clk t1 else 0\<rparr>;
           t3 = t2\<lparr>last_clk := clk\<rparr> in
       Inr (t3, table1, d4)))))))"

subsection \<open>System calls\<close>

definition USER_MODE :: u32 where "USER_MODE = 16"

text \<open>\<open>syscall_vector\<close> of \<open>0-syscall.c\<close> and \<open>1-syscall.c\<close>: \<open>m\<close> reads a word of memory.\<close>

definition syscall_vector0 :: "'d bus \<Rightarrow> (u32 \<Rightarrow> u32) \<Rightarrow> u32 \<Rightarrow> 'd \<Rightarrow> (u32 \<times> 'd) res" where
  "syscall_vector0 b m pc d =
     (let inst = m pc; sys_num = inst AND NOT 0xff000000 in
      bnd (dev_barrier b d) (\<lambda>d1.
      if sys_num = 1 then Inr (0, d1) else Inr (- 1, d1)))"

definition syscall_vector1 :: "'d bus \<Rightarrow> (u32 \<Rightarrow> u32) \<Rightarrow> u32 \<Rightarrow> u32 \<Rightarrow> 'd \<Rightarrow> (u32 \<times> 'd) res" where
  "syscall_vector1 b m spsr pc d =
     (let mode = spsr AND 31; inst = m pc; sys_num = inst AND NOT 0xff000000 in
      bnd (dev_barrier b d) (\<lambda>d1.
      if mode \<noteq> USER_MODE then Inl (Panic ''mode'')
      else if sys_num = 1 then Inr (0, d1)
      else if sys_num = 2 then Inl Reboot
      else Inr (- 1, d1)))"


subsection \<open>Reading the clock\<close>

definition tread :: "u32 \<Rightarrow> io list" where
  "tread u = [IBar, IRd TIMER_CLO u, IBar]"

lemma timer_get_usec_script [simp]: "timer_get_usec script_bus (tread u @ s) = Inr (u, s)"
  by (simp add: timer_get_usec_def timer_get_usec_raw_def tread_def)

text \<open>A delay ends at the first reading that is \<open>us\<close> past its start, also across a wrap-around.\<close>

lemma delay_us_script:
  assumes "es \<noteq> []" and "us \<le> last es - s" and "\<forall>e \<in> set (butlast es). e - s < us" and "length es \<le> fuel"
  shows "delay_us script_bus fuel us (tread s @ concat (map tread es) @ r) = Inr r"
proof -
  have "poll fuel (\<lambda>d. bnd (timer_get_usec script_bus d) (\<lambda>(e, d2). Inr (us \<le> e - s, d2)))
      (concat (map tread es) @ r) = Inr r"
    using assms
  proof (induction es arbitrary: fuel)
    case (Cons e es)
    obtain n where n: "fuel = Suc n" using Cons.prems by (cases fuel) auto
    show ?case
    proof (cases "es = []")
      case True
      then show ?thesis using Cons.prems by (simp add: n)
    next
      case False
      then have "\<not> us \<le> e - s" using Cons.prems(3) by (simp add: not_le)
      then show ?thesis using Cons.IH [of n] Cons.prems False by (simp add: n)
    qed
  qed simp
  then show ?thesis by (simp add: delay_us_def)
qed

text \<open>\<open>n\<close> calls of \<open>timeout_get_usec\<close>.\<close>

fun timeout_polls :: "'d bus \<Rightarrow> nat \<Rightarrow> timeout_t \<Rightarrow> 'd \<Rightarrow> (timeout_t \<times> 'd) res" where
  "timeout_polls b 0 t d = Inr (t, d)"
| "timeout_polls b (Suc n) t d = bnd (timeout_get_usec b t d) (\<lambda>(_, t1, d1). timeout_polls b n t1 d1)"

text \<open>Times at which the clock is read, less than a wrap-around apart.\<close>

fun close_times :: "nat list \<Rightarrow> bool" where
  "close_times (x # y # zs) \<longleftrightarrow> x \<le> y \<and> y - x < 4294967296 \<and> close_times (y # zs)"
| "close_times _ \<longleftrightarrow> True"

lemma close_times_le: "close_times (x # xs) \<Longrightarrow> x \<le> last (x # xs)"
  by (induction "x # xs" arbitrary: x xs rule: close_times.induct) auto

lemma word_gap: "x \<le> y \<Longrightarrow> y - x < 4294967296 \<Longrightarrow> ucast (of_nat y - of_nat x :: u32) = (of_nat (y - x) :: u64)"
proof -
  assume a: "x \<le> y" "y - x < 4294967296"
  then have "(of_nat y - of_nat x :: u32) = of_nat (y - x)" by (simp add: of_nat_diff)
  moreover have "unat (of_nat (y - x) :: u32) = y - x" using a(2) by (simp add: unat_of_nat)
  ultimately show ?thesis by (metis of_nat_unat)
qed

lemma timeout_polls_script:
  "close_times (x # xs) \<Longrightarrow> time_last t = of_nat x \<Longrightarrow>
   timeout_polls script_bus (length xs) t (concat (map (\<lambda>T. tread (of_nat T)) xs) @ r) =
     Inr (\<lparr>time_last = of_nat (last (x # xs)), time_usecs = time_usecs t + of_nat (last (x # xs) - x)\<rparr>, r)"
proof (induction xs arbitrary: x t)
  case (Cons y ys)
  let ?t = "\<lparr>time_last = of_nat y, time_usecs = time_usecs t + of_nat (y - x)\<rparr> :: timeout_t"
  have c: "close_times (y # ys)" "x \<le> y" "y - x < 4294967296" using Cons.prems(1) by auto
  have one: "timeout_get_usec script_bus t (tread (of_nat y) @ s) = Inr (time_usecs ?t, ?t, s)" for s
    using Cons.prems(2) word_gap [OF c(2,3)] by (simp add: timeout_get_usec_def Let_def)
  have le: "y \<le> last (y # ys)" by (rule close_times_le [OF c(1)])
  then have "(of_nat (y - x) + of_nat (last (y # ys) - y) :: u64) = of_nat (last (y # ys) - x)"
    using c(2) by (simp flip: of_nat_add)
  then show ?case using one Cons.IH [of y ?t] c(1) by (simp add: add.assoc)
qed simp

text \<open>The stopwatch of \<open>timeout.h\<close> tells the true time: polled at the absolute times \<open>xs\<close> after a
  start at \<open>x\<close>, with less than \<open>2^32\<close> microseconds between polls, it reads the time since the start although the
  hardware counter wraps around every \<open>2^32\<close>.\<close>
lemma timeout_true_time:
  assumes "close_times (x # xs)" and "last (x # xs) - x < 2 ^ 64"
  shows "\<exists>t t'. timeout_start script_bus (concat (map (\<lambda>T. tread (of_nat T)) (x # xs)) @ r) =
      Inr (t, concat (map (\<lambda>T. tread (of_nat T)) xs) @ r) \<and>
    timeout_polls script_bus (length xs) t (concat (map (\<lambda>T. tread (of_nat T)) xs) @ r) = Inr (t', r) \<and>
    unat (time_usecs t') = last (x # xs) - x"
proof -
  let ?t = "\<lparr>time_last = of_nat x, time_usecs = 0\<rparr> :: timeout_t"
  have "timeout_start script_bus (tread (of_nat x) @ s) = Inr (?t, s)" for s
    by (simp add: timeout_start_def)
  moreover have "unat (of_nat (last (x # xs) - x) :: u64) = last (x # xs) - x"
    using assms(2) by (simp add: unat_of_nat)
  ultimately show ?thesis using timeout_polls_script [OF assms(1), of ?t r] by simp
qed

lemma timeout_true_time_example:
  "\<exists>t t'. timeout_start script_bus (concat (map (\<lambda>T. tread (of_nat T)) [1, 4294967290, 8589934580])) =
      Inr (t, concat (map (\<lambda>T. tread (of_nat T)) [4294967290, 8589934580])) \<and>
    timeout_polls script_bus (Suc (Suc 0)) t (concat (map (\<lambda>T. tread (of_nat T)) [4294967290, 8589934580])) = Inr (t', []) \<and>
    unat (time_usecs t') = 8589934579"
  using timeout_true_time [of 1 "[4294967290, 8589934580]" "[]"] by simp

subsection \<open>The timer interrupt counts\<close>

text \<open>An interrupt: the pending register and, when the timer's bit is set, the clock.\<close>

definition irq_script :: "u32 \<times> u32 \<Rightarrow> io list" where
  "irq_script = (\<lambda>(p, clk). [IBar, IRd IRQ_basic_pending p] @
     (if bit p 0 then [IWr arm_timer_IRQClear 1, IBar] @ tread clk else []))"

fun irqs :: "'d bus \<Rightarrow> nat \<Rightarrow> tstat \<times> 'd \<Rightarrow> (tstat \<times> 'd) res" where
  "irqs b 0 s = Inr s"
| "irqs b (Suc n) s = bnd (interrupt_vector b s) (irqs b n)"

definition timer_clks :: "(u32 \<times> u32) list \<Rightarrow> u32 list" where
  "timer_clks qs = map snd (filter (\<lambda>(p, _). bit p 0) qs)"

lemma interrupt_vector_script:
  "interrupt_vector script_bus (t, irq_script (p, clk) @ s) = Inr
     (if bit p 0 then
        let per = (if last_clk t \<noteq> 0 then clk - last_clk t else 0) in
        t\<lparr>cnt := cnt t + 1, period := per, period_sum := period_sum t + per, last_clk := clk\<rparr>
      else t, s)"
proof (cases "bit p 0")
  case True
  then have "p AND 1 \<noteq> 0" by (simp add: and_one_eq_bit0)
  then show ?thesis using True
    by (simp add: interrupt_vector_def irq_script_def RPI_BASIC_ARM_TIMER_IRQ_def Let_def)
next
  case False
  then have "p AND 1 = 0" by (simp add: and_one_eq_bit0)
  then show ?thesis using False by (simp add: interrupt_vector_def irq_script_def RPI_BASIC_ARM_TIMER_IRQ_def)
qed

lemma irqs_script:
  "0 \<notin> set (timer_clks qs) \<Longrightarrow> last_clk t \<noteq> 0 \<Longrightarrow>
   \<exists>t'. irqs script_bus (length qs) (t, concat (map irq_script qs) @ s) = Inr (t', s) \<and>
     cnt t' = cnt t + of_nat (length (timer_clks qs)) \<and>
     period_sum t' = period_sum t + (last (last_clk t # timer_clks qs) - last_clk t)"
proof (induction qs arbitrary: t)
  case Nil
  then show ?case by (simp add: timer_clks_def)
next
  case (Cons q qs)
  obtain p clk where q: "q = (p, clk)" by (cases q)
  show ?case
  proof (cases "bit p 0")
    case True
    let ?t = "t\<lparr>cnt := cnt t + 1, period := clk - last_clk t, period_sum := period_sum t + (clk - last_clk t),
               last_clk := clk\<rparr>"
    have tc: "timer_clks (q # qs) = clk # timer_clks qs" using True by (simp add: timer_clks_def q)
    have iv: "interrupt_vector script_bus (t, irq_script q @ r) = Inr (?t, r)" for r
      using True Cons.prems(2) by (simp add: q interrupt_vector_script Let_def)
    have "\<exists>t'. irqs script_bus (length qs) (?t, concat (map irq_script qs) @ s) = Inr (t', s) \<and>
       cnt t' = cnt ?t + of_nat (length (timer_clks qs)) \<and>
       period_sum t' = period_sum ?t + (last (clk # timer_clks qs) - clk)"
      using Cons.IH [of ?t] Cons.prems(1) tc by simp
    then show ?thesis using iv tc by (auto simp: algebra_simps)
  next
    case False
    have tc: "timer_clks (q # qs) = timer_clks qs" using False by (simp add: timer_clks_def q)
    have iv: "interrupt_vector script_bus (t, irq_script q @ r) = Inr (t, r)" for r
      using False by (simp add: q interrupt_vector_script)
    show ?thesis using Cons.IH [of t] Cons.prems tc iv by simp
  qed
qed

text \<open>After any sequence of interrupts from the start, with clock readings other than 0, the handler
  has counted the timer's interrupts, ignored the others, and \<open>period_sum\<close> is the time from the first to
  the last.\<close>
lemma interrupt_totals:
  assumes "0 \<notin> set (timer_clks qs)" and "timer_clks qs \<noteq> []"
  shows "\<exists>t'. irqs script_bus (length qs) (\<lparr>cnt = 0, period = 0, period_sum = 0, last_clk = 0\<rparr>, concat (map irq_script qs) @ s)
      = Inr (t', s) \<and> cnt t' = of_nat (length (timer_clks qs)) \<and>
      period_sum t' = last (timer_clks qs) - hd (timer_clks qs)"
  using assms
proof (induction qs)
  case Nil
  then show ?case by (simp add: timer_clks_def)
next
  case (Cons q qs)
  let ?z = "\<lparr>cnt = 0, period = 0, period_sum = 0, last_clk = 0\<rparr> :: tstat"
  obtain p clk where q: "q = (p, clk)" by (cases q)
  show ?case
  proof (cases "bit p 0")
    case True
    let ?t = "\<lparr>cnt = 1, period = 0, period_sum = 0, last_clk = clk\<rparr> :: tstat"
    have tc: "timer_clks (q # qs) = clk # timer_clks qs" using True by (simp add: timer_clks_def q)
    have "interrupt_vector script_bus (?z, irq_script q @ r) = Inr (?t, r)" for r
      using True interrupt_vector_script [of ?z p clk r] by (simp add: q Let_def)
    moreover have "\<exists>t'. irqs script_bus (length qs) (?t, concat (map irq_script qs) @ s) = Inr (t', s) \<and>
        cnt t' = cnt ?t + of_nat (length (timer_clks qs)) \<and>
        period_sum t' = period_sum ?t + (last (last_clk ?t # timer_clks qs) - last_clk ?t)"
      using Cons.prems(1) tc by (intro irqs_script) auto
    ultimately show ?thesis using tc by auto
  next
    case False
    have "timer_clks (q # qs) = timer_clks qs" using False by (simp add: timer_clks_def q)
    moreover have "interrupt_vector script_bus (?z, irq_script q @ r) = Inr (?z, r)" for r
      using False interrupt_vector_script [of ?z p clk r] by (simp add: q)
    ultimately show ?thesis using Cons by simp
  qed
qed

lemma interrupt_totals_example:
  "\<exists>t'. irqs script_bus (length [(1, 10), (256, 5), (257, 30 :: u32)])
      (\<lparr>cnt = 0, period = 0, period_sum = 0, last_clk = 0\<rparr>, concat (map irq_script [(1, 10), (256, 5), (257, 30)]) @ [])
      = Inr (t', []) \<and> cnt t' = 2 \<and> period_sum t' = 20"
proof -
  have "timer_clks [(1, 10), (256, 5), (257, 30)] = [10, 30]" by (simp add: timer_clks_def)
  then show ?thesis using interrupt_totals [of "[(1, 10), (256, 5), (257, 30)]" "[]"] by simp
qed

subsection \<open>The profiler\<close>

fun gprof_incs :: "layout \<Rightarrow> u32 list \<Rightarrow> u32 list \<Rightarrow> u32 list res" where
  "gprof_incs L [] table = Inr table"
| "gprof_incs L (pc # pcs) table = bnd (gprof_inc L pc table) (gprof_incs L pcs)"

definition in_code :: "layout \<Rightarrow> u32 \<Rightarrow> bool" where
  "in_code L pc \<longleftrightarrow> code_start L \<le> pc \<and> unat ((pc - code_start L) div 4) < unat ((code_end L - code_start L) div 4)"

definition slot :: "layout \<Rightarrow> u32 \<Rightarrow> nat" where
  "slot L pc = unat ((pc - code_start L) div 4)"

lemma dump_never:
  assumes "256 \<le> dump L"
  shows "\<not> (dump L \<le> pc \<and> pc < ucast (dump_end L))"
proof
  assume a: "dump L \<le> pc \<and> pc < ucast (dump_end L)"
  have l: "unat (dump_end L) < 256" using unsigned_less [where 'a = nat and w = "dump_end L"] by simp
  moreover have "unat (ucast (dump_end L) :: u32) = unat (dump_end L)"
    by (simp add: unsigned_ucast_eq take_bit_nat_eq_self_iff less_trans [OF l])
  ultimately have "unat pc < 256" using a less_trans [OF _ l, of "unat pc"] by (simp add: word_less_nat_alt)
  then show False using a assms by (simp add: word_le_nat_alt)
qed

text \<open>The profiler counts every sample of the code, for each instruction: \<open>gprof_inc\<close> means to leave out
  the samples in \<open>gprof_dump\<close>, but compares with the byte at its end, not with the end's address, and so
  leaves out none when the function lies above address 256.\<close>
lemma gprof_counts_all:
  assumes "256 \<le> dump L" and "\<forall>pc \<in> set pcs. in_code L pc"
  shows "gprof_incs L pcs (gprof_init L) =
    Inr (map (\<lambda>i. of_nat (length (filter (\<lambda>pc. slot L pc = i) pcs))) [0 ..< length (gprof_init L)])"
proof -
  have "gprof_incs L pcs table = Inr (map (\<lambda>i. table ! i + of_nat (length (filter (\<lambda>pc. slot L pc = i) pcs))) [0 ..< length table])"
    if "length table = length (gprof_init L)" for table
    using assms(2) that
  proof (induction pcs arbitrary: table)
    case Nil
    then show ?case by (simp add: map_nth flip: Nil.prems(2))
  next
    case (Cons pc pcs)
    have s: "slot L pc < length table" using Cons.prems by (simp add: in_code_def slot_def gprof_init_def)
    then have "gprof_inc L pc table = Inr (table[slot L pc := table ! slot L pc + 1])"
      by (simp only: gprof_inc_def dump_never [OF assms(1)] slot_def [symmetric] Let_def if_False arr_get_in bnd_Inr arr_set_in)
    then show ?case using s Cons.IH [of "table[slot L pc := table ! slot L pc + 1]"] Cons.prems
      by (auto simp: nth_list_update)
  qed
  from this [of "gprof_init L"] show ?thesis by (simp add: gprof_init_def cong: map_cong)
qed

lemma gprof_counts_all_example:
  "gprof_incs \<lparr>code_start = 0x8000, code_end = 0x8008, dump = 0x8004, dump_end = 0xff\<rparr> [0x8004, 0x8000, 0x8004]
     [0, 0] = Inr [1, 2]"
proof -
  let ?L = "\<lparr>code_start = 0x8000, code_end = 0x8008, dump = 0x8004, dump_end = 0xff\<rparr>"
  have i: "gprof_init ?L = [0, 0]" by (simp add: gprof_init_def) (simp add: numeral_2_eq_2)
  have "\<forall>pc \<in> set [0x8004, 0x8000, 0x8004]. in_code ?L pc" by (simp add: in_code_def)
  from gprof_counts_all [OF _ this] show ?thesis by (simp only: i) (simp add: slot_def)
qed

subsection \<open>The watchdog and the vector table\<close>

text \<open>The shutdown reads at the address that was meant to be its value, and writes back what it read.\<close>

lemma watchdog_shutdown_script:
  "watchdog_shutdown script_bus (h, [IRd 0x7a100575 v, IWr PM_RSTS v, IWr PM_WDOG 0x5a000001, IWr PM_RSTC 0x5a000020] @ s) =
     Inr (1, s)"
  by (simp add: watchdog_shutdown_def watchdog_reboot_def watchdog_start_ticks_def pm_consts Let_def)

text \<open>Feeding restarts the count of the last start; a watchdog that was never started fails the assertion.\<close>

lemma watchdog_feed_script:
  assumes "watchdog_start_ticks script_bus t (h, s1) = Inr (h1, s2)"
  shows "h1 = t" and "watchdog_feed script_bus (h1, d) =
    (if t = 0 then Inl (AssertFail ''heartbeat'') else watchdog_start_ticks script_bus t (h1, d))"
  using assms by (auto simp: watchdog_start_ticks_def watchdog_feed_def Let_def check_def res_simps)

lemma copy_vec_spec:
  "unat src + 4 * n < 4294967296 \<Longrightarrow> unat dst + 4 * n \<le> unat src \<Longrightarrow>
   copy_vec n dst src m a =
     (if \<exists>i < n. a = dst + 4 * of_nat i then m (src + (a - dst)) else m a)"
proof (induction n arbitrary: dst src m)
  case (Suc n)
  have u: "unat (dst + 4) = unat dst + 4" "unat (src + 4) = unat src + 4"
    using Suc.prems by (simp_all add: unat_word_ariths)
  have ih: "copy_vec n (dst + 4) (src + 4) (m(dst := m src)) a =
     (if \<exists>i < n. a = dst + 4 + 4 * of_nat i then (m(dst := m src)) (src + 4 + (a - (dst + 4)))
      else (m(dst := m src)) a)"
    using Suc.prems u by (intro Suc.IH) auto
  have ex: "(\<exists>i < Suc n. a = dst + 4 * of_nat i) \<longleftrightarrow> a = dst \<or> (\<exists>i < n. a = dst + 4 + 4 * of_nat i)"
    by (auto simp: Ex_less_Suc2 algebra_simps)
  have "src + (a - dst) \<noteq> dst" if "i < n" "a = dst + 4 + 4 * of_nat i" for i
  proof
    assume "src + (a - dst) = dst"
    then have "src + 4 + 4 * of_nat i = dst" using that by (simp add: algebra_simps)
    moreover have "unat (src + 4 + 4 * of_nat i) = unat src + 4 + 4 * i"
      using that Suc.prems by (simp add: unat_word_ariths unat_of_nat)
    ultimately show False using Suc.prems by simp
  qed
  then show ?case using ih ex by (auto simp: algebra_simps)
qed simp

end
