(* ===== verification/Bootloader.thy ===== *)
theory Bootloader
  imports Crc Printk
begin

text \<open>
  The bootloader of lab 7: the Pi's side \<open>2-pi-side/get-code.h\<close> and the laptop's side
  \<open>1-unix-side/put-code.c\<close> with \<open>put-get.c\<close>, each a program over the bytes it receives and sends, and
  their composition over a link that loses nothing.  (\<open>boot-crc32.h\<close> is the code of \<open>libc/crc.c\<close>.)
\<close>

definition ARMBASE :: u32 where "ARMBASE = 0x8000"
definition GET_PROG_INFO :: u32 where "GET_PROG_INFO = 0x11112222"
definition PUT_PROG_INFO :: u32 where "PUT_PROG_INFO = 0x33334444"
definition GET_CODE :: u32 where "GET_CODE = 0x55556666"
definition PUT_CODE :: u32 where "PUT_CODE = 0x77778888"
definition BOOT_SUCCESS :: u32 where "BOOT_SUCCESS = 0x9999AAAA"
definition BOOT_ERROR :: u32 where "BOOT_ERROR = 0xBBBBCCCC"
definition PRINT_STRING :: u32 where "PRINT_STRING = 0xDDDDEEEE"

lemmas boot_ops = GET_PROG_INFO_def PUT_PROG_INFO_def GET_CODE_def PUT_CODE_def BOOT_SUCCESS_def
  BOOT_ERROR_def PRINT_STRING_def

subsection \<open>The Pi\<close>

text \<open>The state: bytes to receive, bytes sent, what polling will see (data ready, the clock), memory.
  \<open>NoByte\<close> and \<open>NoEvent\<close>: the routine waits for ever.\<close>

datatype pev = HasData bool | Clock u32

datatype stop = NoByte | NoEvent | PiReboot | PiFault fault

record pi =
  prx :: "u8 list"
  ptx :: "u8 list"
  pevs :: "pev list"
  pmem :: mem

type_synonym 'a pm = "pi \<Rightarrow> (stop + 'a) \<times> pi"

definition retp :: "'a \<Rightarrow> 'a pm" where
  "retp x s = (Inr x, s)"

definition bndp :: "'a pm \<Rightarrow> ('a \<Rightarrow> 'b pm) \<Rightarrow> 'b pm" where
  "bndp m f s = (case m s of (Inl e, s1) \<Rightarrow> (Inl e, s1) | (Inr x, s1) \<Rightarrow> f x s1)"

definition boot_get8 :: "u8 pm" where
  "boot_get8 s = (case prx s of [] \<Rightarrow> (Inl NoByte, s) | b # r \<Rightarrow> (Inr b, s\<lparr>prx := r\<rparr>))"

definition boot_put8 :: "u8 \<Rightarrow> unit pm" where
  "boot_put8 b s = (Inr (), s\<lparr>ptx := ptx s @ [b]\<rparr>)"

definition boot_get32 :: "u32 pm" where
  "boot_get32 = bndp boot_get8 (\<lambda>b0. bndp boot_get8 (\<lambda>b1. bndp boot_get8 (\<lambda>b2. bndp boot_get8 (\<lambda>b3.
     retp (ucast b0 OR push_bit 8 (ucast b1) OR push_bit 16 (ucast b2) OR push_bit 24 (ucast b3))))))"

definition boot_put32 :: "u32 \<Rightarrow> unit pm" where
  "boot_put32 u = bndp (boot_put8 (ucast (drop_bit 0 u AND 0xff))) (\<lambda>_.
     bndp (boot_put8 (ucast (drop_bit 8 u AND 0xff))) (\<lambda>_.
     bndp (boot_put8 (ucast (drop_bit 16 u AND 0xff))) (\<lambda>_.
     boot_put8 (ucast (drop_bit 24 u AND 0xff)))))"

fun put_string :: "string \<Rightarrow> unit pm" where
  "put_string [] = retp ()"
| "put_string (c # cs) = bndp (boot_put8 (of_char c)) (\<lambda>_. put_string cs)"

definition boot_putk :: "string \<Rightarrow> unit pm" where
  "boot_putk msg = bndp (boot_put32 PRINT_STRING) (\<lambda>_.
     bndp (boot_put32 (of_nat (length msg))) (\<lambda>_. put_string msg))"

text \<open>Flushing the transmitter and the reboot end the run.\<close>

definition boot_err :: "u32 \<Rightarrow> string \<Rightarrow> 'a pm" where
  "boot_err error_opcode msg = bndp (boot_putk msg) (\<lambda>_. bndp (boot_put32 error_opcode) (\<lambda>_ s. (Inl PiReboot, s)))"

fun data_loop :: "u32 \<Rightarrow> u32 \<Rightarrow> pev list \<Rightarrow> (bool \<times> pev list) option" where
  "data_loop timeout start (HasData b # r) =
     (if b then Some (True, r)
      else case r of
        Clock now # r1 \<Rightarrow> if timeout \<le> now - start then Some (False, r1) else data_loop timeout start r1
      | _ \<Rightarrow> None)"
| "data_loop timeout start _ = None"

definition has_data_timeout :: "u32 \<Rightarrow> bool pm" where
  "has_data_timeout timeout s =
     (case pevs s of
        Clock start # r \<Rightarrow>
          (case data_loop timeout start r of
             Some (b, r1) \<Rightarrow> (Inr b, s\<lparr>pevs := r1\<rparr>)
           | None \<Rightarrow> (Inl NoEvent, s))
      | _ \<Rightarrow> (Inl NoEvent, s))"

text \<open>Every round takes at least one event.\<close>

fun wait_rounds :: "nat \<Rightarrow> u32 \<Rightarrow> unit pm" where
  "wait_rounds 0 usec_timeout s = (Inl NoEvent, s)"
| "wait_rounds (Suc n) usec_timeout s =
     bndp (boot_put32 GET_PROG_INFO) (\<lambda>_. bndp (has_data_timeout usec_timeout) (\<lambda>b.
       if b then retp () else wait_rounds n usec_timeout)) s"

definition wait_for_data :: "u32 \<Rightarrow> unit pm" where
  "wait_for_data usec_timeout s = wait_rounds (Suc (length (pevs s))) usec_timeout s"

text \<open>\<open>snprintk(buf, 100, ...)\<close> and then \<open>boot_putk(buf)\<close>.\<close>

definition say :: "string \<Rightarrow> fmt_arg list \<Rightarrow> unit pm" where
  "say fmt args s =
     (case bnd (format_string fmt args) (\<lambda>m. bnd (check (length m \<le> 100) ''buf_ptr < buf_end'') (\<lambda>_. Inr m)) of
        Inl e \<Rightarrow> (Inl (PiFault e), s)
      | Inr m \<Rightarrow> boot_putk m s)"

fun recv_code :: "nat \<Rightarrow> u32 \<Rightarrow> unit pm" where
  "recv_code 0 addr = retp ()"
| "recv_code (Suc n) addr = bndp boot_get8 (\<lambda>c.
     bndp (\<lambda>s. (Inr (), s\<lparr>pmem := (pmem s)(addr := c)\<rparr>)) (\<lambda>_. recv_code n (addr + 1)))"

definition code_crc :: "u32 \<Rightarrow> u32 \<Rightarrow> u32 pm" where
  "code_crc addr nbytes s = (Inr (our_crc32 (map (\<lambda>i. pmem s (addr + of_nat i)) [0 ..< unat nbytes])), s)"

definition get_code :: "u32 pm" where
  "get_code =
     bndp (wait_for_data (300 * 1000)) (\<lambda>_.
     bndp boot_get32 (\<lambda>put_prog_info.
     bndp boot_get32 (\<lambda>base_addr.
     bndp boot_get32 (\<lambda>nbytes.
     bndp boot_get32 (\<lambda>cksum.
     bndp (say (''Confirm PUT_PROG_INFO %x '' @ [CHR 0x0A]) [A32 put_prog_info]) (\<lambda>_.
     bndp (say (''Confirm ARMBASE %x '' @ [CHR 0x0A]) [A32 base_addr]) (\<lambda>_.
     bndp (say (''Confirm nbytes %d '' @ [CHR 0x0A]) [A32 nbytes]) (\<lambda>_.
     bndp (say (''Confirm cksum %d '' @ [CHR 0x0A]) [A32 cksum]) (\<lambda>_.
     bndp (if base_addr < 0x8000 \<or> 0x200000 \<le> base_addr + nbytes
           then boot_err BOOT_ERROR (''code collision detected '' @ [CHR 0x0A]) else retp ()) (\<lambda>_.
     bndp (boot_put32 GET_CODE) (\<lambda>_.
     bndp (boot_put32 cksum) (\<lambda>_.
     bndp boot_get32 (\<lambda>put_code.
     bndp (recv_code (unat nbytes) base_addr) (\<lambda>_.
     bndp (say (''Confirm PUT_CODE %x '' @ [CHR 0x0A]) [A32 put_code]) (\<lambda>_.
     bndp (code_crc base_addr nbytes) (\<lambda>crc32_recv.
     bndp (if crc32_recv \<noteq> cksum then
             bndp (say (''computed cksum %x : expected %x '' @ [CHR 0x0A]) [A32 crc32_recv, A32 cksum]) (\<lambda>_.
             boot_err BOOT_ERROR (''checksum of received code does not match'' @ [CHR 0x0A]))
           else retp ()) (\<lambda>_.
     bndp (boot_putk ''<ThariT with UART>: success: Received the program!'') (\<lambda>_.
     bndp (boot_put32 BOOT_SUCCESS) (\<lambda>_.
     retp base_addr)))))))))))))))))))"

subsection \<open>The laptop\<close>

text \<open>\<open>put-get.c\<close>: reads of the bytes that are left; \<open>die\<close> when the line is silent.\<close>

fun get_uint8 :: "u8 list \<Rightarrow> (u8 \<times> u8 list) res" where
  "get_uint8 [] = Inl (Panic ''read() returned 0 bytes'')"
| "get_uint8 (b # r) = Inr (b, r)"

definition get_uint32 :: "u8 list \<Rightarrow> (u32 \<times> u8 list) res" where
  "get_uint32 r =
     bnd (get_uint8 r) (\<lambda>(b0, r). bnd (get_uint8 r) (\<lambda>(b1, r). bnd (get_uint8 r) (\<lambda>(b2, r).
     bnd (get_uint8 r) (\<lambda>(b3, r).
     Inr (ucast b0 OR push_bit 8 (ucast b1) OR push_bit 16 (ucast b2) OR push_bit 24 (ucast b3), r)))))"

fun get_chars :: "nat \<Rightarrow> u8 list \<Rightarrow> u8 list res" where
  "get_chars 0 r = Inr r"
| "get_chars (Suc n) r = bnd (get_uint8 r) (\<lambda>(_, r1). get_chars n r1)"

lemma get_uint8_length: "get_uint8 r = Inr (b, r1) \<Longrightarrow> length r1 < length r"
  by (cases r) auto

lemma get_uint32_length: "get_uint32 r = Inr (u, r1) \<Longrightarrow> length r1 < length r"
  by (auto simp: get_uint32_def res_simps dest!: get_uint8_length)

lemma get_chars_length: "get_chars n r = Inr r1 \<Longrightarrow> length r1 \<le> length r"
  by (induction n r rule: get_chars.induct) (fastforce simp: res_simps dest: get_uint8_length)+

function get_op :: "u8 list \<Rightarrow> (u32 \<times> u8 list) res" where
  "get_op r =
     bnd (get_uint32 r) (\<lambda>(op, r1).
     if op \<noteq> PRINT_STRING then Inr (op, r1)
     else
       bnd (get_uint32 r1) (\<lambda>(nbytes, r2).
       bnd (check (nbytes < 512) ''pi sent a suspiciously long string'') (\<lambda>_.
       bnd (get_chars (unat (nbytes - 1)) r2) (\<lambda>r3.
       bnd (get_uint8 r3) (\<lambda>(c, r4). get_op r4)))))"
  by pat_completeness auto
termination
  by (relation "measure length") (auto dest!: get_uint32_length get_uint8_length get_chars_length)

declare get_op.simps [simp del]

lemma get_op_length: "get_op r = Inr (op, r1) \<Longrightarrow> length r1 < length r"
proof (induction r arbitrary: op r1 rule: get_op.induct)
  case (1 r)
  show ?case
    using 1 by (subst (asm) (2) get_op.simps)
      (fastforce simp: res_simps split: if_splits dest: get_uint32_length get_uint8_length get_chars_length)
qed


definition boot_check :: "u32 \<Rightarrow> u32 \<Rightarrow> unit res" where
  "boot_check exp got = (if exp = got then Inr () else Inl (Panic ''pi-boot failed''))"

function wait_start :: "u8 list \<Rightarrow> u8 list res" where
  "wait_start r =
     bnd (get_op r) (\<lambda>(op, r1).
     if op \<noteq> GET_PROG_INFO then bnd (get_uint8 r1) (\<lambda>(_, r2). wait_start r2) else Inr r1)"
  by pat_completeness auto
termination
  by (relation "measure length") (auto dest!: get_op_length get_uint8_length)

function drain_info :: "u8 list \<Rightarrow> (u32 \<times> u8 list) res" where
  "drain_info r =
     bnd (get_op r) (\<lambda>(op, r1). if op = GET_PROG_INFO then drain_info r1 else Inr (op, r1))"
  by pat_completeness auto
termination
  by (relation "measure length") (auto dest!: get_op_length)

function wait_success :: "u8 list \<Rightarrow> (u32 \<times> u8 list) res" where
  "wait_success r =
     bnd (get_op r) (\<lambda>(op, r1). if op \<noteq> BOOT_SUCCESS then wait_success r1 else Inr (op, r1))"
  by pat_completeness auto
termination
  by (relation "measure length") (auto dest!: get_op_length)

declare wait_start.simps [simp del] drain_info.simps [simp del] wait_success.simps [simp del]

text \<open>From the bytes the Pi sends to the bytes left over and the bytes sent.\<close>

definition put_uint32 :: "u32 \<Rightarrow> u8 list" where
  "put_uint32 u = le32 u"

definition simple_boot :: "u32 \<Rightarrow> u8 list \<Rightarrow> u8 list \<Rightarrow> (u8 list \<times> u8 list) res" where
  "simple_boot boot_addr buf rx =
     (let n = of_nat (length buf); crc32_sent = our_crc32 buf in
      bnd (wait_start rx) (\<lambda>r1.
      let tx1 = put_uint32 PUT_PROG_INFO @ put_uint32 boot_addr @ put_uint32 n @ put_uint32 crc32_sent in
      bnd (drain_info r1) (\<lambda>(op, r2).
      bnd (boot_check GET_CODE op) (\<lambda>_.
      bnd (get_uint32 r2) (\<lambda>(crc32_recv, r3).
      bnd (boot_check crc32_sent crc32_recv) (\<lambda>_.
      let tx2 = tx1 @ put_uint32 PUT_CODE @ buf in
      bnd (wait_success r3) (\<lambda>(op, r4).
      bnd (boot_check BOOT_SUCCESS op) (\<lambda>_. Inr (r4, tx2)))))))))"

subsection \<open>What the Pi's pieces send and take\<close>

lemma or4_of_le32:
  "ucast b0 OR push_bit 8 (ucast b1) OR push_bit 16 (ucast b2) OR push_bit 24 (ucast b3) = of_le32 b0 b1 b2 b3"
  by (simp add: of_le32_def)

lemma le32_cases: "\<exists>b0 b1 b2 b3. le32 u = [b0, b1, b2, b3] \<and> of_le32 b0 b1 b2 b3 = u"
  using of_le32_le32 [of u] by (auto simp: le32_def)

lemma get_uint32_le [simp]: "get_uint32 (le32 u @ r) = Inr (u, r)"
  using le32_cases [of u] by (auto simp: get_uint32_def or4_of_le32)

lemma bndp_Inr: "m s = (Inr x, s1) \<Longrightarrow> bndp m f s = f x s1"
  by (simp add: bndp_def)

lemma bndp_Inl: "m s = (Inl e, s1) \<Longrightarrow> bndp m f s = (Inl e, s1)"
  by (simp add: bndp_def)

lemma bndp_ret [simp]: "bndp (retp x) f = f x"
  by (rule ext) (simp add: bndp_def retp_def)

lemma boot_get32_le: "prx s = le32 u @ r \<Longrightarrow> boot_get32 s = (Inr u, s\<lparr>prx := r\<rparr>)"
  using le32_cases [of u] by (auto simp: boot_get32_def bndp_def boot_get8_def retp_def or4_of_le32)

lemma ucast_byte: "(ucast (x AND 0xff :: u32) :: u8) = ucast x"
proof -
  have m: "(0xff :: u32) = mask 8" by (simp add: mask_eq_exp_minus_1)
  show ?thesis unfolding m by (rule bit_word_eqI) (auto simp: bit_ucast_u32_u8 bit_simps)
qed

lemma boot_put32_le: "boot_put32 u s = (Inr (), s\<lparr>ptx := ptx s @ le32 u\<rparr>)"
  by (simp add: boot_put32_def bndp_def boot_put8_def le32_def ucast_byte)

lemma put_string_all: "put_string m s = (Inr (), s\<lparr>ptx := ptx s @ map of_char m\<rparr>)"
  by (induction m arbitrary: s) (simp_all add: retp_def bndp_def boot_put8_def)

text \<open>A message on the wire.\<close>

definition wire :: "string \<Rightarrow> u8 list" where
  "wire m = le32 PRINT_STRING @ le32 (of_nat (length m)) @ map of_char m"

lemma boot_putk_wire: "boot_putk m s = (Inr (), s\<lparr>ptx := ptx s @ wire m\<rparr>)"
  by (simp add: boot_putk_def bndp_def boot_put32_le put_string_all wire_def)

lemma say_wire:
  assumes "format_string fmt args = Inr m" and "length m \<le> 100"
  shows "say fmt args s = (Inr (), s\<lparr>ptx := ptx s @ wire m\<rparr>)"
  using assms by (simp add: say_def boot_putk_wire)

lemma wait_rounds_sends:
  "wait_rounds n t s = (Inr (), s1) \<Longrightarrow>
     \<exists>k evs. s1 = s\<lparr>ptx := ptx s @ concat (replicate (Suc k) (le32 GET_PROG_INFO)), pevs := evs\<rparr>"
proof (induction n arbitrary: s)
  case (Suc n)
  let ?s = "s\<lparr>ptx := ptx s @ le32 GET_PROG_INFO\<rparr>"
  obtain b evs where h: "has_data_timeout t ?s = (Inr b, ?s\<lparr>pevs := evs\<rparr>)"
    using Suc.prems
    by (cases "has_data_timeout t ?s")
       (auto simp: bndp_def boot_put32_le has_data_timeout_def split: list.splits pev.splits option.splits)
  show ?case
  proof (cases b)
    case True
    then have "s1 = ?s\<lparr>pevs := evs\<rparr>" using Suc.prems h by (simp add: bndp_def boot_put32_le retp_def)
    then show ?thesis by (intro exI [of _ 0] exI [of _ evs]) simp
  next
    case False
    then have "wait_rounds n t (?s\<lparr>pevs := evs\<rparr>) = (Inr (), s1)"
      using Suc.prems h by (simp add: bndp_def boot_put32_le)
    from Suc.IH [OF this] obtain k evs' where
      "s1 = s\<lparr>ptx := ptx s @ concat (replicate (Suc (Suc k)) (le32 GET_PROG_INFO)), pevs := evs'\<rparr>" by auto
    then show ?thesis by blast
  qed
qed simp

lemma recv_code_writes:
  "prx s = code @ r \<Longrightarrow> recv_code (length code) a s = (Inr (), s\<lparr>prx := r, pmem := wr (pmem s) a code\<rparr>)"
proof (induction code arbitrary: a s)
  case (Cons c cs)
  let ?s = "s\<lparr>prx := cs @ r, pmem := (pmem s)(a := c)\<rparr>"
  have "recv_code (length cs) (a + 1) ?s = (Inr (), ?s\<lparr>prx := r, pmem := wr (pmem ?s) (a + 1) cs\<rparr>)"
    by (rule Cons.IH) simp
  moreover have "recv_code (length (c # cs)) a s = recv_code (length cs) (a + 1) ?s"
    using Cons.prems by (simp add: bndp_def boot_get8_def)
  ultimately show ?case by simp
qed (simp add: retp_def)

subsection \<open>What the laptop takes\<close>

lemma get_chars_append: "get_chars (length xs) (xs @ r) = Inr r"
  by (induction xs) auto

lemma get_op_plain: "u \<noteq> PRINT_STRING \<Longrightarrow> get_op (le32 u @ r) = Inr (u, r)"
  by (subst get_op.simps) simp

lemma get_op_wire:
  assumes "m \<noteq> []" and "length m < 512"
  shows "get_op (wire m @ r) = get_op r"
proof -
  let ?n = "of_nat (length m) :: u32" and ?b = "map of_char m :: u8 list"
  have n: "?n < 512" using assms(2) by (simp add: word_less_nat_alt unat_of_nat)
  have "unat (?n - 1) = length m - 1"
    using assms by (cases m) (auto simp: unat_of_nat)
  then have "get_chars (unat (?n - 1)) (?b @ r) = Inr (last ?b # r)"
    using assms(1) get_chars_append [of "butlast ?b" "[last ?b] @ r"] append_butlast_last_id [of ?b]
    by (metis append.assoc append_Cons append_Nil length_butlast length_map map_is_Nil_conv)
  then show ?thesis by (subst get_op.simps) (simp add: wire_def n)
qed


subsection \<open>The run of the Pi\<close>

lemma hex_digits_length: "length (num_digits ''0123456789abcdef'' u) \<le> 32"
  and dec_digits_length: "length (num_digits ''0123456789'' u) \<le> 32"
  by (rule num_digits_length; simp)+

definition fits :: "string \<Rightarrow> fmt_arg list \<Rightarrow> string \<Rightarrow> bool" where
  "fits fmt args m \<longleftrightarrow> format_string fmt args = Inr m \<and> m \<noteq> [] \<and> length m \<le> 100"

lemma fits_messages:
  "\<exists>m. fits (''Confirm PUT_PROG_INFO %x '' @ [CHR 0x0A]) [A32 x] m"
  "\<exists>m. fits (''Confirm ARMBASE %x '' @ [CHR 0x0A]) [A32 x] m"
  "\<exists>m. fits (''Confirm nbytes %d '' @ [CHR 0x0A]) [A32 x] m"
  "\<exists>m. fits (''Confirm cksum %d '' @ [CHR 0x0A]) [A32 x] m"
  "\<exists>m. fits (''Confirm PUT_CODE %x '' @ [CHR 0x0A]) [A32 x] m"
  "\<exists>m. fits (''computed cksum %x : expected %x '' @ [CHR 0x0A]) [A32 x, A32 y] m"
  using hex_digits_length [of x] hex_digits_length [of y] dec_digits_length [of x] dec_digits_length [of "- x"]
  by (simp_all add: fits_def format_string_def sends_simps del: length_0_conv)

lemma say_fits: "fits fmt args m \<Longrightarrow> say fmt args s = (Inr (), s\<lparr>ptx := ptx s @ wire m\<rparr>)"
  by (simp add: fits_def say_wire)

lemma get32_lit:
  "boot_get32 \<lparr>prx = le32 u @ r, ptx = t, pevs = e, pmem = m\<rparr> = (Inr u, \<lparr>prx = r, ptx = t, pevs = e, pmem = m\<rparr>)"
  by (simp add: boot_get32_le)

lemma bnd_get32:
  "bndp boot_get32 f \<lparr>prx = le32 u @ r, ptx = t, pevs = e, pmem = m\<rparr> = f u \<lparr>prx = r, ptx = t, pevs = e, pmem = m\<rparr>"
  by (rule bndp_Inr, rule get32_lit)

lemma bnd_say: "fits fmt args m \<Longrightarrow> bndp (say fmt args) f s = f () (s\<lparr>ptx := ptx s @ wire m\<rparr>)"
  by (rule bndp_Inr, rule say_fits)

lemma bnd_put32: "bndp (boot_put32 u) f s = f () (s\<lparr>ptx := ptx s @ le32 u\<rparr>)"
  by (rule bndp_Inr, rule boot_put32_le)

lemma bnd_putk: "bndp (boot_putk m) f s = f () (s\<lparr>ptx := ptx s @ wire m\<rparr>)"
  by (rule bndp_Inr, rule boot_putk_wire)

lemma bnd_crc:
  "bndp (code_crc a n) f s = f (our_crc32 (map (\<lambda>i. pmem s (a + of_nat i)) [0 ..< unat n])) s"
  by (rule bndp_Inr) (simp add: code_crc_def)

lemma boot_err_run: "boot_err e msg s = (Inl PiReboot, s\<lparr>ptx := ptx s @ wire msg @ le32 e\<rparr>)"
  by (simp add: boot_err_def bnd_putk bnd_put32)

lemma recv_lit:
  "n = length code \<Longrightarrow> recv_code n a \<lparr>prx = code @ r, ptx = t, pevs = e, pmem = m\<rparr> =
     (Inr (), \<lparr>prx = r, ptx = t, pevs = e, pmem = wr m a code\<rparr>)"
  by (simp add: recv_code_writes [where code = code and r = r])

lemma bnd_recv:
  "n = length code \<Longrightarrow> bndp (recv_code n a) f \<lparr>prx = code @ r, ptx = t, pevs = e, pmem = m\<rparr> =
     f () \<lparr>prx = r, ptx = t, pevs = e, pmem = wr m a code\<rparr>"
  by (rule bndp_Inr, rule recv_lit)

lemma rd_wr_code:
  assumes "unat a + length code < 4294967296"
  shows "map (\<lambda>i. wr m a code (a + of_nat i)) [0 ..< length code] = code"
  using assms by (intro nth_equalityI) (simp_all add: wr_apply unat_plus_nat word_le_nat_alt)

text \<open>The Pi's conversation, from its own view.\<close>

lemma get_code_run:
  assumes n: "unat addr + length code < 2097152" and a: "0x8000 \<le> addr"
    and w: "wait_for_data 300000 \<lparr>prx = rx, ptx = [], pevs = evs, pmem = m\<rparr> = (Inr (), s1)"
    and rx: "rx = le32 PUT_PROG_INFO @ le32 addr @ le32 (of_nat (length code)) @ le32 ck @ le32 PUT_CODE @ sent"
    and len: "length sent = length code"
  obtains k evs' m1 m2 m3 m4 m5 where "\<forall>x \<in> {m1, m2, m3, m4, m5}. x \<noteq> [] \<and> length x \<le> 100"
    and "our_crc32 sent = ck \<Longrightarrow>
      get_code \<lparr>prx = rx, ptx = [], pevs = evs, pmem = m\<rparr> = (Inr addr, \<lparr>prx = [],
        ptx = concat (replicate (Suc k) (le32 GET_PROG_INFO)) @ wire m1 @ wire m2 @ wire m3 @ wire m4 @
          le32 GET_CODE @ le32 ck @ wire m5 @ wire ''<ThariT with UART>: success: Received the program!'' @
          le32 BOOT_SUCCESS, pevs = evs', pmem = wr m addr sent\<rparr>)"
    and "our_crc32 sent \<noteq> ck \<Longrightarrow> fst (get_code \<lparr>prx = rx, ptx = [], pevs = evs, pmem = m\<rparr>) = Inl PiReboot"
proof -
  let ?n = "of_nat (length code) :: u32"
  obtain k evs' where s1: "s1 = \<lparr>prx = rx, ptx = concat (replicate (Suc k) (le32 GET_PROG_INFO)), pevs = evs', pmem = m\<rparr>"
    using wait_rounds_sends [OF w [unfolded wait_for_data_def]] by auto
  obtain m1 m2 m3 m4 m5 m6 where fit:
    "fits (''Confirm PUT_PROG_INFO %x '' @ [CHR 0x0A]) [A32 PUT_PROG_INFO] m1"
    "fits (''Confirm ARMBASE %x '' @ [CHR 0x0A]) [A32 addr] m2"
    "fits (''Confirm nbytes %d '' @ [CHR 0x0A]) [A32 ?n] m3"
    "fits (''Confirm cksum %d '' @ [CHR 0x0A]) [A32 ck] m4"
    "fits (''Confirm PUT_CODE %x '' @ [CHR 0x0A]) [A32 PUT_CODE] m5"
    "fits (''computed cksum %x : expected %x '' @ [CHR 0x0A]) [A32 (our_crc32 sent), A32 ck] m6"
    using fits_messages by metis
  have un: "unat ?n = length code" using n by (simp add: unat_of_nat)
  have "unat (addr + ?n) = unat addr + length code" using n un unat_add_small [of addr ?n] by simp
  then have guard: "\<not> (addr < 0x8000 \<or> 0x200000 \<le> addr + ?n)"
    using a n by (auto simp: word_le_nat_alt word_less_nat_alt)
  have crc: "map (\<lambda>i. wr m addr sent (addr + of_nat i)) [0 ..< length sent] = sent"
    using n len by (intro rd_wr_code) simp
  have w': "bndp (wait_for_data 300000) f \<lparr>prx = rx, ptx = [], pevs = evs, pmem = m\<rparr> =
      f () \<lparr>prx = rx, ptx = concat (replicate (Suc k) (le32 GET_PROG_INFO)), pevs = evs', pmem = m\<rparr>"
    for f :: "unit \<Rightarrow> u32 pm"
    by (rule bndp_Inr) (use w s1 in simp)
  note w'' = w' [unfolded rx]
  note says = bnd_say [OF fit(1)] bnd_say [OF fit(2)] bnd_say [OF fit(3)] bnd_say [OF fit(4)] bnd_say [OF fit(5)]
    bnd_say [OF fit(6)]
  note says = says [simplified]
  note steps = bnd_get32 says bnd_put32 bnd_putk bnd_crc
  have recv: "bndp (recv_code (length code) addr) f \<lparr>prx = sent, ptx = t, pevs = e, pmem = m\<rparr> =
     f () \<lparr>prx = [], ptx = t, pevs = e, pmem = wr m addr sent\<rparr>" for f :: "unit \<Rightarrow> u32 pm" and t e m
    using bnd_recv [of "length code" sent addr f "[]"] len by simp
  show thesis
  proof (rule that [of m1 m2 m3 m4 m5 k evs'])
    show "\<forall>x \<in> {m1, m2, m3, m4, m5}. x \<noteq> [] \<and> length x \<le> 100" using fit by (auto simp: fits_def)
  next
    assume "our_crc32 sent = ck"
    then show "get_code \<lparr>prx = rx, ptx = [], pevs = evs, pmem = m\<rparr> = (Inr addr, \<lparr>prx = [],
        ptx = concat (replicate (Suc k) (le32 GET_PROG_INFO)) @ wire m1 @ wire m2 @ wire m3 @ wire m4 @
          le32 GET_CODE @ le32 ck @ wire m5 @ wire ''<ThariT with UART>: success: Received the program!'' @
          le32 BOOT_SUCCESS, pevs = evs', pmem = wr m addr sent\<rparr>)"
      using guard un crc
      by (simp add: get_code_def w'' rx steps recv len retp_def del: replicate_Suc)
  next
    assume "our_crc32 sent \<noteq> ck"
    then show "fst (get_code \<lparr>prx = rx, ptx = [], pevs = evs, pmem = m\<rparr>) = Inl PiReboot"
      using guard un crc
      by (simp add: get_code_def w'' rx steps recv len boot_err_run bndp_Inl del: replicate_Suc)
  qed
qed


subsection \<open>The run of the laptop, and both together\<close>

lemma drain_info_replicate: "drain_info (concat (replicate k (le32 GET_PROG_INFO)) @ r) = drain_info r"
proof (induction k)
  case (Suc k)
  then show ?case by (subst drain_info.simps) (simp add: get_op_plain boot_ops)
qed simp

lemma drain_info_wire: "m \<noteq> [] \<Longrightarrow> length m \<le> 100 \<Longrightarrow> drain_info (wire m @ r) = drain_info r"
  by (subst (1 2) drain_info.simps) (simp add: get_op_wire)

lemma wait_success_wire: "m \<noteq> [] \<Longrightarrow> length m \<le> 100 \<Longrightarrow> wait_success (wire m @ r) = wait_success r"
  by (subst (1 2) wait_success.simps) (simp add: get_op_wire)

lemma simple_boot_run:
  assumes "\<forall>x \<in> {m1, m2, m3, m4, m5}. x \<noteq> [] \<and> length x \<le> 100"
  shows "simple_boot addr code (concat (replicate (Suc k) (le32 GET_PROG_INFO)) @ wire m1 @ wire m2 @ wire m3 @ wire m4 @
      le32 GET_CODE @ le32 (our_crc32 code) @ wire m5 @
      wire ''<ThariT with UART>: success: Received the program!'' @ le32 BOOT_SUCCESS) =
    Inr ([], le32 PUT_PROG_INFO @ le32 addr @ le32 (of_nat (length code)) @ le32 (our_crc32 code) @ le32 PUT_CODE @ code)"
proof -
  have start: "wait_start (le32 GET_PROG_INFO @ r) = Inr r" for r
    by (subst wait_start.simps) (simp add: get_op_plain boot_ops)
  have code: "drain_info (le32 GET_CODE @ r) = Inr (GET_CODE, r)" for r
    by (subst drain_info.simps) (simp add: get_op_plain boot_ops)
  have succ: "wait_success (le32 BOOT_SUCCESS) = Inr (BOOT_SUCCESS, [])"
    using get_op_plain [of BOOT_SUCCESS "[]"] by (subst wait_success.simps) (simp add: boot_ops)
  show ?thesis
    using assms
    by (simp add: simple_boot_def start code succ drain_info_replicate drain_info_wire wait_success_wire boot_check_def
        put_uint32_def)
qed

text \<open>C4: Both ends of the boot protocol fit together: on a link that loses nothing, when the Pi receives what
  the laptop sends and the laptop what the Pi sends, \<open>simple_boot\<close> succeeds having taken every byte, and
  \<open>get_code\<close> returns the address with the code in memory from there on and no other byte changed.  The Pi
  may have asked any number of times before.\<close>
theorem boot_protocol_transfers:
  assumes "0x8000 \<le> addr" and "unat addr + length code < 0x200000"
    and "rx = le32 PUT_PROG_INFO @ le32 addr @ le32 (of_nat (length code)) @ le32 (our_crc32 code) @ le32 PUT_CODE @ code"
    and "wait_for_data 300000 \<lparr>prx = rx, ptx = [], pevs = evs, pmem = m\<rparr> = (Inr (), s1)"
  shows "\<exists>s2. get_code \<lparr>prx = rx, ptx = [], pevs = evs, pmem = m\<rparr> = (Inr addr, s2) \<and> prx s2 = [] \<and>
      simple_boot addr code (ptx s2) = Inr ([], rx) \<and>
      rd (pmem s2) addr (length code) = code \<and>
      (\<forall>p. unat p < unat addr \<or> unat addr + length code \<le> unat p \<longrightarrow> pmem s2 p = m p)"
proof -
  have n: "unat addr + length code < 2097152" using assms(2) by simp
  show ?thesis
  proof (rule get_code_run [OF n assms(1,4,3) refl], goal_cases)
    case (1 k evs' m1 m2 m3 m4 m5)
    have "rd (wr m addr code) addr (length code) = code" using n rd_wr_code [of addr code m] by (simp add: rd_def)
    moreover have "wr m addr code p = m p" if "unat p < unat addr \<or> unat addr + length code \<le> unat p" for p
      using that n by (auto simp: wr_apply)
    ultimately show ?thesis using 1(2) [OF refl] simple_boot_run [OF 1(1), of addr code k] assms(3) by auto
  qed
qed

theorem boot_protocol_transfers_witness:
  "\<exists>s2. get_code \<lparr>prx = le32 PUT_PROG_INFO @ le32 0x8000 @ le32 2 @ le32 (our_crc32 [1, 2]) @ le32 PUT_CODE @ [1, 2],
       ptx = [], pevs = [Clock 5, HasData False, Clock 300005, Clock 300006, HasData True], pmem = (\<lambda>_. 0)\<rparr> = (Inr 0x8000, s2) \<and>
     rd (pmem s2) 0x8000 (length [1, 2 :: u8]) = [1, 2]"
proof -
  let ?rx = "le32 PUT_PROG_INFO @ le32 0x8000 @ le32 (of_nat (length [1, 2 :: u8])) @ le32 (our_crc32 [1, 2]) @ le32 PUT_CODE @ [1, 2]"
  let ?s = "\<lparr>prx = ?rx, ptx = [], pevs = [Clock 5, HasData False, Clock 300005, Clock 300006, HasData True], pmem = \<lambda>_. 0\<rparr>"
  have "\<exists>s1. wait_for_data 300000 ?s = (Inr (), s1)"
    by (simp add: wait_for_data_def bndp_def boot_put32_le has_data_timeout_def retp_def)
  then obtain s1 where "wait_for_data 300000 ?s = (Inr (), s1)" by blast
  from boot_protocol_transfers [OF _ _ refl this] show ?thesis by auto
qed

text \<open>C29: A byte of the code that changes on the wire is never booted: \<open>get_code\<close> does not return but reboots
  with an error message.\<close>
theorem boot_corrupt_byte_rejected:
  assumes "0x8000 \<le> addr" and "unat addr + length code < 0x200000" and "i < length code" and "b \<noteq> code ! i"
    and "rx = le32 PUT_PROG_INFO @ le32 addr @ le32 (of_nat (length code)) @ le32 (our_crc32 code) @ le32 PUT_CODE @ code[i := b]"
    and "wait_for_data 300000 \<lparr>prx = rx, ptx = [], pevs = evs, pmem = m\<rparr> = (Inr (), s1)"
  shows "fst (get_code \<lparr>prx = rx, ptx = [], pevs = evs, pmem = m\<rparr>) = Inl PiReboot"
proof -
  have n: "unat addr + length code < 2097152" and len: "length (code[i := b]) = length code" using assms(2) by simp_all
  have ne: "our_crc32 (code[i := b]) \<noteq> our_crc32 code"
    using our_crc32_detects_byte [of "take i code" b "drop (Suc i) code" "code ! i"] assms(3,4)
    by (simp add: upd_conv_take_nth_drop flip: id_take_nth_drop)
  show ?thesis by (rule get_code_run [OF n assms(1,6,5) len]) (use ne in blast)
qed


theorem boot_corrupt_byte_rejected_witness:
  "fst (get_code \<lparr>prx = le32 PUT_PROG_INFO @ le32 0x8000 @ le32 2 @ le32 (our_crc32 [1, 2]) @ le32 PUT_CODE @ [1, 3],
       ptx = [], pevs = [Clock 5, HasData True], pmem = (\<lambda>_. 0)\<rparr>) = Inl PiReboot"
proof -
  let ?rx = "le32 PUT_PROG_INFO @ le32 0x8000 @ le32 (of_nat (length [1, 2 :: u8])) @ le32 (our_crc32 [1, 2]) @ le32 PUT_CODE @
    [1, 2 :: u8][1 := 3]"
  let ?s = "\<lparr>prx = ?rx, ptx = [], pevs = [Clock 5, HasData True], pmem = \<lambda>_. 0\<rparr>"
  have "\<exists>s1. wait_for_data 300000 ?s = (Inr (), s1)"
    by (simp add: wait_for_data_def bndp_def boot_put32_le has_data_timeout_def retp_def)
  then obtain s1 where w: "wait_for_data 300000 ?s = (Inr (), s1)" by blast
  have "fst (get_code ?s) = Inl PiReboot"
    by (rule boot_corrupt_byte_rejected [OF _ _ _ _ refl w]) simp_all
  then show ?thesis by simp
qed

end
