(* ===== verification/BitSupport.thy ===== *)
theory BitSupport
  imports Prelude
begin

text \<open>Bit fields of 32-bit words: \<open>libpi/libc/bit-support.h\<close> (\<open>libunix/bit-support.h\<close> is the same code).\<close>

definition bit_clr :: "u32 \<Rightarrow> u32 \<Rightarrow> u32 res" where
  "bit_clr x b = bnd (check (b < 32) ''bit<32'') (\<lambda>_. Inr (x AND NOT (push_bit (unat b) 1)))"

definition bit_set :: "u32 \<Rightarrow> u32 \<Rightarrow> u32 res" where
  "bit_set x b = bnd (check (b < 32) ''bit<32'') (\<lambda>_. Inr (x OR push_bit (unat b) 1))"

definition bit_not :: "u32 \<Rightarrow> u32 \<Rightarrow> u32 res" where
  "bit_not x b = bnd (check (b < 32) ''bit<32'') (\<lambda>_. Inr (x XOR push_bit (unat b) 1))"

definition bit_is_on :: "u32 \<Rightarrow> u32 \<Rightarrow> u32 res" where
  "bit_is_on x b = bnd (check (b < 32) ''bit<32'') (\<lambda>_. Inr (drop_bit (unat b) x AND 1))"

definition bit_is_off :: "u32 \<Rightarrow> u32 \<Rightarrow> u32 res" where
  "bit_is_off x b = bnd (bit_is_on x b) (\<lambda>v. Inr (if v = 0 then 1 else 0))"

definition bits_mask :: "u32 \<Rightarrow> u32 res" where
  "bits_mask nbits =
     (if nbits = 32 then Inr (NOT 0)
      else bnd (check (nbits < 32) ''nbits >= 0 && nbits<32'') (\<lambda>_. Inr (push_bit (unat nbits) 1 - 1)))"

definition bits_get :: "u32 \<Rightarrow> u32 \<Rightarrow> u32 \<Rightarrow> u32 res" where
  "bits_get x lb ub =
     bnd (check (lb \<le> ub) ''lb <= ub'') (\<lambda>_.
     bnd (check (ub < 32) ''ub < 32'') (\<lambda>_.
     bnd (bits_mask (ub - lb + 1)) (\<lambda>m. Inr (drop_bit (unat lb) x AND m))))"

definition bits_clr :: "u32 \<Rightarrow> u32 \<Rightarrow> u32 \<Rightarrow> u32 res" where
  "bits_clr x lb ub =
     bnd (check (lb \<le> ub) ''lb <= ub'') (\<lambda>_.
     bnd (check (ub < 32) ''ub < 32'') (\<lambda>_.
     bnd (bits_mask (ub - lb + 1)) (\<lambda>m. Inr (x AND NOT (push_bit (unat lb) m)))))"

definition bits_set :: "u32 \<Rightarrow> u32 \<Rightarrow> u32 \<Rightarrow> u32 \<Rightarrow> u32 res" where
  "bits_set x lb ub v =
     bnd (check (lb \<le> ub) ''lb <= ub'') (\<lambda>_.
     bnd (check (ub < 32) ''ub < 32'') (\<lambda>_.
     let n = ub - lb + 1 in
     bnd (check (n \<le> 32) ''n<=32'') (\<lambda>_.
     bnd (bits_mask n) (\<lambda>m.
     bnd (check (m AND v = v) ''(bits_mask(n) & v) == v'') (\<lambda>_.
     bnd (bits_clr x lb ub) (\<lambda>y. Inr (y OR push_bit (unat lb) v)))))))"

definition bits_eq :: "u32 \<Rightarrow> u32 \<Rightarrow> u32 \<Rightarrow> u32 \<Rightarrow> bool res" where
  "bits_eq x lb ub v =
     bnd (check (lb \<le> ub) ''lb <= ub'') (\<lambda>_.
     bnd (check (ub < 32) ''ub < 32'') (\<lambda>_.
     bnd (bits_get x lb ub) (\<lambda>w. Inr (w = v))))"

fun count_from :: "nat \<Rightarrow> u32 \<Rightarrow> u32 \<Rightarrow> u32 \<Rightarrow> u32 res" where
  "count_from 0 x i cnt = Inr cnt"
| "count_from (Suc n) x i cnt =
     bnd (bit_is_on x i) (\<lambda>v. count_from n x (i + 1) (if v \<noteq> 0 then cnt + 1 else cnt))"

definition bit_count :: "u32 \<Rightarrow> u32 res" where
  "bit_count x = count_from 32 x 0 0"

definition bits_union :: "u32 \<Rightarrow> u32 \<Rightarrow> u32" where "bits_union x y = x OR y"
definition bits_intersect :: "u32 \<Rightarrow> u32 \<Rightarrow> u32" where "bits_intersect x y = x AND y"
definition bits_not :: "u32 \<Rightarrow> u32" where "bits_not x = NOT x"
definition bits_diff :: "u32 \<Rightarrow> u32 \<Rightarrow> u32" where "bits_diff A B = bits_intersect A (bits_not B)"

subsection \<open>Fields\<close>

lemma bits_mask_eq:
  assumes "n \<le> 32"
  shows "bits_mask n = Inr (mask (unat n))"
proof (cases "n = 32")
  case True
  have "(NOT 0 :: u32) = mask 32" by (rule bit_word_eqI) (auto simp: bit_mask_iff bit_simps)
  then show ?thesis using True by (simp add: bits_mask_def)
next
  case False
  then have "n < 32" using assms by simp
  then show ?thesis using False by (simp add: bits_mask_def mask_eq_exp_minus_1 push_bit_eq_mult)
qed

text \<open>The width of \<open>lb..ub\<close>.\<close>

lemma width:
  assumes "(lb :: u32) \<le> ub" and "ub < 32"
  shows "ub - lb + 1 \<le> 32" and "unat (ub - lb + 1) = Suc (unat ub - unat lb)" and "unat ub < 32"
    and "unat lb \<le> unat ub"
proof -
  have u: "unat ub < 32" "unat lb \<le> unat ub" using assms by (auto simp: word_less_nat_alt word_le_nat_alt)
  have "unat (ub - lb) = unat ub - unat lb" using u by (simp add: unat_sub_if_size)
  then have w: "unat (ub - lb + 1) = Suc (unat ub - unat lb)" using u unat_add_small [of "ub - lb" 1] by simp
  then show "ub - lb + 1 \<le> 32" using u by (simp add: word_le_nat_alt)
  show "unat (ub - lb + 1) = Suc (unat ub - unat lb)" "unat ub < 32" "unat lb \<le> unat ub" using u w by auto
qed

lemma bits_get_ok:
  assumes "lb \<le> ub" and "ub < 32"
  shows "bits_get x lb ub = Inr (drop_bit (unat lb) x AND mask (Suc (unat ub - unat lb)))"
  using assms width [OF assms] by (simp add: bits_get_def bits_mask_eq)

lemma bits_clr_ok:
  assumes "lb \<le> ub" and "ub < 32"
  shows "bits_clr x lb ub = Inr (x AND NOT (push_bit (unat lb) (mask (Suc (unat ub - unat lb)))))"
  using assms width [OF assms] by (simp add: bits_clr_def bits_mask_eq)

lemma bits_set_ok:
  assumes "lb \<le> ub" and "ub < 32"
  shows "bits_set x lb ub v =
    (if mask (Suc (unat ub - unat lb)) AND v = v
     then Inr ((x AND NOT (push_bit (unat lb) (mask (Suc (unat ub - unat lb))))) OR push_bit (unat lb) v)
     else Inl (AssertFail ''(bits_mask(n) & v) == v''))"
  using assms width [OF assms] by (simp add: bits_set_def bits_mask_eq bits_clr_ok Let_def check_def)

lemma masked_bit: "mask n AND v = v \<Longrightarrow> bit (v :: u32) i \<Longrightarrow> i < n"
  by (metis bit_and_iff bit_mask_iff)

text \<open>Bit fields: after \<open>bits_set\<close> of a value that fits, \<open>bits_get\<close> of the field is the value and every
  bit outside is as before; putting back what \<open>bits_get\<close> read changes nothing; a value that does not fit
  fails the assertion.\<close>
lemma bits_set_get:
  assumes "lb \<le> ub" and "ub < 32"
  shows "(mask (Suc (unat ub - unat lb)) AND v = v \<longrightarrow>
      (\<exists>r. bits_set x lb ub v = Inr r \<and> bits_get r lb ub = Inr v \<and>
        (\<forall>i. i < unat lb \<or> unat ub < i \<longrightarrow> bit r i = bit x i))) \<and>
    (mask (Suc (unat ub - unat lb)) AND v \<noteq> v \<longrightarrow>
      bits_set x lb ub v = Inl (AssertFail ''(bits_mask(n) & v) == v'')) \<and>
    bnd (bits_get x lb ub) (bits_set x lb ub) = Inr x"
proof (intro conjI impI)
  let ?n = "Suc (unat ub - unat lb)"
  note w = width [OF assms]
  assume fit: "mask ?n AND v = v"
  let ?r = "(x AND NOT (push_bit (unat lb) (mask ?n))) OR push_bit (unat lb) v"
  have "bits_set x lb ub v = Inr ?r" using fit by (simp add: bits_set_ok [OF assms])
  moreover have "drop_bit (unat lb) ?r AND mask ?n = v"
  proof (rule bit_word_eqI)
    fix i :: nat
    assume "i < LENGTH(32)"
    show "bit (drop_bit (unat lb) ?r AND mask ?n) i = bit v i"
    proof (cases "i < ?n")
      case True
      then have "unat lb + i < 32" using w by linarith
      then show ?thesis using True by (auto simp: bit_simps simp del: mask_Suc_exp)
    next
      case False
      then have "\<not> bit v i" using masked_bit [OF fit] by blast
      then show ?thesis using False by (auto simp: bit_simps)
    qed
  qed
  moreover have "bit ?r i = bit x i" if "i < unat lb \<or> unat ub < i" for i
    using that w masked_bit [OF fit, of "i - unat lb"]
    by (cases "i < 32") (auto simp: bit_simps bit_u32_beyond simp del: mask_Suc_exp)
  ultimately show "\<exists>r. bits_set x lb ub v = Inr r \<and> bits_get r lb ub = Inr v \<and>
        (\<forall>i. i < unat lb \<or> unat ub < i \<longrightarrow> bit r i = bit x i)"
    by (auto simp: bits_get_ok [OF assms])
next
  assume "mask (Suc (unat ub - unat lb)) AND v \<noteq> v"
  then show "bits_set x lb ub v = Inl (AssertFail ''(bits_mask(n) & v) == v'')"
    by (simp add: bits_set_ok [OF assms])
next
  let ?n = "Suc (unat ub - unat lb)"
  note w = width [OF assms]
  have m: "mask ?n AND (drop_bit (unat lb) x AND mask ?n) = drop_bit (unat lb) x AND mask ?n"
    by (rule bit_word_eqI) (auto simp: bit_simps)
  have "(x AND NOT (push_bit (unat lb) (mask ?n))) OR push_bit (unat lb) (drop_bit (unat lb) x AND mask ?n) = x"
    by (rule bit_word_eqI) (auto simp: bit_simps)
  then show "bnd (bits_get x lb ub) (bits_set x lb ub) = Inr x"
    by (simp add: bits_get_ok [OF assms] bits_set_ok [OF assms] m)
qed

lemma bits_set_get_example:
  "\<exists>r. bits_set 0xffff 4 7 5 = Inr r \<and> bits_get r 4 7 = Inr 5"
proof -
  have "mask (Suc (unat (7 :: u32) - unat (4 :: u32))) AND 5 = (5 :: u32)" by (simp add: mask_eq_exp_minus_1)
  then show ?thesis using bits_set_get [of 4 7 5 "0xffff"] by auto
qed

end
