(* ===== verification/PageTable.thy ===== *)
theory PageTable
  imports BitSupport
begin

text \<open>
  One-level page tables of 1MB sections, lab 16: memory attributes (\<open>mem-attr.h\<close>), the process map
  (\<open>procmap.h\<close>), the ARMv6 first-level descriptor (\<open>armv6-vm.h\<close>) and \<open>pt-vm.c\<close> with the control
  routines of \<open>mmu.c\<close> and \<open>mmu-helpers.c\<close>.  Memory is a map from addresses of words to words.
  The coprocessor routines that exist only as object files are the record \<open>mmu_hw\<close>.
\<close>

type_synonym wmem = "u32 \<Rightarrow> u32"

subsection \<open>\<open>mem-attr.h\<close>\<close>

definition perm_rw_user :: u32 where "perm_rw_user = 3"
definition perm_ro_user :: u32 where "perm_ro_user = 2"
definition perm_ro_priv :: u32 where "perm_ro_priv = 5"
definition perm_rw_priv :: u32 where "perm_rw_priv = 1"
definition perm_na_priv :: u32 where "perm_na_priv = 0"

definition TEX_C_B :: "u32 \<Rightarrow> u32 \<Rightarrow> u32 \<Rightarrow> u32" where
  "TEX_C_B tex c b = push_bit 2 tex OR push_bit 1 c OR b"

definition MEM_device :: u32 where "MEM_device = TEX_C_B 0 0 0"
definition MEM_uncached :: u32 where "MEM_uncached = TEX_C_B 1 0 0"
definition MEM_wb_noalloc :: u32 where "MEM_wb_noalloc = TEX_C_B 0 1 1"
definition MEM_wt_noalloc :: u32 where "MEM_wt_noalloc = TEX_C_B 0 1 0"

definition DOM_client :: u32 where "DOM_client = 1"

record pin_t =
  pin_G :: u32
  pin_asid :: u32
  pin_dom :: u32
  pagesize :: u32
  AP_perm :: u32
  mem_attr :: u32

definition PAGE_4K :: u32 where "PAGE_4K = 1"
definition PAGE_64K :: u32 where "PAGE_64K = 2"
definition PAGE_1MB :: u32 where "PAGE_1MB = 3"
definition PAGE_16MB :: u32 where "PAGE_16MB = 0"

definition mem_perm_islegal :: "u32 \<Rightarrow> u32 res" where
  "mem_perm_islegal p =
     (if p \<in> {perm_rw_user, perm_ro_user, perm_ro_priv, perm_rw_priv, perm_na_priv} then Inr 1
      else Inl (Panic ''illegal permission''))"

definition pin_mk :: "u32 \<Rightarrow> u32 \<Rightarrow> u32 \<Rightarrow> u32 \<Rightarrow> u32 \<Rightarrow> pin_t res" where
  "pin_mk G dm asid perm attr =
     bnd (mem_perm_islegal perm) (\<lambda>ok.
     bnd (check (ok \<noteq> 0) ''invalid permission'') (\<lambda>_.
     bnd (check (dm \<le> 16) ''illegal domain id'') (\<lambda>_.
     bnd (if G \<noteq> 0 then check (asid = 0) ''should not have a non-zero asid''
          else bnd (check (asid \<noteq> 0) ''should have non-zero asid'') (\<lambda>_.
               check (0 < asid \<and> asid < 64) ''invalid asid'')) (\<lambda>_.
     Inr \<lparr>pin_G = G, pin_asid = asid, pin_dom = dm, pagesize = 3, AP_perm = perm, mem_attr = attr\<rparr>))))"

definition pin_mem_attr_set :: "pin_t \<Rightarrow> u32 \<Rightarrow> pin_t" where
  "pin_mem_attr_set e mem = e\<lparr>mem_attr := mem\<rparr>"

definition pin_16mb :: "pin_t \<Rightarrow> pin_t" where "pin_16mb p = p\<lparr>pagesize := PAGE_16MB\<rparr>"
definition pin_64k :: "pin_t \<Rightarrow> pin_t" where "pin_64k p = p\<lparr>pagesize := PAGE_64K\<rparr>"

definition pin_nbytes :: "pin_t \<Rightarrow> u32 res" where
  "pin_nbytes attr =
     (if pagesize attr = 1 then Inr (4 * 1024)
      else if pagesize attr = 2 then Inr (64 * 1024)
      else if pagesize attr = 3 then Inr (1024 * 1024)
      else if pagesize attr = 0 then Inr (16 * (1024 * 1024))
      else Inl (Panic ''invalid pagesize''))"

definition pin_aligned :: "u32 \<Rightarrow> pin_t \<Rightarrow> bool res" where
  "pin_aligned va attr = bnd (pin_nbytes attr) (\<lambda>n. Inr (va mod n = 0))"

definition pin_mk_device :: "u32 \<Rightarrow> pin_t res" where
  "pin_mk_device dm = pin_mk 1 dm 0 perm_rw_priv MEM_device"

definition pin_mk_global :: "u32 \<Rightarrow> u32 \<Rightarrow> u32 \<Rightarrow> pin_t res" where
  "pin_mk_global dm perm attr = pin_mk 1 dm 0 perm attr"

definition pin_mk_user :: "u32 \<Rightarrow> u32 \<Rightarrow> u32 \<Rightarrow> u32 \<Rightarrow> pin_t res" where
  "pin_mk_user dm asid perm attr = pin_mk 0 dm asid perm attr"

subsection \<open>\<open>procmap.h\<close>\<close>

datatype mem_type = MEM_DEVICE | MEM_RW | MEM_RO

record pr_ent =
  pr_addr :: u32
  pr_nbytes :: u32
  pr_type :: mem_type
  pr_dom :: u32

definition MB :: u32 where "MB = 1024 * 1024"

definition pr_ent_mk :: "u32 \<Rightarrow> u32 \<Rightarrow> mem_type \<Rightarrow> u32 \<Rightarrow> pr_ent res" where
  "pr_ent_mk addr nbytes type dm =
     bnd (check (nbytes = 1024 * 1024) ''only doing sections first'') (\<lambda>_.
     bnd (check (dm < 16) ''illegal domain'') (\<lambda>_.
     Inr \<lparr>pr_addr = addr, pr_nbytes = nbytes, pr_type = type, pr_dom = dm\<rparr>))"

text \<open>The \<open>n\<close> used entries of \<open>map\<close> are the list.\<close>

record procmap =
  dom_ids :: u32
  pmap :: "pr_ent list"

definition MAX_ENT :: nat where "MAX_ENT = 8"

definition procmap_push :: "procmap \<Rightarrow> pr_ent \<Rightarrow> procmap res" where
  "procmap_push p e =
     bnd (check (length (pmap p) < MAX_ENT) ''p->n < MAX_ENT'') (\<lambda>_.
     bnd (check (pr_dom e < 16) ''e.dom < 16'') (\<lambda>_.
     Inr (p\<lparr>dom_ids := dom_ids p OR push_bit (unat (pr_dom e)) 1, pmap := pmap p @ [e]\<rparr>)))"

fun dom_perm_loop :: "nat list \<Rightarrow> u32 \<Rightarrow> u32 \<Rightarrow> u32 \<Rightarrow> u32" where
  "dom_perm_loop [] doms perm msk = msk"
| "dom_perm_loop (i # is) doms perm msk =
     dom_perm_loop is doms perm (if doms AND push_bit i 1 \<noteq> 0 then msk OR push_bit (i * 2) perm else msk)"

definition dom_perm :: "u32 \<Rightarrow> u32 \<Rightarrow> u32 res" where
  "dom_perm doms perm =
     bnd (check (doms \<noteq> 0) ''doms'') (\<lambda>_.
     bnd (check (drop_bit 16 doms = 0) ''doms >> 16 == 0'') (\<lambda>_.
     bnd (check (perm \<le> 3) ''perm <= 0b11'') (\<lambda>_.
     Inr (dom_perm_loop [0 ..< 16] doms perm 0))))"

fun ent_lookup :: "pr_ent list \<Rightarrow> u32 \<Rightarrow> pr_ent option" where
  "ent_lookup [] addr = None"
| "ent_lookup (p # ps) addr =
     (if pr_addr p \<le> addr \<and> addr < pr_addr p + pr_nbytes p then Some p else ent_lookup ps addr)"

definition procmap_lookup :: "procmap \<Rightarrow> u32 \<Rightarrow> pr_ent option" where
  "procmap_lookup p addr = ent_lookup (pmap p) addr"

text \<open>\<open>prog_end\<close> is the linker's symbol, \<open>heap_start\<close> and \<open>heap_end\<close> the answers of the allocator.\<close>

definition push_mk :: "u32 \<Rightarrow> mem_type \<Rightarrow> u32 \<Rightarrow> procmap \<Rightarrow> procmap res" where
  "push_mk addr type dm p = bnd (pr_ent_mk addr MB type dm) (procmap_push p)"

definition procmap_default_mk :: "u32 \<Rightarrow> u32 \<Rightarrow> u32 \<Rightarrow> u32 \<Rightarrow> procmap res" where
  "procmap_default_mk prog_end heap_start heap_end dm =
     bnd (push_mk 0x20000000 MEM_DEVICE dm \<lparr>dom_ids = 0, pmap = []\<rparr>) (\<lambda>p.
     bnd (push_mk 0x20100000 MEM_DEVICE dm p) (\<lambda>p.
     bnd (push_mk 0x20200000 MEM_DEVICE dm p) (\<lambda>p.
     bnd (check (prog_end \<le> MB) ''__prog_end__ <= MB'') (\<lambda>_.
     bnd (push_mk 0 MEM_RW dm p) (\<lambda>p.
     let nbytes = heap_end - heap_start in
     if heap_start \<noteq> MB then Inl (Panic ''sanity check that heap starts at 1mb failed'')
     else if nbytes \<noteq> MB then Inl (Panic ''nbytes'')
     else
       bnd (push_mk 0x100000 MEM_RW dm p) (\<lambda>p.
       bnd (push_mk (INT_STACK_ADDR - MB) MEM_RW dm p) (\<lambda>p.
       push_mk (STACK_ADDR - MB) MEM_RW dm p)))))))"

subsection \<open>The first-level descriptor\<close>

text \<open>The bit field struct of \<open>armv6-vm.h\<close>; assigning a wider value truncates it.\<close>

record fld =
  tag :: "2 word"
  fB :: "1 word"
  fC :: "1 word"
  XN :: "1 word"
  domain :: "4 word"
  IMP :: "1 word"
  AP :: "2 word"
  TEX :: "3 word"
  APX :: "1 word"
  fS :: "1 word"
  nG :: "1 word"
  super :: "1 word"
  sbz1 :: "1 word"
  sec_base_addr :: "12 word"

text \<open>Its bits in memory and back.\<close>

definition fld_bits :: "fld \<Rightarrow> u32" where
  "fld_bits f =
     ucast (tag f) OR push_bit 2 (ucast (fB f)) OR push_bit 3 (ucast (fC f)) OR push_bit 4 (ucast (XN f)) OR
     push_bit 5 (ucast (domain f)) OR push_bit 9 (ucast (IMP f)) OR push_bit 10 (ucast (AP f)) OR
     push_bit 12 (ucast (TEX f)) OR push_bit 15 (ucast (APX f)) OR push_bit 16 (ucast (fS f)) OR
     push_bit 17 (ucast (nG f)) OR push_bit 18 (ucast (super f)) OR push_bit 19 (ucast (sbz1 f)) OR
     push_bit 20 (ucast (sec_base_addr f))"

definition fld_of :: "u32 \<Rightarrow> fld" where
  "fld_of w =
     \<lparr>tag = ucast w, fB = ucast (drop_bit 2 w), fC = ucast (drop_bit 3 w), XN = ucast (drop_bit 4 w),
      domain = ucast (drop_bit 5 w), IMP = ucast (drop_bit 9 w), AP = ucast (drop_bit 10 w),
      TEX = ucast (drop_bit 12 w), APX = ucast (drop_bit 15 w), fS = ucast (drop_bit 16 w),
      nG = ucast (drop_bit 17 w), super = ucast (drop_bit 18 w), sbz1 = ucast (drop_bit 19 w),
      sec_base_addr = ucast (drop_bit 20 w)\<rparr>"

definition fld_mk :: fld where
  "fld_mk = \<lparr>tag = 2, fB = 0, fC = 0, XN = 0, domain = 0, IMP = 0, AP = 0, TEX = 0, APX = 0, fS = 0,
     nG = 0, super = 0, sbz1 = 0, sec_base_addr = 0\<rparr>"

definition fld_check_valid :: "fld \<Rightarrow> unit res" where
  "fld_check_valid f =
     bnd (check (sbz1 f = 0) ''f->_sbz1 == 0'') (\<lambda>_.
     bnd (check (tag f = 2) ''f->tag == 0b10'') (\<lambda>_.
     bnd (check (fS f = 0) ''f->S == 0'') (\<lambda>_.
     bnd (check (IMP f = 0) ''f->IMP == 0'') (\<lambda>_.
     check (super f = 0) ''f->super == 0''))))"

text \<open>Printing a descriptor checks it.\<close>

definition vm_pte_print :: "bool \<Rightarrow> fld \<Rightarrow> unit res" where
  "vm_pte_print quiet_p pte = (if quiet_p then Inr () else fld_check_valid pte)"

subsection \<open>\<open>pt-vm.c\<close>\<close>

definition PT_LEVEL1_N :: u32 where "PT_LEVEL1_N = 4096"

fun zero_words :: "nat \<Rightarrow> u32 \<Rightarrow> wmem \<Rightarrow> wmem" where
  "zero_words 0 a m = m"
| "zero_words (Suc n) a m = zero_words n (a + 4) (m(a := 0))"

fun copy_words :: "nat \<Rightarrow> u32 \<Rightarrow> u32 \<Rightarrow> wmem \<Rightarrow> wmem" where
  "copy_words 0 d s m = m"
| "copy_words (Suc n) d s m = copy_words n (d + 4) (s + 4) (m(d := m s))"

text \<open>\<open>pt\<close> is the address that \<open>kmalloc_aligned(nbytes, 1 << 14)\<close> returns.\<close>

definition vm_pt_alloc :: "u32 \<Rightarrow> u32 \<Rightarrow> wmem \<Rightarrow> (u32 \<times> wmem) res" where
  "vm_pt_alloc pt n m =
     bnd (check (n = 4096) ''we only handling a fully-populated page table right now'') (\<lambda>_.
     let m1 = zero_words 4096 pt m in
     bnd (check (pt mod push_bit 14 1 = 0) ''must be 14-bit aligned!'') (\<lambda>_. Inr (pt, m1)))"

definition vm_dup :: "u32 \<Rightarrow> u32 \<Rightarrow> wmem \<Rightarrow> (u32 \<times> wmem) res" where
  "vm_dup new pt1 m =
     bnd (vm_pt_alloc new PT_LEVEL1_N m) (\<lambda>(pt2, m1). Inr (pt2, copy_words 4096 pt2 pt1 m1))"

text \<open>The descriptor \<open>vm_map_sec\<close> builds; the function returns a pointer to this local variable.\<close>

definition sec_fld :: "u32 \<Rightarrow> pin_t \<Rightarrow> fld res" where
  "sec_fld pa attr =
     bnd (bit_is_on (mem_attr attr) 0) (\<lambda>b.
     bnd (bit_is_on (mem_attr attr) 1) (\<lambda>c.
     bnd (bits_get (mem_attr attr) 2 4) (\<lambda>tex.
     Inr \<lparr>tag = 2, fB = ucast b, fC = ucast c, XN = 0, domain = ucast (pin_dom attr), IMP = 0,
          AP = ucast (AP_perm attr), TEX = ucast tex, APX = ucast (drop_bit 2 (AP_perm attr)), fS = 0,
          nG = (if pin_G attr = 0 then 1 else 0), super = 0, sbz1 = 0,
          sec_base_addr = ucast (drop_bit 20 pa)\<rparr>)))"

definition vm_map_sec :: "bool \<Rightarrow> u32 \<Rightarrow> u32 \<Rightarrow> u32 \<Rightarrow> pin_t \<Rightarrow> wmem \<Rightarrow> (fld \<times> wmem) res" where
  "vm_map_sec quiet_p pt va pa attr m =
     bnd (check (va mod MB = 0) ''aligned(va, OneMB)'') (\<lambda>_.
     bnd (check (pa mod MB = 0) ''aligned(pa, OneMB)'') (\<lambda>_.
     bnd (check (pagesize attr = PAGE_1MB) ''attr.pagesize == PAGE_1MB'') (\<lambda>_.
     let index = drop_bit 20 va in
     bnd (check (index < PT_LEVEL1_N) ''index < PT_LEVEL1_N'') (\<lambda>_.
     let ttbr = pt; fld_addr = ttbr OR push_bit 2 index in
     bnd (sec_fld pa attr) (\<lambda>fld.
     let m1 = m(fld_addr := fld_bits fld) in
     bnd (vm_pte_print quiet_p fld) (\<lambda>_. Inr (fld, m1)))))))"

text \<open>The address of the entry, \<open>None\<close> for the null pointer.\<close>

definition vm_lookup :: "u32 \<Rightarrow> u32 \<Rightarrow> wmem \<Rightarrow> u32 option" where
  "vm_lookup pt va m =
     (let pte_ptr = pt + 4 * drop_bit 20 va in if m pte_ptr \<noteq> 0 then Some pte_ptr else None)"

text \<open>The entry and the physical address; the entry is dereferenced before it is compared with null.\<close>

definition vm_xlate :: "u32 \<Rightarrow> u32 \<Rightarrow> wmem \<Rightarrow> (u32 \<times> u32) option res" where
  "vm_xlate pt va m =
     (case vm_lookup pt va m of
        None \<Rightarrow> Inl NullDeref
      | Some pte_addr \<Rightarrow>
          if m pte_addr \<noteq> 0 then
            let fld = fld_of (m pte_addr) in
            bnd (check (tag fld = 2) ''fld.tag == 0b10'') (\<lambda>_.
            Inr (Some (pte_addr, push_bit 20 (ucast (sec_base_addr fld)) OR (va AND 0xfffff))))
          else Inr None)"

definition attr_mk :: "pr_ent \<Rightarrow> pin_t res" where
  "attr_mk e =
     (case pr_type e of
        MEM_DEVICE \<Rightarrow> pin_mk_device (pr_dom e)
      | MEM_RW \<Rightarrow> pin_mk_global (pr_dom e) perm_rw_priv MEM_uncached
      | MEM_RO \<Rightarrow> Inl (Panic ''not handling''))"

subsection \<open>\<open>mmu.c\<close>\<close>

text \<open>Coprocessor access: the control register 1 (bit 0 enables the MMU, bit 2 the data cache), the domain
  register, and the routines of \<open>staff-mmu-asm.o\<close> and \<open>staff-mmu.o\<close>.\<close>

record 'h mmu_hw =
  ctrl_rd :: "'h \<Rightarrow> u32"
  ctrl_wr :: "u32 \<Rightarrow> 'h \<Rightarrow> 'h"
  staff_mmu_disable_set_asm :: "u32 \<Rightarrow> 'h \<Rightarrow> 'h"
  staff_mmu_enable_set_asm :: "u32 \<Rightarrow> 'h \<Rightarrow> 'h"
  staff_cp15_set_procid_ttbr0 :: "u32 \<Rightarrow> u32 \<Rightarrow> 'h \<Rightarrow> 'h"
  staff_mmu_init :: "'h \<Rightarrow> 'h"
  staff_domain_access_ctrl_get :: "'h \<Rightarrow> u32"
  staff_domain_access_ctrl_set :: "u32 \<Rightarrow> 'h \<Rightarrow> 'h"

definition mmu_is_enabled :: "'h mmu_hw \<Rightarrow> 'h \<Rightarrow> bool" where
  "mmu_is_enabled w h = bit (ctrl_rd w h) 0"

definition mmu_disable_set :: "'h mmu_hw \<Rightarrow> u32 \<Rightarrow> 'h \<Rightarrow> 'h res" where
  "mmu_disable_set w c h =
     bnd (check (\<not> bit c 0) ''!c.MMU_enabled'') (\<lambda>_.
     let cache_on_p = bit c 2; h1 = staff_mmu_disable_set_asm w c h in
     Inr (if cache_on_p then ctrl_wr w (c OR push_bit 2 1) h1 else h1))"

definition mmu_disable :: "'h mmu_hw \<Rightarrow> 'h \<Rightarrow> 'h res" where
  "mmu_disable w h =
     (let c = ctrl_rd w h in
      bnd (check (bit c 0) ''c.MMU_enabled'') (\<lambda>_. mmu_disable_set w (c AND NOT 1) h))"

definition mmu_enable_set :: "'h mmu_hw \<Rightarrow> u32 \<Rightarrow> 'h \<Rightarrow> 'h res" where
  "mmu_enable_set w c h =
     bnd (check (bit c 0) ''c.MMU_enabled'') (\<lambda>_. Inr (staff_mmu_enable_set_asm w c h))"

definition mmu_enable :: "'h mmu_hw \<Rightarrow> 'h \<Rightarrow> 'h res" where
  "mmu_enable w h =
     (let c = ctrl_rd w h in
      bnd (check (\<not> bit c 0) ''!c.MMU_enabled'') (\<lambda>_. mmu_enable_set w (c OR 1) h))"

definition set_procid_ttbr0 :: "'h mmu_hw \<Rightarrow> u32 \<Rightarrow> u32 \<Rightarrow> u32 \<Rightarrow> 'h \<Rightarrow> 'h res" where
  "set_procid_ttbr0 w pid asid pt h =
     bnd (check (drop_bit 24 pid = 0) ''(pid >> 24) == 0'') (\<lambda>_.
     bnd (check (64 < pid) ''pid > 64'') (\<lambda>_.
     bnd (check (asid < 64 \<and> asid \<noteq> 0) ''asid < 64 && asid'') (\<lambda>_.
     Inr (staff_cp15_set_procid_ttbr0 w (push_bit 8 pid OR asid) pt h))))"

definition mmu_set_ctx :: "'h mmu_hw \<Rightarrow> u32 \<Rightarrow> u32 \<Rightarrow> u32 \<Rightarrow> 'h \<Rightarrow> 'h res" where
  "mmu_set_ctx w pid asid pt h =
     bnd (check (asid \<noteq> 0) ''asid!=0'') (\<lambda>_.
     bnd (check (asid < 64) ''asid<64'') (\<lambda>_.
     bnd (check (64 < pid) ''pid>64'') (\<lambda>_. set_procid_ttbr0 w pid asid pt h)))"

definition domain_access_ctrl_set :: "'h mmu_hw \<Rightarrow> u32 \<Rightarrow> 'h \<Rightarrow> 'h res" where
  "domain_access_ctrl_set w r h =
     (let h1 = staff_domain_access_ctrl_set w r h in
      bnd (check (staff_domain_access_ctrl_get w h1 = r) ''domain_access_ctrl_get() == r'') (\<lambda>_. Inr h1))"

definition vm_mmu_enable :: "'h mmu_hw \<Rightarrow> 'h \<Rightarrow> 'h res" where
  "vm_mmu_enable w h =
     bnd (check (\<not> mmu_is_enabled w h) ''!mmu_is_enabled()'') (\<lambda>_.
     bnd (mmu_enable w h) (\<lambda>h1.
     bnd (check (mmu_is_enabled w h1) ''mmu_is_enabled()'') (\<lambda>_. Inr h1)))"

definition vm_mmu_disable :: "'h mmu_hw \<Rightarrow> 'h \<Rightarrow> 'h res" where
  "vm_mmu_disable w h =
     bnd (check (mmu_is_enabled w h) ''mmu_is_enabled()'') (\<lambda>_.
     bnd (mmu_disable w h) (\<lambda>h1.
     bnd (check (\<not> mmu_is_enabled w h1) ''!mmu_is_enabled()'') (\<lambda>_. Inr h1)))"

definition vm_mmu_switch :: "'h mmu_hw \<Rightarrow> u32 \<Rightarrow> u32 \<Rightarrow> u32 \<Rightarrow> 'h \<Rightarrow> 'h res" where
  "vm_mmu_switch w pt pid asid h =
     bnd (check (pt \<noteq> 0) ''pt'') (\<lambda>_. mmu_set_ctx w pid asid pt h)"

definition vm_mmu_init :: "'h mmu_hw \<Rightarrow> u32 \<Rightarrow> 'h \<Rightarrow> 'h res" where
  "vm_mmu_init w domain_reg h = domain_access_ctrl_set w domain_reg (staff_mmu_init w h)"

fun map_entries :: "bool \<Rightarrow> u32 \<Rightarrow> pr_ent list \<Rightarrow> wmem \<Rightarrow> wmem res" where
  "map_entries quiet_p pt [] m = Inr m"
| "map_entries quiet_p pt (e # es) m =
     bnd (check (pr_nbytes e = MB) ''nbytes'') (\<lambda>_.
     bnd (attr_mk e) (\<lambda>attr.
     bnd (vm_map_sec quiet_p pt (pr_addr e) (pr_addr e) attr m) (\<lambda>(_, m1).
     map_entries quiet_p pt es m1)))"

fun check_entries :: "u32 \<Rightarrow> pr_ent list \<Rightarrow> wmem \<Rightarrow> unit res" where
  "check_entries pt [] m = Inr ()"
| "check_entries pt (e # es) m =
     (case vm_lookup pt (pr_addr e) m of
        None \<Rightarrow> Inl (Panic ''vm_lookup fails'')
      | Some _ \<Rightarrow> check_entries pt es m)"

definition vm_map_kernel ::
    "'h mmu_hw \<Rightarrow> bool \<Rightarrow> u32 \<Rightarrow> procmap \<Rightarrow> bool \<Rightarrow> wmem \<times> 'h \<Rightarrow> (u32 \<times> wmem \<times> 'h) res" where
  "vm_map_kernel w quiet_p kmalloc_pt p enable_p = (\<lambda>(m, h).
     bnd (dom_perm (dom_ids p) DOM_client) (\<lambda>d.
     bnd (vm_mmu_init w d h) (\<lambda>h1.
     bnd (vm_pt_alloc kmalloc_pt 4096 m) (\<lambda>(pt, m1).
     bnd (map_entries quiet_p pt (pmap p) m1) (\<lambda>m2.
     bnd (check_entries pt (pmap p) m2) (\<lambda>_.
     bnd (if enable_p then bnd (vm_mmu_switch w pt 0x140e 1 h1) (vm_mmu_enable w) else Inr h1) (\<lambda>h2.
     bnd (check (pt \<noteq> 0) ''pt'') (\<lambda>_. Inr (pt, m2, h2)))))))))"


subsection \<open>The descriptor and its bits\<close>

lemma short_beyond [simp]:
  "2 \<le> i \<Longrightarrow> \<not> bit (a :: 2 word) i" "1 \<le> i \<Longrightarrow> \<not> bit (b :: 1 word) i" "4 \<le> i \<Longrightarrow> \<not> bit (c :: 4 word) i"
  "3 \<le> i \<Longrightarrow> \<not> bit (d :: 3 word) i" "12 \<le> i \<Longrightarrow> \<not> bit (e :: 12 word) i"
  by (auto dest!: bit_imp_le_length)

text \<open>Bit \<open>i\<close> of the descriptor belongs to the field whose range contains \<open>i\<close>.\<close>

lemma bit_fld_bits:
  assumes "i < 32"
  shows "bit (fld_bits f) i =
    (if i < 2 then bit (tag f) i else if i < 3 then bit (fB f) (i - 2) else if i < 4 then bit (fC f) (i - 3)
     else if i < 5 then bit (XN f) (i - 4) else if i < 9 then bit (domain f) (i - 5)
     else if i < 10 then bit (IMP f) (i - 9) else if i < 12 then bit (AP f) (i - 10)
     else if i < 15 then bit (TEX f) (i - 12) else if i < 16 then bit (APX f) (i - 15)
     else if i < 17 then bit (fS f) (i - 16) else if i < 18 then bit (nG f) (i - 17)
     else if i < 19 then bit (super f) (i - 18) else if i < 20 then bit (sbz1 f) (i - 19)
     else bit (sec_base_addr f) (i - 20))" (is "?P i")
proof -
  have "\<forall>i < 32. ?P i"
    unfolding all_less_32 by (intro conjI; simp add: fld_bits_def bit_simps)
  then show ?thesis using assms by blast
qed

lemma fld_of_bits: "fld_of (fld_bits f) = f"
proof -
  have "ucast (drop_bit 0 (fld_bits f)) = tag f" "ucast (drop_bit 2 (fld_bits f)) = fB f"
    "ucast (drop_bit 3 (fld_bits f)) = fC f" "ucast (drop_bit 4 (fld_bits f)) = XN f"
    "ucast (drop_bit 5 (fld_bits f)) = domain f" "ucast (drop_bit 9 (fld_bits f)) = IMP f"
    "ucast (drop_bit 10 (fld_bits f)) = AP f" "ucast (drop_bit 12 (fld_bits f)) = TEX f"
    "ucast (drop_bit 15 (fld_bits f)) = APX f" "ucast (drop_bit 16 (fld_bits f)) = fS f"
    "ucast (drop_bit 17 (fld_bits f)) = nG f" "ucast (drop_bit 18 (fld_bits f)) = super f"
    "ucast (drop_bit 19 (fld_bits f)) = sbz1 f" "ucast (drop_bit 20 (fld_bits f)) = sec_base_addr f"
    by (rule bit_word_eqI; simp add: bit_simps bit_fld_bits)+
  then show ?thesis by (simp add: fld_of_def)
qed

lemma fld_bits_of: "fld_bits (fld_of w) = w"
proof (rule bit_word_eqI)
  fix n :: nat
  assume n: "n < LENGTH(32)"
  have "\<forall>i < 32. bit (fld_bits (fld_of w)) i = bit w i"
    unfolding all_less_32 by (intro conjI; simp add: bit_fld_bits fld_of_def bit_simps)
  then show "bit (fld_bits (fld_of w)) n = bit w n" using n by simp
qed


subsection \<open>Domains\<close>

lemma bit_dom_perm_loop:
  "bit (dom_perm_loop is doms perm msk) n \<longleftrightarrow>
     bit msk n \<or> (\<exists>i \<in> set is. bit doms i \<and> bit (push_bit (2 * i) perm) n)"
  by (induction "is" arbitrary: msk) (auto simp: and_push1 bit_or_iff mult.commute simp del: push_bit_of_1)

lemma two_bits: "(p :: u32) \<le> 3 \<Longrightarrow> bit p n \<Longrightarrow> n < 2"
  by (rule u32_bound_bit [of p 2]) (auto simp: word_le_nat_alt)

lemma field_hit: "(p :: u32) \<le> 3 \<Longrightarrow> bit p (2 * i + n - 2 * j) \<Longrightarrow> 2 * j \<le> 2 * i + n \<Longrightarrow> n < 2 \<Longrightarrow> j = i"
  using two_bits [of p "2 * i + n - 2 * j"] by linarith

text \<open>The domain register: \<open>dom_perm\<close> gives each domain in use exactly the two permission bits asked for
  and every other domain no access; an empty set, a domain number above 15 or a permission wider than
  two bits fails its assertion.\<close>
theorem dom_perm_fields:
  "case dom_perm doms perm of
     Inr r \<Rightarrow> doms \<noteq> 0 \<and> doms < 2 ^ 16 \<and> perm \<le> 3 \<and>
       (\<forall>i < 16. take_bit 2 (drop_bit (2 * i) r) = (if bit doms i then perm else 0))
   | Inl _ \<Rightarrow> doms = 0 \<or> 2 ^ 16 \<le> doms \<or> 3 < perm"
proof -
  have lt: "drop_bit 16 doms = 0 \<longleftrightarrow> doms < 2 ^ 16"
    by (simp add: word_unat_eq_iff unat_drop_bit_eq drop_bit_eq_div word_less_nat_alt unat_div_distrib div_eq_0_iff)
  have f: "take_bit 2 (drop_bit (2 * i) (dom_perm_loop [0 ..< 16] doms perm 0)) = (if bit doms i then perm else 0)"
    if i: "i < 16" and p: "perm \<le> 3" for i
  proof (rule bit_word_eqI)
    fix n :: nat
    show "bit (take_bit 2 (drop_bit (2 * i) (dom_perm_loop [0 ..< 16] doms perm 0))) n =
        bit (if bit doms i then perm else 0) n"
      using i two_bits [OF p, of n] by (auto simp: bit_dom_perm_loop bit_simps)
        (metis field_hit [OF p] add_diff_cancel_left')+
  qed
  then show ?thesis by (auto simp: dom_perm_def check_def lt)
qed

theorem dom_perm_fields_witness: "\<exists>r. dom_perm 2 1 = Inr r \<and> take_bit 2 (drop_bit 2 r) = 1"
  using dom_perm_fields [of 2 1] by (cases "dom_perm 2 1") (auto dest: spec [of _ 1] simp: bit_simps)

subsection \<open>One section\<close>

lemma mod_MB_bit: "va mod MB = 0 \<Longrightarrow> bit va i \<Longrightarrow> 20 \<le> i"
proof -
  assume "va mod MB = 0" and b: "bit va i"
  then have "take_bit 20 va = 0" by (simp add: MB_def take_bit_eq_mod)
  then show ?thesis using b by (metis bit_0_eq bit_take_bit_iff bot_apply bot_bool_def not_le_imp_less)
qed

lemma bit_lt_MB: "(off :: u32) < MB \<Longrightarrow> bit off i \<Longrightarrow> i < 20"
  by (rule u32_bound_bit [of off 20]) (auto simp: MB_def word_less_nat_alt)

lemma disjoint_add: "(x :: u32) AND y = 0 \<Longrightarrow> x + y = x OR y"
  using word_plus_and_or [of x y] by simp

lemma sec_add:
  assumes "va mod MB = 0" and "off < MB"
  shows "va + off = va OR off" and "drop_bit 20 (va + off) = drop_bit 20 va" and "(va + off) AND 0xfffff = off"
proof -
  have d: "va AND off = 0"
    by (rule bit_word_eqI) (use mod_MB_bit [OF assms(1)] bit_lt_MB [OF assms(2)] in \<open>fastforce simp: bit_simps\<close>)
  then show o: "va + off = va OR off" by (simp add: disjoint_add)
  show "drop_bit 20 (va + off) = drop_bit 20 va"
    unfolding o by (rule bit_word_eqI) (use bit_lt_MB [OF assms(2)] in \<open>fastforce simp: bit_simps\<close>)
  have m: "(0xfffff :: u32) = mask 20" by (simp add: mask_eq_exp_minus_1)
  show "(va + off) AND 0xfffff = off"
    unfolding o m by (rule bit_word_eqI)
      (use mod_MB_bit [OF assms(1)] bit_lt_MB [OF assms(2)] in \<open>fastforce simp: bit_simps\<close>)
qed

lemma pt_entry_or:
  assumes "pt mod push_bit 14 1 = 0"
  shows "pt OR push_bit 2 (drop_bit 20 (va :: u32)) = pt + 4 * drop_bit 20 va"
proof -
  have "take_bit 14 pt = 0" using assms by (simp add: take_bit_eq_mod push_bit_eq_mult)
  then have lo: "bit pt i \<Longrightarrow> 14 \<le> i" for i
    by (metis bit_0_eq bit_take_bit_iff bot_apply bot_bool_def not_le_imp_less)
  have "pt AND push_bit 2 (drop_bit 20 va) = 0"
  proof (rule bit_word_eqI)
    fix n assume "n < LENGTH(32)"
    show "bit (pt AND push_bit 2 (drop_bit 20 va)) n = bit (0 :: u32) n"
      using lo [of n] bit_u32_beyond [of "18 + n" va] by (auto simp: bit_simps)
  qed
  then have "pt OR push_bit 2 (drop_bit 20 va) = pt + push_bit 2 (drop_bit 20 va)" by (simp add: disjoint_add)
  then show ?thesis by (simp add: push_bit_eq_mult mult.commute)
qed

lemma index_lt: "drop_bit 20 (va :: u32) < PT_LEVEL1_N"
proof -
  have "unat va div 1048576 < 4096"
    by (rule less_mult_imp_div_less) (rule less_le_trans [OF unat_u32_lt], simp)
  then show ?thesis by (simp add: PT_LEVEL1_N_def word_less_nat_alt drop_bit_eq_div unat_div_distrib)
qed

lemma entry_inj [simp]: "4 * drop_bit 20 va = 4 * drop_bit 20 vb \<longleftrightarrow> drop_bit 20 va = drop_bit 20 (vb :: u32)"
proof
  assume e: "4 * drop_bit 20 va = 4 * drop_bit 20 vb"
  have lt: "unat (drop_bit 20 x) < 4096" for x :: u32
    using index_lt [of x] by (simp add: PT_LEVEL1_N_def word_less_nat_alt)
  have "unat (4 * drop_bit 20 x) = 4 * unat (drop_bit 20 x)" for x :: u32
    using lt [of x] unat_mult_lem [of 4 "drop_bit 20 x"] by simp
  then show "drop_bit 20 va = drop_bit 20 vb" using e by (metis mult_cancel1 word_unat_eq_iff zero_neq_numeral)
qed simp

text \<open>Memory attributes are the five bits TEX:C:B and permissions the three bits APX:AP.\<close>

lemma sec_fld_ok:
  "sec_fld pa attr = Inr \<lparr>tag = 2, fB = ucast (mem_attr attr AND 1), fC = ucast (drop_bit 1 (mem_attr attr) AND 1),
     XN = 0, domain = ucast (pin_dom attr), IMP = 0, AP = ucast (AP_perm attr),
     TEX = ucast (drop_bit 2 (mem_attr attr) AND mask 3), APX = ucast (drop_bit 2 (AP_perm attr)), fS = 0,
     nG = (if pin_G attr = 0 then 1 else 0), super = 0, sbz1 = 0, sec_base_addr = ucast (drop_bit 20 pa)\<rparr>"
proof -
  have "bits_get (mem_attr attr) 2 4 = Inr (drop_bit 2 (mem_attr attr) AND mask 3)"
    by (simp add: bits_get_ok del: mask_Suc_exp)
  then show ?thesis by (simp add: sec_fld_def bit_is_on_def check_def)
qed

definition the_fld :: "u32 \<Rightarrow> pin_t \<Rightarrow> fld" where
  "the_fld pa attr = (case sec_fld pa attr of Inr f \<Rightarrow> f | Inl _ \<Rightarrow> fld_mk)"

lemma the_fld_simps:
  "sec_fld pa attr = Inr (the_fld pa attr)" "tag (the_fld pa attr) = 2" "fS (the_fld pa attr) = 0"
  "IMP (the_fld pa attr) = 0" "super (the_fld pa attr) = 0" "sbz1 (the_fld pa attr) = 0" "XN (the_fld pa attr) = 0"
  "sec_base_addr (the_fld pa attr) = ucast (drop_bit 20 pa)"
  "nG (the_fld pa attr) = (if pin_G attr = 0 then 1 else 0)"
  "domain (the_fld pa attr) = ucast (pin_dom attr)"
  by (simp_all add: the_fld_def sec_fld_ok)

lemma the_fld_perm: "AP_perm attr < 8 \<Longrightarrow> push_bit 2 (ucast (APX (the_fld pa attr))) OR ucast (AP (the_fld pa attr)) = AP_perm attr"
proof (rule bit_word_eqI)
  fix n assume a: "AP_perm attr < 8" and n: "n < LENGTH(32)"
  let ?w = "push_bit 2 (ucast (APX (the_fld pa attr))) OR ucast (AP (the_fld pa attr)) :: u32"
  have "\<forall>i < 32. bit ?w i = (i < 3 \<and> bit (AP_perm attr) i)"
    unfolding all_less_32 by (intro conjI; simp add: the_fld_def sec_fld_ok bit_simps)
  then show "bit ?w n = bit (AP_perm attr) n"
    using n u32_bound_bit [of "AP_perm attr" 3 n] a by (auto simp: word_less_nat_alt)
qed

lemma the_fld_mem: "mem_attr attr < 32 \<Longrightarrow>
   TEX_C_B (ucast (TEX (the_fld pa attr))) (ucast (fC (the_fld pa attr))) (ucast (fB (the_fld pa attr))) = mem_attr attr"
proof (rule bit_word_eqI)
  fix n assume a: "mem_attr attr < 32" and n: "n < LENGTH(32)"
  let ?w = "TEX_C_B (ucast (TEX (the_fld pa attr))) (ucast (fC (the_fld pa attr))) (ucast (fB (the_fld pa attr)))"
  have "\<forall>i < 32. bit ?w i = (i < 5 \<and> bit (mem_attr attr) i)"
    unfolding all_less_32 by (intro conjI; simp add: the_fld_def sec_fld_ok TEX_C_B_def bit_simps del: push_bit_Suc)
  then show "bit ?w n = bit (mem_attr attr) n"
    using n u32_bound_bit [of "mem_attr attr" 5 n] a by (auto simp: word_less_nat_alt)
qed

lemma vm_map_sec_ok:
  assumes "pt mod push_bit 14 1 = 0" and "va mod MB = 0" and "pa mod MB = 0" and "pagesize attr = PAGE_1MB"
  shows "vm_map_sec quiet_p pt va pa attr m =
    Inr (the_fld pa attr, m(pt + 4 * drop_bit 20 va := fld_bits (the_fld pa attr)))"
  using assms index_lt [of va]
  by (simp add: vm_map_sec_def the_fld_simps pt_entry_or check_def vm_pte_print_def fld_check_valid_def Let_def)

lemma the_fld_nonzero: "fld_bits (the_fld pa attr) \<noteq> 0"
proof
  assume "fld_bits (the_fld pa attr) = 0"
  then have "tag (fld_of 0) = 2" by (metis fld_of_bits the_fld_simps(2))
  then show False by (simp add: fld_of_def)
qed

lemma lookup_upd:
  "vm_lookup pt va (m(pt + 4 * drop_bit 20 vb := x)) =
     (if drop_bit 20 va = drop_bit 20 vb then (if x = 0 then None else Some (pt + 4 * drop_bit 20 va))
      else vm_lookup pt va m)"
  by (auto simp: vm_lookup_def Let_def)

lemma xlate_fld:
  assumes "m (pt + 4 * drop_bit 20 va) = fld_bits (the_fld pa attr)" and "pa mod MB = 0" and "va = vb + off"
    and "vb mod MB = 0" and "off < MB"
  shows "vm_xlate pt va m = Inr (Some (pt + 4 * drop_bit 20 va, pa + off))"
proof -
  have "push_bit 20 (ucast (ucast (drop_bit 20 pa) :: 12 word)) = pa"
  proof (rule bit_word_eqI)
    fix n assume "n < LENGTH(32)"
    then show "bit (push_bit 20 (ucast (ucast (drop_bit 20 pa) :: 12 word) :: u32)) n = bit pa n"
      using mod_MB_bit [OF assms(2), of n] by (auto simp: bit_simps)
  qed
  then show ?thesis
    using assms by (simp add: vm_xlate_def vm_lookup_def the_fld_nonzero Let_def fld_of_bits the_fld_simps sec_add(2,3)
        del: entry_inj) (simp add: sec_add(1))
qed

subsection \<open>A section mapping\<close>

text \<open>C15: \<open>vm_map_sec\<close> on aligned addresses maps exactly one megabyte: every address of the section
  translates to the same offset of the physical section, every other address translates as before, no other
  word of memory changes, and the descriptor holds the permission, memory attribute and domain asked for.\<close>
theorem vm_map_sec_xlate:
  assumes "pt mod push_bit 14 1 = 0" and "va mod MB = 0" and "pa mod MB = 0" and "pagesize attr = PAGE_1MB"
  shows "\<exists>f m'. vm_map_sec quiet_p pt va pa attr m = Inr (f, m') \<and>
    (\<forall>off. off < MB \<longrightarrow> vm_xlate pt (va + off) m' = Inr (Some (pt + 4 * drop_bit 20 va, pa + off))) \<and>
    (\<forall>vb. drop_bit 20 vb \<noteq> drop_bit 20 va \<longrightarrow> vm_xlate pt vb m' = vm_xlate pt vb m) \<and>
    (\<forall>a. a \<noteq> pt + 4 * drop_bit 20 va \<longrightarrow> m' a = m a) \<and>
    fld_of (m' (pt + 4 * drop_bit 20 va)) = f \<and> fld_check_valid f = Inr () \<and>
    domain f = ucast (pin_dom attr) \<and> (nG f = 1 \<longleftrightarrow> pin_G attr = 0) \<and>
    (AP_perm attr < 8 \<longrightarrow> push_bit 2 (ucast (APX f)) OR ucast (AP f) = AP_perm attr) \<and>
    (mem_attr attr < 32 \<longrightarrow> TEX_C_B (ucast (TEX f)) (ucast (fC f)) (ucast (fB f)) = mem_attr attr)"
proof (rule exI [of _ "the_fld pa attr"],
    rule exI [of _ "m(pt + 4 * drop_bit 20 va := fld_bits (the_fld pa attr))"], intro conjI allI impI)
  let ?m = "m(pt + 4 * drop_bit 20 va := fld_bits (the_fld pa attr))"
  show "vm_xlate pt (va + off) ?m = Inr (Some (pt + 4 * drop_bit 20 va, pa + off))" if "off < MB" for off
    using xlate_fld [of ?m pt "va + off" pa attr va off] assms that sec_add(2) [OF assms(2) that] by simp
  show "vm_xlate pt vb ?m = vm_xlate pt vb m" if "drop_bit 20 vb \<noteq> drop_bit 20 va" for vb
    using that by (auto simp: vm_xlate_def lookup_upd the_fld_nonzero vm_lookup_def Let_def)
qed (use assms in \<open>simp_all add: vm_map_sec_ok fld_of_bits the_fld_simps the_fld_perm the_fld_mem
    fld_check_valid_def check_def\<close>)

theorem vm_map_sec_xlate_witness:
  "\<exists>f m'. vm_map_sec False 0x100000 0x200000 0x300000 \<lparr>pin_G = 1, pin_asid = 0, pin_dom = 1, pagesize = 3,
       AP_perm = perm_rw_priv, mem_attr = MEM_uncached\<rparr> (\<lambda>_. 0) = Inr (f, m') \<and>
     vm_xlate 0x100000 (0x200000 + 0x1234) m' = Inr (Some (0x100000 + 4 * drop_bit 20 0x200000, 0x300000 + 0x1234))"
proof -
  have "\<not> (0x1234 :: u32) < MB \<Longrightarrow> False" by (simp add: MB_def)
  then show ?thesis
    using vm_map_sec_xlate [of "0x100000" "0x200000" "0x300000" "\<lparr>pin_G = 1, pin_asid = 0, pin_dom = 1,
       pagesize = 3, AP_perm = perm_rw_priv, mem_attr = MEM_uncached\<rparr>" False "\<lambda>_. 0"]
    by (fastforce simp: MB_def PAGE_1MB_def)
qed


subsection \<open>The kernel's map\<close>

text \<open>A map all of whose entries \<open>vm_map_kernel\<close> can install, with the domains they use.\<close>

definition ent_wf :: "pr_ent \<Rightarrow> bool" where
  "ent_wf e \<longleftrightarrow> pr_nbytes e = MB \<and> pr_dom e < 16 \<and> pr_addr e mod MB = 0 \<and> pr_addr e < 0xfff00000 \<and> pr_type e \<noteq> MEM_RO"

definition procmap_wf :: "procmap \<Rightarrow> bool" where
  "procmap_wf p \<longleftrightarrow> length (pmap p) \<le> MAX_ENT \<and> (\<forall>e \<in> set (pmap p). ent_wf e) \<and>
     (\<forall>i. bit (dom_ids p) i \<longleftrightarrow> (\<exists>e \<in> set (pmap p). unat (pr_dom e) = i))"

lemma procmap_push_wf:
  assumes "procmap_wf p" and "ent_wf e" and "length (pmap p) < MAX_ENT"
  shows "\<exists>q. procmap_push p e = Inr q \<and> procmap_wf q \<and> pmap q = pmap p @ [e]"
proof -
  have "unat (pr_dom e) < 32" using assms(2) by (simp add: ent_wf_def word_less_nat_alt)
  then show ?thesis
    using assms by (auto simp: procmap_push_def check_def ent_wf_def procmap_wf_def bit_or_iff bit_exp_iff)
qed

lemma zero_words_at: "zero_words n a m x = (if \<exists>i < n. x = a + 4 * of_nat i then 0 else m x)"
proof (induction n arbitrary: a m)
  case (Suc n)
  have "(\<exists>i < Suc n. x = a + 4 * of_nat i) \<longleftrightarrow> x = a \<or> (\<exists>i < n. x = a + 4 + 4 * of_nat i)"
    by (auto simp: less_Suc_eq_0_disj algebra_simps)
  then show ?case by (auto simp: Suc)
qed simp

lemma zeroed_entry: "zero_words 4096 pt m (pt + 4 * drop_bit 20 (va :: u32)) = 0"
proof -
  have "pt + 4 * drop_bit 20 va = pt + 4 * of_nat (unat (drop_bit 20 va))" by simp
  moreover have "unat (drop_bit 20 va) < 4096"
    using index_lt [of va] by (simp add: PT_LEVEL1_N_def word_less_nat_alt)
  ultimately show ?thesis unfolding zero_words_at by metis
qed

lemma div_range: "0 < k \<Longrightarrow> k * q \<le> v \<and> v < k * q + k \<longleftrightarrow> v div k = (q :: nat)"
proof
  assume k: "0 < k" and q: "v div k = q"
  show "k * q \<le> v \<and> v < k * q + k" unfolding q [symmetric] using mult_div_mod_eq [of k v] mod_less_divisor [OF k, of v] by linarith
qed (auto intro: div_nat_eqI)

lemma ent_range:
  assumes "ent_wf e"
  shows "pr_addr e \<le> va \<and> va < pr_addr e + pr_nbytes e \<longleftrightarrow> drop_bit 20 va = drop_bit 20 (pr_addr e)"
proof -
  let ?a = "unat (pr_addr e)"
  have a: "?a mod 1048576 = 0" "?a < 4293918720"
    using assms by (auto simp: ent_wf_def MB_def word_less_nat_alt unat_mod_distrib word_unat_eq_iff)
  have s: "unat (pr_addr e + MB) = ?a + 1048576" using a by (simp add: MB_def unat_add_small)
  have d: "drop_bit 20 va = drop_bit 20 (pr_addr e) \<longleftrightarrow> unat va div 1048576 = ?a div 1048576"
    by (simp add: word_unat_eq_iff drop_bit_eq_div unat_div_distrib)
  show ?thesis
    using assms a s div_range [of 1048576 "?a div 1048576" "unat va"] unfolding d
    by (simp add: ent_wf_def word_le_nat_alt word_less_nat_alt dvd_mult_div_cancel dvd_eq_mod_eq_0)
qed

lemma ent_lookup_iff:
  "\<forall>e \<in> set es. ent_wf e \<Longrightarrow>
   (ent_lookup es va = None \<longleftrightarrow> (\<forall>e \<in> set es. drop_bit 20 va \<noteq> drop_bit 20 (pr_addr e)))"
  by (induction es) (auto simp: ent_range)

definition ident :: "u32 \<Rightarrow> wmem \<Rightarrow> u32 \<Rightarrow> bool" where
  "ident pt m va \<longleftrightarrow> (\<exists>attr. m (pt + 4 * drop_bit 20 va) = fld_bits (the_fld (push_bit 20 (drop_bit 20 va)) attr))"

lemma attr_mk_ok: "ent_wf e \<Longrightarrow> \<exists>attr. attr_mk e = Inr attr \<and> pagesize attr = PAGE_1MB"
  by (cases "pr_type e")
    (auto simp: attr_mk_def pin_mk_device_def pin_mk_global_def pin_mk_def mem_perm_islegal_def perm_rw_priv_def
      check_def ent_wf_def PAGE_1MB_def word_less_nat_alt word_le_nat_alt)

lemma sec_base: "va mod MB = 0 \<Longrightarrow> push_bit 20 (drop_bit 20 va) = (va :: u32)"
  by (rule bit_word_eqI) (use mod_MB_bit [of va] in \<open>auto simp: bit_simps\<close>)

lemma map_entries_ident:
  assumes "\<forall>e \<in> set es. ent_wf e" and "pt mod push_bit 14 1 = 0"
  shows "\<exists>m'. map_entries quiet_p pt es m = Inr m' \<and>
    (\<forall>va. if \<exists>e \<in> set es. drop_bit 20 va = drop_bit 20 (pr_addr e) then ident pt m' va
          else m' (pt + 4 * drop_bit 20 va) = m (pt + 4 * drop_bit 20 va)) \<and>
    (\<forall>a. (\<forall>va. a \<noteq> pt + 4 * drop_bit 20 va) \<longrightarrow> m' a = m a)"
  using assms
proof (induction es arbitrary: m)
  case (Cons e es)
  obtain attr where at: "attr_mk e = Inr attr" "pagesize attr = PAGE_1MB"
    using Cons.prems attr_mk_ok [of e] by auto
  have w: "pr_nbytes e = MB" "pr_addr e mod MB = 0" using Cons.prems by (auto simp: ent_wf_def)
  let ?m1 = "m(pt + 4 * drop_bit 20 (pr_addr e) := fld_bits (the_fld (pr_addr e) attr))"
  have "\<forall>e \<in> set es. ent_wf e" using Cons.prems by simp
  from Cons.IH [OF this Cons.prems(2), of ?m1]
  obtain m' where m': "map_entries quiet_p pt es ?m1 = Inr m'"
    "\<forall>va. if \<exists>e \<in> set es. drop_bit 20 va = drop_bit 20 (pr_addr e) then ident pt m' va
          else m' (pt + 4 * drop_bit 20 va) = ?m1 (pt + 4 * drop_bit 20 va)"
    "\<forall>a. (\<forall>va. a \<noteq> pt + 4 * drop_bit 20 va) \<longrightarrow> m' a = ?m1 a"
    by (elim exE conjE)
  have "map_entries quiet_p pt (e # es) m = Inr m'"
    using at w m'(1) vm_map_sec_ok [OF Cons.prems(2) w(2) w(2) at(2)] by (simp add: check_def)
  moreover have "if \<exists>e \<in> set (e # es). drop_bit 20 va = drop_bit 20 (pr_addr e) then ident pt m' va
          else m' (pt + 4 * drop_bit 20 va) = m (pt + 4 * drop_bit 20 va)" for va
    using spec [OF m'(2), of va] sec_base [OF w(2)] by (auto simp: ident_def split: if_splits)
  moreover have "(\<forall>va. a \<noteq> pt + 4 * drop_bit 20 va) \<longrightarrow> m' a = m a" for a
    using spec [OF m'(3), of a] by auto
  ultimately show ?case by blast
qed simp

lemma ident_xlate:
  assumes "ident pt m va"
  shows "vm_lookup pt va m = Some (pt + 4 * drop_bit 20 va)"
    and "vm_xlate pt va m = Inr (Some (pt + 4 * drop_bit 20 va, va))"
proof -
  let ?b = "push_bit 20 (drop_bit 20 va)" and ?o = "va AND mask 20"
  obtain attr where e: "m (pt + 4 * drop_bit 20 va) = fld_bits (the_fld ?b attr)" using assms by (auto simp: ident_def)
  then show "vm_lookup pt va m = Some (pt + 4 * drop_bit 20 va)" by (simp add: vm_lookup_def the_fld_nonzero)
  have b: "?b mod MB = 0"
    using take_bit_eq_mod [of 20 ?b] by (simp add: MB_def take_bit_push_bit)
  have o: "?o < MB"
    using take_bit_nat_less_exp [of 20 "unat va"]
    by (simp add: MB_def word_less_nat_alt unsigned_take_bit_eq flip: take_bit_eq_mask)
  have "va = ?b OR ?o" by (rule bit_word_eqI) (auto simp: bit_simps)
  then have s: "va = ?b + ?o" using sec_add(1) [OF b o] by simp
  show "vm_xlate pt va m = Inr (Some (pt + 4 * drop_bit 20 va, va))"
    using xlate_fld [where va = va and m = m and pt = pt and pa = ?b and attr = attr and vb = ?b and off = ?o]
      e b o s by metis
qed

text \<open>The documented behaviour of the coprocessor routines: the domain register reads back what was
  written, the staff initialization leaves the MMU off, and the enabling code sets control register 1.\<close>

definition mmu_hw_ok :: "'h mmu_hw \<Rightarrow> bool" where
  "mmu_hw_ok w \<longleftrightarrow> (\<forall>r h. staff_domain_access_ctrl_get w (staff_domain_access_ctrl_set w r h) = r) \<and>
     (\<forall>h. \<not> bit (ctrl_rd w (staff_mmu_init w h)) 0) \<and>
     (\<forall>r h. ctrl_rd w (staff_domain_access_ctrl_set w r h) = ctrl_rd w h) \<and>
     (\<forall>x pt h. ctrl_rd w (staff_cp15_set_procid_ttbr0 w x pt h) = ctrl_rd w h) \<and>
     (\<forall>c h. ctrl_rd w (staff_mmu_enable_set_asm w c h) = c)"

text \<open>The contract as an interface: what \<open>vm_map_kernel\<close> relies on.\<close>

locale mmu_coprocessor =
  fixes w :: "'h mmu_hw"
  assumes domain_reads_back: "staff_domain_access_ctrl_get w (staff_domain_access_ctrl_set w r h) = r"
    and ctrl_after_domain: "ctrl_rd w (staff_domain_access_ctrl_set w r h) = ctrl_rd w h"
    and ctrl_after_context: "ctrl_rd w (staff_cp15_set_procid_ttbr0 w x pt h) = ctrl_rd w h"
    and ctrl_after_enable: "ctrl_rd w (staff_mmu_enable_set_asm w c h) = c"
begin

lemmas laws = domain_reads_back ctrl_after_domain ctrl_after_context ctrl_after_enable

text \<open>That the MMU is off after the initialization is up to the object file that has it.\<close>

lemma vm_mmu_init_ok:
  assumes "\<not> bit (ctrl_rd w (staff_mmu_init w h)) 0"
  shows "\<exists>h1. vm_mmu_init w d h = Inr h1 \<and> staff_domain_access_ctrl_get w h1 = d \<and> \<not> mmu_is_enabled w h1"
  using assms by (simp add: laws vm_mmu_init_def domain_access_ctrl_set_def check_def mmu_is_enabled_def)

lemma vm_mmu_on:
  assumes "\<not> mmu_is_enabled w h" and "pt \<noteq> 0" and "drop_bit 24 pid = 0" and "64 < pid" and "asid \<noteq> 0" and "asid < 64"
  shows "bnd (vm_mmu_switch w pt pid asid h) (vm_mmu_enable w) =
      Inr (staff_mmu_enable_set_asm w (ctrl_rd w h OR 1) (staff_cp15_set_procid_ttbr0 w (push_bit 8 pid OR asid) pt h))"
    and "mmu_is_enabled w (staff_mmu_enable_set_asm w (ctrl_rd w h OR 1) h1)"
  using assms
  by (simp_all add: laws vm_mmu_switch_def mmu_set_ctx_def set_procid_ttbr0_def vm_mmu_enable_def mmu_enable_def
      mmu_enable_set_def mmu_is_enabled_def check_def bit_or_iff)

end

lemma mmu_hw_ok_coprocessor: "mmu_hw_ok w \<Longrightarrow> mmu_coprocessor w"
  by unfold_locales (simp_all add: mmu_hw_ok_def)

lemma check_entries_ok: "\<forall>e \<in> set es. ident pt m (pr_addr e) \<Longrightarrow> check_entries pt es m = Inr ()"
  by (induction es) (auto simp: ident_xlate)

lemma dom_ids_ok:
  assumes "procmap_wf p" and "pmap p \<noteq> []"
  shows "dom_ids p \<noteq> 0" and "dom_ids p < 2 ^ 16"
proof -
  have "bit (dom_ids p) (unat (pr_dom (hd (pmap p))))" using assms hd_in_set unfolding procmap_wf_def by blast
  then show "dom_ids p \<noteq> 0" by (metis bit_0_eq bot_apply bot_bool_def)
  have "take_bit 16 (dom_ids p) = dom_ids p"
    by (rule bit_word_eqI) (use assms in \<open>auto simp: procmap_wf_def ent_wf_def bit_take_bit_iff word_less_nat_alt\<close>)
  then have "unat (dom_ids p) < 2 ^ 16" by (metis take_bit_nat_less_exp unsigned_take_bit_eq)
  then show "dom_ids p < 2 ^ 16" by (simp add: word_less_nat_alt)
qed

text \<open>C6: The kernel's address space: for a process map of whole sections below the last megabyte,
  \<open>vm_map_kernel\<close> succeeds, an address is mapped exactly when the process map holds it, and then to itself;
  only the new table changes memory, and the MMU is on exactly when asked for.\<close>
theorem vm_map_kernel_identity:
  assumes "procmap_wf p" and "pmap p \<noteq> []" and "pt mod push_bit 14 1 = 0" and "pt \<noteq> 0" and "mmu_hw_ok w"
  shows "\<exists>m' h'. vm_map_kernel w quiet_p pt p enable_p (m, h) = Inr (pt, m', h') \<and>
    (\<forall>va. case procmap_lookup p va of
       None \<Rightarrow> vm_lookup pt va m' = None
     | Some e \<Rightarrow> vm_xlate pt va m' = Inr (Some (pt + 4 * drop_bit 20 va, va))) \<and>
    (\<forall>a. (\<forall>i < 4096. a \<noteq> pt + 4 * of_nat i) \<longrightarrow> m' a = m a) \<and>
    mmu_is_enabled w h' = enable_p"
proof -
  have wf: "\<forall>e \<in> set (pmap p). ent_wf e" using assms(1) by (simp add: procmap_wf_def)
  obtain d where d: "dom_perm (dom_ids p) DOM_client = Inr d"
    using dom_ids_ok [OF assms(1,2)] by (auto simp: dom_perm_def check_def DOM_client_def drop_bit_eq_div
        word_less_nat_alt word_unat_eq_iff unat_div_distrib)
  obtain h1 where h1: "vm_mmu_init w d h = Inr h1" "\<not> mmu_is_enabled w h1"
    using mmu_coprocessor.vm_mmu_init_ok [OF mmu_hw_ok_coprocessor [OF assms(5)], of h d] assms(5)
    by (auto simp: mmu_hw_ok_def)
  let ?m1 = "zero_words 4096 pt m"
  have al: "vm_pt_alloc pt 4096 m = Inr (pt, ?m1)" using assms(3) by (simp add: vm_pt_alloc_def check_def Let_def)
  from map_entries_ident [OF wf assms(3), of quiet_p ?m1]
  obtain m' where m': "map_entries quiet_p pt (pmap p) ?m1 = Inr m'"
    "\<forall>va. if \<exists>e \<in> set (pmap p). drop_bit 20 va = drop_bit 20 (pr_addr e) then ident pt m' va
          else m' (pt + 4 * drop_bit 20 va) = ?m1 (pt + 4 * drop_bit 20 va)"
    "\<forall>a. (\<forall>va. a \<noteq> pt + 4 * drop_bit 20 va) \<longrightarrow> m' a = ?m1 a" by (elim exE conjE)
  have ce: "check_entries pt (pmap p) m' = Inr ()" 
  proof (rule check_entries_ok, rule ballI)
    fix e assume "e \<in> set (pmap p)"
    then show "ident pt m' (pr_addr e)" using spec [OF m'(2), of "pr_addr e"] by (auto split: if_splits)
  qed
  obtain h2 where h2: "(if enable_p then bnd (vm_mmu_switch w pt 0x140e 1 h1) (vm_mmu_enable w) else Inr h1) = Inr h2"
    "mmu_is_enabled w h2 = enable_p"
    using mmu_coprocessor.vm_mmu_on [OF mmu_hw_ok_coprocessor [OF assms(5)] h1(2) assms(4), of "0x140e" 1] h1(2)
    by (cases enable_p) (auto simp: drop_bit_eq_div)
  have run: "vm_map_kernel w quiet_p pt p enable_p (m, h) = Inr (pt, m', h2)"
    using d h1(1) al m'(1) ce h2(1) assms(4) by (simp add: vm_map_kernel_def check_def)
  have tr: "case procmap_lookup p va of None \<Rightarrow> vm_lookup pt va m' = None
     | Some e \<Rightarrow> vm_xlate pt va m' = Inr (Some (pt + 4 * drop_bit 20 va, va))" for va
    using spec [OF m'(2), of va] ent_lookup_iff [OF wf, of va]
    by (cases "ent_lookup (pmap p) va")
      (auto simp: procmap_lookup_def ident_xlate zeroed_entry vm_lookup_def split: if_splits)
  have "m' a = m a" if o: "\<forall>i < 4096. a \<noteq> pt + 4 * of_nat i" for a
  proof -
    have "a \<noteq> pt + 4 * drop_bit 20 va" for va
      using spec [OF o, of "unat (drop_bit 20 va)"] index_lt [of va] by (auto simp: PT_LEVEL1_N_def word_less_nat_alt)
    then have "m' a = ?m1 a" using m'(3) by blast
    then show ?thesis using o by (auto simp: zero_words_at)
  qed
  then show ?thesis using run tr h2(2) by blast
qed


lemma push_mk_wf:
  assumes "procmap_wf p" and "length (pmap p) < MAX_ENT" and "d < 16" and "a mod MB = 0" and "a < 0xfff00000"
    and "t \<noteq> MEM_RO"
  shows "\<exists>q. push_mk a t d p = Inr q \<and> procmap_wf q \<and>
    pmap q = pmap p @ [\<lparr>pr_addr = a, pr_nbytes = MB, pr_type = t, pr_dom = d\<rparr>]"
  using assms procmap_push_wf [of p "\<lparr>pr_addr = a, pr_nbytes = MB, pr_type = t, pr_dom = d\<rparr>"]
  by (simp add: push_mk_def pr_ent_mk_def check_def ent_wf_def) (simp add: MB_def)

lemma procmap_default_wf:
  assumes "prog_end \<le> MB" and "d < 16"
  shows "\<exists>p. procmap_default_mk prog_end MB (2 * MB) d = Inr p \<and> procmap_wf p \<and> map pr_addr (pmap p) =
    [0x20000000, 0x20100000, 0x20200000, 0, 0x100000, INT_STACK_ADDR - MB, STACK_ADDR - MB]"
proof -
  note push = push_mk_wf [OF _ _ assms(2)]
  have 0: "procmap_wf \<lparr>dom_ids = 0, pmap = []\<rparr>" by (simp add: procmap_wf_def)
  obtain p1 where 1: "push_mk 0x20000000 MEM_DEVICE d \<lparr>dom_ids = 0, pmap = []\<rparr> = Inr p1" "procmap_wf p1"
    "map pr_addr (pmap p1) = [0x20000000]" using push [OF 0, of "0x20000000" MEM_DEVICE] by (auto simp: MAX_ENT_def MB_def)
  obtain p2 where 2: "push_mk 0x20100000 MEM_DEVICE d p1 = Inr p2" "procmap_wf p2"
    "map pr_addr (pmap p2) = [0x20000000, 0x20100000]" using push [OF 1(2), of "0x20100000" MEM_DEVICE] 1(3)
    by (auto simp: MAX_ENT_def MB_def dest: map_eq_imp_length_eq)
  obtain p3 where 3: "push_mk 0x20200000 MEM_DEVICE d p2 = Inr p3" "procmap_wf p3"
    "map pr_addr (pmap p3) = [0x20000000, 0x20100000, 0x20200000]" using push [OF 2(2), of "0x20200000" MEM_DEVICE] 2(3)
    by (auto simp: MAX_ENT_def MB_def dest: map_eq_imp_length_eq)
  obtain p4 where 4: "push_mk 0 MEM_RW d p3 = Inr p4" "procmap_wf p4"
    "map pr_addr (pmap p4) = [0x20000000, 0x20100000, 0x20200000, 0]" using push [OF 3(2), of 0 MEM_RW] 3(3)
    by (auto simp: MAX_ENT_def MB_def dest: map_eq_imp_length_eq)
  obtain p5 where 5: "push_mk 0x100000 MEM_RW d p4 = Inr p5" "procmap_wf p5"
    "map pr_addr (pmap p5) = [0x20000000, 0x20100000, 0x20200000, 0, 0x100000]"
    using push [OF 4(2), of "0x100000" MEM_RW] 4(3) by (auto simp: MAX_ENT_def MB_def dest: map_eq_imp_length_eq)
  obtain p6 where 6: "push_mk (INT_STACK_ADDR - MB) MEM_RW d p5 = Inr p6" "procmap_wf p6"
    "map pr_addr (pmap p6) = [0x20000000, 0x20100000, 0x20200000, 0, 0x100000, INT_STACK_ADDR - MB]"
    using push [OF 5(2), of "INT_STACK_ADDR - MB" MEM_RW] 5(3)
    by (auto simp: MAX_ENT_def MB_def INT_STACK_ADDR_def dest: map_eq_imp_length_eq)
  obtain p7 where 7: "push_mk (STACK_ADDR - MB) MEM_RW d p6 = Inr p7" "procmap_wf p7"
    "map pr_addr (pmap p7) = [0x20000000, 0x20100000, 0x20200000, 0, 0x100000, INT_STACK_ADDR - MB, STACK_ADDR - MB]"
    using push [OF 6(2), of "STACK_ADDR - MB" MEM_RW] 6(3)
    by (auto simp: MAX_ENT_def MB_def INT_STACK_ADDR_def STACK_ADDR_def dest: map_eq_imp_length_eq)
  show ?thesis
    using assms(1) 1(1) 2(1) 3(1) 4(1) 5(1) 6(1) 7 by (simp add: procmap_default_mk_def check_def)
qed

text \<open>A coprocessor with a control and a domain register.\<close>

definition ex_hw :: "(u32 \<times> u32) mmu_hw" where
  "ex_hw = \<lparr>ctrl_rd = fst, ctrl_wr = (\<lambda>c h. (c, snd h)), staff_mmu_disable_set_asm = (\<lambda>c h. (c, snd h)),
     staff_mmu_enable_set_asm = (\<lambda>c h. (c, snd h)), staff_cp15_set_procid_ttbr0 = (\<lambda>_ _ h. h),
     staff_mmu_init = (\<lambda>h. (0x50078, snd h)), staff_domain_access_ctrl_get = snd,
     staff_domain_access_ctrl_set = (\<lambda>r h. (fst h, r))\<rparr>"

theorem vm_map_kernel_identity_witness:
  "\<exists>p m' h'. procmap_default_mk 0x9000 MB (2 * MB) 1 = Inr p \<and>
     vm_map_kernel ex_hw False 0x104000 p True (\<lambda>_. 7, (0, 0)) = Inr (0x104000, m', h') \<and> mmu_is_enabled ex_hw h'"
proof -
  obtain p where p: "procmap_default_mk 0x9000 MB (2 * MB) 1 = Inr p" "procmap_wf p"
    "map pr_addr (pmap p) = [0x20000000, 0x20100000, 0x20200000, 0, 0x100000, INT_STACK_ADDR - MB, STACK_ADDR - MB]"
    using procmap_default_wf [of "0x9000" 1] by (auto simp: MB_def)
  have "mmu_hw_ok ex_hw" by (simp add: mmu_hw_ok_def ex_hw_def)
  moreover have "pmap p \<noteq> []" using p(3) by auto
  ultimately show ?thesis
    using p(1) vm_map_kernel_identity [OF p(2), of "0x104000" ex_hw False True "\<lambda>_. 7" "(0, 0)"] by auto
qed

end
