(* ===== verification/PinnedVm.thy ===== *)
theory PinnedVm
  imports PageTable
begin

text \<open>
  Pinned virtual memory, lab 15: \<open>pinned-vm.c\<close> and the pinning of a process map in \<open>procmap.h\<close>.  The
  coprocessor state is a record of the registers the \<open>mcr\<close> and \<open>mrc\<close> instructions of the code name:
  the TLB lockdown VA, PA and attribute registers are banked by the lockdown index, maintenance operations
  and the writes that the architecture orders are logged.  The translation instruction (\<open>c7,c8,1\<close> with the
  answer in \<open>c7,c4,0\<close>) is a parameter.
\<close>

datatype cp_op =
    InvCaches | InvTLB | DSB | PrefetchFlush | CleanInvD | InvI | WrTTBR0 u32 | WrContext u32

record cp15 =
  lock_idx :: u32
  lock_va :: "u32 \<Rightarrow> u32"
  lock_pa :: "u32 \<Rightarrow> u32"
  lock_attr :: "u32 \<Rightarrow> u32"
  dacr :: u32
  ttbr0 :: u32
  ttbr1 :: u32
  ttbcr :: u32
  contextidr :: u32
  ctrl1 :: u32
  int_masked :: bool
  cp_log :: "cp_op list"

definition cp_emit :: "cp_op \<Rightarrow> cp15 \<Rightarrow> cp15" where
  "cp_emit op c = c\<lparr>cp_log := cp_log c @ [op]\<rparr>"

subsection \<open>Lockdown registers\<close>

definition lockdown_index_set :: "u32 \<Rightarrow> cp15 \<Rightarrow> cp15" where
  "lockdown_index_set x c = (let x = x AND 7 in c\<lparr>lock_idx := x\<rparr>)"

definition lockdown_index_get :: "cp15 \<Rightarrow> u32" where "lockdown_index_get c = lock_idx c"

definition lockdown_va_set :: "u32 \<Rightarrow> cp15 \<Rightarrow> cp15" where
  "lockdown_va_set x c = c\<lparr>lock_va := (lock_va c)(lock_idx c := x)\<rparr>"

definition lockdown_va_get :: "cp15 \<Rightarrow> u32" where "lockdown_va_get c = lock_va c (lock_idx c)"

definition lockdown_pa_set :: "u32 \<Rightarrow> cp15 \<Rightarrow> cp15" where
  "lockdown_pa_set x c = c\<lparr>lock_pa := (lock_pa c)(lock_idx c := x)\<rparr>"

definition lockdown_pa_get :: "cp15 \<Rightarrow> u32" where "lockdown_pa_get c = lock_pa c (lock_idx c)"

definition lockdown_attr_set :: "u32 \<Rightarrow> cp15 \<Rightarrow> cp15" where
  "lockdown_attr_set x c = c\<lparr>lock_attr := (lock_attr c)(lock_idx c := x)\<rparr>"

definition lockdown_attr_get :: "cp15 \<Rightarrow> u32" where "lockdown_attr_get c = lock_attr c (lock_idx c)"

text \<open>The answer of the translation is the argument \<open>xl\<close>; the result is the physical address, if any.\<close>

definition tlb_contains_va :: "(cp15 \<Rightarrow> u32 \<Rightarrow> u32) \<Rightarrow> u32 \<Rightarrow> cp15 \<Rightarrow> u32 option res" where
  "tlb_contains_va xl va c =
     bnd (bits_get va 0 2) (\<lambda>b.
     bnd (check (b = 0) ''bits_get(va, 0,2) == 0'') (\<lambda>_.
     let par = xl c va in
     bnd (bit_is_on par 0) (\<lambda>ab.
     if ab \<noteq> 0 then Inr None else Inr (Some ((par AND 0xfff00000) OR (va AND 0x000fffff))))))"

definition pin_mmu_sec :: "u32 \<Rightarrow> u32 \<Rightarrow> u32 \<Rightarrow> pin_t \<Rightarrow> cp15 \<Rightarrow> cp15 res" where
  "pin_mmu_sec idx va pa e c =
     bnd (check (idx < 8) ''lockdown index too large'') (\<lambda>_.
     bnd (bits_get va 0 19) (\<lambda>bv.
     bnd (check (bv = 0) ''only handling 1MB sections'') (\<lambda>_.
     bnd (bits_get pa 0 19) (\<lambda>bp.
     bnd (check (bp = 0) ''only handling 1MB sections'') (\<lambda>_.
     let c1 = c\<lparr>int_masked := True\<rparr>;
         c2 = c1\<lparr>lock_idx := idx AND 7\<rparr>;
         va_ent = ((va AND 0xfff00000) OR push_bit 9 (pin_G e)) OR pin_asid e;
         c3 = lockdown_va_set va_ent c2;
         attr = push_bit 7 (pin_dom e) OR push_bit 1 (mem_attr e);
         c4 = lockdown_attr_set attr c3;
         pa_ent = (((pa AND 0xfff00000) OR push_bit 6 (pagesize e)) OR push_bit 1 (AP_perm e)) OR 1;
         c5 = lockdown_pa_set pa_ent c4;
         c6 = cp_emit PrefetchFlush (cp_emit DSB c5);
         c7 = c6\<lparr>int_masked := False\<rparr>
     in if lockdown_va_get c7 \<noteq> va_ent then Inl (Panic ''lockdown va'')
        else if lockdown_pa_get c7 \<noteq> pa_ent then Inl (Panic ''lockdown pa'')
        else if lockdown_attr_get c7 \<noteq> attr then Inl (Panic ''lockdown attr'')
        else Inr c7)))))"

definition cp_mmu_enabled :: "cp15 \<Rightarrow> bool" where "cp_mmu_enabled c = bit (ctrl1 c) 0"

definition pin_check_exists :: "(cp15 \<Rightarrow> u32 \<Rightarrow> u32) \<Rightarrow> u32 \<Rightarrow> cp15 \<Rightarrow> unit res" where
  "pin_check_exists xl va c =
     (if \<not> cp_mmu_enabled c then Inl (Panic ''XXX: i think we can only check existence w/ mmu enabled'')
      else bnd (tlb_contains_va xl va c) (\<lambda>r.
        case r of Some pa \<Rightarrow> check (va = pa) ''va == r'' | None \<Rightarrow> Inl (Panic ''TLB should have va'')))"

text \<open>\<open>pt\<close> is what \<open>kmalloc_aligned\<close> returns; the state is the coprocessor, the memory and \<open>null_pt\<close>.\<close>

definition pin_mmu_init :: "u32 \<Rightarrow> u32 \<Rightarrow> cp15 \<times> wmem \<times> u32 \<Rightarrow> (cp15 \<times> wmem \<times> u32) res" where
  "pin_mmu_init pt domain_reg = (\<lambda>(c, m, null_pt).
     let c1 = cp_emit DSB (cp_emit InvTLB (cp_emit InvCaches c));
         c2 = c1\<lparr>dacr := domain_reg\<rparr> in
     bnd (check (pt mod push_bit 14 1 = 0) ''(uint32_t)null_pt % (1<<14) == 0'') (\<lambda>_.
     let m1 = zero_words 4096 pt m;
         c3 = c2\<lparr>ttbcr := 0, ttbr0 := pt, ttbr1 := pt\<rparr>
     in Inr (cp_emit InvI (cp_emit CleanInvD c3), m1, pt)))"

definition pin_mmu_switch :: "u32 \<Rightarrow> u32 \<Rightarrow> cp15 \<times> wmem \<times> u32 \<Rightarrow> (cp15 \<times> wmem \<times> u32) res" where
  "pin_mmu_switch pid asid = (\<lambda>(c, m, null_pt).
     bnd (check (null_pt \<noteq> 0) ''null_pt'') (\<lambda>_.
     let tmp = push_bit 8 pid;
         c1 = cp_emit (WrContext tmp) (c\<lparr>contextidr := tmp\<rparr>);
         c2 = cp_emit PrefetchFlush c1;
         c3 = cp_emit (WrTTBR0 null_pt) (c2\<lparr>ttbr0 := null_pt\<rparr>);
         c4 = cp_emit PrefetchFlush c3;
         proc_asid = push_bit 8 pid OR (asid AND 0xff);
         c5 = cp_emit (WrContext proc_asid) (c4\<lparr>contextidr := proc_asid\<rparr>)
     in Inr (c5, m, null_pt)))"

text \<open>What \<open>lockdown_print_entry\<close> decodes and prints.\<close>

record lock_ent =
  l_va :: u32
  l_G :: u32
  l_asid :: u32
  l_pa :: u32
  l_nsa :: u32
  l_nstid :: u32
  l_size :: u32
  l_apx :: u32
  l_dom :: u32
  l_xn :: u32
  l_tex :: u32
  l_C :: u32
  l_B :: u32

definition lockdown_print_entry :: "u32 \<Rightarrow> cp15 \<Rightarrow> (lock_ent option \<times> cp15) res" where
  "lockdown_print_entry idx c =
     (let c1 = lockdown_index_set idx c; va_ent = lockdown_va_get c1; pa_ent = lockdown_pa_get c1 in
      bnd (bit_is_on pa_ent 0) (\<lambda>v.
      if v = 0 then Inr (None, c1)
      else let attr = lockdown_attr_get c1 in
        Inr (Some \<lparr>l_va = drop_bit 12 va_ent, l_G = drop_bit 9 va_ent AND 1, l_asid = va_ent AND 0xff,
          l_pa = drop_bit 12 pa_ent, l_nsa = drop_bit 9 pa_ent AND 1, l_nstid = drop_bit 8 pa_ent AND 1,
          l_size = drop_bit 6 pa_ent AND 3, l_apx = drop_bit 1 pa_ent AND 7,
          l_dom = drop_bit 7 attr AND 0xf, l_xn = drop_bit 6 attr AND 1, l_tex = drop_bit 3 attr AND 7,
          l_C = drop_bit 2 attr AND 1, l_B = drop_bit 1 attr AND 1\<rparr>, c1)))"

fun print_entries_from :: "nat \<Rightarrow> u32 \<Rightarrow> cp15 \<Rightarrow> (lock_ent option list \<times> cp15) res" where
  "print_entries_from 0 i c = Inr ([], c)"
| "print_entries_from (Suc n) i c =
     bnd (lockdown_print_entry i c) (\<lambda>(e, c1).
     bnd (print_entries_from n (i + 1) c1) (\<lambda>(es, c2). Inr (e # es, c2)))"

definition lockdown_print_entries :: "cp15 \<Rightarrow> (lock_ent option list \<times> cp15) res" where
  "lockdown_print_entries c = print_entries_from 8 0 c"

subsection \<open>Pinning a process map\<close>

fun procmap_pin_from :: "u32 \<Rightarrow> pr_ent list \<Rightarrow> cp15 \<Rightarrow> cp15 res" where
  "procmap_pin_from i [] c = Inr c"
| "procmap_pin_from i (e # es) c =
     bnd (check (pr_nbytes e = MB) ''nbytes'') (\<lambda>_.
     bnd (case pr_type e of
            MEM_DEVICE \<Rightarrow> pin_mk_device (pr_dom e)
          | MEM_RW \<Rightarrow> pin_mk_global (pr_dom e) perm_rw_priv MEM_uncached
          | MEM_RO \<Rightarrow> Inl (Panic ''not handling'')) (\<lambda>g.
     bnd (pin_mmu_sec i (pr_addr e) (pr_addr e) g c) (\<lambda>c1. procmap_pin_from (i + 1) es c1)))"

definition procmap_pin :: "procmap \<Rightarrow> cp15 \<Rightarrow> cp15 res" where
  "procmap_pin p c = procmap_pin_from 0 (pmap p) c"

text \<open>\<open>enable\<close> is the routine \<open>staff_mmu_enable\<close> of an object file.\<close>

definition pin_mmu_enable :: "(cp15 \<Rightarrow> cp15) \<Rightarrow> cp15 \<Rightarrow> cp15 res" where
  "pin_mmu_enable enable c =
     bnd (check (\<not> cp_mmu_enabled c) ''!mmu_is_enabled()'') (\<lambda>_.
     let c1 = enable c in
     bnd (check (cp_mmu_enabled c1) ''mmu_is_enabled()'') (\<lambda>_. Inr c1))"

fun check_pinned :: "(cp15 \<Rightarrow> u32 \<Rightarrow> u32) \<Rightarrow> pr_ent list \<Rightarrow> cp15 \<Rightarrow> unit res" where
  "check_pinned xl [] c = Inr ()"
| "check_pinned xl (e # es) c = bnd (pin_check_exists xl (pr_addr e) c) (\<lambda>_. check_pinned xl es c)"

definition procmap_pin_on ::
    "(cp15 \<Rightarrow> cp15) \<Rightarrow> (cp15 \<Rightarrow> u32 \<Rightarrow> u32) \<Rightarrow> u32 \<Rightarrow> procmap \<Rightarrow> cp15 \<times> wmem \<times> u32 \<Rightarrow> (cp15 \<times> wmem \<times> u32) res" where
  "procmap_pin_on enable xl pt p s =
     bnd (dom_perm (dom_ids p) DOM_client) (\<lambda>d.
     bnd (pin_mmu_init pt d s) (\<lambda>(c1, m1, n1).
     bnd (procmap_pin p c1) (\<lambda>c2.
     bnd (pin_mmu_switch 0 1 (c2, m1, n1)) (\<lambda>(c3, m3, n3).
     bnd (pin_mmu_enable enable c3) (\<lambda>c4.
     bnd (check (cp_mmu_enabled c4) ''mmu_is_enabled()'') (\<lambda>_.
     bnd (check_pinned xl (pmap p) c4) (\<lambda>_. Inr (c4, m3, n3))))))))"


subsection \<open>A pinned entry\<close>

definition pin_ok :: "pin_t \<Rightarrow> bool" where
  "pin_ok e \<longleftrightarrow> pin_G e < 2 \<and> pin_asid e < 64 \<and> pin_dom e < 16 \<and> pagesize e < 4 \<and> AP_perm e < 8 \<and> mem_attr e < 32"

lemma beyond: "unat (w :: u32) < 2 ^ n \<Longrightarrow> n \<le> i \<Longrightarrow> \<not> bit w i"
  using u32_bound_bit by force

lemma pin_ok_bits:
  assumes "pin_ok e"
  shows "1 \<le> i \<Longrightarrow> \<not> bit (pin_G e) i" "6 \<le> i \<Longrightarrow> \<not> bit (pin_asid e) i" "4 \<le> i \<Longrightarrow> \<not> bit (pin_dom e) i"
    "2 \<le> i \<Longrightarrow> \<not> bit (pagesize e) i" "3 \<le> i \<Longrightarrow> \<not> bit (AP_perm e) i" "5 \<le> i \<Longrightarrow> \<not> bit (mem_attr e) i"
  using assms
  using beyond [of "pin_G e" 1 i] beyond [of "pin_asid e" 6 i] beyond [of "pin_dom e" 4 i]
    beyond [of "pagesize e" 2 i] beyond [of "AP_perm e" 3 i] beyond [of "mem_attr e" 5 i]
  by (simp_all add: pin_ok_def word_less_nat_alt)

lemma sec_bits_zero: "va mod MB = 0 \<Longrightarrow> bits_get va 0 19 = Inr 0"
proof -
  assume m: "va mod MB = 0"
  have "bits_get va 0 19 = Inr (va AND mask 20)" by (simp add: bits_get_ok del: mask_Suc_exp)
  moreover have "va AND mask 20 = 0"
    by (rule bit_word_eqI) (use mod_MB_bit [OF m] in \<open>fastforce simp: bit_simps\<close>)
  ultimately show ?thesis by simp
qed

text \<open>The words written and the fields read.\<close>

definition va_word :: "u32 \<Rightarrow> pin_t \<Rightarrow> u32" where
  "va_word va e = ((va AND 0xfff00000) OR push_bit 9 (pin_G e)) OR pin_asid e"
definition pa_word :: "u32 \<Rightarrow> pin_t \<Rightarrow> u32" where
  "pa_word pa e = (((pa AND 0xfff00000) OR push_bit 6 (pagesize e)) OR push_bit 1 (AP_perm e)) OR 1"
definition attr_word :: "pin_t \<Rightarrow> u32" where
  "attr_word e = push_bit 7 (pin_dom e) OR push_bit 1 (mem_attr e)"

lemma va_fields:
  assumes "pin_ok e" and "va mod MB = 0"
  shows "drop_bit 12 (va_word va e) = drop_bit 12 va" "drop_bit 9 (va_word va e) AND 1 = pin_G e"
    "va_word va e AND 0xff = pin_asid e"
proof -
  have z: "i < 20 \<Longrightarrow> \<not> bit va i" for i using mod_MB_bit [OF assms(2), of i] by auto
  show "drop_bit 12 (va_word va e) = drop_bit 12 va" "drop_bit 9 (va_word va e) AND 1 = pin_G e"
    "va_word va e AND 0xff = pin_asid e"
    unfolding u32_eq_iff all_less_32
    by (simp_all add: va_word_def bit_simps pin_ok_bits [OF assms(1)] z bit_u32_beyond)
qed


lemma pa_fields:
  assumes "pin_ok e" and "pa mod MB = 0"
  shows "drop_bit 12 (pa_word pa e) = drop_bit 12 pa" "drop_bit 9 (pa_word pa e) AND 1 = 0"
    "drop_bit 8 (pa_word pa e) AND 1 = 0" "drop_bit 6 (pa_word pa e) AND 3 = pagesize e"
    "drop_bit 1 (pa_word pa e) AND 7 = AP_perm e" "pa_word pa e AND 1 = 1"
proof -
  have z: "i < 20 \<Longrightarrow> \<not> bit pa i" for i using mod_MB_bit [OF assms(2), of i] by auto
  show "drop_bit 12 (pa_word pa e) = drop_bit 12 pa" "drop_bit 9 (pa_word pa e) AND 1 = 0"
    "drop_bit 8 (pa_word pa e) AND 1 = 0" "drop_bit 6 (pa_word pa e) AND 3 = pagesize e"
    "drop_bit 1 (pa_word pa e) AND 7 = AP_perm e" "pa_word pa e AND 1 = 1"
    unfolding u32_eq_iff all_less_32
    by (simp_all add: pa_word_def bit_simps pin_ok_bits [OF assms(1)] z bit_u32_beyond numeral_2_eq_2 [symmetric]
        del: push_bit_Suc drop_bit_Suc)
qed

lemma attr_fields:
  assumes "pin_ok e"
  shows "drop_bit 7 (attr_word e) AND 0xf = pin_dom e" "drop_bit 6 (attr_word e) AND 1 = 0"
    "drop_bit 3 (attr_word e) AND 7 = drop_bit 2 (mem_attr e)"
    "drop_bit 2 (attr_word e) AND 1 = drop_bit 1 (mem_attr e) AND 1" "drop_bit 1 (attr_word e) AND 1 = mem_attr e AND 1"
  unfolding u32_eq_iff all_less_32
  by (simp_all add: attr_word_def bit_simps pin_ok_bits [OF assms] bit_u32_beyond numeral_2_eq_2 [symmetric]
      del: push_bit_Suc drop_bit_Suc)

lemma index_and_7: "(idx :: u32) < 8 \<Longrightarrow> idx AND 7 = idx"
proof -
  assume "idx < 8"
  then have b: "3 \<le> i \<Longrightarrow> \<not> bit idx i" for i using beyond [of idx 3 i] by (simp add: word_less_nat_alt)
  show ?thesis unfolding u32_eq_iff all_less_32 by (simp add: bit_simps b)
qed

text \<open>C17: \<open>pin_mmu_sec\<close> of a legal attribute on aligned addresses succeeds, the entry \<open>idx\<close> decodes (by
  \<open>lockdown_print_entry\<close>) to exactly the pages, global bit, ASID, page size, permission, domain and memory
  attribute asked for, the other seven entries keep their registers, and interrupts are on afterwards
  whatever they were before.\<close>
theorem pin_mmu_sec_decodes:
  assumes "idx < 8" and "va mod MB = 0" and "pa mod MB = 0" and "pin_ok e"
  shows "\<exists>c' c''. pin_mmu_sec idx va pa e c = Inr c' \<and>
    lockdown_print_entry idx c' = Inr (Some \<lparr>l_va = drop_bit 12 va, l_G = pin_G e, l_asid = pin_asid e,
      l_pa = drop_bit 12 pa, l_nsa = 0, l_nstid = 0, l_size = pagesize e, l_apx = AP_perm e, l_dom = pin_dom e,
      l_xn = 0, l_tex = drop_bit 2 (mem_attr e), l_C = drop_bit 1 (mem_attr e) AND 1,
      l_B = mem_attr e AND 1\<rparr>, c'') \<and>
    (\<forall>j. j \<noteq> idx \<longrightarrow> lock_va c' j = lock_va c j \<and> lock_pa c' j = lock_pa c j \<and> lock_attr c' j = lock_attr c j) \<and>
    \<not> int_masked c'"
proof -
  note i = index_and_7 [OF assms(1)]
  let ?c = "c\<lparr>int_masked := False, lock_idx := idx, lock_va := (lock_va c)(idx := va_word va e),
    lock_attr := (lock_attr c)(idx := attr_word e), lock_pa := (lock_pa c)(idx := pa_word pa e),
    cp_log := cp_log c @ [DSB, PrefetchFlush]\<rparr>"
  have run: "pin_mmu_sec idx va pa e c = Inr ?c"
    using assms(1) sec_bits_zero [OF assms(2)] sec_bits_zero [OF assms(3)] i
    by (simp add: pin_mmu_sec_def check_def Let_def lockdown_va_set_def lockdown_pa_set_def lockdown_attr_set_def
        lockdown_va_get_def lockdown_pa_get_def lockdown_attr_get_def cp_emit_def va_word_def pa_word_def attr_word_def)
  have "lockdown_va_get ?c = va_word va e" "lockdown_pa_get ?c = pa_word pa e" "lockdown_attr_get ?c = attr_word e"
    "lockdown_index_set idx ?c = ?c"
    by (simp_all add: lockdown_va_get_def lockdown_pa_get_def lockdown_attr_get_def lockdown_index_set_def i)
  then show ?thesis
    unfolding run using va_fields [OF assms(4,2)] pa_fields [OF assms(4,3)] attr_fields [OF assms(4)]
    by (simp add: lockdown_print_entry_def bit_is_on_def check_def Let_def)
qed


theorem pin_mmu_sec_decodes_witness:
  "\<exists>c'. pin_mmu_sec 3 0x20000000 0x20000000 \<lparr>pin_G = 1, pin_asid = 0, pin_dom = 1, pagesize = 3, AP_perm = 1,
      mem_attr = 4\<rparr> \<lparr>lock_idx = 0, lock_va = \<lambda>_. 0, lock_pa = \<lambda>_. 0, lock_attr = \<lambda>_. 0, dacr = 0, ttbr0 = 0,
      ttbr1 = 0, ttbcr = 0, contextidr = 0, ctrl1 = 0, int_masked = True, cp_log = []\<rparr> = Inr c' \<and> \<not> int_masked c'"
proof -
  have "pin_ok \<lparr>pin_G = 1, pin_asid = 0, pin_dom = 1, pagesize = 3, AP_perm = 1, mem_attr = 4\<rparr>"
    by (simp add: pin_ok_def)
  then show ?thesis
    using pin_mmu_sec_decodes [of 3 "0x20000000" "0x20000000" "\<lparr>pin_G = 1, pin_asid = 0, pin_dom = 1, pagesize = 3,
      AP_perm = 1, mem_attr = 4\<rparr>" "\<lparr>lock_idx = 0, lock_va = \<lambda>_. 0, lock_pa = \<lambda>_. 0, lock_attr = \<lambda>_. 0, dacr = 0,
      ttbr0 = 0, ttbr1 = 0, ttbcr = 0, contextidr = 0, ctrl1 = 0, int_masked = True, cp_log = []\<rparr>"]
    by (auto simp: MB_def)
qed

text \<open>The address space switch follows the sequence of the manual: ASID 0, flush, the table, flush, the new
  ASID.\<close>

lemma pin_mmu_switch_order:
  "n \<noteq> 0 \<Longrightarrow> \<exists>c'. pin_mmu_switch pid asid (c, m, n) = Inr (c', m, n) \<and>
     cp_log c' = cp_log c @ [WrContext (push_bit 8 pid), PrefetchFlush, WrTTBR0 n, PrefetchFlush,
       WrContext (push_bit 8 pid OR (asid AND 0xff))] \<and> ttbr0 c' = n"
  by (simp add: pin_mmu_switch_def check_def Let_def cp_emit_def)

text \<open>A pinned address exists exactly when the translation gives the same page back.\<close>

lemma pin_check_exists_identity:
  assumes "cp_mmu_enabled c" and "va mod MB = 0" and "\<not> bit (xl c va) 0"
  shows "pin_check_exists xl va c = check (va = xl c va AND 0xfff00000) ''va == r''"
proof -
  have z: "i < 20 \<Longrightarrow> \<not> bit va i" for i using mod_MB_bit [OF assms(2), of i] by auto
  have "va AND 0xfffff = 0" unfolding u32_eq_iff all_less_32 by (simp add: bit_simps z)
  moreover have "bits_get va 0 2 = Inr 0"
  proof -
    have "va AND mask 3 = 0" unfolding u32_eq_iff all_less_32 by (simp add: bit_simps z)
    then show ?thesis by (simp add: bits_get_ok del: mask_Suc_exp)
  qed
  ultimately show ?thesis
    using assms by (simp add: pin_check_exists_def tlb_contains_va_def bit_is_on_def check_def and_one_eq_bit0 Let_def)
qed

end
