(* ===== verification/Utf8.thy ===== *)
theory Utf8
  imports Prelude
begin

text \<open>
  Encoding and decoding of UTF-8, \<open>19-fat32-readonly/code/external-code/unicode-utf8.c\<close>, which the
  long file names of the FAT32 code go through.  A \<open>char\<close> is an unsigned byte, as on the ARM; a returned
  C string is the list of its bytes without the final zero.
\<close>

record utf_t =
  u_mask :: u8
  u_lead :: u8
  u_beg :: u32
  u_end :: u32
  bits_stored :: nat

text \<open>The table ends in a pointer to a zeroed struct, not in a null pointer.\<close>

definition utf :: "utf_t list" where
  "utf = [
    \<lparr>u_mask = 0b00111111, u_lead = 0b10000000, u_beg = 0, u_end = 0, bits_stored = 6\<rparr>,
    \<lparr>u_mask = 0b01111111, u_lead = 0b00000000, u_beg = 0, u_end = 0x7f, bits_stored = 7\<rparr>,
    \<lparr>u_mask = 0b00011111, u_lead = 0b11000000, u_beg = 0x80, u_end = 0x7ff, bits_stored = 5\<rparr>,
    \<lparr>u_mask = 0b00001111, u_lead = 0b11100000, u_beg = 0x800, u_end = 0xffff, bits_stored = 4\<rparr>,
    \<lparr>u_mask = 0b00000111, u_lead = 0b11110000, u_beg = 0x10000, u_end = 0x10ffff, bits_stored = 3\<rparr>,
    \<lparr>u_mask = 0, u_lead = 0, u_beg = 0, u_end = 0, bits_stored = 0\<rparr>]"

text \<open>The scans stop at a null pointer that is not there: past the table they read out of bounds.\<close>

fun cp_scan :: "utf_t list \<Rightarrow> int \<Rightarrow> u32 \<Rightarrow> int res" where
  "cp_scan [] len cp = Inl OutOfBounds"
| "cp_scan (u # us) len cp = (if u_beg u \<le> cp \<and> cp \<le> u_end u then Inr len else cp_scan us (len + 1) cp)"

definition codepoint_len :: "u32 \<Rightarrow> int res" where
  "codepoint_len cp = bnd (cp_scan utf 0 cp) (\<lambda>len. Inr (if 4 < len then - 1 else len))"

fun lead_scan :: "utf_t list \<Rightarrow> int \<Rightarrow> u8 \<Rightarrow> int res" where
  "lead_scan [] len ch = Inl OutOfBounds"
| "lead_scan (u # us) len ch = (if ch AND NOT (u_mask u) = u_lead u then Inr len else lead_scan us (len + 1) ch)"

definition utf8_len :: "u8 \<Rightarrow> int res" where
  "utf8_len ch = bnd (lead_scan utf 0 ch) (\<lambda>len. Inr (if 4 < len then - 1 else len))"

text \<open>\<open>cp >> shift & mask | lead\<close>, stored in a byte; a shift by a negative count is undefined.\<close>

definition pack :: "u32 \<Rightarrow> int \<Rightarrow> utf_t \<Rightarrow> u8 res" where
  "pack cp shift u =
     (if shift < 0 then Inl OutOfBounds
      else Inr (ucast ((drop_bit (nat shift) cp AND ucast (u_mask u)) OR ucast (u_lead u))))"

fun pack_rest :: "nat \<Rightarrow> u32 \<Rightarrow> int \<Rightarrow> u8 list res" where
  "pack_rest 0 cp shift = Inr []"
| "pack_rest (Suc n) cp shift =
     bnd (pack cp shift (utf ! 0)) (\<lambda>b. bnd (pack_rest n cp (shift - 6)) (\<lambda>bs. Inr (b # bs)))"

text \<open>\<open>None\<close> is the null pointer; the string ends at the first zero byte.\<close>

definition to_utf8 :: "u32 \<Rightarrow> u8 list option res" where
  "to_utf8 cp =
     bnd (codepoint_len cp) (\<lambda>bytes.
     if bytes < 0 then Inr None
     else let shift = 6 * (bytes - 1) in
       bnd (pack cp shift (utf ! nat bytes)) (\<lambda>b.
       bnd (pack_rest (nat (bytes - 1)) cp (shift - 6)) (\<lambda>bs.
       Inr (Some (takeWhile (\<lambda>c. c \<noteq> 0) (b # bs))))))"

fun unpack_rest :: "nat \<Rightarrow> u8 list \<Rightarrow> int \<Rightarrow> u32 \<Rightarrow> u32 res" where
  "unpack_rest 0 cs shift codep = Inr codep"
| "unpack_rest (Suc n) cs shift codep =
     bnd (arr_get cs 0) (\<lambda>c.
     unpack_rest n (tl cs) (shift - 6) (codep OR push_bit (nat (shift - 6)) (ucast (c AND u_mask (utf ! 0)))))"

definition to_cp :: "u8 list \<Rightarrow> u32 res" where
  "to_cp chr =
     bnd (arr_get chr 0) (\<lambda>c.
     bnd (utf8_len c) (\<lambda>bytes.
     if bytes < 0 then Inr 0
     else let shift = 6 * (bytes - 1) in
       if shift < 0 then Inl OutOfBounds
       else unpack_rest (nat (bytes - 1)) (tl chr) shift (push_bit (nat shift) (ucast (c AND u_mask (utf ! nat bytes))))))"

subsection \<open>Decoding inverts encoding\<close>

lemma lead_class:
  "\<not> bit ch 7 \<Longrightarrow> utf8_len ch = Inr 1"
  "bit ch 7 \<Longrightarrow> bit ch 6 \<Longrightarrow> \<not> bit ch 5 \<Longrightarrow> utf8_len ch = Inr 2"
  "bit ch 7 \<Longrightarrow> bit ch 6 \<Longrightarrow> bit ch 5 \<Longrightarrow> \<not> bit ch 4 \<Longrightarrow> utf8_len ch = Inr 3"
  "bit ch 7 \<Longrightarrow> bit ch 6 \<Longrightarrow> bit ch 5 \<Longrightarrow> bit ch 4 \<Longrightarrow> \<not> bit ch 3 \<Longrightarrow> utf8_len ch = Inr 4"
  by (simp_all add: utf8_len_def utf_def u8_eq_iff all_less_8 bit_simps)

text \<open>One encoded byte.\<close>

definition ebyte :: "u32 \<Rightarrow> nat \<Rightarrow> nat \<Rightarrow> u8" where
  "ebyte cp s k = ucast ((drop_bit s cp AND ucast (u_mask (utf ! k))) OR ucast (u_lead (utf ! k)))"

lemma pack_ebyte: "0 \<le> s \<Longrightarrow> pack cp s (utf ! k) = Inr (ebyte cp (nat s) k)"
  by (simp add: pack_def ebyte_def)

lemma ebyte_bits:
  "\<forall>i < 8. bit (ebyte cp s 0) i = (i = 7 \<or> i < 6 \<and> bit cp (s + i))"
  "\<forall>i < 8. bit (ebyte cp s 1) i = (i < 7 \<and> bit cp (s + i))"
  "\<forall>i < 8. bit (ebyte cp s 2) i = (i = 7 \<or> i = 6 \<or> i < 5 \<and> bit cp (s + i))"
  "\<forall>i < 8. bit (ebyte cp s 3) i = (i = 7 \<or> i = 6 \<or> i = 5 \<or> i < 4 \<and> bit cp (s + i))"
  "\<forall>i < 8. bit (ebyte cp s 4) i = (i = 7 \<or> i = 6 \<or> i = 5 \<or> i = 4 \<or> i < 3 \<and> bit cp (s + i))"
  unfolding all_less_8 by (simp_all add: ebyte_def utf_def bit_simps)

definition enc :: "u32 \<Rightarrow> u8 list" where
  "enc cp =
    (if cp \<le> 0x7f then [ebyte cp 0 1]
     else if cp \<le> 0x7ff then [ebyte cp 6 2, ebyte cp 0 0]
     else if cp \<le> 0xffff then [ebyte cp 12 3, ebyte cp 6 0, ebyte cp 0 0]
     else [ebyte cp 18 4, ebyte cp 12 0, ebyte cp 6 0, ebyte cp 0 0])"

lemma codepoint_len_eq:
  assumes "cp \<noteq> 0" and "cp \<le> 0x10ffff"
  shows "codepoint_len cp = Inr (if cp \<le> 0x7f then 1 else if cp \<le> 0x7ff then 2 else if cp \<le> 0xffff then 3 else 4)"
  using assms by (auto simp: codepoint_len_def utf_def word_le_nat_alt unat_gt_0)

lemma ebyte_nonzero: "k \<in> {0, 2, 3, 4} \<Longrightarrow> ebyte cp s k \<noteq> 0"
proof -
  assume "k \<in> {0, 2, 3, 4}"
  then have "bit (ebyte cp s k) 7" using ebyte_bits [of cp s] by (auto simp del: One_nat_def)
  then show ?thesis by (metis bit_0_eq bot_apply bot_bool_def)
qed

lemma ebyte_ascii: "cp \<noteq> 0 \<Longrightarrow> cp \<le> 0x7f \<Longrightarrow> ebyte cp 0 1 \<noteq> 0"
proof
  assume c: "cp \<noteq> 0" "cp \<le> 0x7f" and "ebyte cp 0 1 = 0"
  then have z: "i < 7 \<Longrightarrow> \<not> bit cp i" for i using ebyte_bits(2) [of cp 0] by (auto simp: u8_eq_iff)
  have "unat cp < 2 ^ 7" using c(2) by (simp add: word_le_nat_alt)
  then have "\<not> bit cp i" for i using z u32_bound_bit [of cp 7 i] by blast
  then show False using c(1) by (auto intro: bit_word_eqI)
qed

lemma to_utf8_enc:
  assumes "cp \<noteq> 0" and "cp \<le> 0x10ffff"
  shows "to_utf8 cp = Inr (Some (enc cp))"
  using assms ebyte_ascii [of cp]
  by (auto simp: to_utf8_def codepoint_len_eq Let_def pack_ebyte enc_def ebyte_nonzero numeral_eq_Suc nat_numeral)


lemma ebyte_bit [simp]:
  "i < 8 \<Longrightarrow> bit (ebyte cp s 0) i = (i = 7 \<or> i < 6 \<and> bit cp (s + i))"
  "i < 8 \<Longrightarrow> bit (ebyte cp s (Suc 0)) i = (i < 7 \<and> bit cp (s + i))"
  "i < 8 \<Longrightarrow> bit (ebyte cp s 2) i = (i = 7 \<or> i = 6 \<or> i < 5 \<and> bit cp (s + i))"
  "i < 8 \<Longrightarrow> bit (ebyte cp s 3) i = (i = 7 \<or> i = 6 \<or> i = 5 \<or> i < 4 \<and> bit cp (s + i))"
  "i < 8 \<Longrightarrow> bit (ebyte cp s 4) i = (i = 7 \<or> i = 6 \<or> i = 5 \<or> i = 4 \<or> i < 3 \<and> bit cp (s + i))"
  using ebyte_bits [of cp s] by auto

lemma unpack_2: "unpack_rest 2 (a # b # cs) s w =
    Inr ((w OR push_bit (nat (s - 6)) (ucast (a AND u_mask (utf ! 0)))) OR
      push_bit (nat (s - 12)) (ucast (b AND u_mask (utf ! 0))))"
  by (simp add: numeral_2_eq_2)

lemma unpack_3: "unpack_rest 3 (a # b # c # cs) s w =
    Inr (((w OR push_bit (nat (s - 6)) (ucast (a AND u_mask (utf ! 0)))) OR
      push_bit (nat (s - 12)) (ucast (b AND u_mask (utf ! 0)))) OR
      push_bit (nat (s - 18)) (ucast (c AND u_mask (utf ! 0))))"
  by (simp add: numeral_3_eq_3)

lemma to_cp_1: "cp \<le> 0x7f \<Longrightarrow> to_cp (ebyte cp 0 1 # cs) = Inr cp"
proof -
  assume "cp \<le> 0x7f"
  then have "unat cp < 2 ^ 7" by (simp add: word_le_nat_alt)
  then have b: "7 \<le> i \<Longrightarrow> \<not> bit cp i" for i using u32_bound_bit [of cp 7 i] by auto
  have "ucast (ebyte cp 0 1 AND u_mask (utf ! 1)) = cp"
    unfolding u32_eq_iff all_less_32 by (simp add: b bit_simps utf_def numeral_2_eq_2 [symmetric])
  then show ?thesis using lead_class(1) [of "ebyte cp 0 1"] by (simp add: to_cp_def Let_def)
qed

lemma to_cp_2: "cp \<le> 0x7ff \<Longrightarrow> to_cp (ebyte cp 6 2 # ebyte cp 0 0 # cs) = Inr cp"
proof -
  assume "cp \<le> 0x7ff"
  then have "unat cp < 2 ^ 11" by (simp add: word_le_nat_alt)
  then have b: "11 \<le> i \<Longrightarrow> \<not> bit cp i" for i using u32_bound_bit [of cp 11 i] by auto
  have "push_bit 6 (ucast (ebyte cp 6 2 AND u_mask (utf ! 2))) OR ucast (ebyte cp 0 0 AND u_mask (utf ! 0)) = cp"
    unfolding u32_eq_iff all_less_32 by (simp add: b bit_simps utf_def numeral_2_eq_2 [symmetric])
  then show ?thesis using lead_class(2) [of "ebyte cp 6 2"]
    by (simp add: to_cp_def Let_def)
qed


lemma to_cp_3: "cp \<le> 0xffff \<Longrightarrow> to_cp (ebyte cp 12 3 # ebyte cp 6 0 # ebyte cp 0 0 # cs) = Inr cp"
proof -
  assume "cp \<le> 0xffff"
  then have "unat cp < 2 ^ 16" by (simp add: word_le_nat_alt)
  then have b: "16 \<le> i \<Longrightarrow> \<not> bit cp i" for i using u32_bound_bit [of cp 16 i] by auto
  have "(push_bit 12 (ucast (ebyte cp 12 3 AND u_mask (utf ! 3))) OR
      push_bit 6 (ucast (ebyte cp 6 0 AND u_mask (utf ! 0)))) OR ucast (ebyte cp 0 0 AND u_mask (utf ! 0)) = cp"
    unfolding u32_eq_iff all_less_32 by (simp add: b bit_simps utf_def numeral_2_eq_2 [symmetric])
  then show ?thesis using lead_class(3) [of "ebyte cp 12 3"] by (simp add: to_cp_def Let_def unpack_2 unpack_3)
qed

lemma to_cp_4: "cp \<le> 0x10ffff \<Longrightarrow> to_cp (ebyte cp 18 4 # ebyte cp 12 0 # ebyte cp 6 0 # ebyte cp 0 0 # cs) = Inr cp"
proof -
  assume "cp \<le> 0x10ffff"
  then have "unat cp < 2 ^ 21" by (simp add: word_le_nat_alt)
  then have b: "21 \<le> i \<Longrightarrow> \<not> bit cp i" for i using u32_bound_bit [of cp 21 i] by auto
  have "((push_bit 18 (ucast (ebyte cp 18 4 AND u_mask (utf ! 4))) OR
      push_bit 12 (ucast (ebyte cp 12 0 AND u_mask (utf ! 0)))) OR
      push_bit 6 (ucast (ebyte cp 6 0 AND u_mask (utf ! 0)))) OR ucast (ebyte cp 0 0 AND u_mask (utf ! 0)) = cp"
    unfolding u32_eq_iff all_less_32 by (simp add: b bit_simps utf_def numeral_2_eq_2 [symmetric])
  then show ?thesis using lead_class(4) [of "ebyte cp 18 4"] by (simp add: to_cp_def Let_def unpack_2 unpack_3)
qed

text \<open>UTF-8: every code point from 1 to 0x10ffff is encoded in one to four bytes without a zero byte,
  and decoding the bytes gives the code point back, whatever follows them.\<close>
lemma to_cp_to_utf8:
  assumes "cp \<noteq> 0" and "cp \<le> 0x10ffff"
  shows "\<exists>bs. to_utf8 cp = Inr (Some bs) \<and> 0 < length bs \<and> length bs \<le> 4 \<and> 0 \<notin> set bs \<and>
    to_cp (bs @ rest) = Inr cp"
proof (intro exI [of _ "enc cp"] conjI)
  show "to_utf8 cp = Inr (Some (enc cp))" using assms by (rule to_utf8_enc)
  show "0 \<notin> set (enc cp)" using assms ebyte_ascii [of cp] by (auto simp: enc_def ebyte_nonzero dest: sym)
  show "to_cp (enc cp @ rest) = Inr cp"
    using assms(2) to_cp_1 to_cp_2 to_cp_3 to_cp_4 by (auto simp: enc_def)
qed (auto simp: enc_def)

lemma to_cp_to_utf8_example: "\<exists>bs. to_utf8 0x20ac = Inr (Some bs) \<and> to_cp (bs @ [0]) = Inr 0x20ac"
proof -
  have "(0x20ac :: u32) \<noteq> 0" and "(0x20ac :: u32) \<le> 0x10ffff" by (simp_all add: word_le_nat_alt)
  then show ?thesis using to_cp_to_utf8 [of "0x20ac" "[0]"] by blast
qed

text \<open>Beyond the last code point the scan leaves the table, where the code means to return -1.\<close>

lemma codepoint_len_beyond: "0x10ffff < cp \<Longrightarrow> codepoint_len cp = Inl OutOfBounds"
  by (auto simp: codepoint_len_def utf_def word_le_nat_alt word_less_nat_alt)

end
