(* ===== verification/Fat32.thy ===== *)
theory Fat32
  imports Utf8
begin

text \<open>
  The FAT32 library of lab 19: the master boot record (\<open>mbr-helpers.c\<close>), the on-disk structures and
  their checks, FAT entries, 8.3 names and directory lookup (\<open>fat32-helpers.c\<close>), long file names
  (\<open>fat32-lfn-helpers.c\<close>), the conversion of entries (\<open>fat32.c\<close>) and the SD card veneer (\<open>pi-sd.c\<close>).
  C strings are lists of their bytes without the final zero.  Output is left out, the checks made while
  printing are kept.
\<close>

subsection \<open>Master boot record\<close>

record mbr =
  mbr_code :: "u8 list"
  part_tab1 :: "u8 list"
  part_tab2 :: "u8 list"
  part_tab3 :: "u8 list"
  part_tab4 :: "u8 list"
  sigval :: u16

record partition_entry =
  bootable_p :: u8
  chs_start :: "24 word"
  part_type :: u8
  chs_end :: "24 word"
  lba_start :: u32
  part_nsec :: u32

definition mbr_part_is_fat32 :: "u8 \<Rightarrow> bool" where
  "mbr_part_is_fat32 t \<longleftrightarrow> t = 0xb \<or> t = 0xc"

definition le24 :: "u8 \<Rightarrow> u8 \<Rightarrow> u8 \<Rightarrow> 24 word" where
  "le24 a b c = ucast (of_le32 a b c 0)"

text \<open>Copying 16 bytes into the struct.\<close>

definition part_of_bytes :: "u8 list \<Rightarrow> partition_entry" where
  "part_of_bytes e =
     \<lparr>bootable_p = e ! 0, chs_start = le24 (e ! 1) (e ! 2) (e ! 3), part_type = e ! 4,
      chs_end = le24 (e ! 5) (e ! 6) (e ! 7), lba_start = of_le32 (e ! 8) (e ! 9) (e ! 10) (e ! 11),
      part_nsec = of_le32 (e ! 12) (e ! 13) (e ! 14) (e ! 15)\<rparr>"

definition mbr_partition_empty_raw :: "u8 list \<Rightarrow> bool" where
  "mbr_partition_empty_raw part = (\<forall>b \<in> set (take 16 part). b = 0)"

definition mbr_check :: "mbr \<Rightarrow> unit res" where
  "mbr_check m =
     bnd (check (sigval m = 0xAA55) ''mbr->sigval == 0xAA55'') (\<lambda>_.
     let p = part_of_bytes (part_tab1 m) in
     bnd (check (mbr_part_is_fat32 (part_type p)) ''mbr_part_is_fat32(p.part_type)'') (\<lambda>_.
     bnd (check (\<not> mbr_partition_empty_raw (part_tab1 m)) ''!empty(part_tab1)'') (\<lambda>_.
     bnd (check (mbr_partition_empty_raw (part_tab2 m)) ''empty(part_tab2)'') (\<lambda>_.
     bnd (check (mbr_partition_empty_raw (part_tab3 m)) ''empty(part_tab3)'') (\<lambda>_.
     check (mbr_partition_empty_raw (part_tab4 m)) ''empty(part_tab4)'')))))"

text \<open>The four tables are adjacent.\<close>

definition mbr_get_partition :: "mbr \<Rightarrow> u32 \<Rightarrow> partition_entry res" where
  "mbr_get_partition m partno =
     bnd (check (partno < 4) ''partno < 4'') (\<lambda>_.
     let e = part_tab1 m @ part_tab2 m @ part_tab3 m @ part_tab4 m in
     Inr (part_of_bytes (take 16 (drop (16 * unat partno) e))))"

definition mbr_part_str :: "u8 \<Rightarrow> string res" where
  "mbr_part_str x =
     (case map_of [(0x00, ''Empty''), (0x01, ''FAT12 - CHS''), (0x04, ''FAT16 - 16-32 MB - CHS''),
        (0x05, ''Microsoft Extended - CHS''), (0x06, ''FAT16 - 32 MB-2 GB - CHS''), (0x07, ''NTFS''),
        (0x0b, ''FAT32 - CHS''), (0x0c, ''FAT32 - LBA''), (0x0e, ''FAT16 - 32 MB-2 GB - LBA''),
        (0x0f, ''Microsoft Extended - LBA''), (0x11, ''Hidden FAT12 - CHS''),
        (0x14, ''Hidden FAT16 - 16-32 MB - CHS''), (0x16, ''Hidden FAT16 - 32 MB-2 GB - CHS''),
        (0x1b, ''Hidden FAT32 - CHS''), (0x1c, ''Hidden FAT32 - LBA''),
        (0x1e, ''Hidden FAT16 - 32 MB-2 GB - LBA''), (0x42, ''Microsoft MBR - Dynamic Disk''),
        (0x82, ''Solaris x86 or Linux swap?''), (0x83, ''Linux''), (0x84, ''Hibernation''),
        (0x85, ''Linux Extended''), (0x86, ''NTFS Volume Set''), (0x87, ''NTFS Volume Set''),
        (0xa0, ''Hibernation''), (0xa1, ''Hibernation''), (0xa5, ''FreeBSD''), (0xa6, ''OpenBSD''),
        (0xa8, ''Mac OSX''), (0xa9, ''NetBSD''), (0xab, ''Mac OSX Boot''), (0xb7, ''BSDI''),
        (0xb8, ''BSDI swap''), (0xee, ''EFI GPT Disk''), (0xef, ''EFI System Partition''),
        (0xfb, ''Vmware File System''), (0xfc, ''Vmware swap'')] x of
        Some s \<Rightarrow> Inr s
      | None \<Rightarrow> Inl (Panic ''unknown type''))"

definition mbr_partition_print :: "partition_entry \<Rightarrow> unit res" where
  "mbr_partition_print p =
     bnd (mbr_part_str (part_type p)) (\<lambda>_.
     check (part_type p = 0xb \<or> part_type p = 0xc) ''p->part_type == 0xb || p->part_type == 0xc'')"

subsection \<open>Volume id and file system information\<close>

record fat32_boot_sec =
  asm_code :: "u8 list"
  oem :: "u8 list"
  bytes_per_sec :: u16
  sec_per_cluster :: u8
  reserved_area_nsec :: u16
  nfats :: u8
  max_files :: u16
  fs_nsec :: u16
  media_type :: u8
  zero_f :: u16
  sec_per_track :: u16
  n_heads :: u16
  hidden_secs :: u32
  nsec_in_fs :: u32
  nsec_per_fat :: u32
  mirror_flags :: u16
  fs_version :: u16
  first_cluster :: u32
  info_sec_num :: u16
  backup_boot_loc :: u16
  logical_drive_num :: u8
  extended_sig :: u8
  serial_num :: u32
  volume_label :: "u8 list"
  fs_type :: "u8 list"
  boot_sig :: u16

definition is_pow2 :: "u32 \<Rightarrow> bool" where
  "is_pow2 x \<longleftrightarrow> x AND (- x) = x"

definition fat32_volume_id_check :: "fat32_boot_sec \<Rightarrow> unit res" where
  "fat32_volume_id_check b =
     bnd (check (bytes_per_sec b = 512) ''b->bytes_per_sec == 512'') (\<lambda>_.
     bnd (check (nfats b = 2) ''b->nfats == 2'') (\<lambda>_.
     bnd (check (boot_sig b = 0xAA55) ''b->sig == 0xAA55'') (\<lambda>_.
     bnd (check (is_pow2 (ucast (sec_per_cluster b))) ''is_pow2(b->sec_per_cluster)'') (\<lambda>_.
     let n = bytes_per_sec b in
     bnd (check (n = 512 \<or> n = 1024 \<or> n = 2048 \<or> n = 4096) ''n == 512 || n == 1024 || n == 2048 || n == 4096'') (\<lambda>_.
     bnd (check (max_files b = 0) ''!b->max_files'') (\<lambda>_.
     bnd (check (fs_nsec b = 0) ''b->fs_nsec == 0'') (\<lambda>_.
     bnd (check (zero_f b = 0) ''b->zero == 0'') (\<lambda>_.
     bnd (check (nsec_in_fs b \<noteq> 0) ''b->nsec_in_fs != 0'') (\<lambda>_.
     bnd (check (info_sec_num b = 1) ''b->info_sec_num == 1'') (\<lambda>_.
     bnd (check (backup_boot_loc b = 6) ''b->backup_boot_loc == 6'') (\<lambda>_.
     check (extended_sig b = 0x29) ''b->extended_sig == 0x29'')))))))))))"

text \<open>Printing the volume id writes \<open>oem[11]\<close>, behind the 9 bytes of \<open>oem\<close>.\<close>

definition fat32_volume_id_print :: "fat32_boot_sec \<Rightarrow> unit res" where
  "fat32_volume_id_print b =
     bnd (arr_set (take 8 (oem b) @ [0]) 11 0) (\<lambda>_. fat32_volume_id_check b)"

record fsinfo =
  sig1 :: u32
  sig2 :: u32
  free_cluster_count :: u32
  next_free_cluster :: u32
  sig3 :: u32

definition fat32_fsinfo_check :: "fsinfo \<Rightarrow> unit res" where
  "fat32_fsinfo_check f =
     bnd (check (sig1 f = 0x41615252) ''info->sig1'') (\<lambda>_.
     bnd (check (sig2 f = 0x61417272) ''info->sig2'') (\<lambda>_.
     check (sig3 f = 0xaa550000) ''info->sig3''))"

subsection \<open>Entries of the file allocation table\<close>

definition FREE_CLUSTER :: u32 where "FREE_CLUSTER = 0"
definition RESERVED_CLUSTER :: u32 where "RESERVED_CLUSTER = 1"
definition BAD_CLUSTER :: u32 where "BAD_CLUSTER = 0xFFFFFF7"
definition LAST_CLUSTER :: u32 where "LAST_CLUSTER = 0xFFFFFF8"
definition USED_CLUSTER :: u32 where "USED_CLUSTER = 0xFFFFFF9"

definition fat32_fat_entry_type_str :: "u32 \<Rightarrow> string res" where
  "fat32_fat_entry_type_str x =
     (if x = FREE_CLUSTER then Inr ''FREE_CLUSTER''
      else if x = RESERVED_CLUSTER then Inr ''RESERVED_CLUSTER''
      else if x = BAD_CLUSTER then Inr ''BAD_CLUSTER''
      else if x = LAST_CLUSTER then Inr ''LAST_CLUSTER''
      else if x = USED_CLUSTER then Inr ''USED_CLUSTER''
      else Inl (Panic ''bad value''))"

definition fat32_fat_entry_type :: "u32 \<Rightarrow> u32 res" where
  "fat32_fat_entry_type x0 =
     (let x = drop_bit 4 (push_bit 4 x0) in
      if x = FREE_CLUSTER \<or> x = RESERVED_CLUSTER \<or> x = BAD_CLUSTER then Inr x
      else if 0x2 \<le> x \<and> x \<le> 0xFFFFFEF then Inr USED_CLUSTER
      else if 0xFFFFFF0 \<le> x \<and> x \<le> 0xFFFFFF6 then Inl (Panic ''reserved value'')
      else if 0xFFFFFF8 \<le> x \<and> x \<le> 0xFFFFFFF then Inr LAST_CLUSTER
      else Inl (Panic ''impossible type value''))"

subsection \<open>Directory entries\<close>

definition FAT32_RO :: u32 where "FAT32_RO = 0x01"
definition FAT32_HIDDEN :: u32 where "FAT32_HIDDEN = 0x02"
definition FAT32_SYSTEM_FILE :: u32 where "FAT32_SYSTEM_FILE = 0x04"
definition FAT32_VOLUME_LABEL :: u32 where "FAT32_VOLUME_LABEL = 0x08"
definition FAT32_LONG_FILE_NAME :: u32 where "FAT32_LONG_FILE_NAME = 0x0f"
definition FAT32_DIR :: u32 where "FAT32_DIR = 0x10"
definition FAT32_ARCHIVE :: u32 where "FAT32_ARCHIVE = 0x20"

record fat32_dirent =
  filename :: "u8 list"
  attr :: u8
  reserved0 :: u8
  ctime_tenths :: u8
  ctime :: u16
  create_date :: u16
  access_date :: u16
  hi_start :: u16
  mod_time :: u16
  mod_date :: u16
  lo_start :: u16
  file_nbytes :: u32

record lfn_dir =
  seqno :: u8
  name1_5 :: "u8 list"
  lfn_attr :: u8
  lfn_reserved :: u8
  cksum :: u8
  name6_11 :: "u8 list"
  reserved1 :: u16
  name12_13 :: "u8 list"

definition le16 :: "u16 \<Rightarrow> u8 list" where
  "le16 w = [ucast w, ucast (drop_bit 8 w)]"

text \<open>The cast of a directory entry to a long file name entry: the same 32 bytes.\<close>

definition as_lfn :: "fat32_dirent \<Rightarrow> lfn_dir" where
  "as_lfn d =
     \<lparr>seqno = filename d ! 0, name1_5 = take 10 (drop 1 (filename d)), lfn_attr = attr d,
      lfn_reserved = reserved0 d, cksum = ctime_tenths d,
      name6_11 = le16 (ctime d) @ le16 (create_date d) @ le16 (access_date d) @ le16 (hi_start d) @
        le16 (mod_time d) @ le16 (mod_date d),
      reserved1 = lo_start d, name12_13 = le32 (file_nbytes d)\<rparr>"

definition fat32_cluster_id :: "fat32_dirent \<Rightarrow> u32" where
  "fat32_cluster_id d = push_bit 16 (ucast (hi_start d)) OR ucast (lo_start d)"

definition fat32_is_dir :: "fat32_dirent \<Rightarrow> bool" where
  "fat32_is_dir d \<longleftrightarrow> ucast (attr d) = FAT32_DIR"

definition fat32_dirent_is_lfn :: "fat32_dirent \<Rightarrow> bool" where
  "fat32_dirent_is_lfn d \<longleftrightarrow> ucast (attr d) = FAT32_LONG_FILE_NAME"

definition fat32_is_attr :: "u32 \<Rightarrow> u32 \<Rightarrow> bool" where
  "fat32_is_attr x flag = (if x = FAT32_LONG_FILE_NAME then x = flag else x AND flag = flag)"

definition is_attr :: "u32 \<Rightarrow> u32 \<Rightarrow> bool" where
  "is_attr x flag = (if x = FAT32_LONG_FILE_NAME then x = flag else x AND flag = flag)"

definition lfn_is_last :: "u8 \<Rightarrow> bool" where
  "lfn_is_last n \<longleftrightarrow> n AND push_bit 6 1 \<noteq> 0"

definition lfn_is_first :: "u8 \<Rightarrow> bool" where
  "lfn_is_first n \<longleftrightarrow> n AND NOT (push_bit 6 1) = 1"

definition lfn_is_deleted :: "u8 \<Rightarrow> bool" where
  "lfn_is_deleted n \<longleftrightarrow> n AND 0xe5 = 0xe5"

definition fat32_dirent_is_deleted_lfn :: "fat32_dirent \<Rightarrow> bool res" where
  "fat32_dirent_is_deleted_lfn d =
     bnd (check (ucast (attr d) = FAT32_LONG_FILE_NAME) ''d->attr == FAT32_LONG_FILE_NAME'') (\<lambda>_.
     Inr (lfn_is_deleted (seqno (as_lfn d))))"

definition fat32_dirent_free :: "fat32_dirent \<Rightarrow> bool res" where
  "fat32_dirent_free d =
     (let x = filename d ! 0 in
      if ucast (attr d) = FAT32_LONG_FILE_NAME then fat32_dirent_is_deleted_lfn d
      else Inr (x = 0 \<or> x = 0xe5))"

definition fat32_dir_attr_str :: "u32 \<Rightarrow> string res" where
  "fat32_dir_attr_str a0 =
     (if a0 = FAT32_LONG_FILE_NAME then Inr '' LONG FILE NAME''
      else
        let b1 = (if fat32_is_attr a0 FAT32_RO then ''R/O'' else []);
            a1 = (if fat32_is_attr a0 FAT32_RO then a0 AND NOT FAT32_RO else a0);
            b2 = (if fat32_is_attr a1 FAT32_HIDDEN then b1 @ '' HIDDEN'' else b1);
            a2 = (if fat32_is_attr a1 FAT32_HIDDEN then a1 AND NOT FAT32_HIDDEN else a1)
        in if a2 = FAT32_SYSTEM_FILE then Inr (b2 @ '' SYSTEM FILE'')
           else if a2 = FAT32_VOLUME_LABEL then Inr (b2 @ '' VOLUME LABEL'')
           else if a2 = FAT32_DIR then Inr (b2 @ '' DIR'')
           else if a2 = FAT32_ARCHIVE then Inr (b2 @ '' ARCHIVE'')
           else Inl (Panic ''unhandled attr''))"

subsection \<open>8.3 names\<close>

abbreviation cSPACE :: u8 where "cSPACE \<equiv> 0x20"
abbreviation cDOT :: u8 where "cDOT \<equiv> 0x2e"

text \<open>\<open>trim_idx s (i + 1)\<close> is the loop that looks for the last non-space at or below \<open>i\<close>: the index behind
  it, or \<open>None\<close> when the loop runs down to -1.\<close>

fun trim_idx :: "u8 list \<Rightarrow> nat \<Rightarrow> nat option" where
  "trim_idx s 0 = None"
| "trim_idx s (Suc i) = (if s ! i \<noteq> cSPACE then Some (Suc i) else trim_idx s i)"

text \<open>The buffer up to the final zero; with eight spaces the dot is written to \<open>s[-1]\<close>.\<close>

definition to_8dot3 :: "u8 list \<Rightarrow> u8 list res" where
  "to_8dot3 p =
     (case trim_idx (take 8 p) 8 of
        None \<Rightarrow> Inl OutOfBounds
      | Some i \<Rightarrow> Inr (take i p @ cDOT # take 3 (drop 8 p)))"

definition fat32_dirent_name :: "fat32_dirent \<Rightarrow> u8 list res" where
  "fat32_dirent_name d = bnd (to_8dot3 (filename d)) (\<lambda>s. Inr (takeWhile (\<lambda>c. c \<noteq> 0) s))"

text \<open>A letter or a digit.\<close>

definition alnum :: "u8 \<Rightarrow> bool" where
  "alnum c \<longleftrightarrow> \<not> ((c < 0x41 \<or> 0x5a < c) \<and> (c < 0x30 \<or> 0x39 < c))"

definition has_dot :: "u8 list \<Rightarrow> bool" where
  "has_dot name \<longleftrightarrow> (\<exists>i < length name. name ! i = cDOT)"

definition fat32_is_valid_name :: "u8 list \<Rightarrow> bool" where
  "fat32_is_valid_name name =
     (let n = length name in
      if has_dot name then
        if 12 < n then False
        else if n < 5 then False
        else if name ! (n - 4) \<noteq> cDOT then False
        else \<forall>i < n. \<not> alnum (name ! i) \<longrightarrow> i = n - 4
      else if 8 < n then False
      else if n < 1 then False
      else \<forall>i < n. alnum (name ! i))"

definition overwrite :: "u8 list \<Rightarrow> nat \<Rightarrow> u8 list \<Rightarrow> u8 list" where
  "overwrite dst i src = take i dst @ src @ drop (i + length src) dst"

definition fat32_dirent_set_name :: "fat32_dirent \<Rightarrow> u8 list \<Rightarrow> fat32_dirent res" where
  "fat32_dirent_set_name d name =
     (let n = length name in
      bnd (check (fat32_is_valid_name name) ''fat32_is_valid_name(name)'') (\<lambda>_.
      let f = replicate 11 cSPACE in
      Inr (d\<lparr>filename :=
        (if has_dot name then overwrite (overwrite f 0 (take (n - 4) name)) 8 (take 3 (drop (n - 3) name))
         else overwrite f 0 (take n name))\<rparr>)))"

subsection \<open>Lookup\<close>

text \<open>\<open>i\<close> counts the entries passed; -1 is not found.\<close>

fun dir_lookup_from :: "u8 list \<Rightarrow> fat32_dirent list \<Rightarrow> int \<Rightarrow> int res" where
  "dir_lookup_from name [] i = Inr (- 1)"
| "dir_lookup_from name (d # ds) i =
     bnd (fat32_dirent_free d) (\<lambda>free.
     if free \<or> fat32_dirent_is_lfn d then dir_lookup_from name ds (i + 1)
     else if take 11 name = filename d then Inr i
     else dir_lookup_from name ds (i + 1))"

definition fat32_dir_lookup :: "u8 list \<Rightarrow> fat32_dirent list \<Rightarrow> int res" where
  "fat32_dir_lookup name dirs = dir_lookup_from name dirs 0"


subsection \<open>Long file names\<close>

fun lfn_sum :: "u8 list \<Rightarrow> u8 \<Rightarrow> u8" where
  "lfn_sum [] s0 = s0"
| "lfn_sum (b # bs) s0 = lfn_sum bs (push_bit 7 (s0 AND 1) + drop_bit 1 s0 + b)"

definition lfn_checksum :: "u8 list \<Rightarrow> u8" where
  "lfn_checksum p = lfn_sum (take 11 p) 0"

definition lfn_terminator :: "u8 \<Rightarrow> u8 \<Rightarrow> bool" where
  "lfn_terminator a b \<longleftrightarrow> a = 0 \<and> b = 0 \<or> a = 0xff \<and> b = 0xff"

definition code_unit :: "u8 \<Rightarrow> u8 \<Rightarrow> u32" where
  "code_unit a b = ucast a OR push_bit 8 (ucast b)"

text \<open>\<open>buf\<close> is the string built so far in the 512 bytes of \<open>filename\<close>; \<open>strcat\<close> adds the encoded
  character and the final zero.  A null string is dereferenced by \<open>strcat\<close>.\<close>

fun utf8_append_from :: "u8 list \<Rightarrow> u8 list \<Rightarrow> u8 list res" where
  "utf8_append_from buf [] = Inr buf"
| "utf8_append_from buf [a] = Inl OutOfBounds"
| "utf8_append_from buf (a # b # us) =
     (if lfn_terminator a b then Inr buf
      else bnd (to_utf8 (code_unit a b)) (\<lambda>r.
        case r of
          None \<Rightarrow> Inl NullDeref
        | Some s \<Rightarrow>
            if length buf + length s < 512 then utf8_append_from (buf @ s) us else Inl OutOfBounds))"

definition utf8_append :: "u8 list \<Rightarrow> u8 list \<Rightarrow> u8 list res" where
  "utf8_append buf unicode =
     bnd (check (length unicode mod 2 = 0) ''nbytes%2 == 0'') (\<lambda>_. utf8_append_from buf unicode)"

text \<open>The loop runs from the last entry to the first: \<open>lfn_names\<close> takes them in that order.\<close>

fun lfn_names :: "u8 list \<Rightarrow> lfn_dir list \<Rightarrow> u8 list res" where
  "lfn_names buf [] = Inr buf"
| "lfn_names buf (l # ls) =
     bnd (check (ucast (lfn_attr l) = FAT32_LONG_FILE_NAME) ''l->attr == FAT32_LONG_FILE_NAME'') (\<lambda>_.
     bnd (utf8_append buf (name1_5 l)) (\<lambda>b1.
     bnd (utf8_append b1 (name6_11 l)) (\<lambda>b2.
     bnd (utf8_append b2 (name12_13 l)) (\<lambda>b3. lfn_names b3 ls))))"

definition lfn_get_name :: "lfn_dir list \<Rightarrow> u8 list res" where
  "lfn_get_name s = lfn_names [] (rev s)"

fun lfn_check_ents :: "lfn_dir list \<Rightarrow> u8 \<Rightarrow> unit res" where
  "lfn_check_ents [] ck = Inr ()"
| "lfn_check_ents (l # ls) ck =
     bnd (check (\<not> lfn_is_deleted (seqno l)) ''!lfn_is_deleted((s+i)->seqno)'') (\<lambda>_.
     bnd (check (cksum l = ck) ''s[i].cksum == cksum'') (\<lambda>_. lfn_check_ents ls ck))"

definition lfn_print :: "lfn_dir list \<Rightarrow> u8 \<Rightarrow> unit res" where
  "lfn_print s ck =
     (let cnt = length s in
      bnd (check (1 \<le> cnt) ''cnt >= 1'') (\<lambda>_.
      bnd (check (0 < cnt \<and> cnt < 3) ''weird for cs140e if larger!'') (\<lambda>_.
      bnd (lfn_check_ents s ck) (\<lambda>_.
      bnd (check (lfn_is_last (seqno (s ! 0))) ''lfn_is_last(s->seqno)'') (\<lambda>_.
      check (lfn_is_first (seqno (s ! (cnt - 1)))) ''lfn_is_first((s+cnt-1)->seqno)'')))))"

definition lower :: "bool \<Rightarrow> u8 \<Rightarrow> u8" where
  "lower lower_case_p c = (if lower_case_p \<and> 0x41 \<le> c \<and> c \<le> 0x5a then c + 32 else c)"

text \<open>\<open>ds\<close> are the entries from \<open>d\<close> up to \<open>end\<close>; the result is the name and the number of entries passed.\<close>

definition fat32_dir_filename :: "fat32_dirent list \<Rightarrow> (u8 list \<times> nat) res" where
  "fat32_dir_filename ds =
     bnd (arr_get ds 0) (\<lambda>d.
     bnd (fat32_dirent_free d) (\<lambda>free.
     bnd (check (\<not> free) ''!fat32_dirent_free(d)'') (\<lambda>_.
     let x = ucast (attr d) in
     if x = FAT32_LONG_FILE_NAME then
       let cnt = Suc (length (takeWhile fat32_dirent_is_lfn (tl ds))) in
       bnd (check (cnt < length ds) ''cnt < n'') (\<lambda>_.
       let y = ucast (attr (ds ! cnt)) in
       bnd (check (is_attr y FAT32_DIR \<or> is_attr y FAT32_ARCHIVE) ''is_attr(d[cnt].attr, ...)'') (\<lambda>_.
       bnd (lfn_get_name (map as_lfn (take cnt ds))) (\<lambda>name. Inr (name, cnt))))
     else
       bnd (check (is_attr x FAT32_DIR \<or> is_attr x FAT32_ARCHIVE \<or> is_attr x FAT32_VOLUME_LABEL)
         ''is_attr(x, ...)'') (\<lambda>_.
       let lower_case_p = (reserved0 d = 0x18) in
       Inr (map (lower lower_case_p) (List.filter (\<lambda>c. c \<noteq> cSPACE) (take 8 (filename d))) @
         cDOT # map (lower lower_case_p) (take 3 (drop 8 (filename d))), 0)))))"

text \<open>The number of entries consumed.\<close>

definition fat32_lfn_print :: "fat32_dirent list \<Rightarrow> nat \<Rightarrow> nat res" where
  "fat32_lfn_print ds left =
     bnd (arr_get ds 0) (\<lambda>d.
     if ucast (attr d) \<noteq> FAT32_LONG_FILE_NAME then Inr 1
     else let cnt = length (takeWhile fat32_dirent_is_lfn (take left ds)) in
       bnd (check (cnt < left) ''cnt < left'') (\<lambda>_.
       bnd (arr_get ds cnt) (\<lambda>e.
       let y = ucast (attr e) in
       bnd (check (is_attr y FAT32_DIR \<or> is_attr y FAT32_ARCHIVE) ''is_attr(d[cnt].attr, ...)'') (\<lambda>_.
       bnd (lfn_print (map as_lfn (take cnt ds)) (lfn_checksum (filename e))) (\<lambda>_.
       bnd (lfn_get_name (map as_lfn (take cnt ds))) (\<lambda>_. Inr (cnt + 1)))))))"

subsection \<open>Generic entries, and the card\<close>

record pi_dirent =
  pi_name :: "u8 list"
  raw_name :: "u8 list"
  cluster_id :: u32
  is_dir_p :: bool
  pi_nbytes :: u32

definition dirent_convert :: "fat32_dirent \<Rightarrow> pi_dirent res" where
  "dirent_convert d =
     bnd (fat32_dirent_name d) (\<lambda>nm.
     Inr \<lparr>pi_name = nm, raw_name = filename d, cluster_id = fat32_cluster_id d, is_dir_p = fat32_is_dir d,
          pi_nbytes = file_nbytes d\<rparr>)"

text \<open>The driver's \<open>sd_init\<close>, \<open>sd_readblock\<close> and \<open>sd_writeblock\<close> are parameters over the card's state;
  the second returns the number of bytes read and the bytes.  \<open>init_p\<close> is the flag of \<open>pi-sd.c\<close>.\<close>

record 'c sd_driver =
  sd_init :: "'c \<Rightarrow> bool \<times> 'c"
  sd_readblock :: "u32 \<Rightarrow> u32 \<Rightarrow> 'c \<Rightarrow> u32 \<times> u8 list"
  sd_writeblock :: "u8 list \<Rightarrow> u32 \<Rightarrow> u32 \<Rightarrow> 'c \<Rightarrow> u32 \<times> 'c"

definition pi_sd_init :: "'c sd_driver \<Rightarrow> bool \<times> 'c \<Rightarrow> (u32 \<times> bool \<times> 'c) res" where
  "pi_sd_init w s =
     (let (ok, c) = sd_init w (snd s) in
      if \<not> ok then Inl (Panic ''sd_init failed'') else Inr (1, True, c))"

definition pi_sd_read :: "'c sd_driver \<Rightarrow> u32 \<Rightarrow> u32 \<Rightarrow> bool \<times> 'c \<Rightarrow> (u32 \<times> u8 list) res" where
  "pi_sd_read w lba nsec s =
     bnd (check (fst s) ''SD card not initialized!'') (\<lambda>_.
     let (res, dat) = sd_readblock w lba nsec (snd s) in
     if res \<noteq> 512 * nsec then Inl (Panic ''could not read from sd card'') else Inr (1, dat))"

definition pi_sec_read :: "'c sd_driver \<Rightarrow> u32 \<Rightarrow> u32 \<Rightarrow> bool \<times> 'c \<Rightarrow> u8 list res" where
  "pi_sec_read w lba nsec s =
     bnd (check (fst s) ''SD card not initialized!'') (\<lambda>_.
     bnd (pi_sd_read w lba nsec s) (\<lambda>(r, dat).
     if r = 0 then Inl (Panic ''could not read from sd card'') else Inr dat))"

definition pi_sd_write :: "'c sd_driver \<Rightarrow> u8 list \<Rightarrow> u32 \<Rightarrow> u32 \<Rightarrow> bool \<times> 'c \<Rightarrow> (u32 \<times> bool \<times> 'c) res" where
  "pi_sd_write w dat lba nsec s =
     bnd (check (fst s) ''SD card not initialized!'') (\<lambda>_.
     let (res, c) = sd_writeblock w dat lba nsec (snd s) in
     if res \<noteq> 512 * nsec then Inl (Panic ''could not write to sd card'') else Inr (1, fst s, c))"

subsection \<open>Entries of the table: every value\<close>

text \<open>A FAT entry is classified by its low 28 bits alone: 0 is free, 1 reserved, 2 to 0xfffffef point to
  the next cluster, 0xffffff7 is bad, above it a chain ends; only the seven reserved values panic, the
  final panic is never reached.\<close>
theorem fat32_fat_entry_type_ranges:
  "let v = take_bit 28 x in
   fat32_fat_entry_type x =
     (if v = 0 then Inr FREE_CLUSTER else if v = 1 then Inr RESERVED_CLUSTER
      else if v < 0xFFFFFF0 then Inr USED_CLUSTER
      else if v < 0xFFFFFF7 then Inl (Panic ''reserved value'')
      else if v = 0xFFFFFF7 then Inr BAD_CLUSTER else Inr LAST_CLUSTER)"
proof -
  have e: "drop_bit 4 (push_bit 4 x) = take_bit 28 x" by (rule bit_word_eqI) (auto simp: bit_simps)
  have l: "unat (take_bit 28 x) < 268435456"
    using take_bit_nat_less_exp [of 28 "unat x"] by (simp add: unsigned_take_bit_eq)
  show ?thesis
    unfolding fat32_fat_entry_type_def e Let_def
    using l by (auto simp: FREE_CLUSTER_def RESERVED_CLUSTER_def BAD_CLUSTER_def word_less_nat_alt word_le_nat_alt
        word_unat_eq_iff)
qed

subsection \<open>Names\<close>

lemma has_dot_set: "has_dot name \<longleftrightarrow> cDOT \<in> set name"
  by (auto simp: has_dot_def in_set_conv_nth)

lemma trim_idx_pad:
  assumes "length b \<le> n" and "b \<noteq> []" and "cSPACE \<notin> set b"
  shows "trim_idx (b @ replicate (n - length b) cSPACE) n = Some (length b)"
proof -
  have "trim_idx (b @ r) (length b) = Some (length b)" for r
    using assms(2,3) by (cases b rule: rev_cases) auto
  moreover have "trim_idx (b @ replicate k cSPACE) (length b + j) = trim_idx (b @ replicate k cSPACE) (length b)"
    if "j \<le> k" for j k
    using that by (induction j) (auto simp: nth_append)
  ultimately show ?thesis using assms(1) by (metis le_add_diff_inverse order_refl)
qed

lemma alnum_ranges: "alnum c \<Longrightarrow> c \<noteq> cSPACE \<and> c \<noteq> cDOT \<and> c \<noteq> 0"
  by (auto simp: alnum_def word_less_nat_alt)

text \<open>A valid name with a dot is a base of one to eight letters and digits, the dot and an extension of
  three.\<close>

lemma valid_dotted:
  assumes "fat32_is_valid_name name" and "cDOT \<in> set name"
  obtains b e where "name = b @ cDOT # e" and "length e = 3" and "0 < length b" and "length b \<le> 8"
    and "\<forall>c \<in> set b \<union> set e. alnum c"
proof -
  let ?n = "length name"
  have n: "5 \<le> ?n" "?n \<le> 12" "name ! (?n - 4) = cDOT" "\<forall>i < ?n. \<not> alnum (name ! i) \<longrightarrow> i = ?n - 4"
    using assms by (auto simp: fat32_is_valid_name_def has_dot_set Let_def split: if_splits)
  let ?b = "take (?n - 4) name" and ?e = "drop (?n - 3) name"
  have "name = ?b @ name ! (?n - 4) # ?e"
  proof -
    have "Suc (?n - 4) = ?n - 3" and "?n - 4 < ?n" using n(1) by linarith+
    then show ?thesis using id_take_nth_drop [of "?n - 4" name] by simp
  qed
  moreover have a: "alnum (name ! i)" if "i < ?n" "i \<noteq> ?n - 4" for i using n(4) that by blast
  have "\<forall>c \<in> set ?b \<union> set ?e. alnum c"
    using n(1) by (auto simp: in_set_conv_nth intro!: a) linarith
  moreover note this
  ultimately show ?thesis using n that [of ?b ?e] by auto
qed

lemma valid_plain:
  assumes "fat32_is_valid_name name" and "cDOT \<notin> set name"
  shows "0 < length name" and "length name \<le> 8" and "\<forall>c \<in> set name. alnum c"
  using assms by (auto simp: fat32_is_valid_name_def has_dot_set Let_def in_set_conv_nth split: if_splits)

lemma overwrite_pad: "length b \<le> 8 \<Longrightarrow> overwrite (replicate 11 cSPACE) 0 b = b @ replicate (11 - length b) cSPACE"
  by (simp add: overwrite_def)

lemma replicate_split: "i \<le> n \<Longrightarrow> replicate n x = replicate i x @ replicate (n - i) x"
  by (metis le_add_diff_inverse replicate_add)

lemma takeWhile_nonzero: "0 \<notin> set xs \<Longrightarrow> takeWhile (\<lambda>c. c \<noteq> (0 :: u8)) xs = xs"
  by (rule takeWhile_eq_all_conv [THEN iffD2]) auto

text \<open>C36: 8.3 names: for a valid name with a dot, \<open>fat32_dirent_name\<close> gives back what
  \<open>fat32_dirent_set_name\<close> stored; a valid name without a dot comes back with a dot and three spaces
  behind it.\<close>
theorem fat32_name_roundtrip:
  assumes "fat32_is_valid_name name"
  shows "\<exists>d'. fat32_dirent_set_name d name = Inr d' \<and> length (filename d') = 11 \<and>
    fat32_dirent_name d' =
      Inr (if cDOT \<in> set name then name else name @ [cDOT, cSPACE, cSPACE, cSPACE])"
proof (cases "cDOT \<in> set name")
  case True
  obtain b e where n: "name = b @ cDOT # e" "length e = 3" "0 < length b" "length b \<le> 8"
    "\<forall>c \<in> set b \<union> set e. alnum c" using valid_dotted [OF assms True] by blast
  let ?f = "(b @ replicate (8 - length b) cSPACE) @ e"
  have f: "overwrite (overwrite (replicate 11 cSPACE) 0 b) 8 e = ?f"
    using n(2,4) by (simp add: overwrite_pad overwrite_def)
  have "fat32_dirent_set_name d name = Inr (d\<lparr>filename := ?f\<rparr>)"
    using assms True n(1,2) f by (simp add: fat32_dirent_set_name_def has_dot_set)
  moreover have "trim_idx (b @ replicate (8 - length b) cSPACE) 8 = Some (length b)"
    using n alnum_ranges by (intro trim_idx_pad) auto
  then have "to_8dot3 ?f = Inr name" using n by (simp add: to_8dot3_def)
  moreover have "0 \<notin> set name" using n alnum_ranges by auto
  ultimately show ?thesis using True n by (auto simp: fat32_dirent_name_def takeWhile_nonzero)
next
  case False
  note n = valid_plain [OF assms False]
  let ?f = "(name @ replicate (8 - length name) cSPACE) @ replicate 3 cSPACE"
  have "name @ replicate (11 - length name) cSPACE = ?f"
    using n(2) by (simp flip: replicate_add)
  then have "fat32_dirent_set_name d name = Inr (d\<lparr>filename := ?f\<rparr>)"
    using assms False n(2) by (simp add: fat32_dirent_set_name_def has_dot_set overwrite_pad)
  moreover have "trim_idx (name @ replicate (8 - length name) cSPACE) 8 = Some (length name)"
    using n alnum_ranges by (intro trim_idx_pad) auto
  then have "to_8dot3 ?f = Inr (name @ [cDOT, cSPACE, cSPACE, cSPACE])"
    using n by (simp add: to_8dot3_def numeral_3_eq_3)
  moreover have "0 \<notin> set name" using n alnum_ranges by auto
  ultimately show ?thesis using False n by (auto simp: fat32_dirent_name_def takeWhile_nonzero)
qed


definition ex_dirent :: fat32_dirent where
  "ex_dirent = \<lparr>filename = replicate 11 0x41, attr = 0x20, reserved0 = 0, ctime_tenths = 0, ctime = 0, create_date = 0,
     access_date = 0, hi_start = 0, mod_time = 0, mod_date = 0, lo_start = 0, file_nbytes = 0\<rparr>"

theorem fat32_name_roundtrip_witness:
  "\<exists>d'. fat32_dirent_set_name ex_dirent [0x41, cDOT, 0x42, 0x43, 0x44] = Inr d' \<and>
     fat32_dirent_name d' = Inr [0x41, cDOT, 0x42, 0x43, 0x44]"
proof -
  have "fat32_is_valid_name [0x41, cDOT, 0x42, 0x43, 0x44]"
    by (simp add: fat32_is_valid_name_def has_dot_set alnum_def All_less_Suc)
  then show ?thesis using fat32_name_roundtrip [of "[0x41, cDOT, 0x42, 0x43, 0x44]" ex_dirent] by auto
qed

text \<open>An allocated entry whose base is blank makes the printing code write before its buffer.\<close>

lemma to_8dot3_blank: "to_8dot3 (replicate 11 cSPACE) = Inl OutOfBounds"
  by (simp add: to_8dot3_def numeral_eq_Suc)

subsection \<open>Lookup finds the first match\<close>

definition live :: "fat32_dirent \<Rightarrow> bool" where
  "live d \<longleftrightarrow> fat32_dirent_free d = Inr False \<and> \<not> fat32_dirent_is_lfn d"

lemma free_total: "\<exists>b. fat32_dirent_free d = Inr b"
  by (simp add: fat32_dirent_free_def fat32_dirent_is_deleted_lfn_def check_def Let_def)

lemma dir_lookup_from_eq:
  "dir_lookup_from name ds i =
     Inr (let k = length (takeWhile (\<lambda>d. \<not> (live d \<and> take 11 name = filename d)) ds)
          in if k < length ds then i + int k else - 1)"
proof (induction ds arbitrary: i)
  case (Cons d ds)
  obtain b where b: "fat32_dirent_free d = Inr b" using free_total by blast
  show ?case
  proof (cases "live d \<and> take 11 name = filename d")
    case True
    then show ?thesis by (simp add: live_def)
  next
    case False
    then have "dir_lookup_from name (d # ds) i = dir_lookup_from name ds (i + 1)"
      using b by (auto simp: live_def)
    then show ?thesis using False by (simp add: Cons.IH Let_def)
  qed
qed simp

subsection \<open>Long names are the concatenated characters\<close>

text \<open>The characters of a field: up to the terminator.\<close>

fun units :: "u8 list \<Rightarrow> u32 list" where
  "units (a # b # us) = (if lfn_terminator a b then [] else code_unit a b # units us)"
| "units us = []"

definition ent_text :: "lfn_dir \<Rightarrow> u8 list" where
  "ent_text l = concat (map enc (units (name1_5 l) @ units (name6_11 l) @ units (name12_13 l)))"

definition lfn_wf :: "lfn_dir \<Rightarrow> bool" where
  "lfn_wf l \<longleftrightarrow> ucast (lfn_attr l) = FAT32_LONG_FILE_NAME \<and> even (length (name1_5 l)) \<and>
     even (length (name6_11 l)) \<and> even (length (name12_13 l))"

lemma code_unit_ok:
  assumes "\<not> lfn_terminator a b"
  shows "to_utf8 (code_unit a b) = Inr (Some (enc (code_unit a b)))" and "enc (code_unit a b) \<noteq> []"
proof -
  have "code_unit a b \<noteq> 0"
  proof
    assume z: "code_unit a b = 0"
    have "\<not> bit a i" "\<not> bit b i" for i
      using arg_cong [OF z, of "\<lambda>w. bit w i"] arg_cong [OF z, of "\<lambda>w. bit w (8 + i)"] bit_u8_beyond [of i a]
        bit_u8_beyond [of i b]
      by (auto simp: code_unit_def bit_simps not_less)
    then have "a = 0" "b = 0" by (auto intro: bit_word_eqI)
    then show False using assms by (simp add: lfn_terminator_def)
  qed
  moreover have "take_bit 16 (code_unit a b) = code_unit a b"
    by (rule bit_word_eqI) (auto simp: code_unit_def bit_simps dest: bit_imp_le_length)
  then have "unat (code_unit a b) < 2 ^ 16" by (metis take_bit_nat_less_exp unsigned_take_bit_eq)
  then have "code_unit a b \<le> 0x10ffff" by (simp add: word_le_nat_alt)
  ultimately show "to_utf8 (code_unit a b) = Inr (Some (enc (code_unit a b)))" by (rule to_utf8_enc)
  show "enc (code_unit a b) \<noteq> []" by (simp add: enc_def)
qed

lemma utf8_append_from_eq:
  "length buf < 512 \<Longrightarrow> even (length us) \<Longrightarrow>
   utf8_append_from buf us =
     (let t = concat (map enc (units us)) in if length buf + length t < 512 then Inr (buf @ t) else Inl OutOfBounds)"
proof (induction us arbitrary: buf rule: units.induct)
  case (1 a b us)
  show ?case
  proof (cases "lfn_terminator a b")
    case False
    note ok = code_unit_ok [OF False]
    then show ?thesis using 1 False by (simp add: Let_def)
  qed (use 1 in simp)
qed auto

lemma utf8_append_eq:
  "length buf < 512 \<Longrightarrow> even (length us) \<Longrightarrow>
   utf8_append buf us =
     (let t = concat (map enc (units us)) in if length buf + length t < 512 then Inr (buf @ t) else Inl OutOfBounds)"
  by (simp add: utf8_append_def utf8_append_from_eq even_iff_mod_2_eq_zero)

lemma lfn_names_eq:
  "length buf < 512 \<Longrightarrow> \<forall>l \<in> set ls. lfn_wf l \<Longrightarrow>
   lfn_names buf ls =
     (let t = concat (map ent_text ls) in if length buf + length t < 512 then Inr (buf @ t) else Inl OutOfBounds)"
proof (induction ls arbitrary: buf)
  case (Cons l ls)
  have w: "lfn_wf l" "\<forall>l \<in> set ls. lfn_wf l" using Cons.prems(2) by auto
  show ?case
  proof (cases "length buf + length (ent_text l) < 512")
    case True
    then show ?thesis
      using Cons.prems(1) w Cons.IH [of "buf @ ent_text l"]
      by (simp add: lfn_wf_def utf8_append_eq ent_text_def Let_def)
  next
    case False
    then show ?thesis
      using Cons.prems(1) w
      by (auto simp: lfn_wf_def utf8_append_eq ent_text_def Let_def bnd_def)
  qed
qed simp

text \<open>A long file name is reassembled from its entries last to first: the UTF-8 text of the characters
  of every field up to its terminator, provided the text and its final zero fit the 512 bytes of the
  static buffer; a longer name is written past the buffer.\<close>
lemma lfn_get_name_text:
  assumes "\<forall>l \<in> set s. lfn_wf l"
  shows "lfn_get_name s =
    (let t = concat (map ent_text (rev s)) in if length t < 512 then Inr t else Inl OutOfBounds)"
  using assms lfn_names_eq [of "[]" "rev s"] by (simp add: lfn_get_name_def Let_def)

lemma lfn_get_name_text_example:
  "lfn_get_name [\<lparr>seqno = 0x41, name1_5 = [0x68, 0, 0x69, 0, 0, 0, 0xff, 0xff, 0xff, 0xff], lfn_attr = 0xf,
     lfn_reserved = 0, cksum = 0, name6_11 = [0xff, 0xff, 0xff, 0xff, 0xff, 0xff, 0xff, 0xff, 0xff, 0xff, 0xff, 0xff],
     reserved1 = 0, name12_13 = [0xff, 0xff, 0xff, 0xff]\<rparr>] =
   Inr [0x68, 0x69]"
  (is "lfn_get_name [?l] = _")
proof -
  have "lfn_wf ?l" by (simp add: lfn_wf_def FAT32_LONG_FILE_NAME_def)
  moreover have "ent_text ?l = [0x68, 0x69]"
    by (simp add: ent_text_def lfn_terminator_def code_unit_def enc_def ebyte_def utf_def word_le_nat_alt)
  ultimately show ?thesis using lfn_get_name_text [of "[?l]"] by simp
qed

end
