(* ===== verification/DebugHw.thy ===== *)
theory DebugHw
  imports Uart BitSupport
begin

text \<open>
  The debug hardware and what is built on it, labs 10 and 14 (\<open>14-ss-equiv-deux/code\<close>; lab 10 has the same
  files): processor modes (\<open>cpsr-util.h\<close>), the debug coprocessor (\<open>armv6-debug-impl.h\<close>), the vector base
  (\<open>vector-base.h\<close>), switching to a saved register set (\<open>switchto.h\<close>), the exception veneer
  (\<open>staff-full-except.c\<close>), watchpoints (\<open>mini-watch.c\<close>) and single stepping (\<open>mini-step.c\<close>).

  The coprocessor registers are a record.  A handler gets the saved registers as a value and a switch is the value it
  ends in; the assembly that saves and switches is in \<open>Traps\<close>, which shows that it does this.  What the processor does after a switch to user mode is the parameter \<open>user\<close>, which says
  with which exception, registers and memory it comes back.  Function pointers are parameters; the
  data pointers handed through to them are left out, as is output.
\<close>

subsection \<open>\<open>cpsr-util.h\<close>\<close>

definition USER_MODE :: u32 where "USER_MODE = 0b10000"
definition FIQ_MODE :: u32 where "FIQ_MODE = 0b10001"
definition IRQ_MODE :: u32 where "IRQ_MODE = 0b10010"
definition SUPER_MODE :: u32 where "SUPER_MODE = 0b10011"
definition ABORT_MODE :: u32 where "ABORT_MODE = 0b10111"
definition UNDEF_MODE :: u32 where "UNDEF_MODE = 0b11011"
definition SYS_MODE :: u32 where "SYS_MODE = 0b11111"

lemmas mode_defs = USER_MODE_def FIQ_MODE_def IRQ_MODE_def SUPER_MODE_def ABORT_MODE_def UNDEF_MODE_def SYS_MODE_def

definition mode_legal :: "u32 \<Rightarrow> bool res" where
  "mode_legal mode =
     (if mode = USER_MODE \<or> mode = IRQ_MODE \<or> mode = SUPER_MODE \<or> mode = ABORT_MODE \<or> mode = UNDEF_MODE \<or>
         mode = SYS_MODE
      then Inr True else Inl (Panic ''illegal mode''))"

definition mode_get :: "u32 \<Rightarrow> u32 res" where
  "mode_get cpsr =
     bnd (bits_get cpsr 0 4) (\<lambda>mode.
     bnd (mode_legal mode) (\<lambda>b.
     bnd (check b ''mode_legal(mode)'') (\<lambda>_. Inr mode)))"

definition mode_set :: "u32 \<Rightarrow> u32 \<Rightarrow> u32 res" where
  "mode_set cpsr mode =
     bnd (mode_legal mode) (\<lambda>b.
     bnd (check b ''mode_legal(mode)'') (\<lambda>_.
     bnd (bits_clr cpsr 0 4) (\<lambda>c. Inr (c OR mode))))"

definition cpsr_clear_carry :: "u32 \<Rightarrow> u32 res" where
  "cpsr_clear_carry cpsr = bits_clr cpsr 28 31"

definition mode_str :: "u32 \<Rightarrow> string res" where
  "mode_str cpsr =
     bnd (mode_get cpsr) (\<lambda>mode.
       if mode = USER_MODE then Inr ''USER MODE''
       else if mode = FIQ_MODE then Inr ''FIQ MODE''
       else if mode = IRQ_MODE then Inr ''IRQ MODE''
       else if mode = SUPER_MODE then Inr ''SUPER MODE''
       else if mode = ABORT_MODE then Inr ''ABORT MODE''
       else if mode = UNDEF_MODE then Inr ''UNDEF MODE''
       else if mode = SYS_MODE then Inr ''SYS MODE''
       else Inl (Panic ''unknown mode''))"

definition cpsr_inherit :: "u32 \<Rightarrow> u32 \<Rightarrow> u32 res" where
  "cpsr_inherit mode cpsr =
     bnd (mode_legal mode) (\<lambda>b.
     bnd (check b ''mode_legal(mode)'') (\<lambda>_.
     bnd (cpsr_clear_carry cpsr) (\<lambda>c. mode_set c mode)))"

subsection \<open>\<open>armv6-debug-impl.h\<close>\<close>

text \<open>The registers of the debug coprocessor and the fault registers; a prefetch flush has no effect on them.\<close>

record dbg =
  dscr :: u32
  bcr0 :: u32
  bvr0 :: u32
  wcr0 :: u32
  wvr0 :: u32
  wfar :: u32
  dfsr :: u32
  ifsr :: u32
  far :: u32

definition cp14_is_enabled :: "dbg \<Rightarrow> u32 res" where
  "cp14_is_enabled s = bit_is_on (dscr s) 15"

definition cp14_enable :: "dbg \<Rightarrow> dbg res" where
  "cp14_enable s =
     bnd (cp14_is_enabled s) (\<lambda>e.
     if e \<noteq> 0 then Inr s
     else
       bnd (bit_set (dscr s) 15) (\<lambda>v.
       bnd (bit_clr v 14) (\<lambda>v1.
       let s1 = s\<lparr>dscr := v1\<rparr> in
       bnd (cp14_is_enabled s1) (\<lambda>e1.
       bnd (check (e1 \<noteq> 0) ''cp14_is_enabled()'') (\<lambda>_. Inr s1)))))"

definition cp14_disable :: "dbg \<Rightarrow> dbg res" where
  "cp14_disable s =
     bnd (cp14_is_enabled s) (\<lambda>e.
     if e = 0 then Inr s
     else
       bnd (bit_clr (dscr s) 15) (\<lambda>v.
       let s1 = s\<lparr>dscr := v\<rparr> in
       bnd (cp14_is_enabled s1) (\<lambda>e1.
       bnd (check (e1 = 0) ''!cp14_is_enabled()'') (\<lambda>_. Inr s1))))"

definition cp14_bcr0_is_enabled :: "dbg \<Rightarrow> u32 res" where
  "cp14_bcr0_is_enabled s = bit_is_on (bcr0 s) 0"

definition cp14_bcr0_enable :: "dbg \<Rightarrow> dbg res" where
  "cp14_bcr0_enable s =
     bnd (cp14_bcr0_is_enabled s) (\<lambda>e.
     if e \<noteq> 0 then Inr s
     else
       bnd (bits_set (bcr0 s) 21 22 0) (\<lambda>v.
       bnd (bit_clr v 20) (\<lambda>v.
       bnd (bits_set v 14 15 0) (\<lambda>v.
       bnd (bits_set v 5 8 0b1111) (\<lambda>v.
       bnd (bits_set v 1 2 0b11) (\<lambda>v.
       bnd (bit_set v 0) (\<lambda>v. Inr (s\<lparr>bcr0 := v\<rparr>))))))))"

definition cp14_bcr0_enable_mismatch :: "dbg \<Rightarrow> dbg res" where
  "cp14_bcr0_enable_mismatch s =
     bnd (cp14_bcr0_is_enabled s) (\<lambda>e.
     if e \<noteq> 0 then Inr s
     else
       bnd (bits_set (bcr0 s) 21 22 0b11) (\<lambda>v.
       bnd (bit_clr v 20) (\<lambda>v.
       bnd (bits_set v 14 15 0) (\<lambda>v.
       bnd (bits_set v 5 8 0b1111) (\<lambda>v.
       bnd (bits_set v 1 2 0b10) (\<lambda>v.
       bnd (bit_set v 0) (\<lambda>v. Inr (s\<lparr>bcr0 := v\<rparr>))))))))"

definition cp14_bcr0_disable :: "dbg \<Rightarrow> dbg res" where
  "cp14_bcr0_disable s = bnd (bit_clr (bcr0 s) 0) (\<lambda>v. Inr (s\<lparr>bcr0 := v\<rparr>))"

definition was_brkpt_fault :: "dbg \<Rightarrow> bool res" where
  "was_brkpt_fault s =
     bnd (bit_is_off (ifsr s) 10) (\<lambda>off.
     bnd (if off \<noteq> 0 then bits_get (ifsr s) 0 3 else Inr 0) (\<lambda>k.
     if off \<noteq> 0 \<and> k = 0b0010
     then bnd (bits_get (dscr s) 2 5) (\<lambda>moe. Inr (moe = 0b0001))
     else Inr False))"

definition datafault_from_ld :: "dbg \<Rightarrow> bool res" where
  "datafault_from_ld s = bnd (bit_is_on (dfsr s) 11) (\<lambda>v. Inr (v = 0))"

definition datafault_from_st :: "dbg \<Rightarrow> bool res" where
  "datafault_from_st s = bnd (datafault_from_ld s) (\<lambda>b. Inr (\<not> b))"

definition was_watchpt_fault :: "dbg \<Rightarrow> bool res" where
  "was_watchpt_fault s =
     bnd (bit_is_off (dfsr s) 10) (\<lambda>off.
     bnd (if off \<noteq> 0 then bits_get (dfsr s) 0 3 else Inr 0) (\<lambda>k.
     if off \<noteq> 0 \<and> k = 0b0010
     then bnd (bits_get (dscr s) 2 5) (\<lambda>moe. Inr (moe = 0b0010))
     else Inr False))"

definition cp14_wcr0_is_enabled :: "dbg \<Rightarrow> u32 res" where
  "cp14_wcr0_is_enabled s = bit_is_on (wcr0 s) 0"

definition cp14_wcr0_enable :: "dbg \<Rightarrow> dbg res" where
  "cp14_wcr0_enable s =
     bnd (cp14_wcr0_is_enabled s) (\<lambda>e.
     if e \<noteq> 0 then Inr s
     else
       bnd (bit_clr (wcr0 s) 20) (\<lambda>v.
       bnd (bits_set v 14 15 0) (\<lambda>v.
       bnd (bits_set v 5 8 0b1111) (\<lambda>v.
       bnd (bits_set v 3 4 0b11) (\<lambda>v.
       bnd (bits_set v 1 2 0b11) (\<lambda>v.
       bnd (bit_set v 0) (\<lambda>v. Inr (s\<lparr>wcr0 := v\<rparr>))))))))"

definition cp14_wcr0_disable :: "dbg \<Rightarrow> dbg res" where
  "cp14_wcr0_disable s =
     bnd (cp14_wcr0_is_enabled s) (\<lambda>e.
     if e \<noteq> 0 then bnd (bit_clr (wcr0 s) 0) (\<lambda>v. Inr (s\<lparr>wcr0 := v\<rparr>)) else Inr s)"

definition watchpt_fault_pc :: "dbg \<Rightarrow> u32" where
  "watchpt_fault_pc s = wfar s - 8"

subsection \<open>The state of the machine\<close>

text \<open>\<open>regs_t\<close>: r0 to r15 and the saved status register.  Function pointers are addresses, 0 is null.\<close>

type_synonym regs_t = "u32 list"

definition REGS_SP :: nat where "REGS_SP = 13"
definition REGS_LR :: nat where "REGS_LR = 14"
definition REGS_PC :: nat where "REGS_PC = 15"
definition REGS_CPSR :: nat where "REGS_CPSR = 16"

lemmas regs_defs [simp] = REGS_SP_def REGS_LR_def REGS_PC_def REGS_CPSR_def

record 'd mini =
  debug :: dbg
  cur_cpsr :: u32
  vec_base :: u32
  prefetch_handler :: u32
  data_abort_handler :: u32
  syscall_handler :: u32
  watchpt_handler :: u32
  step_handler :: u32
  single_step_on_p :: bool
  ss_start_regs :: regs_t
  ss_stack :: u32
  sdev :: 'd

text \<open>\<open>switchto\<close> does not return: it ends in the register set the processor continues with.  A handler
  returns, with its result and the registers it was given a pointer to, or ends in a switch.\<close>

datatype target = ToUser regs_t | ToPriv regs_t

datatype hres = Returns u32 regs_t | Switches target

subsection \<open>\<open>vector-base.h\<close>\<close>

definition vector_base_chk :: "u32 \<Rightarrow> bool res" where
  "vector_base_chk v = (if v = 0 then Inr False else bnd (bits_get v 0 4) (\<lambda>x. Inr (x = 0)))"

definition vector_base_set :: "u32 \<Rightarrow> ('d, 'z) mini_scheme \<Rightarrow> ('d, 'z) mini_scheme res" where
  "vector_base_set vec s =
     bnd (vector_base_chk vec) (\<lambda>ok.
     if \<not> ok then Inl (Panic ''illegal vector base'')
     else if vec_base s \<noteq> 0 then Inl (Panic ''vector base register already set'')
     else let s1 = s\<lparr>vec_base := vec\<rparr> in
       if vec_base s1 \<noteq> vec then Inl (Panic ''set vector, but have'') else Inr s1)"

definition vector_base_reset :: "u32 \<Rightarrow> ('d, 'z) mini_scheme \<Rightarrow> (u32 \<times> ('d, 'z) mini_scheme) res" where
  "vector_base_reset vec s =
     bnd (vector_base_chk vec) (\<lambda>ok.
     if \<not> ok then Inl (Panic ''illegal vector base'')
     else let old = vec_base s; s1 = s\<lparr>vec_base := vec\<rparr> in
       bnd (check (vec_base s1 = vec) ''vector_base_get() == vector_base'') (\<lambda>_. Inr (old, s1)))"

subsection \<open>\<open>switchto.h\<close>\<close>

text \<open>\<open>priv mode\<close> is the banked stack pointer and link register (\<open>priv_get_sp_lr_asm\<close>).\<close>

definition mode_get_sp_lr :: "(u32 \<Rightarrow> u32 \<times> u32) \<Rightarrow> regs_t \<Rightarrow> regs_t res" where
  "mode_get_sp_lr priv r =
     (let mode = r ! REGS_CPSR in
      bnd (mode_get mode) (\<lambda>m.
      if m = USER_MODE then Inl (Panic ''should not be trying to patch up user mode'')
      else Inr (r[REGS_SP := fst (priv mode), REGS_LR := snd (priv mode)])))"

definition switchto :: "regs_t \<Rightarrow> target res" where
  "switchto r = bnd (mode_get (r ! REGS_CPSR)) (\<lambda>m. Inr (if m = USER_MODE then ToUser r else ToPriv r))"

text \<open>\<open>cur\<close> is the caller's registers, which the assembly stores into \<open>old\<close>; the result is the new
  value of \<open>old\<close> and where the processor goes.\<close>

definition switchto_cswitch :: "u32 \<Rightarrow> regs_t \<Rightarrow> regs_t \<Rightarrow> (regs_t \<times> target) res" where
  "switchto_cswitch cpsr cur next =
     bnd (mode_get cpsr) (\<lambda>m.
     bnd (check (m \<noteq> USER_MODE) ''mode_get(cpsr_get()) != USER_MODE'') (\<lambda>_.
     bnd (mode_get (next ! REGS_CPSR)) (\<lambda>m1.
     Inr (cur, if m1 = USER_MODE then ToUser next else ToPriv next))))"

definition switchto_mk :: "u32 \<Rightarrow> u32 \<Rightarrow> u32 \<Rightarrow> u32 \<Rightarrow> regs_t" where
  "switchto_mk fn sp cpsr on_exit =
     (replicate 17 0)[REGS_PC := fn, REGS_SP := sp, REGS_LR := on_exit, REGS_CPSR := cpsr]"

subsection \<open>\<open>staff-full-except.c\<close>\<close>

definition fixup_regs :: "(u32 \<Rightarrow> u32 \<times> u32) \<Rightarrow> regs_t \<Rightarrow> u32 \<Rightarrow> regs_t res" where
  "fixup_regs priv r spsr =
     bnd (mode_get spsr) (\<lambda>m.
     if m = USER_MODE then Inr r else Inr (r[13 := fst (priv spsr), 14 := snd (priv spsr)]))"

type_synonym ('d, 'z) handler = "regs_t \<Rightarrow> ('d, 'z) mini_scheme \<Rightarrow> (hres \<times> ('d, 'z) mini_scheme) res"

text \<open>\<open>call a\<close> is the function at address \<open>a\<close>.\<close>

definition prefetch_abort_full_except ::
  "(u32 \<Rightarrow> u32 \<times> u32) \<Rightarrow> (u32 \<Rightarrow> ('d, 'z) handler) \<Rightarrow> regs_t \<Rightarrow> u32 \<Rightarrow> u32 \<Rightarrow> ('d, 'z) mini_scheme \<Rightarrow>
   (target \<times> ('d, 'z) mini_scheme) res" where
  "prefetch_abort_full_except priv call r spsr pc s =
     bnd (check (spsr = r ! REGS_CPSR) ''spsr == r->regs[REGS_CPSR]'') (\<lambda>_.
     bnd (check (pc = r ! REGS_PC) ''pc == r->regs[REGS_PC]'') (\<lambda>_.
     if prefetch_handler s = 0 then Inl (Panic ''unhandled prefetch abort'')
     else
       bnd (fixup_regs priv r spsr) (\<lambda>r1.
       bnd (call (prefetch_handler s) r1 s) (\<lambda>(h, s1).
       case h of Switches t \<Rightarrow> Inr (t, s1) | Returns _ r2 \<Rightarrow> bnd (switchto r2) (\<lambda>t. Inr (t, s1))))))"

definition data_abort_full_except ::
  "(u32 \<Rightarrow> u32 \<times> u32) \<Rightarrow> (u32 \<Rightarrow> ('d, 'z) handler) \<Rightarrow> regs_t \<Rightarrow> u32 \<Rightarrow> u32 \<Rightarrow> ('d, 'z) mini_scheme \<Rightarrow>
   (target \<times> ('d, 'z) mini_scheme) res" where
  "data_abort_full_except priv call r spsr pc s =
     bnd (check (spsr = r ! REGS_CPSR) ''spsr == r->regs[REGS_CPSR]'') (\<lambda>_.
     bnd (check (pc = r ! REGS_PC) ''pc == r->regs[REGS_PC]'') (\<lambda>_.
     if data_abort_handler s = 0 then Inl (Panic ''unhandled data abort'')
     else
       bnd (fixup_regs priv r spsr) (\<lambda>r1.
       bnd (call (data_abort_handler s) r1 s) (\<lambda>(h, s1).
       case h of Switches t \<Rightarrow> Inr (t, s1) | Returns _ r2 \<Rightarrow> bnd (switchto r2) (\<lambda>t. Inr (t, s1))))))"

text \<open>\<open>ksp\<close> is the address of the local variable \<open>sp\<close>.\<close>

definition syscall_full_except ::
  "(u32 \<Rightarrow> ('d, 'z) handler) \<Rightarrow> u32 \<Rightarrow> regs_t \<Rightarrow> u32 \<Rightarrow> u32 \<Rightarrow> ('d, 'z) mini_scheme \<Rightarrow>
   (target \<times> ('d, 'z) mini_scheme) res" where
  "syscall_full_except call ksp r spsr pc s =
     bnd (check (spsr = r ! REGS_CPSR) ''spsr == r->regs[REGS_CPSR]'') (\<lambda>_.
     bnd (check (pc = r ! REGS_PC) ''pc == r->regs[REGS_PC]'') (\<lambda>_.
     bnd (mode_get spsr) (\<lambda>m.
     if m \<noteq> USER_MODE then Inl (Panic ''only handling system calls from user mode.'')
     else
       bnd (check (100000 < ksp) ''illegal stack pointer!'') (\<lambda>_.
       if syscall_handler s = 0 then Inl (Panic ''unhandled syscall'')
       else
         bnd (call (syscall_handler s) r s) (\<lambda>(h, s1).
         case h of Switches t \<Rightarrow> Inr (t, s1)
         | Returns v r2 \<Rightarrow> bnd (switchto (r2[0 := v])) (\<lambda>t. Inr (t, s1)))))))"

definition full_except_set_prefetch :: "u32 \<Rightarrow> ('d, 'z) mini_scheme \<Rightarrow> u32 \<times> ('d, 'z) mini_scheme" where
  "full_except_set_prefetch h s = (prefetch_handler s, s\<lparr>prefetch_handler := h\<rparr>)"

definition full_except_set_data_abort :: "u32 \<Rightarrow> ('d, 'z) mini_scheme \<Rightarrow> u32 \<times> ('d, 'z) mini_scheme" where
  "full_except_set_data_abort h s = (data_abort_handler s, s\<lparr>data_abort_handler := h\<rparr>)"

definition full_except_set_syscall :: "u32 \<Rightarrow> ('d, 'z) mini_scheme \<Rightarrow> u32 \<times> ('d, 'z) mini_scheme" where
  "full_except_set_syscall h s = (syscall_handler s, s\<lparr>syscall_handler := h\<rparr>)"

text \<open>\<open>v\<close> is the address of \<open>full_except_ints\<close>.\<close>

definition full_except_install :: "u32 \<Rightarrow> bool \<Rightarrow> ('d, 'z) mini_scheme \<Rightarrow> ('d, 'z) mini_scheme res" where
  "full_except_install v override_p s =
     (if override_p then vector_base_set v s
      else if vec_base s = 0 then vector_base_set v s
      else if vec_base s \<noteq> v then Inl (Panic ''already have exception handlers installed'')
      else Inr s)"

subsection \<open>\<open>mini-watch.c\<close>\<close>

record watch_fault =
  w_fault_pc :: u32
  w_fault_addr :: u32
  w_is_load_p :: bool
  w_regs :: regs_t

definition watch_fault_mk :: "u32 \<Rightarrow> u32 \<Rightarrow> bool \<Rightarrow> regs_t \<Rightarrow> watch_fault" where
  "watch_fault_mk pc addr ld r = \<lparr>w_fault_pc = pc, w_fault_addr = addr, w_is_load_p = ld, w_regs = r\<rparr>"

definition mini_watch_load_fault :: "('d, 'z) mini_scheme \<Rightarrow> bool res" where
  "mini_watch_load_fault s = datafault_from_ld (debug s)"

text \<open>The client's handler may change the fault record and with it the registers to continue with.\<close>

definition watchpt_fault ::
  "(u32 \<Rightarrow> watch_fault \<Rightarrow> ('d, 'z) mini_scheme \<Rightarrow> (watch_fault \<times> ('d, 'z) mini_scheme) res) \<Rightarrow> ('d, 'z) handler" where
  "watchpt_fault call r s =
     bnd (was_brkpt_fault (debug s)) (\<lambda>brk.
     if brk then Inl (Panic ''should only get debug faults!'') else
     bnd (was_watchpt_fault (debug s)) (\<lambda>wp.
     if \<not> wp then Inl (Panic ''should only get watchpoint faults!'')
     else if watchpt_handler s = 0 then Inl (Panic ''watchpoint fault without a fault handler'')
     else
       bnd (mini_watch_load_fault s) (\<lambda>ld.
       let w = watch_fault_mk (watchpt_fault_pc (debug s)) (far (debug s)) ld r in
       bnd (call (watchpt_handler s) w s) (\<lambda>(w1, s1).
       bnd (cp14_wcr0_disable (debug s1)) (\<lambda>g.
       bnd (cp14_wcr0_is_enabled g) (\<lambda>e.
       bnd (check (e = 0) ''!cp14_wcr0_is_enabled()'') (\<lambda>_.
       bnd (switchto (w_regs w1)) (\<lambda>t. Inr (Switches t, s1\<lparr>debug := g\<rparr>))))))))) "

text \<open>\<open>vec\<close> is the vector table, \<open>fault\<close> the address of \<open>watchpt_fault\<close>.\<close>

definition mini_watch_init :: "u32 \<Rightarrow> u32 \<Rightarrow> u32 \<Rightarrow> ('d, 'z) mini_scheme \<Rightarrow> ('d, 'z) mini_scheme res" where
  "mini_watch_init vec fault h s =
     bnd (full_except_install vec False s) (\<lambda>s1.
     let s2 = snd (full_except_set_data_abort fault s1) in
     bnd (cp14_enable (debug s2)) (\<lambda>g.
     bnd (cp14_bcr0_is_enabled g) (\<lambda>e.
     bnd (check (e = 0) ''!cp14_bcr0_is_enabled()'') (\<lambda>_.
     bnd (cp14_wcr0_is_enabled g) (\<lambda>e.
     bnd (check (e = 0) ''!cp14_wcr0_is_enabled()'') (\<lambda>_.
     bnd (cp14_wcr0_enable g) (\<lambda>g1.
     Inr (s2\<lparr>debug := g1, watchpt_handler := h\<rparr>))))))))"

definition mini_watch_addr :: "u32 \<Rightarrow> ('d, 'z) mini_scheme \<Rightarrow> ('d, 'z) mini_scheme res" where
  "mini_watch_addr addr s =
     bnd (cp14_wcr0_enable ((debug s)\<lparr>wvr0 := addr\<rparr>)) (\<lambda>g. Inr (s\<lparr>debug := g\<rparr>))"

definition mini_watch_disable :: "u32 \<Rightarrow> ('d, 'z) mini_scheme \<Rightarrow> ('d, 'z) mini_scheme res" where
  "mini_watch_disable addr s = bnd (cp14_wcr0_disable (debug s)) (\<lambda>g. Inr (s\<lparr>debug := g\<rparr>))"

definition mini_watch_enabled :: "('d, 'z) mini_scheme \<Rightarrow> u32 res" where
  "mini_watch_enabled s = cp14_wcr0_is_enabled (debug s)"

definition mini_watch_is_fault :: "('d, 'z) mini_scheme \<Rightarrow> bool res" where
  "mini_watch_is_fault s = was_watchpt_fault (debug s)"

subsection \<open>\<open>mini-step.c\<close>\<close>

record step_fault =
  fault_pc :: u32
  f_regs :: regs_t

definition step_fault_mk :: "u32 \<Rightarrow> regs_t \<Rightarrow> step_fault" where
  "step_fault_mk pc r = \<lparr>fault_pc = pc, f_regs = r\<rparr>"

definition mismatch_pc_set :: "u32 \<Rightarrow> ('d, 'z) mini_scheme \<Rightarrow> (u32 \<times> ('d, 'z) mini_scheme) res" where
  "mismatch_pc_set pc s =
     bnd (check (single_step_on_p s) ''single_step_on_p'') (\<lambda>_.
     let old_pc = bvr0 (debug s) in
     bnd (cp14_bcr0_enable_mismatch ((debug s)\<lparr>bvr0 := pc\<rparr>)) (\<lambda>g.
     bnd (check (bvr0 g = pc) ''cp14_bvr0_get() == pc'') (\<lambda>_. Inr (old_pc, s\<lparr>debug := g\<rparr>))))"

definition mismatch_on :: "('d, 'z) mini_scheme \<Rightarrow> ('d, 'z) mini_scheme res" where
  "mismatch_on s =
     bnd (check (\<not> single_step_on_p s) ''!single_step_on_p'') (\<lambda>_.
     bnd (cp14_enable (debug s)) (\<lambda>g.
     bnd (mismatch_pc_set 0 (s\<lparr>single_step_on_p := True, debug := g\<rparr>)) (\<lambda>(_, s1). Inr s1)))"

definition mismatch_off :: "('d, 'z) mini_scheme \<Rightarrow> ('d, 'z) mini_scheme res" where
  "mismatch_off s =
     bnd (check (single_step_on_p s) ''single_step_on_p'') (\<lambda>_.
     bnd (cp14_bcr0_disable (debug s)) (\<lambda>g. Inr (s\<lparr>single_step_on_p := False, debug := g\<rparr>)))"

text \<open>\<open>while(!uart_can_put8());\<close>\<close>

definition wait_can_put8 :: "'d bus \<Rightarrow> nat \<Rightarrow> ('d, 'z) mini_scheme \<Rightarrow> ('d, 'z) mini_scheme res" where
  "wait_can_put8 b fuel s = bnd (wait_for fuel (uart_can_put8 b) (sdev s)) (\<lambda>d. Inr (s\<lparr>sdev := d\<rparr>))"

definition mismatch_run :: "'d bus \<Rightarrow> nat \<Rightarrow> regs_t \<Rightarrow> ('d, 'z) mini_scheme \<Rightarrow> (target \<times> ('d, 'z) mini_scheme) res" where
  "mismatch_run b fuel r s =
     (let pc = r ! REGS_PC in
      bnd (mismatch_pc_set pc s) (\<lambda>(_, s1).
      bnd (wait_can_put8 b fuel s1) (\<lambda>s2.
      bnd (switchto r) (\<lambda>t. Inr (t, s2)))))"

text \<open>\<open>on_exit\<close> is the address of \<open>ss_on_exit\<close>; a step handler returns with the registers it may have
  changed, or ends in a switch.\<close>

type_synonym ('d, 'z) stepper = "step_fault \<Rightarrow> ('d, 'z) mini_scheme \<Rightarrow> (hres \<times> ('d, 'z) mini_scheme) res"

definition mismatch_fault :: "'d bus \<Rightarrow> nat \<Rightarrow> u32 \<Rightarrow> (u32 \<Rightarrow> ('d, 'z) stepper) \<Rightarrow> ('d, 'z) handler" where
  "mismatch_fault b fuel on_exit call r s =
     (let pc = r ! REGS_PC in
      if pc = on_exit then bnd (switchto (ss_start_regs s)) (\<lambda>t. Inr (Switches t, s))
      else
        bnd (call (step_handler s) (step_fault_mk pc r) s) (\<lambda>(h, s1).
        case h of Switches t \<Rightarrow> Inr (Switches t, s1)
        | Returns _ r1 \<Rightarrow>
            bnd (mismatch_pc_set pc s1) (\<lambda>(_, s2).
            bnd (wait_can_put8 b fuel s2) (\<lambda>s3.
            bnd (switchto r1) (\<lambda>t. Inr (Switches t, s3))))))"

text \<open>\<open>fault\<close> is the address of \<open>mismatch_fault\<close>, \<open>h\<close> that of the handler.\<close>

definition mini_step_init :: "u32 \<Rightarrow> u32 \<Rightarrow> u32 \<Rightarrow> ('d, 'z) mini_scheme \<Rightarrow> ('d, 'z) mini_scheme res" where
  "mini_step_init vec fault h s =
     bnd (check (h \<noteq> 0) ''h'') (\<lambda>_.
     let s1 = s\<lparr>step_handler := h\<rparr> in
     bnd (full_except_install vec False s1) (\<lambda>s2.
     let s3 = snd (full_except_set_prefetch fault s2) in
     bnd (cp14_enable (debug s3)) (\<lambda>g.
     bnd (cp14_bcr0_is_enabled g) (\<lambda>e.
     bnd (check (e = 0) ''!cp14_bcr0_is_enabled()'') (\<lambda>_.
     bnd (cp14_wcr0_is_enabled g) (\<lambda>e.
     bnd (check (e = 0) ''!cp14_wcr0_is_enabled()'') (\<lambda>_.
     Inr (s3\<lparr>debug := g, step_handler := h\<rparr>))))))))"

text \<open>\<open>mini_step_run\<close> up to the switch: the registers it starts with, and the state.  \<open>kmalloc\<close> is a
  parameter; \<open>cur\<close> is the caller's registers.\<close>

definition SS_STACK_SIZE :: u32 where "SS_STACK_SIZE = 8192 * 4"

definition mini_step_start ::
  "(u32 \<Rightarrow> 'd \<Rightarrow> (u32 \<times> 'd) res) \<Rightarrow> u32 \<Rightarrow> regs_t \<Rightarrow> u32 \<Rightarrow> u32 \<Rightarrow> ('d, 'z) mini_scheme \<Rightarrow>
   (regs_t \<times> target \<times> ('d, 'z) mini_scheme) res" where
  "mini_step_start kmalloc on_exit cur fn arg s =
     bnd (if ss_stack s = 0 then bnd (kmalloc SS_STACK_SIZE (sdev s)) (\<lambda>(p, d). Inr (s\<lparr>ss_stack := p, sdev := d\<rparr>))
          else Inr s) (\<lambda>s1.
     let sp = ss_stack s1 + SS_STACK_SIZE in
     bnd (cpsr_inherit USER_MODE (cur_cpsr s1)) (\<lambda>cpsr.
     bnd (mode_get cpsr) (\<lambda>m.
     bnd (check (m = USER_MODE) ''mode_get(cpsr) == USER_MODE'') (\<lambda>_.
     let r = (replicate 17 0)[REGS_PC := fn, REGS_SP := sp, REGS_LR := on_exit, REGS_CPSR := cpsr] in
     bnd (mismatch_on s1) (\<lambda>s2.
     bnd (switchto_cswitch (cur_cpsr s2) cur r) (\<lambda>(old, t). Inr (r, t, s2\<lparr>ss_start_regs := old\<rparr>)))))))"

subsection \<open>Running user code\<close>

text \<open>\<open>user g r m\<close>: the processor, switched to user registers \<open>r\<close> with the debug registers \<open>g\<close> and memory
  \<open>m\<close>, runs until the next exception: which one, the debug registers (the hardware writes the fault
  status), the registers and the memory then; \<open>None\<close> when there is none.\<close>

datatype exn = Prefetch_abort | Data_abort | Swi

type_synonym 'm processor = "dbg \<Rightarrow> regs_t \<Rightarrow> 'm \<Rightarrow> (exn \<times> dbg \<times> regs_t \<times> 'm) option"

text \<open>The registers the trampolines of \<open>full-except-asm.S\<close> save: \<open>syscall_full\<close> loads the saved status register
  into r1 before it stores r0 to r12 (theory \<open>Traps\<close>).\<close>

definition saved_regs :: "exn \<Rightarrow> regs_t \<Rightarrow> regs_t" where
  "saved_regs e r = (if e = Swi then r[1 := r ! REGS_CPSR] else r)"

lemma saved_regs_simps [simp]:
  "saved_regs Prefetch_abort r = r" "saved_regs Data_abort r = r"
  "i \<noteq> 1 \<Longrightarrow> saved_regs e r ! i = r ! i" "length (saved_regs e r) = length r"
  by (auto simp: saved_regs_def)

text \<open>The vector table: the three routines that get the full register set.\<close>

definition full_except_ints ::
  "(u32 \<Rightarrow> u32 \<times> u32) \<Rightarrow> (u32 \<Rightarrow> ('d, 'z) handler) \<Rightarrow> u32 \<Rightarrow> exn \<Rightarrow> regs_t \<Rightarrow> ('d, 'z) mini_scheme \<Rightarrow>
   (target \<times> ('d, 'z) mini_scheme) res" where
  "full_except_ints priv call ksp e r s =
     (let r1 = saved_regs e r; spsr = r ! REGS_CPSR; pc = r ! REGS_PC in
      case e of Prefetch_abort \<Rightarrow> prefetch_abort_full_except priv call r1 spsr pc s
      | Data_abort \<Rightarrow> data_abort_full_except priv call r1 spsr pc s
      | Swi \<Rightarrow> syscall_full_except call ksp r1 spsr pc s)"

text \<open>At most \<open>n\<close> exceptions, until a handler switches back to privileged registers.\<close>

fun run_user ::
  "'m processor \<Rightarrow> (u32 \<Rightarrow> u32 \<times> u32) \<Rightarrow> (u32 \<Rightarrow> ('d, 'z) handler) \<Rightarrow> u32 \<Rightarrow> nat \<Rightarrow> target \<Rightarrow> 'm \<Rightarrow>
   ('d, 'z) mini_scheme \<Rightarrow> (regs_t \<times> 'm \<times> ('d, 'z) mini_scheme) res" where
  "run_user user priv call ksp n (ToPriv r) m s = Inr (r, m, s)"
| "run_user user priv call ksp 0 (ToUser r) m s = Inl OutOfFuel"
| "run_user user priv call ksp (Suc n) (ToUser r) m s =
     (case user (debug s) r m of
        None \<Rightarrow> Inl OutOfFuel
      | Some (e, g, r1, m1) \<Rightarrow>
          bnd (full_except_ints priv call ksp e r1 (s\<lparr>debug := g\<rparr>)) (\<lambda>(t, s1).
          run_user user priv call ksp n t m1 s1))"

text \<open>The switch back to the registers \<open>switchto_cswitch\<close> saved returns from it.\<close>

definition mini_step_run where
  "mini_step_run kmalloc user priv call ksp on_exit n cur fn arg m s =
     bnd (mini_step_start kmalloc on_exit cur fn arg s) (\<lambda>(r, t, s1).
     bnd (run_user user priv call ksp n t m s1) (\<lambda>(_, m1, s2).
     bnd (mismatch_off s2) (\<lambda>s3. Inr (r ! 0, m1, s3))))"

subsection \<open>The breakpoint is armed\<close>

text \<open>Monitor debugging is on and breakpoint 0 is enabled as \<open>cp14_bcr0_enable_mismatch\<close> writes it.\<close>

definition mismatch_bcr :: "u32 \<Rightarrow> bool" where
  "mismatch_bcr v \<longleftrightarrow> v AND 0x70C1E7 = 0x6001E5"

definition armed :: "dbg \<Rightarrow> bool" where
  "armed g \<longleftrightarrow> bit (dscr g) 15 \<and> \<not> bit (dscr g) 14 \<and> mismatch_bcr (bcr0 g)"

definition same_breakpoint :: "dbg \<Rightarrow> dbg \<Rightarrow> bool" where
  "same_breakpoint g g' \<longleftrightarrow> bcr0 g' = bcr0 g \<and> bvr0 g' = bvr0 g \<and>
     (\<forall>i \<in> {14, 15}. bit (dscr g') i = bit (dscr g) i)"

lemma armed_same: "armed g \<Longrightarrow> same_breakpoint g g' \<Longrightarrow> armed g'"
  by (simp add: armed_def same_breakpoint_def)

lemma mismatch_bcr_bit0: "mismatch_bcr v \<Longrightarrow> bit v 0"
proof -
  assume "mismatch_bcr v"
  then have "bit (v AND 0x70C1E7) 0" by (simp add: mismatch_bcr_def)
  then show "bit v 0" by (simp add: bit_and_iff)
qed

lemma bit_is_on_eq: "b < 32 \<Longrightarrow> bit_is_on x b = Inr (bool_u32 (bit x (unat b)))"
  by (simp add: bit_is_on_def bool_u32_def and_one_eq_bit0 bit_drop_bit_eq)

lemma bool_u32_0 [simp]: "bool_u32 b = 0 \<longleftrightarrow> \<not> b"
  by (simp add: bool_u32_def)

lemma bit_is_off_eq: "b < 32 \<Longrightarrow> bit_is_off x b = Inr (bool_u32 (\<not> bit x (unat b)))"
  by (simp add: bit_is_off_def bit_is_on_eq) (simp add: bool_u32_def)

lemma mismatch_bcr_written:
  "\<exists>v. bnd (bits_set x 21 22 0b11) (\<lambda>v.
       bnd (bit_clr v 20) (\<lambda>v.
       bnd (bits_set v 14 15 0) (\<lambda>v.
       bnd (bits_set v 5 8 0b1111) (\<lambda>v.
       bnd (bits_set v 1 2 0b10) (\<lambda>v. bit_set v 0))))) = Inr v \<and> mismatch_bcr v"
  by (simp add: bits_set_ok mask_eq_exp_minus_1 bit_clr_def bit_set_def mismatch_bcr_def)
     (unfold u32_eq_iff all_less_32, simp add: bit_simps del: push_bit_Suc drop_bit_Suc)

lemma enable_mismatch_ok:
  assumes "\<not> bit (bcr0 g) 0 \<or> mismatch_bcr (bcr0 g)"
  shows "\<exists>v. cp14_bcr0_enable_mismatch g = Inr (g\<lparr>bcr0 := v\<rparr>) \<and> mismatch_bcr v"
proof (cases "bit (bcr0 g) 0")
  case True
  then show ?thesis using assms
    by (intro exI [of _ "bcr0 g"]) (simp add: cp14_bcr0_enable_mismatch_def cp14_bcr0_is_enabled_def bit_is_on_eq)
next
  case False
  obtain v where "bnd (bits_set (bcr0 g) 21 22 0b11) (\<lambda>v. bnd (bit_clr v 20) (\<lambda>v. bnd (bits_set v 14 15 0) (\<lambda>v.
       bnd (bits_set v 5 8 0b1111) (\<lambda>v. bnd (bits_set v 1 2 0b10) (\<lambda>v. bit_set v 0))))) = Inr v"
    and "mismatch_bcr v"
    using mismatch_bcr_written by blast
  then show ?thesis using False
    by (intro exI [of _ v])
       (auto simp: cp14_bcr0_enable_mismatch_def cp14_bcr0_is_enabled_def bit_is_on_eq bnd_eq_Inr simp flip: bnd_assoc)
qed

lemma cp14_enable_ok:
  "\<exists>v. cp14_enable g = Inr (g\<lparr>dscr := v\<rparr>) \<and> bit v 15 \<and> (bit (dscr g) 15 \<or> \<not> bit v 14) \<and>
     (bit (dscr g) 15 \<longrightarrow> v = dscr g)"
proof (cases "bit (dscr g) 15")
  case True
  then show ?thesis by (intro exI [of _ "dscr g"]) (simp add: cp14_enable_def cp14_is_enabled_def bit_is_on_eq)
next
  case False
  then show ?thesis
    by (intro exI [of _ "(dscr g OR push_bit 15 1) AND NOT (push_bit 14 1)"])
       (simp add: cp14_enable_def cp14_is_enabled_def bit_is_on_eq bit_set_def bit_clr_def Let_def bit_simps
          del: push_bit_Suc)
qed

lemma mismatch_pc_set_ok:
  assumes "single_step_on_p s" and "\<not> bit (bcr0 (debug s)) 0 \<or> mismatch_bcr (bcr0 (debug s))"
  shows "\<exists>v. mismatch_pc_set pc s = Inr (bvr0 (debug s), s\<lparr>debug := (debug s)\<lparr>bvr0 := pc, bcr0 := v\<rparr>\<rparr>) \<and>
    mismatch_bcr v"
  using assms enable_mismatch_ok [of "(debug s)\<lparr>bvr0 := pc\<rparr>"]
  by (auto simp: mismatch_pc_set_def Let_def)

text \<open>Single stepping is on: every switch finds the breakpoint armed.\<close>

definition stepping :: "('d, 'z) mini_scheme \<Rightarrow> bool" where
  "stepping s \<longleftrightarrow> single_step_on_p s \<and> armed (debug s)"

lemma mismatch_pc_set_stepping:
  assumes "stepping s"
  shows "\<exists>g. mismatch_pc_set pc s = Inr (bvr0 (debug s), s\<lparr>debug := g\<rparr>) \<and> armed g \<and> bvr0 g = pc"
  using assms mismatch_pc_set_ok [of s pc] unfolding stepping_def armed_def by fastforce

text \<open>Before: monitor debugging is not in halting mode, and no other kind of breakpoint 0 is enabled.\<close>

definition steppable :: "('d, 'z) mini_scheme \<Rightarrow> bool" where
  "steppable s \<longleftrightarrow> \<not> single_step_on_p s \<and> \<not> bit (bcr0 (debug s)) 0 \<and>
     (bit (dscr (debug s)) 15 \<longrightarrow> \<not> bit (dscr (debug s)) 14)"

lemma mismatch_on_ok:
  assumes "steppable s"
  shows "\<exists>g. mismatch_on s = Inr (s\<lparr>single_step_on_p := True, debug := g\<rparr>) \<and> armed g \<and> bvr0 g = 0"
proof -
  obtain v where v: "cp14_enable (debug s) = Inr ((debug s)\<lparr>dscr := v\<rparr>)" "bit v 15"
    "bit (dscr (debug s)) 15 \<or> \<not> bit v 14" "bit (dscr (debug s)) 15 \<longrightarrow> v = dscr (debug s)"
    using cp14_enable_ok by blast
  let ?s = "s\<lparr>single_step_on_p := True, debug := (debug s)\<lparr>dscr := v\<rparr>\<rparr>"
  obtain w where "mismatch_pc_set 0 ?s = Inr (bvr0 (debug ?s), ?s\<lparr>debug := (debug ?s)\<lparr>bvr0 := 0, bcr0 := w\<rparr>\<rparr>)"
    "mismatch_bcr w"
    using mismatch_pc_set_ok [of ?s 0] assms by (auto simp: steppable_def)
  then show ?thesis using v assms
    by (intro exI [of _ "(debug s)\<lparr>dscr := v, bvr0 := 0, bcr0 := w\<rparr>"])
       (auto simp: mismatch_on_def steppable_def armed_def)
qed

lemma mismatch_off_ok:
  assumes "single_step_on_p s"
  shows "\<exists>g. mismatch_off s = Inr (s\<lparr>single_step_on_p := False, debug := g\<rparr>) \<and> \<not> bit (bcr0 g) 0"
  using assms
  by (intro exI [of _ "(debug s)\<lparr>bcr0 := bcr0 (debug s) AND NOT 1\<rparr>"])
     (simp add: mismatch_off_def cp14_bcr0_disable_def bit_clr_def bit_simps)

subsection \<open>Modes\<close>

definition in_user_mode :: "regs_t \<Rightarrow> bool" where
  "in_user_mode r \<longleftrightarrow> r ! 16 AND 31 = USER_MODE"

lemma mode_field: "bits_get c 0 4 = Inr (c AND 31)"
  by (simp add: bits_get_ok mask_eq_exp_minus_1)

lemma in_user_mode_saved [simp]: "in_user_mode (saved_regs e r) = in_user_mode r"
  by (simp add: in_user_mode_def)

lemma mode_get_user: "c AND 31 = USER_MODE \<Longrightarrow> mode_get c = Inr USER_MODE"
  by (simp add: mode_get_def mode_field mode_legal_def)

lemma mode_get_cases: "mode_get c = Inr m \<Longrightarrow> m = c AND 31"
  by (auto simp: mode_get_def mode_field bnd_eq_Inr)

lemma switchto_user: "in_user_mode r \<Longrightarrow> switchto r = Inr (ToUser r)"
  by (simp add: switchto_def in_user_mode_def mode_get_user)

definition privileged :: "u32 \<Rightarrow> bool" where
  "privileged c \<longleftrightarrow> (\<exists>m. mode_get c = Inr m \<and> m \<noteq> USER_MODE)"

lemma switchto_priv: "privileged (r ! 16) \<Longrightarrow> switchto r = Inr (ToPriv r)"
  by (auto simp: switchto_def privileged_def)

lemma cpsr_inherit_user: "\<exists>c. cpsr_inherit USER_MODE cpsr = Inr c \<and> c AND 31 = USER_MODE"
proof -
  let ?c = "(cpsr AND NOT (push_bit 28 15)) AND NOT 31 OR USER_MODE"
  have "cpsr_inherit USER_MODE cpsr = Inr ?c"
    by (simp add: cpsr_inherit_def mode_legal_def cpsr_clear_carry_def mode_set_def bits_clr_ok mask_eq_exp_minus_1
        del: push_bit_Suc)
  moreover have "?c AND 31 = USER_MODE"
    unfolding u32_eq_iff all_less_32 USER_MODE_def by (simp add: bit_simps del: push_bit_Suc)
  ultimately show ?thesis by blast
qed

lemma cswitch_user:
  assumes "privileged cpsr" and "in_user_mode r"
  shows "switchto_cswitch cpsr cur r = Inr (cur, ToUser r)"
  using assms by (auto simp: switchto_cswitch_def privileged_def in_user_mode_def mode_get_user)

subsection \<open>Single stepping\<close>

text \<open>What one instruction does in user mode: it completes, or it raises an exception (a system call, a data abort) with the
  registers the trampoline sees.\<close>

datatype 'm outcome = Retires regs_t 'm | Raises exn regs_t 'm

text \<open>What the architecture promises of an armed mismatch breakpoint: user code at another address than the one in BVR0
  faults before it executes; at that address it executes one instruction, and if that completes faults at the next
  one (unless it jumps to itself); an exception the instruction raises is taken.  Interrupts are transparent
  (\<open>interrupt_transparent\<close> in \<open>Traps\<close>).\<close>

definition steps_by :: "'m processor \<Rightarrow> (regs_t \<times> 'm \<Rightarrow> 'm outcome) \<Rightarrow> bool" where
  "steps_by user step \<longleftrightarrow> (\<forall>g r m. armed g \<longrightarrow> in_user_mode r \<longrightarrow>
     (if bvr0 g \<noteq> r ! 15 then \<exists>g'. same_breakpoint g g' \<and> user g r m = Some (Prefetch_abort, g', r, m)
      else case step (r, m) of
          Retires r1 m1 \<Rightarrow> r1 ! 15 \<noteq> r ! 15 \<longrightarrow> (\<exists>g'. same_breakpoint g g' \<and> user g r m = Some (Prefetch_abort, g', r1, m1))
        | Raises e r1 m1 \<Rightarrow> \<exists>g'. same_breakpoint g g' \<and> user g r m = Some (e, g', r1, m1)))"

text \<open>A step handler that looks at the fault and lets the program go on.\<close>

definition records :: "('d, 'z) stepper \<Rightarrow> (step_fault \<Rightarrow> 'd \<Rightarrow> 'd) \<Rightarrow> bool" where
  "records h note \<longleftrightarrow> (\<forall>f s. \<exists>v. h f s = Inr (Returns v (f_regs f), s\<lparr>sdev := note f (sdev s)\<rparr>))"

lemma deliver_prefetch:
  assumes "in_user_mode r" and "prefetch_handler s \<noteq> 0"
  shows "full_except_ints priv call ksp Prefetch_abort r s =
    bnd (call (prefetch_handler s) r s) (\<lambda>(h, s1).
      case h of Switches t \<Rightarrow> Inr (t, s1) | Returns _ r2 \<Rightarrow> bnd (switchto r2) (\<lambda>t. Inr (t, s1)))"
  using assms by (simp add: full_except_ints_def prefetch_abort_full_except_def fixup_regs_def in_user_mode_def
      mode_get_user Let_def)

text \<open>One fault: the handler is called once, and the breakpoint is armed at the faulting instruction.\<close>

lemma mismatch_fault_step:
  assumes "in_user_mode r" and "stepping s" and "prefetch_handler s \<noteq> 0"
    and "call (prefetch_handler s) = mismatch_fault b ufuel on_exit callh"
    and "records (callh (step_handler s)) note" and "\<forall>d. wait_for ufuel (uart_can_put8 b) d = Inr d"
    and "r ! 15 \<noteq> on_exit"
  shows "\<exists>g. full_except_ints priv call ksp Prefetch_abort r s =
      Inr (ToUser r, s\<lparr>debug := g, sdev := note (step_fault_mk (r ! 15) r) (sdev s)\<rparr>) \<and> armed g \<and> bvr0 g = r ! 15"
proof -
  let ?f = "step_fault_mk (r ! 15) r"
  let ?s = "s\<lparr>sdev := note ?f (sdev s)\<rparr>"
  obtain v where v: "callh (step_handler s) ?f s = Inr (Returns v r, ?s)"
    using assms(5) unfolding records_def by (metis step_fault.select_convs(2) step_fault_mk_def)
  have "stepping ?s" using assms(2) by (simp add: stepping_def)
  then obtain g where g: "mismatch_pc_set (r ! 15) ?s = Inr (bvr0 (debug ?s), ?s\<lparr>debug := g\<rparr>)" "armed g" "bvr0 g = r ! 15"
    using mismatch_pc_set_stepping by blast
  then show ?thesis
    using assms v by (intro exI [of _ g])
      (simp add: deliver_prefetch mismatch_fault_def Let_def wait_can_put8_def switchto_user)
qed

lemma mismatch_fault_exit:
  assumes "in_user_mode r" and "prefetch_handler s \<noteq> 0"
    and "call (prefetch_handler s) = mismatch_fault b ufuel on_exit callh"
    and "privileged (ss_start_regs s ! 16)" and "r ! 15 = on_exit"
  shows "full_except_ints priv call ksp Prefetch_abort r s = Inr (ToPriv (ss_start_regs s), s)"
  using assms by (simp add: deliver_prefetch mismatch_fault_def Let_def switchto_priv)

text \<open>The handlers of system calls and data aborts that the program's instructions need: they look at the registers, may change
  them and let the program go on.  \<open>serve\<close> is the value and the registers they return, \<open>rnote\<close> what they do to the device.\<close>

definition handler_of :: "exn \<Rightarrow> ('d, 'z) mini_scheme \<Rightarrow> u32" where
  "handler_of e s = (if e = Swi then syscall_handler s else data_abort_handler s)"

definition handles ::
  "(u32 \<Rightarrow> ('d, 'z) handler) \<Rightarrow> u32 \<Rightarrow> u32 \<Rightarrow> (exn \<Rightarrow> regs_t \<Rightarrow> u32 \<times> regs_t) \<Rightarrow> (exn \<Rightarrow> regs_t \<Rightarrow> 'd \<Rightarrow> 'd) \<Rightarrow> exn \<Rightarrow> bool" where
  "handles call ksp h serve rnote e \<longleftrightarrow> e \<noteq> Prefetch_abort \<and> h \<noteq> 0 \<and> 100000 < ksp \<and>
     (\<forall>r s. call h r s = Inr (Returns (fst (serve e r)) (snd (serve e r)), s\<lparr>sdev := rnote e r (sdev s)\<rparr>)) \<and>
     (\<forall>r. in_user_mode r \<longrightarrow> in_user_mode (snd (serve e r)))"

text \<open>The registers the program goes on with.\<close>

definition resume :: "(exn \<Rightarrow> regs_t \<Rightarrow> u32 \<times> regs_t) \<Rightarrow> exn \<Rightarrow> regs_t \<Rightarrow> regs_t" where
  "resume serve e r = (case serve e (saved_regs e r) of (v, r2) \<Rightarrow> if e = Swi then r2[0 := v] else r2)"

fun after :: "(exn \<Rightarrow> regs_t \<Rightarrow> u32 \<times> regs_t) \<Rightarrow> 'm outcome \<Rightarrow> regs_t \<times> 'm" where
  "after serve (Retires r m) = (r, m)"
| "after serve (Raises e r m) = (resume serve e r, m)"

definition goes_on :: "(exn \<Rightarrow> regs_t \<Rightarrow> u32 \<times> regs_t) \<Rightarrow> (regs_t \<times> 'm \<Rightarrow> 'm outcome) \<Rightarrow> regs_t \<times> 'm \<Rightarrow> regs_t \<times> 'm" where
  "goes_on serve step c = after serve (step c)"

text \<open>\<open>c\<close> runs for \<open>n\<close> instructions in user mode, none of which jumps to itself and whose exceptions are handled, and then is
  at \<open>on_exit\<close> for the first time.\<close>

fun runs_to ::
  "(exn \<Rightarrow> bool) \<Rightarrow> (exn \<Rightarrow> regs_t \<Rightarrow> u32 \<times> regs_t) \<Rightarrow> (regs_t \<times> 'm \<Rightarrow> 'm outcome) \<Rightarrow> u32 \<Rightarrow> nat \<Rightarrow> regs_t \<times> 'm \<Rightarrow> bool" where
  "runs_to handled serve step on_exit 0 c = (in_user_mode (fst c) \<and> fst c ! 15 = on_exit)"
| "runs_to handled serve step on_exit (Suc n) c =
     (in_user_mode (fst c) \<and> fst c ! 15 \<noteq> on_exit \<and>
      (case step c of Retires r m \<Rightarrow> r ! 15 \<noteq> fst c ! 15 | Raises e r m \<Rightarrow> in_user_mode r \<and> handled e) \<and>
      runs_to handled serve step on_exit n (after serve (step c)))"

text \<open>What the step handler and the other handlers see: every instruction at another address than the one before goes to the
  step handler; an instruction that is retried after an abort is not stepped again.\<close>

fun exn_note :: "(exn \<Rightarrow> regs_t \<Rightarrow> 'd \<Rightarrow> 'd) \<Rightarrow> 'm outcome \<Rightarrow> 'd \<Rightarrow> 'd" where
  "exn_note rnote (Retires r m) d = d"
| "exn_note rnote (Raises e r m) d = rnote e (saved_regs e r) d"

fun run_notes ::
  "(step_fault \<Rightarrow> 'd \<Rightarrow> 'd) \<Rightarrow> (exn \<Rightarrow> regs_t \<Rightarrow> 'd \<Rightarrow> 'd) \<Rightarrow> (exn \<Rightarrow> regs_t \<Rightarrow> u32 \<times> regs_t) \<Rightarrow>
   (regs_t \<times> 'm \<Rightarrow> 'm outcome) \<Rightarrow> nat \<Rightarrow> u32 \<Rightarrow> regs_t \<times> 'm \<Rightarrow> 'd \<Rightarrow> 'd" where
  "run_notes note rnote serve step 0 prev c d = d"
| "run_notes note rnote serve step (Suc n) prev c d =
     (let d1 = (if fst c ! 15 = prev then d else note (step_fault_mk (fst c ! 15) (fst c)) d) in
      run_notes note rnote serve step n (fst c ! 15) (after serve (step c)) (exn_note rnote (step c) d1))"

lemma run_user_exn:
  assumes "user (debug s) r m = Some (e, g, r1, m1)"
  shows "run_user user priv call ksp (Suc n) (ToUser r) m s =
    bnd (full_except_ints priv call ksp e r1 (s\<lparr>debug := g\<rparr>)) (\<lambda>(t, s1). run_user user priv call ksp n t m1 s1)"
  using assms by simp

lemma in_user_mode_result: "in_user_mode r \<Longrightarrow> in_user_mode (r[0 := v])"
  by (simp add: in_user_mode_def)

lemma deliver_handled:
  assumes "in_user_mode r" and "handles call ksp (handler_of e s) serve rnote e"
  shows "full_except_ints priv call ksp e r s =
    Inr (ToUser (resume serve e r), s\<lparr>sdev := rnote e (saved_regs e r) (sdev s)\<rparr>)"
    and "in_user_mode (resume serve e r)"
proof -
  obtain v r2 where sv: "serve e (saved_regs e r) = (v, r2)" by fastforce
  have m: "mode_get (r ! 16) = Inr USER_MODE"
    using assms(1) by (simp add: in_user_mode_def mode_get_user)
  have "in_user_mode (snd (serve e (saved_regs e r)))"
    using assms unfolding handles_def by simp
  then have u: "in_user_mode r2" by (simp add: sv)
  then show u1: "in_user_mode (resume serve e r)"
    by (simp add: resume_def sv in_user_mode_result)
  have "call (handler_of e s) (saved_regs e r) s =
      Inr (Returns (fst (serve e (saved_regs e r))) (snd (serve e (saved_regs e r))), s\<lparr>sdev := rnote e (saved_regs e r) (sdev s)\<rparr>)"
    and h: "handler_of e s \<noteq> 0" "100000 < ksp" "e \<noteq> Prefetch_abort"
    using assms(2) unfolding handles_def by blast+
  then have c: "call (handler_of e s) (saved_regs e r) s = Inr (Returns v r2, s\<lparr>sdev := rnote e (saved_regs e r) (sdev s)\<rparr>)"
    by (simp add: sv)
  show "full_except_ints priv call ksp e r s =
    Inr (ToUser (resume serve e r), s\<lparr>sdev := rnote e (saved_regs e r) (sdev s)\<rparr>)"
  proof (cases "e = Swi")
    case True
    then show ?thesis
      using c h(1,2) sv m switchto_user [OF in_user_mode_result [OF u]]
      by (simp add: full_except_ints_def syscall_full_except_def handler_of_def resume_def Let_def)
  next
    case False
    then have e: "e = Data_abort" using h(3) by (cases e) simp_all
    then show ?thesis
      using c h(1) sv m switchto_user [OF u]
      by (simp add: full_except_ints_def data_abort_full_except_def fixup_regs_def handler_of_def resume_def Let_def)
  qed
qed

lemma steps_by_fault:
  assumes "steps_by user step" and "stepping s" and "in_user_mode (fst c)" and "bvr0 (debug s) \<noteq> fst c ! 15"
  shows "\<exists>g. same_breakpoint (debug s) g \<and> user (debug s) (fst c) (snd c) = Some (Prefetch_abort, g, fst c, snd c)"
  using assms(1) [unfolded steps_by_def, rule_format, of "debug s" "fst c" "snd c"] assms(2-4) by (simp add: stepping_def)

lemma steps_by_executes:
  assumes "steps_by user step" and "stepping s" and "in_user_mode (fst c)" and "bvr0 (debug s) = fst c ! 15"
  shows "case step c of
      Retires r m \<Rightarrow> r ! 15 \<noteq> fst c ! 15 \<longrightarrow>
        (\<exists>g. same_breakpoint (debug s) g \<and> user (debug s) (fst c) (snd c) = Some (Prefetch_abort, g, r, m))
    | Raises e r m \<Rightarrow> \<exists>g. same_breakpoint (debug s) g \<and> user (debug s) (fst c) (snd c) = Some (e, g, r, m)"
  using assms(1) [unfolded steps_by_def, rule_format, of "debug s" "fst c" "snd c"] assms(2-4)
  by (simp add: stepping_def split: outcome.splits)

text \<open>The run, from a switch to user registers and from the delivery of a step fault.\<close>

lemma run_steps:
  assumes "steps_by user step" and "\<forall>d. wait_for ufuel (uart_can_put8 b) d = Inr d"
    and "call pf = mismatch_fault b ufuel on_exit callh" and "records (callh sh) note" and "pf \<noteq> 0"
    and "privileged (saved ! 16)" and "\<And>e. handled e \<Longrightarrow> handles call ksp (if e = Swi then sw else da) serve rnote e"
  shows "runs_to handled serve step on_exit n c \<Longrightarrow> stepping s \<Longrightarrow> prefetch_handler s = pf \<Longrightarrow> step_handler s = sh \<Longrightarrow>
      syscall_handler s = sw \<Longrightarrow> data_abort_handler s = da \<Longrightarrow> ss_start_regs s = saved \<Longrightarrow>
      (bvr0 (debug s) \<noteq> on_exit \<longrightarrow> 2 * n < fuel \<longrightarrow>
        (\<exists>s'. run_user user priv call ksp fuel (ToUser (fst c)) (snd c) s =
             Inr (saved, snd ((goes_on serve step ^^ n) c), s') \<and>
           sdev s' = run_notes note rnote serve step n (bvr0 (debug s)) c (sdev s) \<and> single_step_on_p s')) \<and>
      (prev \<noteq> fst c ! 15 \<longrightarrow> 2 * n \<le> fuel \<longrightarrow>
        (\<exists>s'. bnd (full_except_ints priv call ksp Prefetch_abort (fst c) s)
               (\<lambda>(t, s1). run_user user priv call ksp fuel t (snd c) s1) =
             Inr (saved, snd ((goes_on serve step ^^ n) c), s') \<and>
           sdev s' = run_notes note rnote serve step n prev c (sdev s) \<and> single_step_on_p s'))"
proof (induction n arbitrary: c s fuel prev)
  case 0
  have c: "in_user_mode (fst c)" "fst c ! 15 = on_exit" using "0.prems"(1) by simp_all
  have exit: "full_except_ints priv call ksp Prefetch_abort (fst c) s1 = Inr (ToPriv saved, s1)"
    if "prefetch_handler s1 = pf" "ss_start_regs s1 = saved" for s1
    using mismatch_fault_exit [of "fst c" s1 call b ufuel on_exit callh] assms(3,5,6) c that by simp
  have "run_user user priv call ksp fuel (ToUser (fst c)) (snd c) s = Inr (saved, snd c, s\<lparr>debug := g\<rparr>)"
    if g: "user (debug s) (fst c) (snd c) = Some (Prefetch_abort, g, fst c, snd c)" "0 < fuel" for g
  proof -
    obtain k where k: "fuel = Suc k" using g(2) by (cases fuel) auto
    show ?thesis
      using "0.prems" exit [of "s\<lparr>debug := g\<rparr>"] unfolding k run_user_exn [where user = user and s = s, OF g(1)] by simp
  qed
  then show ?case
    using "0.prems" exit [of s] steps_by_fault [OF assms(1) "0.prems"(2) c(1)] c(2) by (fastforce simp: stepping_def)
next
  case (Suc n)
  let ?out = "step c" and ?c1 = "after serve (step c)"
  note pr = Suc.prems(3-7)
  have c: "in_user_mode (fst c)" "fst c ! 15 \<noteq> on_exit" "runs_to handled serve step on_exit n ?c1"
    and out: "case ?out of Retires r m \<Rightarrow> r ! 15 \<noteq> fst c ! 15 | Raises e r m \<Rightarrow> in_user_mode r \<and> handled e"
    using Suc.prems(1) by simp_all
  have fn: "(goes_on serve step ^^ Suc n) c = (goes_on serve step ^^ n) ?c1"
    by (simp add: funpow_Suc_right goes_on_def del: funpow.simps)
  have exec: "\<exists>s'. run_user user priv call ksp f (ToUser (fst c)) (snd c) s1 = Inr (saved, snd ((goes_on serve step ^^ Suc n) c), s') \<and>
      sdev s' = run_notes note rnote serve step n (fst c ! 15) ?c1 (exn_note rnote ?out (sdev s1)) \<and> single_step_on_p s'"
    if st: "stepping s1" "bvr0 (debug s1) = fst c ! 15" "prefetch_handler s1 = pf" "step_handler s1 = sh"
      "syscall_handler s1 = sw" "data_abort_handler s1 = da" "ss_start_regs s1 = saved" "2 * n + 2 \<le> f" for s1 f
  proof -
    obtain k where k: "f = Suc k" "2 * n < k" using st(8) by (cases f) auto
    show ?thesis
    proof (cases ?out)
      case (Retires r m)
      obtain g where g: "same_breakpoint (debug s1) g" "user (debug s1) (fst c) (snd c) = Some (Prefetch_abort, g, r, m)"
        using steps_by_executes [OF assms(1) st(1) c(1) st(2)] out Retires by auto
      have "stepping (s1\<lparr>debug := g\<rparr>)" using st(1) armed_same [OF _ g(1)] by (simp add: stepping_def)
      then show ?thesis
        using Suc.IH [OF c(3), of "s1\<lparr>debug := g\<rparr>" k "fst c ! 15"] st(3-7) k out Retires fn
        by (simp add: run_user_exn [where user = user, OF g(2)] del: run_user.simps)
    next
      case (Raises e r m)
      obtain g where g: "same_breakpoint (debug s1) g" "user (debug s1) (fst c) (snd c) = Some (e, g, r, m)"
        using steps_by_executes [OF assms(1) st(1) c(1) st(2)] Raises by auto
      let ?s = "s1\<lparr>debug := g\<rparr>"
      let ?t = "?s\<lparr>sdev := rnote e (saved_regs e r) (sdev s1)\<rparr>"
      have h: "handles call ksp (handler_of e ?s) serve rnote e" and u: "in_user_mode r"
        using assms(7) [of e] out Raises st(5,6) by (auto simp: handler_of_def split: if_splits)
      have "stepping ?t" "bvr0 (debug ?t) \<noteq> on_exit" "bvr0 (debug ?t) = fst c ! 15"
        using st(1,2) armed_same [OF _ g(1)] g(1) c(2) by (simp_all add: stepping_def same_breakpoint_def)
      then show ?thesis
        using Suc.IH [OF c(3), of ?t k] st(3-7) k Raises fn
        by (simp add: run_user_exn [where user = user, OF g(2)] deliver_handled(1) [OF u h] del: run_user.simps)
    qed
  qed
  have fault: "\<exists>s'. bnd (full_except_ints priv call ksp Prefetch_abort (fst c) s1)
         (\<lambda>(t, s1). run_user user priv call ksp f t (snd c) s1) = Inr (saved, snd ((goes_on serve step ^^ Suc n) c), s') \<and>
      sdev s' = run_notes note rnote serve step (Suc n) p c (sdev s1) \<and> single_step_on_p s'"
    if st: "stepping s1" "p \<noteq> fst c ! 15" "prefetch_handler s1 = pf" "step_handler s1 = sh"
      "syscall_handler s1 = sw" "data_abort_handler s1 = da" "ss_start_regs s1 = saved" "2 * n + 2 \<le> f" for s1 f p
  proof -
    obtain g where g: "full_except_ints priv call ksp Prefetch_abort (fst c) s1 =
        Inr (ToUser (fst c), s1\<lparr>debug := g, sdev := note (step_fault_mk (fst c ! 15) (fst c)) (sdev s1)\<rparr>)" "armed g" "bvr0 g = fst c ! 15"
      using mismatch_fault_step [of "fst c" s1 call b ufuel on_exit callh "note", where priv = priv and ksp = ksp] assms(2-5) st c by auto
    show ?thesis
      using exec [of "s1\<lparr>debug := g, sdev := note (step_fault_mk (fst c ! 15) (fst c)) (sdev s1)\<rparr>" f] st g
      by (simp add: stepping_def Let_def del: run_user.simps funpow.simps)
  qed
  have "\<exists>s'. run_user user priv call ksp fuel (ToUser (fst c)) (snd c) s = Inr (saved, snd ((goes_on serve step ^^ Suc n) c), s') \<and>
      sdev s' = run_notes note rnote serve step (Suc n) (bvr0 (debug s)) c (sdev s) \<and> single_step_on_p s'" if f: "2 * Suc n < fuel"
  proof (cases "bvr0 (debug s) = fst c ! 15")
    case True
    then show ?thesis
      using exec [of s fuel] Suc.prems(2) pr f by (simp add: Let_def del: run_user.simps funpow.simps)
  next
    case False
    obtain k where k: "fuel = Suc k" "2 * n + 2 \<le> k" using f by (cases fuel) auto
    obtain g where g: "same_breakpoint (debug s) g" "user (debug s) (fst c) (snd c) = Some (Prefetch_abort, g, fst c, snd c)"
      using steps_by_fault [OF assms(1) Suc.prems(2) c(1) False] by blast
    have "stepping (s\<lparr>debug := g\<rparr>)" using Suc.prems(2) armed_same [OF _ g(1)] by (simp add: stepping_def)
    then show ?thesis
      using fault [of "s\<lparr>debug := g\<rparr>" "bvr0 (debug s)" k] False pr k
      by (simp add: run_user_exn [where user = user, OF g(2)] del: run_user.simps funpow.simps run_notes.simps)
  qed
  moreover have "\<exists>s'. bnd (full_except_ints priv call ksp Prefetch_abort (fst c) s)
         (\<lambda>(t, s1). run_user user priv call ksp fuel t (snd c) s1) = Inr (saved, snd ((goes_on serve step ^^ Suc n) c), s') \<and>
      sdev s' = run_notes note rnote serve step (Suc n) prev c (sdev s) \<and> single_step_on_p s'"
    if "prev \<noteq> fst c ! 15" "2 * Suc n \<le> fuel"
    using fault [OF Suc.prems(2) that(1) pr] that(2) by simp
  ultimately show ?case by blast
qed

text \<open>C24: Single stepping sees everything: \<open>mini_step_run\<close> calls the step handler exactly once before every
  instruction the program executes (an instruction retried after an abort is not stepped again), in order, with the registers the instruction
  starts from; system calls and data aborts of the program go to their handlers in between and do not disturb the stepping; it returns when the
  program reaches \<open>ss_on_exit\<close>, and leaves the breakpoint disabled.  It always returns 0 and never
  looks at \<open>arg\<close>: the result and the argument of the stepped function are lost.\<close>
theorem mini_step_traces:
  assumes "steps_by user step" and "\<forall>d. wait_for ufuel (uart_can_put8 b) d = Inr d"
    and "call (prefetch_handler s) = mismatch_fault b ufuel on_exit callh" and "prefetch_handler s \<noteq> 0"
    and "records (callh (step_handler s)) note"
    and "steppable s" and "privileged (cur_cpsr s)" and "privileged (cur ! 16)"
    and "if ss_stack s = 0 then kmalloc SS_STACK_SIZE (sdev s) = Inr (stk, d0) else stk = ss_stack s \<and> d0 = sdev s"
    and "cpsr_inherit USER_MODE (cur_cpsr s) = Inr cpsr"
    and "c0 = ((replicate 17 0)[15 := fn, 13 := stk + SS_STACK_SIZE, 14 := on_exit, 16 := cpsr], m)"
    and "runs_to (\<lambda>e. handles call ksp (handler_of e s) serve rnote e) serve step on_exit n c0"
    and "fn \<noteq> 0" and "on_exit \<noteq> 0" and "2 * n < fuel"
  shows "\<exists>s'. mini_step_run kmalloc user priv call ksp on_exit fuel cur fn arg m s =
      Inr (0, snd ((goes_on serve step ^^ n) c0), s') \<and>
    sdev s' = run_notes note rnote serve step n 0 c0 d0 \<and>
    \<not> single_step_on_p s' \<and> \<not> bit (bcr0 (debug s')) 0"
proof -
  let ?s1 = "s\<lparr>ss_stack := stk, sdev := d0\<rparr>"
  have u0: "in_user_mode (fst c0)" and cpsr: "cpsr AND 31 = USER_MODE"
    using assms(10,11) cpsr_inherit_user [of "cur_cpsr s"] by (auto simp: in_user_mode_def)
  obtain g where g: "mismatch_on ?s1 = Inr (?s1\<lparr>single_step_on_p := True, debug := g\<rparr>)" "armed g" "bvr0 g = 0"
    using mismatch_on_ok [of ?s1] assms(6) by (auto simp: steppable_def)
  let ?s2 = "?s1\<lparr>single_step_on_p := True, debug := g, ss_start_regs := cur\<rparr>"
  have alloc: "(if ss_stack s = 0 then bnd (kmalloc SS_STACK_SIZE (sdev s)) (\<lambda>(p, d). Inr (s\<lparr>ss_stack := p, sdev := d\<rparr>))
          else Inr s) = Inr ?s1"
    using assms(9) by (auto split: if_splits)
  have "switchto_cswitch (cur_cpsr s) cur (fst c0) = Inr (cur, ToUser (fst c0))"
    using assms(7) u0 by (rule cswitch_user)
  then have start: "mini_step_start kmalloc on_exit cur fn arg s = Inr (fst c0, ToUser (fst c0), ?s2)"
    using assms(10,11) cpsr g(1) by (simp add: mini_step_start_def alloc mode_get_user Let_def)
  have h: "handles call ksp (handler_of e s) serve rnote e \<Longrightarrow>
      handles call ksp (if e = Swi then syscall_handler s else data_abort_handler s) serve rnote e" for e
    by (simp add: handler_of_def)
  have st: "stepping ?s2" using g(2) by (simp add: stepping_def)
  obtain s' where s': "run_user user priv call ksp fuel (ToUser (fst c0)) (snd c0) ?s2 = Inr (cur, snd ((goes_on serve step ^^ n) c0), s')"
    "sdev s' = run_notes note rnote serve step n 0 c0 d0" "single_step_on_p s'"
    using run_steps [where s = ?s2 and fuel = fuel and priv = priv, OF assms(1,2,3,5,4,8) h assms(12) st] assms(14,15) g(3) by auto
  obtain g2 where g2: "mismatch_off s' = Inr (s'\<lparr>single_step_on_p := False, debug := g2\<rparr>)" "\<not> bit (bcr0 g2) 0"
    using mismatch_off_ok [OF s'(3)] by blast
  have "m = snd c0" "fst c0 ! 0 = 0" using assms(11) by (auto simp: numeral_eq_Suc)
  then show ?thesis
    using s' g2 by (simp add: mini_step_run_def start del: run_user.simps funpow.simps)
qed

text \<open>A program of three instructions: an addition, a system call, and a load that is aborted once.  The step handler
  collects the faulting addresses, the other handlers note 1 for a system call and 2 for an abort.\<close>

definition ex_istep :: "regs_t \<times> bool \<Rightarrow> bool outcome" where
  "ex_istep c = (let r = fst c; r1 = r[15 := r ! 15 + 4] in
     if r ! 15 = 0x8004 then Raises Swi r1 (snd c)
     else if r ! 15 = 0x8008 \<and> \<not> snd c then Raises Data_abort r True
     else Retires r1 (snd c))"

definition ex_user :: "bool processor" where
  "ex_user g r m = Some (if bvr0 g = r ! 15 then (case ex_istep (r, m) of
      Retires r1 m1 \<Rightarrow> (Prefetch_abort, g, r1, m1) | Raises e r1 m1 \<Rightarrow> (e, g, r1, m1)) else (Prefetch_abort, g, r, m))"

definition ex_serve :: "exn \<Rightarrow> regs_t \<Rightarrow> u32 \<times> regs_t" where
  "ex_serve e r = (42, r)"

definition ex_rnote :: "exn \<Rightarrow> regs_t \<Rightarrow> u32 list \<Rightarrow> u32 list" where
  "ex_rnote e r d = d @ [if e = Swi then 1 else 2]"

definition ex_bus :: "'d bus" where
  "ex_bus = \<lparr>GET32 = \<lambda>a d. Inr (0xff, d), PUT32 = \<lambda>a v d. Inr d, dev_barrier = Inr, DEV_VAL32 = \<lambda>v d. Inr (v, d)\<rparr>"

definition ex_note :: "step_fault \<Rightarrow> u32 list \<Rightarrow> u32 list" where
  "ex_note f d = d @ [fault_pc f]"

definition ex_stepper :: "(u32 list, unit) stepper" where
  "ex_stepper f s = Inr (Returns 0 (f_regs f), s\<lparr>sdev := ex_note f (sdev s)\<rparr>)"

definition ex_mini :: "u32 list mini" where
  "ex_mini = \<lparr>debug = \<lparr>dscr = 0, bcr0 = 0, bvr0 = 0, wcr0 = 0, wvr0 = 0, wfar = 0, dfsr = 0, ifsr = 0, far = 0\<rparr>,
     cur_cpsr = 0x13, vec_base = 0x9000, prefetch_handler = 0x8100, data_abort_handler = 0x8110, syscall_handler = 0x8120,
     watchpt_handler = 0, step_handler = 0x8200, single_step_on_p = False, ss_start_regs = [], ss_stack = 0x100000,
     sdev = []\<rparr>"

lemma wait_ex_bus: "wait_for (Suc n) (uart_can_put8 ex_bus) d = Inr d"
  by (simp add: wait_for_def uart_can_put8_def ex_bus_def)

definition ex_call :: "u32 \<Rightarrow> (u32 list, unit) handler" where
  "ex_call a r s =
     (if a = 0x8100 then mismatch_fault ex_bus 1 0x800C (\<lambda>_. ex_stepper) r s
      else let e = if a = 0x8120 then Swi else Data_abort in
        Inr (Returns (fst (ex_serve e r)) (snd (ex_serve e r)), s\<lparr>sdev := ex_rnote e r (sdev s)\<rparr>))"

theorem mini_step_traces_witness:
  "\<exists>s'. mini_step_run (\<lambda>n d. Inl OutOfFuel) ex_user (\<lambda>_. (0, 0)) ex_call 0x100000 0x800C 9 (replicate 16 0 @ [0x13]) 0x8000 7 False ex_mini =
      Inr (0, True, s') \<and> sdev s' = [0x8000, 0x8004, 1, 0x8008, 2] \<and> \<not> single_step_on_p s' \<and> \<not> bit (bcr0 (debug s')) 0"
proof -
  let ?c = "((replicate 17 0)[15 := 0x8000, 13 := 0x100000 + SS_STACK_SIZE, 14 := 0x800C, 16 := 0x10], False) :: regs_t \<times> bool"
  let ?h = "\<lambda>e. handles ex_call 0x100000 (handler_of e ex_mini) ex_serve ex_rnote e"
  have steps: "steps_by ex_user ex_istep"
    by (auto simp: steps_by_def ex_user_def same_breakpoint_def split: outcome.splits)
  have rec: "records ex_stepper ex_note" by (auto simp: records_def ex_stepper_def)
  have s0: "steppable ex_mini" "privileged (cur_cpsr ex_mini)" "privileged ((replicate 16 0 @ [0x13]) ! 16)"
    by (auto simp: steppable_def ex_mini_def privileged_def mode_get_def mode_field mode_legal_def mode_defs nth_append)
  have cpsr: "cpsr_inherit USER_MODE (cur_cpsr ex_mini) = Inr 0x10"
    by (simp add: cpsr_inherit_def mode_legal_def cpsr_clear_carry_def mode_set_def bits_clr_ok mask_eq_exp_minus_1
        ex_mini_def USER_MODE_def del: push_bit_Suc)
  have h: "?h Swi" "?h Data_abort"
    by (simp_all add: handles_def handler_of_def ex_call_def ex_mini_def ex_serve_def Let_def)
  have four: "4 = Suc (Suc (Suc (Suc 0)))" by simp
  have runs: "runs_to ?h ex_serve ex_istep 0x800C 4 ?c"
    unfolding four using h
    by (simp add: ex_istep_def in_user_mode_def USER_MODE_def resume_def ex_serve_def saved_regs_def Let_def)
  have "run_notes ex_note ex_rnote ex_serve ex_istep 4 0 ?c [] = [0x8000, 0x8004, 1, 0x8008, 2]"
    "snd ((goes_on ex_serve ex_istep ^^ 4) ?c)"
    unfolding four
    by (simp_all add: goes_on_def ex_istep_def ex_note_def ex_rnote_def step_fault_mk_def resume_def ex_serve_def saved_regs_def Let_def)
  moreover have "\<exists>s'. mini_step_run (\<lambda>n d. Inl OutOfFuel) ex_user (\<lambda>_. (0, 0)) ex_call 0x100000 0x800C 9
      (replicate 16 0 @ [0x13]) 0x8000 7 False ex_mini =
        Inr (0, snd ((goes_on ex_serve ex_istep ^^ 4) ?c), s') \<and>
      sdev s' = run_notes ex_note ex_rnote ex_serve ex_istep 4 0 ?c [] \<and> \<not> single_step_on_p s' \<and> \<not> bit (bcr0 (debug s')) 0"
    by (rule mini_step_traces [OF steps _ _ _ _ s0 _ cpsr refl runs, where callh = "\<lambda>_. ex_stepper" and ufuel = 1 and b = ex_bus])
       (use rec in \<open>auto simp: wait_ex_bus [of 0, simplified] ex_mini_def ex_call_def fun_eq_iff\<close>)
  ultimately show ?thesis by simp
qed

subsection \<open>Installing handlers and watchpoints\<close>

text \<open>\<open>full_except_install(1)\<close> is meant to overwrite what is there, but \<open>vector_base_set\<close> refuses.\<close>

lemma full_except_override_panics:
  assumes "vector_base_chk v = Inr True" and "vec_base s \<noteq> 0"
  shows "full_except_install v True s = Inl (Panic ''vector base register already set'')"
  using assms by (simp add: full_except_install_def vector_base_set_def)

lemma full_except_install_fresh:
  assumes "vector_base_chk v = Inr True" and "vec_base s = 0 \<or> vec_base s = v"
  shows "full_except_install v False s = Inr (s\<lparr>vec_base := v\<rparr>)"
  using assms by (auto simp: full_except_install_def vector_base_set_def vector_base_chk_def split: if_splits)

lemma wcr0_enable_ok: "\<exists>v. cp14_wcr0_enable g = Inr (g\<lparr>wcr0 := v\<rparr>) \<and> bit v 0"
proof (cases "bit (wcr0 g) 0")
  case True
  then show ?thesis by (intro exI [of _ "wcr0 g"]) (simp add: cp14_wcr0_enable_def cp14_wcr0_is_enabled_def bit_is_on_eq)
next
  case False
  have "\<exists>v. bnd (bit_clr (wcr0 g) 20) (\<lambda>v. bnd (bits_set v 14 15 0) (\<lambda>v. bnd (bits_set v 5 8 0b1111) (\<lambda>v.
      bnd (bits_set v 3 4 0b11) (\<lambda>v. bnd (bits_set v 1 2 0b11) (\<lambda>v. bit_set v 0))))) = Inr v \<and> bit v 0"
    by (simp add: bits_set_ok mask_eq_exp_minus_1 bit_clr_def bit_set_def bit_simps del: push_bit_Suc)
  then obtain v where "bnd (bit_clr (wcr0 g) 20) (\<lambda>v. bnd (bits_set v 14 15 0) (\<lambda>v. bnd (bits_set v 5 8 0b1111) (\<lambda>v.
      bnd (bits_set v 3 4 0b11) (\<lambda>v. bnd (bits_set v 1 2 0b11) (\<lambda>v. bit_set v 0))))) = Inr v" and "bit v 0"
    by blast
  then show ?thesis using False
    by (intro exI [of _ v])
       (auto simp: cp14_wcr0_enable_def cp14_wcr0_is_enabled_def bit_is_on_eq bnd_eq_Inr simp flip: bnd_assoc)
qed

text \<open>A watchpoint hits once: \<open>mini_watch_addr\<close> enables it, and the fault handler calls the client once and
  disables it before the program goes on with the registers the client left.\<close>

lemma mini_watch_addr_ok:
  "\<exists>v. mini_watch_addr a s = Inr (s\<lparr>debug := (debug s)\<lparr>wvr0 := a, wcr0 := v\<rparr>\<rparr>) \<and> bit v 0"
  using wcr0_enable_ok [of "(debug s)\<lparr>wvr0 := a\<rparr>"] by (auto simp: mini_watch_addr_def)

lemma wcr0_disable_ok: "\<exists>v. cp14_wcr0_disable g = Inr (g\<lparr>wcr0 := v\<rparr>) \<and> \<not> bit v 0"
proof (cases "bit (wcr0 g) 0")
  case True
  then show ?thesis
    by (intro exI [of _ "wcr0 g AND NOT 1"])
       (simp add: cp14_wcr0_disable_def cp14_wcr0_is_enabled_def bit_is_on_eq bit_clr_def bit_simps)
next
  case False
  then show ?thesis
    by (intro exI [of _ "wcr0 g"]) (simp add: cp14_wcr0_disable_def cp14_wcr0_is_enabled_def bit_is_on_eq)
qed

lemma watchpt_fault_once:
  assumes "was_brkpt_fault (debug s) = Inr False" and "was_watchpt_fault (debug s) = Inr True"
    and "watchpt_handler s \<noteq> 0" and "in_user_mode (w_regs w)"
    and "call (watchpt_handler s)
      (watch_fault_mk (wfar (debug s) - 8) (far (debug s)) (\<not> bit (dfsr (debug s)) 11) r) s = Inr (w, s1)"
  shows "\<exists>v. watchpt_fault call r s = Inr (Switches (ToUser (w_regs w)), s1\<lparr>debug := (debug s1)\<lparr>wcr0 := v\<rparr>\<rparr>) \<and>
    \<not> bit v 0"
proof -
  obtain v where "cp14_wcr0_disable (debug s1) = Inr ((debug s1)\<lparr>wcr0 := v\<rparr>)" "\<not> bit v 0"
    using wcr0_disable_ok by blast
  then show ?thesis using assms
    by (intro exI [of _ v])
       (simp add: watchpt_fault_def mini_watch_load_fault_def datafault_from_ld_def bit_is_on_eq watchpt_fault_pc_def
          Let_def cp14_wcr0_is_enabled_def switchto_user)
qed

end
