(* ===== verification/Templates.thy ===== *)
theory Templates
  imports Circular Queue
begin

text \<open>
  The macro templates of \<open>libpi/libc\<close>: the circular buffer \<open>circular-T.h\<close>, the queue
  \<open>queue-ext-T.h\<close> (\<open>queue-T.h\<close> generates the same operations), the list \<open>list-T.h\<close>, the stack
  \<open>stack-T.h\<close>, the vector \<open>vector-T.h\<close> and the pointer helpers \<open>pointer-T.h\<close>.  The element type is
  a type variable, the capacity an argument.  The first two provide the interfaces \<open>fifo\<close> and
  \<open>intrusive_queue\<close>.
\<close>

subsection \<open>\<open>circular-T.h\<close>\<close>

text \<open>The struct has the fields of \<open>cq_t\<close>.\<close>

definition ct_empty :: "'e cq \<Rightarrow> bool" where
  "ct_empty q \<longleftrightarrow> c_head q = c_tail q"

definition ct_full :: "u32 \<Rightarrow> 'e cq \<Rightarrow> bool" where
  "ct_full n q \<longleftrightarrow> (c_head q + 1) mod n = c_tail q"

definition ct_cnt :: "u32 \<Rightarrow> 'e cq \<Rightarrow> u32" where
  "ct_cnt n q = (c_head q - c_tail q) mod n"

definition ct_pop_nonblk :: "u32 \<Rightarrow> 'e cq \<Rightarrow> ('e option \<times> 'e cq) res" where
  "ct_pop_nonblk n c =
     (if ct_empty c then Inr (None, c)
      else let tl = c_tail c in
        bnd (arr_get (c_buf c) (unat tl)) (\<lambda>e.
        Inr (Some e, c\<lparr>c_tail := (tl + 1) mod n\<rparr>)))"

definition ct_pop :: "u32 \<Rightarrow> 'e cq \<Rightarrow> ('e \<times> 'e cq) res" where
  "ct_pop n c =
     bnd (ct_pop_nonblk n c) (\<lambda>(r, c').
       case r of None \<Rightarrow> Inl (Panic ''pop on an empty circular queue'') | Some e \<Rightarrow> Inr (e, c'))"

definition ct_push :: "u32 \<Rightarrow> 'e cq \<Rightarrow> 'e \<Rightarrow> (bool \<times> 'e cq) res" where
  "ct_push n c x =
     (if ct_full n c then Inr (False, c)
      else let hd = c_head c in
        bnd (arr_set (c_buf c) (unat hd) x) (\<lambda>buf.
        Inr (True, c\<lparr>c_buf := buf, c_head := (hd + 1) mod n\<rparr>)))"

text \<open>The returned pointer into the buffer, as its index.\<close>

definition ct_get :: "u32 \<Rightarrow> 'e cq \<Rightarrow> u32 \<Rightarrow> nat option" where
  "ct_get n c i = (if ct_cnt n c \<le> i then None else Some (unat ((c_tail c + i) mod n)))"

definition ct_push_w_drop :: "u32 \<Rightarrow> 'e cq \<Rightarrow> 'e \<Rightarrow> 'e cq res" where
  "ct_push_w_drop n q e =
     bnd (if ct_full n q then bnd (ct_pop n q) (\<lambda>(_, q'). Inr q') else Inr q) (\<lambda>q1.
     bnd (ct_push n q1 e) (\<lambda>(ok, q2). if ok then Inr q2 else Inl (Panic ''impossible'')))"

definition ct_mk :: "u32 \<Rightarrow> 'e \<Rightarrow> 'e cq res" where
  "ct_mk n z =
     (let cq = \<lparr>c_buf = replicate (unat n) z, c_fence = 0x12345678, c_head = 0, c_tail = 0, c_overflow = 0,
                c_errors_fatal_p = True\<rparr> in
      bnd (check (ct_empty cq) ''empty(&cq)'') (\<lambda>_.
      bnd (check (\<not> ct_full n cq) ''!full(&cq)'') (\<lambda>_.
      bnd (check (ct_cnt n cq = 0) ''cnt(&cq) == 0'') (\<lambda>_. Inr cq))))"

subsection \<open>\<open>queue-ext-T.h\<close>\<close>

record tq =
  tq_head :: u32
  tq_tail :: u32

definition tq_start :: "tq \<Rightarrow> u32" where "tq_start q = tq_head q"

definition tq_next :: "'m heap \<Rightarrow> u32 \<Rightarrow> u32 res" where
  "tq_next h e = bnd (deref h e) (\<lambda>t. Inr (nxt t))"

definition tq_empty :: "tq \<Rightarrow> bool res" where
  "tq_empty q =
     (if tq_head q \<noteq> 0 then Inr False
      else bnd (check (tq_tail q = 0) ''!q->tail: invalid Q'') (\<lambda>_. Inr True))"

definition tq_pop :: "'m heap \<Rightarrow> tq \<Rightarrow> (u32 \<times> tq) res" where
  "tq_pop h q =
     (let e = tq_head q in
      if e = 0 then bnd (tq_empty q) (\<lambda>b. bnd (check b ''empty(q)'') (\<lambda>_. Inr (0, q)))
      else bnd (tq_next h e) (\<lambda>n.
        let q' = q\<lparr>tq_head := n\<rparr> in Inr (e, if n = 0 then q'\<lparr>tq_tail := 0\<rparr> else q')))"

definition tq_append :: "'m heap \<Rightarrow> tq \<Rightarrow> u32 \<Rightarrow> ('m heap \<times> tq) res" where
  "tq_append h q e =
     bnd (set_next h e 0) (\<lambda>h1.
     if tq_tail q = 0 then Inr (h1, q\<lparr>tq_head := e, tq_tail := e\<rparr>)
     else bnd (set_next h1 (tq_tail q) e) (\<lambda>h2. Inr (h2, q\<lparr>tq_tail := e\<rparr>)))"

definition tq_push :: "'m heap \<Rightarrow> tq \<Rightarrow> u32 \<Rightarrow> ('m heap \<times> tq) res" where
  "tq_push h q e =
     bnd (set_next h e (tq_head q)) (\<lambda>h1.
     let q1 = q\<lparr>tq_head := e\<rparr> in
     Inr (h1, if tq_tail q1 = 0 then q1\<lparr>tq_tail := e\<rparr> else q1))"

definition tq_init :: "tq \<Rightarrow> tq" where "tq_init q = \<lparr>tq_head = 0, tq_tail = 0\<rparr>"

subsection \<open>\<open>list-T.h\<close>\<close>

text \<open>The head pointer \<open>*l\<close> is passed and returned.\<close>

definition lt_pop :: "'m heap \<Rightarrow> u32 \<Rightarrow> (u32 \<times> u32) res" where
  "lt_pop h l = (if l = 0 then Inr (0, l) else bnd (deref h l) (\<lambda>t. Inr (l, nxt t)))"

definition lt_push :: "'m heap \<Rightarrow> u32 \<Rightarrow> u32 \<Rightarrow> ('m heap \<times> u32) res" where
  "lt_push h l e = bnd (set_next h e l) (\<lambda>h1. Inr (h1, e))"

definition lt_first :: "u32 \<Rightarrow> u32" where "lt_first l = l"

definition lt_next :: "'m heap \<Rightarrow> u32 \<Rightarrow> u32 res" where
  "lt_next h e = (if e = 0 then Inr 0 else bnd (deref h e) (\<lambda>t. Inr (nxt t)))"

subsection \<open>\<open>stack-T.h\<close>\<close>

text \<open>\<open>n\<close> is the capacity \<open>N\<close>; pointers to elements are their indices.\<close>

record 'e stack_T =
  stk :: "'e list"
  stk_cnt :: u32

definition stk_mk :: "u32 \<Rightarrow> 'e \<Rightarrow> 'e stack_T" where
  "stk_mk n z = \<lparr>stk = replicate (unat n) z, stk_cnt = 0\<rparr>"

definition stk_push_ptr :: "u32 \<Rightarrow> 'e stack_T \<Rightarrow> (nat \<times> 'e stack_T) res" where
  "stk_push_ptr n s =
     (if n < stk_cnt s then Inl (Panic ''have too many elements'')
      else Inr (unat (stk_cnt s), s\<lparr>stk_cnt := stk_cnt s + 1\<rparr>))"

definition stk_push :: "u32 \<Rightarrow> 'e stack_T \<Rightarrow> 'e \<Rightarrow> (nat \<times> 'e stack_T) res" where
  "stk_push n s e =
     bnd (stk_push_ptr n s) (\<lambda>(p, s1).
     bnd (arr_set (stk s1) p e) (\<lambda>a. Inr (p, s1\<lparr>stk := a\<rparr>)))"

definition stk_pop_ptr :: "'e stack_T \<Rightarrow> (nat option \<times> 'e stack_T) res" where
  "stk_pop_ptr s =
     (if stk_cnt s = 0 then Inr (None, s)
      else bnd (check (0 < stk_cnt s) ''s->cnt > 0'') (\<lambda>_.
        let c = stk_cnt s - 1 in Inr (Some (unat c), s\<lparr>stk_cnt := c\<rparr>)))"

definition stk_pop :: "'e stack_T \<Rightarrow> ('e \<times> 'e stack_T) res" where
  "stk_pop s =
     bnd (stk_pop_ptr s) (\<lambda>(p, s1).
       case p of
         None \<Rightarrow> Inl (AssertFail ''attempting to pop and empty stack!'')
       | Some i \<Rightarrow> bnd (arr_get (stk s1) i) (\<lambda>e. Inr (e, s1)))"

definition stk_idx :: "u32 \<Rightarrow> 'e stack_T \<Rightarrow> u32 \<Rightarrow> nat res" where
  "stk_idx n s idx = bnd (check (idx < n) ''idx < N'') (\<lambda>_. Inr (unat idx))"

definition stk_first :: "'e stack_T \<Rightarrow> nat option" where
  "stk_first s = (if stk_cnt s = 0 then None else Some 0)"

definition stk_last :: "'e stack_T \<Rightarrow> nat option" where
  "stk_last s = (if stk_cnt s = 0 then None else Some (unat (stk_cnt s - 1)))"

definition stk_next :: "'e stack_T \<Rightarrow> nat \<Rightarrow> nat option" where
  "stk_next s e = (if Some e = stk_last s then None else Some (e + 1))"

definition stk_prev :: "'e stack_T \<Rightarrow> nat \<Rightarrow> nat option" where
  "stk_prev s e = (if Some e = stk_first s then None else Some (e - 1))"

subsection \<open>\<open>vector-T.h\<close>\<close>

record 'e vector_T =
  vec_cnt :: u32
  vec :: "'e list"

definition vec_mk :: "u32 \<Rightarrow> 'e \<Rightarrow> 'e vector_T" where
  "vec_mk n z = \<lparr>vec_cnt = 0, vec = replicate (unat n) z\<rparr>"

definition vec_append_raw :: "'e vector_T \<Rightarrow> 'e \<Rightarrow> (nat \<times> 'e vector_T) res" where
  "vec_append_raw v e =
     bnd (arr_set (vec v) (unat (vec_cnt v)) e) (\<lambda>a.
     Inr (unat (vec_cnt v), v\<lparr>vec_cnt := vec_cnt v + 1, vec := a\<rparr>))"

definition vec_append :: "u32 \<Rightarrow> 'e vector_T \<Rightarrow> 'e \<Rightarrow> (nat \<times> 'e vector_T) res" where
  "vec_append n v e = bnd (check (vec_cnt v < n) ''cnt(v) < N'') (\<lambda>_. vec_append_raw v e)"

definition vec_idx_ptr :: "u32 \<Rightarrow> 'e vector_T \<Rightarrow> u32 \<Rightarrow> nat res" where
  "vec_idx_ptr n v idx = bnd (check (idx < n) ''idx < N'') (\<lambda>_. Inr (unat idx))"

definition vec_idx :: "u32 \<Rightarrow> 'e vector_T \<Rightarrow> u32 \<Rightarrow> 'e res" where
  "vec_idx n v idx = bnd (check (idx < n) ''idx < N'') (\<lambda>_. arr_get (vec v) (unat idx))"

definition vec_first :: "'e vector_T \<Rightarrow> nat option" where
  "vec_first v = (if vec_cnt v = 0 then None else Some 0)"

definition vec_last :: "'e vector_T \<Rightarrow> nat option" where
  "vec_last v = (if vec_cnt v = 0 then None else Some (unat (vec_cnt v - 1)))"

definition vec_next :: "'e vector_T \<Rightarrow> nat \<Rightarrow> nat option" where
  "vec_next v e = (if Some e = vec_last v then None else Some (e + 1))"

definition vec_prev :: "'e vector_T \<Rightarrow> nat \<Rightarrow> nat option" where
  "vec_prev v e = (if Some e = vec_first v then None else Some (e - 1))"

subsection \<open>\<open>pointer-T.h\<close>\<close>

definition is_aligned :: "u32 \<Rightarrow> u32 \<Rightarrow> bool" where "is_aligned p n \<longleftrightarrow> p mod n = 0"

definition ptr_diff :: "u32 \<Rightarrow> u32 \<Rightarrow> u32 res" where
  "ptr_diff b a = bnd (check (a \<le> b) ''b >= a'') (\<lambda>_. Inr (b - a))"

definition ptr_add :: "u32 \<Rightarrow> u32 \<Rightarrow> u32" where "ptr_add a off = a + off"
definition ptr_add_mut :: "u32 \<Rightarrow> u32 \<Rightarrow> u32" where "ptr_add_mut a off = a + off"

definition roundup_u32 :: "u32 \<Rightarrow> u32 \<Rightarrow> u32" where
  "roundup_u32 x n = (x + (n - 1)) AND NOT (n - 1)"

subsection \<open>The circular buffer provides the FIFO interface\<close>

definition ct_inv :: "u32 \<Rightarrow> 'e cq \<Rightarrow> bool" where
  "ct_inv n c \<longleftrightarrow> cq_size_ok n \<and> cq_wf n c"

lemma ct_eq:
  "ct_empty = cq_empty" "ct_full = cq_full" "ct_cnt = cq_nelem" "ct_pop_nonblk = cq_pop_nonblock"
  by (simp_all add: fun_eq_iff ct_empty_def cq_empty_def ct_full_def cq_full_def ct_cnt_def cq_nelem_def
      ct_pop_nonblk_def cq_pop_nonblock_def)

text \<open>Below the capacity the extra assertion of \<open>cq_push\<close> holds, so the two pushes agree.\<close>

lemma ct_push_eq:
  assumes "cq_size_ok n" and "cq_wf n c"
  shows "ct_push n c x = cq_push n c x"
proof (cases "cq_full n c")
  case False
  then have "0 < cq_nspace n c"
    using assms cq_count_lt [OF assms(2)] cq_full_iff [OF assms]
    by (simp add: word_less_nat_alt unat_cq_nspace)
  then show ?thesis using False by (simp add: ct_push_def cq_push_def ct_eq)
qed (simp add: ct_push_def cq_push_def ct_eq)

interpretation ctf: fifo "unat n - 1" "ct_push n" "ct_pop_nonblk n" "cq_list n" "ct_inv n" for n
proof unfold_locales
  fix q :: "'e cq" and x xs
  assume inv: "ct_inv n q"
  then have n: "cq_size_ok n" and wf: "cq_wf n q" by (auto simp: ct_inv_def)
  show "length (cq_list n q) \<le> unat n - 1" using cq_count_lt [OF wf] by simp
  show "length (cq_list n q) < unat n - 1 \<Longrightarrow>
     \<exists>q'. ct_push n q x = Inr (True, q') \<and> ct_inv n q' \<and> cq_list n q' = cq_list n q @ [x]"
    using cq_push_ok [OF n wf, where x = x] n by (auto simp: ct_inv_def ct_push_eq [OF n wf])
  show "length (cq_list n q) = unat n - 1 \<Longrightarrow> ct_push n q x = Inr (False, q)"
    using cq_push_full [OF n wf] by (simp add: ct_push_eq [OF n wf])
  show "cq_list n q = x # xs \<Longrightarrow> \<exists>q'. ct_pop_nonblk n q = Inr (Some x, q') \<and> ct_inv n q' \<and> cq_list n q' = xs"
    using cq_pop_ok [OF n wf] n unfolding ct_eq ct_inv_def by metis
  show "cq_list n q = [] \<Longrightarrow> ct_pop_nonblk n q = Inr (None, q)"
    using cq_pop_empty [OF wf] by (simp add: ct_eq)
qed

lemma ct_push_w_drop_abs:
  assumes "ct_inv n c"
  shows "\<exists>c'. ct_push_w_drop n c x = Inr c' \<and> ct_inv n c' \<and>
    cq_list n c' = (if length (cq_list n c) < unat n - 1 then cq_list n c else tl (cq_list n c)) @ [x]"
proof (cases "length (cq_list n c) < unat n - 1")
  case True
  then have "\<not> ct_full n c" using assms by (simp add: ct_eq ct_inv_def cq_full_iff)
  then show ?thesis using ctf.push_room [OF assms True, of x] True by (auto simp: ct_push_w_drop_def)
next
  case False
  then have len: "length (cq_list n c) = unat n - 1" using ctf.abs_le_cap [OF assms] by simp
  then have full: "ct_full n c" using assms by (simp add: ct_eq ct_inv_def cq_full_iff)
  have n1: "1 < unat n" using assms by (simp add: ct_inv_def cq_size_ok_def)
  then obtain y ys where ys: "cq_list n c = y # ys" using len by (cases "cq_list n c") auto
  obtain c1 where c1: "ct_pop_nonblk n c = Inr (Some y, c1)" "ct_inv n c1" "cq_list n c1 = ys"
    using ctf.pop_elem [OF assms ys] by blast
  have "length (cq_list n c1) < unat n - 1" using len ys c1(3) n1 by (metis length_Cons lessI)
  then show ?thesis
    using ctf.push_room [OF c1(2), of x] c1 full ys False by (auto simp: ct_push_w_drop_def ct_pop_def)
qed

fun drop_pushes :: "u32 \<Rightarrow> 'e cq \<Rightarrow> 'e list \<Rightarrow> 'e cq res" where
  "drop_pushes n c [] = Inr c"
| "drop_pushes n c (x # xs) = bnd (ct_push_w_drop n c x) (\<lambda>c'. drop_pushes n c' xs)"

lemma keep_last_step:
  "length l \<le> k \<Longrightarrow> 0 < k \<Longrightarrow>
   drop (length l + length xs + 1 - k) (l @ x # xs) =
   drop (length ((if length l < k then l else tl l) @ [x]) + length xs - k)
     (((if length l < k then l else tl l) @ [x]) @ xs)"
proof (cases "length l < k")
  case False
  moreover assume "length l \<le> k" and "0 < k"
  ultimately show ?thesis by (cases l) auto
qed (simp del: drop_append)

text \<open>C35: \<open>push_w_drop\<close> of \<open>circular-T.h\<close> makes a sliding window: for \<open>N\<close> a power of two above 1, after any
  sequence of pushes the buffer holds the newest \<open>N - 1\<close> elements of what it held and what was pushed, in order, and
  no push panics.\<close>
theorem ct_push_w_drop_window:
  assumes "ct_inv n c"
  shows "\<exists>c'. drop_pushes n c xs = Inr c' \<and> ct_inv n c' \<and>
    cq_list n c' = drop (length (cq_list n c @ xs) - (unat n - 1)) (cq_list n c @ xs)"
  using assms
proof (induction xs arbitrary: c)
  case Nil
  then show ?case using ctf.abs_le_cap [OF Nil] by simp
next
  case (Cons x xs)
  let ?l = "cq_list n c" and ?k = "unat n - 1"
  have k: "length ?l \<le> ?k" "0 < ?k" using ctf.abs_le_cap [OF Cons.prems] Cons.prems
    by (auto simp: ct_inv_def cq_size_ok_def)
  obtain c1 where c1: "ct_push_w_drop n c x = Inr c1" "ct_inv n c1"
    "cq_list n c1 = (if length ?l < ?k then ?l else tl ?l) @ [x]"
    using ct_push_w_drop_abs [OF Cons.prems, of x] by blast
  obtain c2 where "drop_pushes n c1 xs = Inr c2" "ct_inv n c2"
    "cq_list n c2 = drop (length (cq_list n c1 @ xs) - ?k) (cq_list n c1 @ xs)"
    using Cons.IH [OF c1(2)] by blast
  then show ?case using c1 keep_last_step [OF k, of xs x] by simp
qed

theorem ct_push_w_drop_window_witness:
  "\<exists>c'. drop_pushes 4 \<lparr>c_buf = [0, 0, 0, 0], c_fence = 0x12345678, c_head = 0, c_tail = 0, c_overflow = 0,
      c_errors_fatal_p = True\<rparr> [1, 2, 3, 4, 5 :: nat] = Inr c' \<and> cq_list 4 c' = [3, 4, 5]"
proof -
  let ?c = "\<lparr>c_buf = [0, 0, 0, 0 :: nat], c_fence = 0x12345678, c_head = 0, c_tail = 0, c_overflow = 0,
      c_errors_fatal_p = True\<rparr>"
  have "ct_inv 4 ?c" by (simp add: ct_inv_def cq_size_ok_def cq_wf_def)
  moreover have "cq_list 4 ?c = []" by (simp add: cq_list_def cq_count_def)
  ultimately show ?thesis using ct_push_w_drop_window [of 4 ?c "[1, 2, 3, 4, 5]"] by (auto simp del: drop_pushes.simps)
qed

lemma ct_get_nth:
  assumes "ct_inv n c" and "unat i < length (cq_list n c)"
  shows "\<exists>k. ct_get n c i = Some k \<and> k < length (c_buf c) \<and> c_buf c ! k = cq_list n c ! unat i"
proof -
  have n: "unat n dvd 4294967296" "1 < unat n" and wf: "cq_wf n c" using assms(1) by (auto simp: ct_inv_def cq_size_ok_def)
  have i: "unat i < cq_count n c" using assms(2) by simp
  obtain m where m: "4294967296 = unat n * m" using n(1) by (elim dvdE)
  have "m \<noteq> 0" by (rule notI) (use m in simp)
  moreover have "m \<noteq> 1"
  proof
    assume "m = 1"
    then have "unat n = 4294967296" using m by simp
    then show False using unat_u32_lt [of n] by (simp only: less_irrefl)
  qed
  ultimately have "2 \<le> m" by simp
  then have "unat n * 2 \<le> 4294967296" unfolding m by (rule mult_le_mono2)
  then have s: "unat (c_tail c + i) = unat (c_tail c) + unat i"
    using wf i cq_count_lt [OF wf] by (intro unat_add_small) (auto simp: cq_wf_def)
  have "unat ((c_tail c + i) mod n) = cq_slot n c (unat i)"
    using wf i cq_count_lt [OF wf] by (auto simp: unat_mod_distrib s cq_slot_def Let_def cq_wf_def mod_if)
  moreover have "\<not> ct_cnt n c \<le> i"
    using i unat_cq_nelem [of n c] assms(1) by (simp add: ct_eq word_le_nat_alt ct_inv_def)
  ultimately show ?thesis using wf i cq_slot_lt [OF wf i] by (auto simp: ct_get_def cq_list_def cq_wf_def)
qed


subsection \<open>The queue provides the interface of an intrusive queue\<close>

text \<open>It is \<open>Q.h\<close> without the counter.\<close>

definition tq_of :: "Q_t \<Rightarrow> tq" where
  "tq_of q = \<lparr>tq_head = q_head q, tq_tail = q_tail q\<rparr>"

lemma tq_append_of: "Q_append h q e = Inr (h', q') \<Longrightarrow> tq_append h (tq_of q) e = Inr (h', tq_of q')"
  by (cases q; cases q') (auto simp: Q_append_def tq_append_def tq_of_def res_simps Let_def split: if_splits)

lemma tq_push_of: "Q_push h q e = Inr (h', q') \<Longrightarrow> tq_push h (tq_of q) e = Inr (h', tq_of q')"
  by (cases q; cases q') (auto simp: Q_push_def tq_push_def tq_of_def res_simps Let_def split: if_splits)

lemma tq_empty_of: "Q_empty q = Inr b \<Longrightarrow> tq_empty (tq_of q) = Inr b"
  by (auto simp: Q_empty_def tq_empty_def tq_of_def res_simps split: if_splits)

lemma tq_pop_of: "Q_pop h q = Inr (e, q') \<Longrightarrow> tq_pop h (tq_of q) = Inr (e, tq_of q')"
  by (cases q; cases q') (auto simp: Q_pop_def tq_pop_def Q_next_def tq_next_def tq_of_def tq_empty_def Q_empty_def
      res_simps Let_def split: if_splits)

definition tq_repr :: "'m heap \<Rightarrow> tq \<Rightarrow> u32 list \<Rightarrow> bool" where
  "tq_repr h q xs \<longleftrightarrow> (\<exists>q'. q = tq_of q' \<and> q_repr h q' xs)"

interpretation tqq: intrusive_queue tq_empty tq_pop tq_append tq_push tq_repr
proof unfold_locales
  fix h :: "'m heap" and h' q xs x e
  show "tq_repr h q xs \<Longrightarrow> x \<in> set xs \<Longrightarrow> valid h x" by (auto simp: tq_repr_def Qq.rel_valid)
  show "tq_repr h q xs \<Longrightarrow> distinct xs" by (auto simp: tq_repr_def dest: Qq.rel_distinct)
  show "tq_repr h q xs \<Longrightarrow> \<forall>p \<in> set xs. h' p = h p \<Longrightarrow> tq_repr h' q xs"
    by (auto simp: tq_repr_def intro: Qq.rel_frame)
  show "tq_repr h q xs \<Longrightarrow> tq_empty q = Inr (xs = [])"
    by (auto simp: tq_repr_def dest!: Qq.empty_law tq_empty_of)
  show "tq_repr h q [] \<Longrightarrow> tq_pop h q = Inr (0, q)"
    by (auto simp: tq_repr_def dest!: Qq.pop_nil tq_pop_of)
  show "tq_repr h q (x # xs) \<Longrightarrow> \<exists>q'. tq_pop h q = Inr (x, q') \<and> tq_repr h q' xs"
    unfolding tq_repr_def by (elim exE conjE) (drule Qq.pop_cons, auto dest: tq_pop_of)
next
  fix h :: "'m heap" and q xs e
  assume r: "tq_repr h q xs" and e: "valid h e" "e \<notin> set xs"
  obtain q0 where q0: "q = tq_of q0" "q_repr h q0 xs" using r by (auto simp: tq_repr_def)
  show "\<exists>h' q'. tq_append h q e = Inr (h', q') \<and> tq_repr h' q' (xs @ [e]) \<and> same_but_next h h' \<and>
                  (\<forall>p. p \<notin> set xs \<longrightarrow> p \<noteq> e \<longrightarrow> h' p = h p) \<and> (\<exists>t. h' e = Some t \<and> nxt t = 0)"
    using Qq.append_law [OF q0(2) e] q0(1) unfolding tq_repr_def by (metis tq_append_of)
  show "\<exists>h' q'. tq_push h q e = Inr (h', q') \<and> tq_repr h' q' (e # xs) \<and> same_but_next h h' \<and>
                  (\<forall>p. p \<noteq> e \<longrightarrow> h' p = h p)"
    using Qq.push_law [OF q0(2) e] q0(1) unfolding tq_repr_def by (metis tq_push_of)
qed

subsection \<open>Lists\<close>

lemma lt_push_seg:
  assumes "lseg h l xs" and "valid h e" and "e \<notin> set xs"
  shows "\<exists>h'. lt_push h l e = Inr (h', e) \<and> lseg h' e (e # xs) \<and> same_but_next h h'"
proof -
  obtain t where t: "h e = Some t" "e \<noteq> 0" using assms(2) by (auto simp: valid_def)
  then have "set_next h e l = Inr (h(e \<mapsto> t\<lparr>nxt := l\<rparr>))" by (simp add: set_next_def deref_def)
  then show ?thesis using assms t same_but_next_upd [of h e t l] by (auto simp: lt_push_def lseg_upd_other)
qed

lemma lt_pop_seg: "lseg h l (x # xs) \<Longrightarrow> \<exists>l'. lt_pop h l = Inr (x, l') \<and> lseg h l' xs"
  by (auto simp: lt_pop_def deref_def)

subsection \<open>Stacks and vectors\<close>

definition stk_inv :: "u32 \<Rightarrow> 'e stack_T \<Rightarrow> bool" where
  "stk_inv n s \<longleftrightarrow> length (stk s) = unat n \<and> stk_cnt s \<le> n"

definition stk_abs :: "'e stack_T \<Rightarrow> 'e list" where
  "stk_abs s = rev (take (unat (stk_cnt s)) (stk s))"

lemma stk_pop_Cons:
  assumes "stk_inv n s" and "stk_abs s = x # xs"
  shows "\<exists>s'. stk_pop s = Inr (x, s') \<and> stk_inv n s' \<and> stk_abs s' = xs"
proof -
  let ?c = "unat (stk_cnt s)"
  have c: "?c \<le> length (stk s)" "?c \<noteq> 0"
    using assms by (auto simp: stk_inv_def stk_abs_def word_le_nat_alt intro!: Nat.gr0I)
  then have u: "unat (stk_cnt s - 1) = ?c - 1" by (subst unat_minus_one) auto
  have t: "take ?c (stk s) = rev xs @ [x]" using assms(2) by (metis rev.simps(2) rev_rev_ident stk_abs_def)
  then have len: "?c = Suc (length xs)" using c by (metis length_append_singleton length_rev length_take min_absorb2)
  have "stk s ! (?c - 1) = x" using t len by (metis c(1) diff_Suc_1 length_rev lessI nth_append_length nth_take)
  moreover have "take (?c - 1) (stk s) = rev xs"
    using t len by (metis butlast_snoc butlast_take c(1))
  moreover have "stk_cnt s - 1 \<le> n"
    using assms(1) u by (auto simp: stk_inv_def word_le_nat_alt)
  ultimately show ?thesis
    using assms(1) c u by (auto simp: stk_pop_def stk_pop_ptr_def stk_inv_def stk_abs_def check_def word_less_nat_alt)
qed

text \<open>The stack of \<open>stack-T.h\<close>: below the capacity a push puts the element on top and a pop gives it
  back with the stack as it was; on a full stack the guard \<open>cnt > N\<close> lets the push through and the store
  goes one element behind the array.\<close>
lemma stk_push_lifo_or_overflow:
  assumes "stk_inv n s"
  shows "if stk_cnt s < n
    then \<exists>p s' s''. stk_push n s e = Inr (p, s') \<and> stk_inv n s' \<and> stk_abs s' = e # stk_abs s \<and>
           stk_pop s' = Inr (e, s'') \<and> stk_abs s'' = stk_abs s
    else stk_push n s e = Inl OutOfBounds"
proof (cases "stk_cnt s < n")
  case True
  let ?c = "unat (stk_cnt s)"
  let ?s = "\<lparr>stk = (stk s)[?c := e], stk_cnt = stk_cnt s + 1\<rparr>"
  have c: "?c < length (stk s)" using True assms by (simp add: stk_inv_def word_less_nat_alt)
  have "unat (stk_cnt s + 1) = ?c + 1" using True by (rule unat_inc_less)
  then have a: "stk_abs ?s = e # stk_abs s" and i: "stk_inv n ?s"
    using c assms by (auto simp: stk_abs_def take_Suc_conv_app_nth stk_inv_def word_le_nat_alt)
  have "stk_push n s e = Inr (?c, ?s)"
    using True c by (cases s) (auto simp: stk_push_def stk_push_ptr_def)
  then show ?thesis using True a i stk_pop_Cons [OF i a] by auto
qed (use assms in \<open>auto simp: stk_push_def stk_push_ptr_def stk_inv_def arr_set_def linorder_not_less\<close>)

lemma stk_push_lifo_or_overflow_example:
  "stk_push 2 \<lparr>stk = [7, 8 :: nat], stk_cnt = 2\<rparr> 9 = Inl OutOfBounds"
  using stk_push_lifo_or_overflow [of 2 "\<lparr>stk = [7, 8 :: nat], stk_cnt = 2\<rparr>" 9] by (simp add: stk_inv_def)

definition vec_abs :: "'e vector_T \<Rightarrow> 'e list" where
  "vec_abs v = take (unat (vec_cnt v)) (vec v)"

lemma vec_append_abs:
  assumes "length (vec v) = unat n" and "vec_cnt v < n"
  shows "\<exists>p v'. vec_append n v e = Inr (p, v') \<and> vec_abs v' = vec_abs v @ [e] \<and> length (vec v') = unat n \<and>
    vec_idx n v' (vec_cnt v) = Inr e"
proof -
  let ?c = "unat (vec_cnt v)"
  have c: "?c < length (vec v)" using assms by (simp add: word_less_nat_alt)
  have "unat (vec_cnt v + 1) = ?c + 1" using assms(2) by (rule unat_inc_less)
  then show ?thesis
    using assms c by (auto simp: vec_append_def vec_append_raw_def vec_abs_def vec_idx_def take_Suc_conv_app_nth)
qed

lemma vec_append_full: "\<not> vec_cnt v < n \<Longrightarrow> vec_append n v e = Inl (AssertFail ''cnt(v) < N'')"
  by (simp add: vec_append_def)

subsection \<open>Rounding\<close>

lemma roundup_aligned:
  assumes "k < 32"
  shows "roundup_u32 x (2 ^ k) mod 2 ^ k = 0"
proof -
  have "take_bit k (roundup_u32 x (2 ^ k)) = 0"
    by (rule bit_word_eqI) (auto simp: roundup_u32_def bit_simps mask_eq_exp_minus_1 [symmetric])
  then show ?thesis by (simp add: take_bit_eq_mod)
qed

end
