(* ===== verification/Equiv.thy ===== *)
theory Equiv
  imports DebugHw Templates
begin

text \<open>
  Equivalence checking of pre-emptive user threads, lab 14: \<open>equiv-threads.c\<close> with the hash of
  \<open>libpi/libc/fast-hash32.h\<close>.  Every thread is single-stepped; after each instruction its registers are hashed
  into a running sum and the next thread runs.  A thread's sum at its exit must not depend on the
  other threads: that is what the checker is for, and what is proved here.

  The state extends that of \<open>DebugHw\<close> by the thread blocks, the run queue (\<open>queue-ext-T.h\<close>, through the
  locale \<open>intrusive_queue\<close>), the current thread and the registers of the caller of \<open>equiv_run\<close>.  Traces and
  other output are left out; \<open>kmalloc\<close> is a parameter.
\<close>

subsection \<open>\<open>fast-hash32.h\<close>\<close>

definition get16bits :: "u8 \<Rightarrow> u8 \<Rightarrow> u32" where
  "get16bits p0 p1 = push_bit 8 (ucast p1) OR ucast p0"

text \<open>The main loop; the result has the up to three bytes that are left.\<close>

fun hash_main :: "u8 list \<Rightarrow> u32 \<Rightarrow> u32 \<times> u8 list" where
  "hash_main (b0 # b1 # b2 # b3 # data) hash =
     (let hash = hash + get16bits b0 b1;
          tmp = push_bit 11 (get16bits b2 b3) XOR hash;
          hash = push_bit 16 hash XOR tmp;
          hash = hash + drop_bit 11 hash
      in hash_main data hash)"
| "hash_main data hash = (hash, data)"

fun hash_end :: "u8 list \<Rightarrow> u32 \<Rightarrow> u32" where
  "hash_end [b0, b1, b2] hash =
     (let hash = hash + get16bits b0 b1;
          hash = hash XOR push_bit 16 hash;
          hash = hash XOR push_bit 18 (scast b2);
          hash = hash + drop_bit 11 hash
      in hash)"
| "hash_end [b0, b1] hash =
     (let hash = hash + get16bits b0 b1;
          hash = hash XOR push_bit 11 hash;
          hash = hash + drop_bit 17 hash
      in hash)"
| "hash_end [b0] hash =
     (let hash = hash + scast b0;
          hash = hash XOR push_bit 10 hash;
          hash = hash + drop_bit 1 hash
      in hash)"
| "hash_end _ hash = hash"

definition avalanche :: "u32 \<Rightarrow> u32" where
  "avalanche hash =
     (let hash = hash XOR push_bit 3 hash;
          hash = hash + drop_bit 5 hash;
          hash = hash XOR push_bit 4 hash;
          hash = hash + drop_bit 17 hash;
          hash = hash XOR push_bit 25 hash;
          hash = hash + drop_bit 6 hash
      in hash)"

definition fast_hash_inc32 :: "u8 list \<Rightarrow> u32 \<Rightarrow> u32" where
  "fast_hash_inc32 data hash =
     (if data = [] then 0 else let (h, rest) = hash_main data hash in avalanche (hash_end rest h))"

definition fast_hash32 :: "u8 list \<Rightarrow> u32" where
  "fast_hash32 data = fast_hash_inc32 data (of_nat (length data))"

subsection \<open>State\<close>

record eq_th = qnode +
  th_regs :: regs_t
  expected_hash :: u32
  reg_hash :: u32
  eq_tid :: u32
  eq_fn :: u32
  eq_arg :: u32
  stack_start :: u32
  stack_end :: u32
  refork_cnt :: u32
  inst_cnt :: u32
  verbose_p :: u32

type_synonym eq_heap = "unit eq_th_ext heap"

record 'd equiv = "'d mini" +
  eq_heap :: eq_heap
  equiv_runq :: tq
  eq_cur :: u32
  start_regs :: regs_t
  ntids :: u32

text \<open>Addresses of code: the handlers, \<open>ss_on_exit\<close>, the user-level stub \<open>sys_equiv_exit\<close>, the vectors.\<close>

record eq_labels =
  l_mismatch_fault :: u32
  l_hash_handler :: u32
  l_syscall_handler :: u32
  l_ss_on_exit :: u32
  l_sys_equiv_exit :: u32
  l_full_except_ints :: u32

subsection \<open>Scheduling\<close>

definition equiv_schedule :: "'d bus \<Rightarrow> nat \<Rightarrow> 'd equiv \<Rightarrow> (target \<times> 'd equiv) res" where
  "equiv_schedule b fuel s =
     bnd (check (eq_cur s \<noteq> 0) ''cur_thread'') (\<lambda>_.
     bnd (tq_pop (eq_heap s) (equiv_runq s)) (\<lambda>(th, q).
     bnd (if th \<noteq> 0
          then bnd (tq_append (eq_heap s) q (eq_cur s)) (\<lambda>(h, q1).
               Inr (s\<lparr>eq_heap := h, equiv_runq := q1, eq_cur := th\<rparr>))
          else Inr (s\<lparr>equiv_runq := q\<rparr>)) (\<lambda>s1.
     bnd (uart_flush_tx b fuel (sdev s1)) (\<lambda>d.
     bnd (deref (eq_heap s1) (eq_cur s1)) (\<lambda>th.
     mismatch_run b fuel (th_regs th) (s1\<lparr>sdev := d\<rparr>))))))"

definition check_sp :: "eq_th \<Rightarrow> unit res" where
  "check_sp th =
     (let sp = th_regs th ! REGS_SP in
      if sp < stack_start th then Inl (Panic ''stack is too small'')
      else if stack_end th < sp then Inl (Panic ''stack is too high'')
      else Inr ())"

definition EQUIV_EXIT :: u32 where "EQUIV_EXIT = 0"
definition EQUIV_PUTC :: u32 where "EQUIV_PUTC = 1"

text \<open>The exit system call after the hash check.\<close>

definition equiv_exit_next :: "'d bus \<Rightarrow> nat \<Rightarrow> 'd equiv \<Rightarrow> (target \<times> 'd equiv) res" where
  "equiv_exit_next b fuel s =
     bnd (tq_pop (eq_heap s) (equiv_runq s)) (\<lambda>(th, q).
     let s1 = s\<lparr>equiv_runq := q\<rparr> in
     if th = 0 then bnd (switchto (start_regs s1)) (\<lambda>t. Inr (t, s1))
     else bnd (deref (eq_heap s1) th) (\<lambda>t. mismatch_run b fuel (th_regs t) (s1\<lparr>eq_cur := th\<rparr>)))"

definition equiv_syscall_handler :: "'d bus \<Rightarrow> nat \<Rightarrow> ('d, unit equiv_ext) handler" where
  "equiv_syscall_handler b fuel r s =
     (let p = eq_cur s in
      bnd (check (p \<noteq> 0) ''th'') (\<lambda>_.
      bnd (deref (eq_heap s) p) (\<lambda>th0.
      let th = th0\<lparr>th_regs := r\<rparr>; s = s\<lparr>eq_heap := (eq_heap s)(p \<mapsto> th)\<rparr> in
      bnd (uart_flush_tx b fuel (sdev s)) (\<lambda>d.
      let s = s\<lparr>sdev := d\<rparr> in
      bnd (check_sp th) (\<lambda>_.
      let sysno = r ! 0 in
      if sysno = EQUIV_PUTC then
        bnd (uart_put8 b fuel (ucast (r ! 1)) (sdev s)) (\<lambda>(_, d).
        bnd (equiv_schedule b fuel (s\<lparr>sdev := d\<rparr>)) (\<lambda>(t, s). Inr (Switches t, s)))
      else if sysno = EQUIV_EXIT then
        bnd (if expected_hash th = 0
             then Inr (s\<lparr>eq_heap := (eq_heap s)(p \<mapsto> th\<lparr>expected_hash := reg_hash th\<rparr>)\<rparr>)
             else if expected_hash th = reg_hash th then Inr s
             else Inl (Panic ''MISMATCH ERROR'')) (\<lambda>s.
        bnd (equiv_exit_next b fuel s) (\<lambda>(t, s). Inr (Switches t, s)))
      else Inl (Panic ''illegal system call''))))))"

subsection \<open>Creating threads\<close>

definition equiv_regs_init :: "eq_labels \<Rightarrow> eq_th \<Rightarrow> 'd equiv \<Rightarrow> regs_t res" where
  "equiv_regs_init L p s =
     bnd (cpsr_inherit USER_MODE (cur_cpsr s)) (\<lambda>cpsr.
     Inr ((replicate 17 0)[0 := eq_arg p, REGS_PC := eq_fn p, REGS_SP := stack_end p, REGS_LR := l_sys_equiv_exit L,
            REGS_CPSR := cpsr]))"

definition EQ_STACK_SIZE :: u32 where "EQ_STACK_SIZE = 8192 * 8"

text \<open>\<open>kma n a d\<close> is \<open>kmalloc_aligned\<close>: the address of the block and what is in it.\<close>

definition equiv_fork ::
  "(u32 \<Rightarrow> u32 \<Rightarrow> 'd \<Rightarrow> (u32 \<times> eq_th \<times> 'd) res) \<Rightarrow> eq_labels \<Rightarrow> u32 \<Rightarrow> u32 \<Rightarrow> u32 \<Rightarrow> 'd equiv \<Rightarrow> (u32 \<times> 'd equiv) res" where
  "equiv_fork kma L fn arg expected s =
     bnd (kma EQ_STACK_SIZE 8 (sdev s)) (\<lambda>(p, th, d).
     bnd (check (p mod 8 = 0) ''(uint32_t)th%8==0'') (\<lambda>_.
     let th = th\<lparr>expected_hash := expected, eq_tid := ntids s, eq_fn := fn, eq_arg := arg, stack_start := p,
                 stack_end := p + EQ_STACK_SIZE\<rparr>;
         s = s\<lparr>sdev := d, ntids := ntids s + 1\<rparr> in
     bnd (check (stack_end th mod 8 = 0) ''sp is not aligned'') (\<lambda>_.
     bnd (equiv_regs_init L th s) (\<lambda>r.
     let th = th\<lparr>th_regs := r\<rparr> in
     bnd (check_sp th) (\<lambda>_.
     bnd (tq_push ((eq_heap s)(p \<mapsto> th)) (equiv_runq s) p) (\<lambda>(h, q).
     Inr (p, s\<lparr>eq_heap := h, equiv_runq := q\<rparr>)))))))"

definition equiv_fork_nostack ::
  "(u32 \<Rightarrow> u32 \<Rightarrow> 'd \<Rightarrow> (u32 \<times> eq_th \<times> 'd) res) \<Rightarrow> eq_labels \<Rightarrow> u32 \<Rightarrow> u32 \<Rightarrow> u32 \<Rightarrow> 'd equiv \<Rightarrow> (u32 \<times> 'd equiv) res" where
  "equiv_fork_nostack kma L fn arg expected s =
     bnd (equiv_fork kma L fn arg expected s) (\<lambda>(p, s1).
     bnd (deref (eq_heap s1) p) (\<lambda>th.
     let th = th\<lparr>th_regs := (th_regs th)[REGS_SP := 0], stack_end := 0, stack_start := 0\<rparr> in
     Inr (p, s1\<lparr>eq_heap := (eq_heap s1)(p \<mapsto> th)\<rparr>)))"

definition equiv_refresh :: "eq_labels \<Rightarrow> u32 \<Rightarrow> 'd equiv \<Rightarrow> 'd equiv res" where
  "equiv_refresh L p s =
     bnd (deref (eq_heap s) p) (\<lambda>th.
     bnd (equiv_regs_init L th s) (\<lambda>r.
     let th = th\<lparr>th_regs := r\<rparr> in
     bnd (check_sp th) (\<lambda>_.
     let th = th\<lparr>inst_cnt := 0, reg_hash := 0\<rparr> in
     bnd (tq_push ((eq_heap s)(p \<mapsto> th)) (equiv_runq s) p) (\<lambda>(h, q).
     Inr (s\<lparr>eq_heap := h, equiv_runq := q\<rparr>)))))"

subsection \<open>Hashing and running\<close>

definition regs_bytes :: "regs_t \<Rightarrow> u8 list" where
  "regs_bytes r = concat (map le32 r)"

definition equiv_hash_handler :: "'d bus \<Rightarrow> nat \<Rightarrow> ('d, unit equiv_ext) stepper" where
  "equiv_hash_handler b fuel f s =
     (let p = eq_cur s in
      bnd (check (p \<noteq> 0) ''th'') (\<lambda>_.
      bnd (deref (eq_heap s) p) (\<lambda>th.
      let th = th\<lparr>th_regs := f_regs f, inst_cnt := inst_cnt th + 1\<rparr>;
          th = th\<lparr>reg_hash := fast_hash_inc32 (regs_bytes (th_regs th)) (reg_hash th)\<rparr> in
      bnd (equiv_schedule b fuel (s\<lparr>eq_heap := (eq_heap s)(p \<mapsto> th)\<rparr>)) (\<lambda>(t, s). Inr (Switches t, s)))))"

text \<open>The functions the function pointers stand for.\<close>

definition eq_step_call :: "'d bus \<Rightarrow> nat \<Rightarrow> eq_labels \<Rightarrow> u32 \<Rightarrow> ('d, unit equiv_ext) stepper" where
  "eq_step_call b fuel L a = (if a = l_hash_handler L then equiv_hash_handler b fuel else (\<lambda>_ _. Inl OutOfBounds))"

definition eq_call :: "'d bus \<Rightarrow> nat \<Rightarrow> eq_labels \<Rightarrow> u32 \<Rightarrow> ('d, unit equiv_ext) handler" where
  "eq_call b fuel L a =
     (if a = l_mismatch_fault L then mismatch_fault b fuel (l_ss_on_exit L) (eq_step_call b fuel L)
      else if a = l_syscall_handler L then equiv_syscall_handler b fuel
      else (\<lambda>_ _. Inl OutOfBounds))"

text \<open>\<open>n\<close> bounds the exceptions taken until all threads are done; \<open>cur\<close> is the caller's registers.\<close>

definition equiv_run ::
  "'d bus \<Rightarrow> nat \<Rightarrow> eq_labels \<Rightarrow> 'm processor \<Rightarrow> (u32 \<Rightarrow> u32 \<times> u32) \<Rightarrow> u32 \<Rightarrow> nat \<Rightarrow> regs_t \<Rightarrow> 'm \<Rightarrow> 'd equiv \<Rightarrow>
   ('m \<times> 'd equiv) res" where
  "equiv_run b fuel L user priv ksp n cur m s =
     bnd (tq_pop (eq_heap s) (equiv_runq s)) (\<lambda>(p, q).
     let s = s\<lparr>equiv_runq := q, eq_cur := p\<rparr> in
     if p = 0 then Inl (Panic ''empty run queue?'')
     else
       bnd (mismatch_on s) (\<lambda>s.
       bnd (deref (eq_heap s) p) (\<lambda>th.
       bnd (mismatch_pc_set (th_regs th ! 15) s) (\<lambda>(_, s).
       bnd (switchto_cswitch (cur_cpsr s) cur (th_regs th)) (\<lambda>(old, t).
       bnd (run_user user priv (eq_call b fuel L) ksp n t m (s\<lparr>start_regs := old\<rparr>)) (\<lambda>(_, m, s).
       bnd (mismatch_off s) (\<lambda>s. Inr (m, s))))))))"

definition equiv_init :: "('d \<Rightarrow> 'd) \<Rightarrow> eq_labels \<Rightarrow> 'd equiv \<Rightarrow> 'd equiv res" where
  "equiv_init kmalloc_init L s =
     bnd (mini_step_init (l_full_except_ints L) (l_mismatch_fault L) (l_hash_handler L) (s\<lparr>sdev := kmalloc_init (sdev s)\<rparr>))
       (\<lambda>s. Inr (snd (full_except_set_syscall (l_syscall_handler L) s)))"

subsection \<open>A thread on its own\<close>

text \<open>\<open>step c\<close> is what the thread does with its registers and its own memory until its next exception when
  it is single-stepped, \<open>None\<close> where nothing is said.  \<open>solo\<close> is its hash when it exits with its
  \<open>n\<close>-th exception: \<open>None\<close> if it does not exit then, or does what the checker does not allow (an
  unknown system call, a stack pointer out of bounds at a system call, leaving user mode).\<close>

type_synonym 'v local_step = "regs_t \<times> 'v \<Rightarrow> (exn \<times> regs_t \<times> 'v) option"

fun solo :: "'v local_step \<Rightarrow> u32 \<Rightarrow> u32 \<Rightarrow> u32 \<Rightarrow> nat \<Rightarrow> regs_t \<times> 'v \<Rightarrow> u32 \<Rightarrow> u32 option" where
  "solo step on_exit lo hi 0 c hash = None"
| "solo step on_exit lo hi (Suc n) c hash =
     (case step c of None \<Rightarrow> None
      | Some (e, c1) \<Rightarrow>
          if \<not> in_user_mode (fst c1) then None
          else (case e of
              Prefetch_abort \<Rightarrow>
                if fst c1 ! 15 = on_exit then None
                else solo step on_exit lo hi n c1 (fast_hash_inc32 (regs_bytes (fst c1)) hash)
            | Swi \<Rightarrow>
                if fst c1 ! 13 < lo \<or> hi < fst c1 ! 13 then None
                else if fst c1 ! 0 = EQUIV_EXIT then Some hash
                else if fst c1 ! 0 = EQUIV_PUTC then solo step on_exit lo hi n (saved_regs Swi (fst c1), snd c1) hash
                else None
            | Data_abort \<Rightarrow> None))"

text \<open>The threads of \<open>T\<close> are isolated: \<open>own t m\<close> is the memory of thread \<open>t\<close>, and with the breakpoint armed
  at its next instruction the processor does what \<open>step t\<close> says and leaves the memory of the others alone.\<close>

definition isolated :: "'m processor \<Rightarrow> (u32 \<Rightarrow> 'm \<Rightarrow> 'v) \<Rightarrow> (u32 \<Rightarrow> 'v local_step) \<Rightarrow> u32 set \<Rightarrow> bool" where
  "isolated user own step T \<longleftrightarrow>
     (\<forall>t \<in> T. \<forall>g r m e r1 v1.
        armed g \<longrightarrow> bvr0 g = r ! 15 \<longrightarrow> in_user_mode r \<longrightarrow> step t (r, own t m) = Some (e, r1, v1) \<longrightarrow>
        (\<exists>g1 m1. same_breakpoint g g1 \<and> user g r m = Some (e, g1, r1, m1) \<and> own t m1 = v1 \<and>
           (\<forall>u \<in> T. u \<noteq> t \<longrightarrow> own u m1 = own u m)))"

text \<open>The UART takes what the kernel sends.\<close>

definition uart_answers :: "'d bus \<Rightarrow> nat \<Rightarrow> ('d \<Rightarrow> bool) \<Rightarrow> bool" where
  "uart_answers b fuel up \<longleftrightarrow> (\<forall>d. up d \<longrightarrow>
     (\<exists>d1. uart_flush_tx b fuel d = Inr d1 \<and> up d1) \<and>
     (\<exists>d1. wait_for fuel (uart_can_put8 b) d = Inr d1 \<and> up d1) \<and>
     (\<forall>c. \<exists>v d1. uart_put8 b fuel c d = Inr (v, d1) \<and> up d1))"

definition good_labels :: "eq_labels \<Rightarrow> bool" where
  "good_labels L \<longleftrightarrow> l_mismatch_fault L \<noteq> 0 \<and> l_syscall_handler L \<noteq> 0 \<and> l_mismatch_fault L \<noteq> l_syscall_handler L"

text \<open>The handlers are installed and the checker runs.\<close>

definition kernel_up :: "eq_labels \<Rightarrow> ('d \<Rightarrow> bool) \<Rightarrow> 'd equiv \<Rightarrow> bool" where
  "kernel_up L up s \<longleftrightarrow> stepping s \<and> up (sdev s) \<and> prefetch_handler s = l_mismatch_fault L \<and>
     syscall_handler s = l_syscall_handler L \<and> step_handler s = l_hash_handler L \<and> privileged (start_regs s ! 16)"

subsection \<open>Choosing the next thread\<close>

lemma mismatch_run_ready:
  assumes "stepping s" and "up (sdev s)" and "uart_answers b fuel up" and "in_user_mode r"
  shows "\<exists>g d. mismatch_run b fuel r s = Inr (ToUser r, s\<lparr>debug := g, sdev := d\<rparr>) \<and> armed g \<and>
    bvr0 g = r ! 15 \<and> up d"
proof -
  obtain g where g: "mismatch_pc_set (r ! 15) s = Inr (bvr0 (debug s), s\<lparr>debug := g\<rparr>)" "armed g" "bvr0 g = r ! 15"
    using mismatch_pc_set_stepping [OF assms(1)] by blast
  obtain d where d: "wait_for fuel (uart_can_put8 b) (sdev s) = Inr d" "up d"
    using assms(2,3) unfolding uart_answers_def by blast
  show ?thesis
    using g d switchto_user [OF assms(4)] by (intro exI [of _ g] exI [of _ d])
      (simp add: mismatch_run_def wait_can_put8_def)
qed

text \<open>The thread blocks of a queue: what the queue operations keep.\<close>

lemma same_but_next_regs:
  assumes "same_but_next h h'" and "h p = Some (t :: eq_th)"
  shows "\<exists>n. h' p = Some (t\<lparr>nxt := n\<rparr>)"
  using assms unfolding same_but_next_def by (metis option.exhaust)

text \<open>\<open>equiv_schedule\<close> rotates the list of the current thread and the run queue.\<close>

lemma equiv_schedule_rotates:
  assumes "stepping s" and "up (sdev s)" and uart: "uart_answers b fuel up"
    and q: "tq_repr (eq_heap s) (equiv_runq s) qs" and cur: "eq_cur s \<notin> set qs" "valid (eq_heap s) (eq_cur s)"
    and x: "hd (qs @ [eq_cur s]) = x" and th: "eq_heap s x = Some th" "in_user_mode (th_regs th)"
  shows "\<exists>h q1 g d. equiv_schedule b fuel s =
      Inr (ToUser (th_regs th), s\<lparr>eq_heap := h, equiv_runq := q1, eq_cur := x, debug := g, sdev := d\<rparr>) \<and>
    tq_repr h q1 (tl (qs @ [eq_cur s])) \<and> same_but_next (eq_heap s) h \<and>
    (\<forall>p. p \<notin> set qs \<longrightarrow> p \<noteq> eq_cur s \<longrightarrow> h p = eq_heap s p) \<and> armed g \<and> bvr0 g = th_regs th ! 15 \<and> up d"
proof -
  obtain d0 where d0: "uart_flush_tx b fuel (sdev s) = Inr d0" "up d0"
    using uart assms(2) unfolding uart_answers_def by blast
  have cur0: "eq_cur s \<noteq> 0" using cur(2) by (simp add: valid_def)
  show ?thesis
  proof (cases qs)
    case Nil
    have pop: "tq_pop (eq_heap s) (equiv_runq s) = Inr (0, equiv_runq s)"
      using q Nil by (simp add: tqq.pop_nil)
    let ?s = "s\<lparr>sdev := d0\<rparr>"
    have "stepping ?s" using assms(1) by (simp add: stepping_def)
    then obtain g d where "mismatch_run b fuel (th_regs th) ?s = Inr (ToUser (th_regs th), ?s\<lparr>debug := g, sdev := d\<rparr>)"
        "armed g" "bvr0 g = th_regs th ! 15" "up d"
      using mismatch_run_ready [OF _ _ uart th(2), of ?s] d0 by auto
    then show ?thesis using pop q x th d0 cur0 Nil
      by (intro exI [of _ "eq_heap s"] exI [of _ "equiv_runq s"] exI [of _ g] exI [of _ d])
         (simp add: equiv_schedule_def deref_def)
  next
    case (Cons y ys)
    then have y: "y = x" "y \<noteq> 0" using x tqq.rel_valid [OF q, of y] by (auto simp: valid_def)
    obtain q1 where q1: "tq_pop (eq_heap s) (equiv_runq s) = Inr (x, q1)" "tq_repr (eq_heap s) q1 ys"
      using tqq.pop_cons q Cons y by blast
    have "eq_cur s \<notin> set ys" using cur(1) Cons by auto
    then obtain h q2 where a: "tq_append (eq_heap s) q1 (eq_cur s) = Inr (h, q2)" "tq_repr h q2 (ys @ [eq_cur s])"
        "same_but_next (eq_heap s) h" "\<forall>p. p \<notin> set ys \<longrightarrow> p \<noteq> eq_cur s \<longrightarrow> h p = eq_heap s p"
      using tqq.append_law [OF q1(2) cur(2)] by blast
    obtain n where n: "h x = Some (th\<lparr>nxt := n\<rparr>)" using same_but_next_regs [OF a(3) th(1)] by blast
    let ?s = "s\<lparr>eq_heap := h, equiv_runq := q2, eq_cur := x, sdev := d0\<rparr>"
    have "stepping ?s" using assms(1) by (simp add: stepping_def)
    then obtain g d where "mismatch_run b fuel (th_regs th) ?s = Inr (ToUser (th_regs th), ?s\<lparr>debug := g, sdev := d\<rparr>)"
        "armed g" "bvr0 g = th_regs th ! 15" "up d"
      using mismatch_run_ready [OF _ _ uart th(2), of ?s] d0 by auto
    then show ?thesis using q1 a d0 cur0 Cons y n
      by (intro exI [of _ h] exI [of _ q2] exI [of _ g] exI [of _ d])
         (simp add: equiv_schedule_def deref_def)
  qed
qed

subsection \<open>The system of threads\<close>

text \<open>Thread \<open>t\<close> will exit with its \<open>n t\<close>-th exception from here with the hash \<open>hh t\<close>; \<open>ee t\<close> is the hash it
  is expected to have.\<close>

definition thread_ok ::
  "(u32 \<Rightarrow> 'm \<Rightarrow> 'v) \<Rightarrow> (u32 \<Rightarrow> 'v local_step) \<Rightarrow> u32 \<Rightarrow> eq_heap \<Rightarrow> 'm \<Rightarrow> (u32 \<Rightarrow> nat) \<Rightarrow> (u32 \<Rightarrow> u32) \<Rightarrow> (u32 \<Rightarrow> u32) \<Rightarrow> u32 \<Rightarrow> bool" where
  "thread_ok own step on_exit h m n hh ee t \<longleftrightarrow>
     (\<exists>th. h t = Some th \<and> in_user_mode (th_regs th) \<and> expected_hash th = ee t \<and>
        solo (step t) on_exit (stack_start th) (stack_end th) (n t) (th_regs th, own t m) (reg_hash th) = Some (hh t))"

lemma thread_ok_same:
  assumes "thread_ok own step on_exit h m n hh ee t" and "same_but_next h h'"
    and "own t m' = own t m" and "n' t = n t"
  shows "thread_ok own step on_exit h' m' n' hh ee t"
proof -
  obtain th where th: "h t = Some th" "in_user_mode (th_regs th)" "expected_hash th = ee t"
    "solo (step t) on_exit (stack_start th) (stack_end th) (n t) (th_regs th, own t m) (reg_hash th) = Some (hh t)"
    using assms(1) unfolding thread_ok_def by blast
  obtain k where "h' t = Some (th\<lparr>nxt := k\<rparr>)" using same_but_next_regs [OF assms(2) th(1)] by blast
  then show ?thesis using th assms(3,4) by (simp add: thread_ok_def)
qed

lemma thread_ok_other:
  "thread_ok own step on_exit h m n hh ee t \<Longrightarrow> t \<noteq> p \<Longrightarrow> own t m' = own t m \<Longrightarrow> n' t = n t \<Longrightarrow>
   thread_ok own step on_exit (h(p \<mapsto> x)) m' n' hh ee t"
  by (simp add: thread_ok_def)

text \<open>The current thread and those of the run queue \<open>qs\<close>, before the next one is chosen and when it runs.\<close>

definition waiting ::
  "eq_labels \<Rightarrow> ('d \<Rightarrow> bool) \<Rightarrow> (u32 \<Rightarrow> 'm \<Rightarrow> 'v) \<Rightarrow> (u32 \<Rightarrow> 'v local_step) \<Rightarrow> (u32 \<Rightarrow> u32) \<Rightarrow> (u32 \<Rightarrow> u32) \<Rightarrow>
   'd equiv \<Rightarrow> 'm \<Rightarrow> u32 list \<Rightarrow> (u32 \<Rightarrow> nat) \<Rightarrow> bool" where
  "waiting L up own step hh ee s m qs n \<longleftrightarrow>
     kernel_up L up s \<and> distinct (eq_cur s # qs) \<and> valid (eq_heap s) (eq_cur s) \<and>
     tq_repr (eq_heap s) (equiv_runq s) qs \<and>
     (\<forall>t \<in> set (eq_cur s # qs). thread_ok own step (l_ss_on_exit L) (eq_heap s) m n hh ee t)"

definition cur_regs :: "'d equiv \<Rightarrow> regs_t" where
  "cur_regs s = th_regs (the (eq_heap s (eq_cur s)))"

definition running where
  "running L up own step hh ee s m qs n \<longleftrightarrow>
     waiting L up own step hh ee s m qs n \<and> bvr0 (debug s) = cur_regs s ! 15"

lemma waiting_schedule:
  assumes w: "waiting L up own step hh ee s m qs n" and uart: "uart_answers b fuel up"
  shows "\<exists>s1. equiv_schedule b fuel s = Inr (ToUser (cur_regs s1), s1) \<and>
    running L up own step hh ee s1 m (tl (qs @ [eq_cur s])) n \<and> eq_cur s1 = hd (qs @ [eq_cur s]) \<and>
    start_regs s1 = start_regs s \<and> (\<forall>p. p \<notin> set (eq_cur s # qs) \<longrightarrow> eq_heap s1 p = eq_heap s p)"
proof -
  let ?x = "hd (qs @ [eq_cur s])"
  have k: "stepping s" "up (sdev s)" "kernel_up L up s" and d: "eq_cur s \<notin> set qs" "distinct qs"
    and v: "valid (eq_heap s) (eq_cur s)"
    and q: "tq_repr (eq_heap s) (equiv_runq s) qs"
    and t: "\<forall>t \<in> set (eq_cur s # qs). thread_ok own step (l_ss_on_exit L) (eq_heap s) m n hh ee t"
    using w by (auto simp: waiting_def kernel_up_def)
  have mem: "set (?x # tl (qs @ [eq_cur s])) = set (eq_cur s # qs)"
    "distinct (?x # tl (qs @ [eq_cur s]))" using d by (cases qs; auto)+
  then have x: "?x \<in> set (eq_cur s # qs)" by (metis list.set_intros(1))
  obtain th where th: "eq_heap s ?x = Some th" "in_user_mode (th_regs th)"
    using t x unfolding thread_ok_def by blast
  have "\<exists>h q1 g d. equiv_schedule b fuel s =
      Inr (ToUser (th_regs th), s\<lparr>eq_heap := h, equiv_runq := q1, eq_cur := ?x, debug := g, sdev := d\<rparr>) \<and>
    tq_repr h q1 (tl (qs @ [eq_cur s])) \<and> same_but_next (eq_heap s) h \<and>
    (\<forall>p. p \<notin> set qs \<longrightarrow> p \<noteq> eq_cur s \<longrightarrow> h p = eq_heap s p) \<and> armed g \<and> bvr0 g = th_regs th ! 15 \<and> up d"
    using equiv_schedule_rotates [OF k(1,2) uart q d(1) v refl th] .
  then obtain h q1 g d where e: "equiv_schedule b fuel s =
      Inr (ToUser (th_regs th), s\<lparr>eq_heap := h, equiv_runq := q1, eq_cur := ?x, debug := g, sdev := d\<rparr>)"
    "tq_repr h q1 (tl (qs @ [eq_cur s]))" "same_but_next (eq_heap s) h"
    "\<forall>p. p \<notin> set qs \<longrightarrow> p \<noteq> eq_cur s \<longrightarrow> h p = eq_heap s p" "armed g" "bvr0 g = th_regs th ! 15" "up d"
    by (elim exE conjE)
  let ?s = "s\<lparr>eq_heap := h, equiv_runq := q1, eq_cur := ?x, debug := g, sdev := d\<rparr>"
  obtain i where i: "h ?x = Some (th\<lparr>nxt := i\<rparr>)" using same_but_next_regs [OF e(3) th(1)] by blast
  have "\<forall>t \<in> set (eq_cur s # qs). valid (eq_heap s) t" using tqq.rel_valid [OF q] v by simp
  then have "valid (eq_heap s) ?x" using x by blast
  then have vx: "valid h ?x" using valid_same [OF e(3)] by simp
  have "\<forall>t \<in> set (?x # tl (qs @ [eq_cur s])). thread_ok own step (l_ss_on_exit L) h m n hh ee t"
    unfolding mem by (intro ballI thread_ok_same [OF bspec [OF t] e(3) refl refl])
  then have "running L up own step hh ee ?s m (tl (qs @ [eq_cur s])) n"
    using k(3) mem(2) vx e i by (simp add: running_def waiting_def kernel_up_def stepping_def cur_regs_def)
  moreover have "cur_regs ?s = th_regs th" using i by (simp add: cur_regs_def)
  moreover have "\<forall>p. p \<notin> set (eq_cur s # qs) \<longrightarrow> eq_heap ?s p = eq_heap s p" using e(4) by simp
  ultimately show ?thesis using e(1) by (intro exI [of _ ?s]) simp
qed

text \<open>The current thread has taken a step, its block is updated.\<close>

lemma waiting_update:
  assumes r: "running L up own step hh ee s m qs n" and p: "eq_cur s = p"
    and g: "same_breakpoint (debug s) g" and d: "up d" and u: "in_user_mode (th_regs th)" "expected_hash th = ee p"
    and solo: "solo (step p) (l_ss_on_exit L) (stack_start th) (stack_end th) k (th_regs th, own p m1) (reg_hash th) = Some (hh p)"
    and others: "\<forall>t \<in> set qs. own t m1 = own t m"
  shows "waiting L up own step hh ee (s\<lparr>debug := g, eq_heap := (eq_heap s)(p \<mapsto> th), sdev := d\<rparr>) m1 qs (n(p := k))"
proof -
  have w: "kernel_up L up s" "p \<notin> set qs" "distinct qs" "valid (eq_heap s) p" "tq_repr (eq_heap s) (equiv_runq s) qs"
    and t: "\<forall>t \<in> set qs. thread_ok own step (l_ss_on_exit L) (eq_heap s) m n hh ee t"
    using r p by (auto simp: running_def waiting_def)
  have "tq_repr ((eq_heap s)(p \<mapsto> th)) (equiv_runq s) qs"
    using w(2) by (intro tqq.rel_frame [OF w(5)]) auto
  moreover have "thread_ok own step (l_ss_on_exit L) ((eq_heap s)(p \<mapsto> th)) m1 (n(p := k)) hh ee t" if "t \<in> set qs" for t
  proof (rule thread_ok_other)
    show "thread_ok own step (l_ss_on_exit L) (eq_heap s) m n hh ee t" using t that by blast
    show "t \<noteq> p" using that w(2) by blast
    show "own t m1 = own t m" using others that by blast
    show "(n(p := k)) t = n t" using that w(2) by auto
  qed
  moreover have "thread_ok own step (l_ss_on_exit L) ((eq_heap s)(p \<mapsto> th)) m1 (n(p := k)) hh ee p"
    using u solo by (simp add: thread_ok_def)
  moreover have "armed g" using w(1) by (intro armed_same [OF _ g]) (simp add: kernel_up_def stepping_def)
  ultimately show ?thesis using w d p by (simp add: waiting_def kernel_up_def stepping_def valid_def)
qed

text \<open>The next exception of the current thread.\<close>

lemma running_event:
  assumes r: "running L up own step hh ee s m qs n" and p: "eq_cur s = p" and iso: "isolated user own step T"
    and T: "set (p # qs) \<subseteq> T"
  shows "\<exists>th k e c g m1. eq_heap s p = Some th \<and> n p = Suc k \<and> in_user_mode (fst c) \<and> expected_hash th = ee p \<and>
    user (debug s) (cur_regs s) m = Some (e, g, fst c, m1) \<and> same_breakpoint (debug s) g \<and> own p m1 = snd c \<and>
    (\<forall>t \<in> set qs. own t m1 = own t m) \<and>
    (e = Prefetch_abort \<and> fst c ! 15 \<noteq> l_ss_on_exit L \<and>
       solo (step p) (l_ss_on_exit L) (stack_start th) (stack_end th) k c
         (fast_hash_inc32 (regs_bytes (fst c)) (reg_hash th)) = Some (hh p) \<or>
     e = Swi \<and> stack_start th \<le> fst c ! 13 \<and> fst c ! 13 \<le> stack_end th \<and>
       (fst c ! 0 = EQUIV_EXIT \<and> reg_hash th = hh p \<or>
        fst c ! 0 = EQUIV_PUTC \<and>
          solo (step p) (l_ss_on_exit L) (stack_start th) (stack_end th) k (saved_regs Swi (fst c), snd c) (reg_hash th) = Some (hh p)))"
proof -
  have "kernel_up L up s" "distinct (p # qs)" "thread_ok own step (l_ss_on_exit L) (eq_heap s) m n hh ee p"
    and b: "bvr0 (debug s) = cur_regs s ! 15" using r p by (auto simp: running_def waiting_def)
  then obtain th where th: "eq_heap s p = Some th" "in_user_mode (th_regs th)" "expected_hash th = ee p"
    and so: "solo (step p) (l_ss_on_exit L) (stack_start th) (stack_end th) (n p) (th_regs th, own p m) (reg_hash th) = Some (hh p)"
    and a: "armed (debug s)" and q: "p \<notin> set qs"
    by (auto simp: thread_ok_def kernel_up_def stepping_def)
  obtain k where k: "n p = Suc k" using so by (cases "n p") auto
  obtain e c where ec: "step p (th_regs th, own p m) = Some (e, c)" using so k by (auto split: option.splits)
  have cr: "cur_regs s = th_regs th" using th(1) p by (simp add: cur_regs_def)
  have "p \<in> T" using T by simp
  moreover have "step p (th_regs th, own p m) = Some (e, fst c, snd c)" using ec by simp
  moreover have "bvr0 (debug s) = th_regs th ! 15" using b cr by simp
  ultimately have "\<exists>g m1. same_breakpoint (debug s) g \<and> user (debug s) (th_regs th) m = Some (e, g, fst c, m1) \<and>
      own p m1 = snd c \<and> (\<forall>u \<in> T. u \<noteq> p \<longrightarrow> own u m1 = own u m)"
    using iso a th(2) unfolding isolated_def by blast
  then obtain g m1 where g: "same_breakpoint (debug s) g" "user (debug s) (th_regs th) m = Some (e, g, fst c, m1)"
    "own p m1 = snd c" "\<forall>u \<in> T. u \<noteq> p \<longrightarrow> own u m1 = own u m"
    by (elim exE conjE)
  have "\<forall>t \<in> set qs. own t m1 = own t m" using g(4) T q by auto
  moreover have "in_user_mode (fst c) \<and>
    (e = Prefetch_abort \<and> fst c ! 15 \<noteq> l_ss_on_exit L \<and>
       solo (step p) (l_ss_on_exit L) (stack_start th) (stack_end th) k c
         (fast_hash_inc32 (regs_bytes (fst c)) (reg_hash th)) = Some (hh p) \<or>
     e = Swi \<and> stack_start th \<le> fst c ! 13 \<and> fst c ! 13 \<le> stack_end th \<and>
       (fst c ! 0 = EQUIV_EXIT \<and> reg_hash th = hh p \<or>
        fst c ! 0 = EQUIV_PUTC \<and>
          solo (step p) (l_ss_on_exit L) (stack_start th) (stack_end th) k (saved_regs Swi (fst c), snd c) (reg_hash th) = Some (hh p)))"
    using so by (cases e) (auto simp: k ec not_less split: if_splits)
  ultimately show ?thesis
    using th(1,3) g k unfolding cr by blast
qed

subsection \<open>The handlers\<close>

lemma deliver_hash:
  assumes "in_user_mode r" and "good_labels L" and "prefetch_handler s = l_mismatch_fault L"
    and "step_handler s = l_hash_handler L" and "r ! 15 \<noteq> l_ss_on_exit L"
    and "eq_cur s = p" and "p \<noteq> 0" and "eq_heap s p = Some th"
  shows "full_except_ints priv (eq_call b fuel L) ksp Prefetch_abort r s =
    equiv_schedule b fuel (s\<lparr>eq_heap := (eq_heap s)(p \<mapsto> th\<lparr>th_regs := r, inst_cnt := inst_cnt th + 1,
      reg_hash := fast_hash_inc32 (regs_bytes r) (reg_hash th)\<rparr>)\<rparr>)"
proof -
  let ?s = "s\<lparr>eq_heap := (eq_heap s)(p \<mapsto> th\<lparr>th_regs := r, inst_cnt := inst_cnt th + 1,
      reg_hash := fast_hash_inc32 (regs_bytes r) (reg_hash th)\<rparr>)\<rparr>"
  have h: "equiv_hash_handler b fuel (step_fault_mk (r ! 15) r) s =
      bnd (equiv_schedule b fuel ?s) (\<lambda>(t, s). Inr (Switches t, s))"
    using assms(6-8) by (simp add: equiv_hash_handler_def deref_def step_fault_mk_def Let_def)
  have pf: "prefetch_handler s \<noteq> 0" using assms(2,3) by (simp add: good_labels_def)
  show ?thesis
    using assms(2-5) unfolding deliver_prefetch [OF assms(1) pf]
    by (cases "equiv_schedule b fuel ?s")
       (auto simp: eq_call_def mismatch_fault_def eq_step_call_def h Let_def)
qed

lemma deliver_swi:
  assumes "in_user_mode r" and "good_labels L" and "syscall_handler s = l_syscall_handler L" and "100000 < ksp"
  shows "full_except_ints priv (eq_call b fuel L) ksp Swi r s =
    bnd (equiv_syscall_handler b fuel (saved_regs Swi r) s) (\<lambda>(h, s1).
      case h of Switches t \<Rightarrow> Inr (t, s1) | Returns v r2 \<Rightarrow> bnd (switchto (r2[0 := v])) (\<lambda>t. Inr (t, s1)))"
  using assms by (auto simp: full_except_ints_def syscall_full_except_def eq_call_def good_labels_def in_user_mode_def
      mode_get_user Let_def)

lemma check_sp_ok:
  "stack_start th \<le> r ! 13 \<Longrightarrow> r ! 13 \<le> stack_end th \<Longrightarrow> check_sp (th\<lparr>th_regs := r\<rparr>) = Inr ()"
  by (auto simp: check_sp_def not_less Let_def)

lemma deliver_putc:
  assumes u: "in_user_mode r" "good_labels L" "syscall_handler s = l_syscall_handler L" "100000 < ksp"
    and p: "eq_cur s = p" "p \<noteq> 0" "eq_heap s p = Some th" and sp: "stack_start th \<le> r ! 13" "r ! 13 \<le> stack_end th"
    and no: "r ! 0 = EQUIV_PUTC" and uart: "uart_answers b fuel up" "up (sdev s)"
  shows "\<exists>d. up d \<and> full_except_ints priv (eq_call b fuel L) ksp Swi r s =
    equiv_schedule b fuel (s\<lparr>eq_heap := (eq_heap s)(p \<mapsto> th\<lparr>th_regs := saved_regs Swi r\<rparr>), sdev := d\<rparr>)"
proof -
  obtain d1 where d1: "uart_flush_tx b fuel (sdev s) = Inr d1" "up d1"
    using uart unfolding uart_answers_def by blast
  obtain v d where d: "uart_put8 b fuel (ucast (saved_regs Swi r ! 1)) d1 = Inr (v, d)" "up d"
    using uart(1) d1(2) unfolding uart_answers_def by blast
  let ?s = "s\<lparr>eq_heap := (eq_heap s)(p \<mapsto> th\<lparr>th_regs := saved_regs Swi r\<rparr>), sdev := d\<rparr>"
  have "equiv_syscall_handler b fuel (saved_regs Swi r) s = bnd (equiv_schedule b fuel ?s) (\<lambda>(t, s). Inr (Switches t, s))"
    using p check_sp_ok [of th "saved_regs Swi r"] sp no d1 d by (simp add: equiv_syscall_handler_def deref_def Let_def)
  then have "full_except_ints priv (eq_call b fuel L) ksp Swi r s = equiv_schedule b fuel ?s"
    unfolding deliver_swi [OF u] by (cases "equiv_schedule b fuel ?s") auto
  then show ?thesis using d(2) by blast
qed

text \<open>The exit: the hash is stored or compared, then the next thread runs or the checker returns.\<close>

lemma deliver_exit:
  assumes u: "in_user_mode r" "good_labels L" "syscall_handler s = l_syscall_handler L" "100000 < ksp"
    and p: "eq_cur s = p" "p \<noteq> 0" "eq_heap s p = Some th" and sp: "stack_start th \<le> r ! 13" "r ! 13 \<le> stack_end th"
    and no: "r ! 0 = EQUIV_EXIT" and uart: "uart_answers b fuel up" "up (sdev s)"
  shows "\<exists>d. up d \<and> full_except_ints priv (eq_call b fuel L) ksp Swi r s =
    (if expected_hash th = 0 \<or> expected_hash th = reg_hash th
     then equiv_exit_next b fuel
       (s\<lparr>eq_heap := (eq_heap s)(p \<mapsto> th\<lparr>th_regs := saved_regs Swi r, expected_hash := reg_hash th\<rparr>), sdev := d\<rparr>)
     else Inl (Panic ''MISMATCH ERROR''))"
proof -
  obtain d where d: "uart_flush_tx b fuel (sdev s) = Inr d" "up d"
    using uart unfolding uart_answers_def by blast
  let ?s = "s\<lparr>eq_heap := (eq_heap s)(p \<mapsto> th\<lparr>th_regs := saved_regs Swi r, expected_hash := reg_hash th\<rparr>), sdev := d\<rparr>"
  have same: "expected_hash th = v \<Longrightarrow> th\<lparr>th_regs := saved_regs Swi r, expected_hash := v\<rparr> = th\<lparr>th_regs := saved_regs Swi r\<rparr>" for v
    by (cases th) auto
  have comm: "s\<lparr>sdev := d, eq_heap := h\<rparr> = s\<lparr>eq_heap := h, sdev := d\<rparr>" for h by (cases s) auto
  have "equiv_syscall_handler b fuel (saved_regs Swi r) s =
    (if expected_hash th = 0 \<or> expected_hash th = reg_hash th
     then bnd (equiv_exit_next b fuel ?s) (\<lambda>(t, s). Inr (Switches t, s))
     else Inl (Panic ''MISMATCH ERROR''))"
    using p check_sp_ok [of th "saved_regs Swi r"] sp no d by (auto simp: equiv_syscall_handler_def deref_def Let_def comm same
        EQUIV_EXIT_def EQUIV_PUTC_def)
  then have "full_except_ints priv (eq_call b fuel L) ksp Swi r s =
    (if expected_hash th = 0 \<or> expected_hash th = reg_hash th then equiv_exit_next b fuel ?s
     else Inl (Panic ''MISMATCH ERROR''))"
    unfolding deliver_swi [OF u] by (cases "equiv_exit_next b fuel ?s") auto
  then show ?thesis using d(2) by blast
qed

lemma exit_next_last:
  "tq_repr (eq_heap s) (equiv_runq s) [] \<Longrightarrow> privileged (start_regs s ! 16) \<Longrightarrow>
   equiv_exit_next b fuel s = Inr (ToPriv (start_regs s), s)"
  by (simp add: equiv_exit_next_def tqq.pop_nil switchto_priv)

lemma exit_next_more:
  assumes k: "kernel_up L up s" and q: "tq_repr (eq_heap s) (equiv_runq s) (x # xs)" and uart: "uart_answers b fuel up"
    and t: "\<forall>t \<in> set (x # xs). thread_ok own step (l_ss_on_exit L) (eq_heap s) m n hh ee t"
  shows "\<exists>s1. equiv_exit_next b fuel s = Inr (ToUser (cur_regs s1), s1) \<and>
    running L up own step hh ee s1 m xs n \<and> eq_cur s1 = x \<and> start_regs s1 = start_regs s \<and> eq_heap s1 = eq_heap s"
proof -
  obtain q1 where q1: "tq_pop (eq_heap s) (equiv_runq s) = Inr (x, q1)" "tq_repr (eq_heap s) q1 xs"
    using tqq.pop_cons [OF q] by blast
  have d: "distinct (x # xs)" using tqq.rel_distinct [OF q] .
  have x: "valid (eq_heap s) x" "x \<noteq> 0" using tqq.rel_valid [OF q, of x] by (auto simp: valid_def)
  obtain th where th: "eq_heap s x = Some th" "in_user_mode (th_regs th)"
    using t unfolding thread_ok_def by auto
  let ?s = "s\<lparr>equiv_runq := q1, eq_cur := x\<rparr>"
  have "stepping ?s" "up (sdev ?s)" using k by (auto simp: kernel_up_def stepping_def)
  then obtain g e where g: "mismatch_run b fuel (th_regs th) ?s = Inr (ToUser (th_regs th), ?s\<lparr>debug := g, sdev := e\<rparr>)"
      "armed g" "bvr0 g = th_regs th ! 15" "up e"
    using mismatch_run_ready [OF _ _ uart th(2)] by blast
  let ?s1 = "?s\<lparr>debug := g, sdev := e\<rparr>"
  have "equiv_exit_next b fuel s = Inr (ToUser (th_regs th), ?s1)"
    using q1 x th g by (simp add: equiv_exit_next_def deref_def Let_def)
  moreover have "cur_regs ?s1 = th_regs th" using th by (simp add: cur_regs_def)
  moreover have "running L up own step hh ee ?s1 m xs n"
    using k q1 x d t g th by (simp add: running_def waiting_def kernel_up_def stepping_def cur_regs_def)
  ultimately show ?thesis by (intro exI [of _ ?s1]) simp
qed

subsection \<open>All threads to the end\<close>

text \<open>How the checker ends for the threads \<open>ts\<close>: when every expected hash is 0 or right it goes back to its
  caller with the hash of every thread recorded, otherwise it panics.\<close>

definition checked ::
  "(u32 \<Rightarrow> u32) \<Rightarrow> (u32 \<Rightarrow> u32) \<Rightarrow> u32 set \<Rightarrow> eq_heap \<Rightarrow> regs_t \<Rightarrow> (regs_t \<times> 'm \<times> 'd equiv) res \<Rightarrow> bool" where
  "checked hh ee ts h start r \<longleftrightarrow>
     (if \<forall>t \<in> ts. ee t = 0 \<or> ee t = hh t
      then \<exists>m1 s1. r = Inr (start, m1, s1) \<and> single_step_on_p s1 \<and> tq_repr (eq_heap s1) (equiv_runq s1) [] \<and>
        (\<forall>t \<in> ts. \<exists>th. eq_heap s1 t = Some th \<and> reg_hash th = hh t \<and> expected_hash th = hh t) \<and>
        (\<forall>p. p \<notin> ts \<longrightarrow> eq_heap s1 p = h p)
      else r = Inl (Panic ''MISMATCH ERROR''))"

lemma checked_frame:
  assumes "checked hh ee ts h1 start r" and "\<forall>p. p \<notin> ts \<longrightarrow> h1 p = h p"
  shows "checked hh ee ts h start r"
  using assms by (auto simp: checked_def)

text \<open>A thread that is done before the others run.\<close>

lemma checked_insert:
  assumes "checked hh ee ts h1 start r" and "p \<notin> ts" and "h1 = h(p \<mapsto> th)" and "reg_hash th = hh p"
    and "expected_hash th = hh p" and "ee p = 0 \<or> ee p = hh p"
  shows "checked hh ee (insert p ts) h start r"
proof (cases "\<forall>t \<in> ts. ee t = 0 \<or> ee t = hh t")
  case True
  then obtain m1 s1 where r: "r = Inr (start, m1, s1)" "single_step_on_p s1" "tq_repr (eq_heap s1) (equiv_runq s1) []"
    "\<forall>t \<in> ts. \<exists>th. eq_heap s1 t = Some th \<and> reg_hash th = hh t \<and> expected_hash th = hh t"
    "\<forall>p. p \<notin> ts \<longrightarrow> eq_heap s1 p = h1 p"
    using assms(1) unfolding checked_def by (auto split: if_splits)
  have "eq_heap s1 p = Some th" using r(5) assms(2,3) by simp
  then show ?thesis using r True assms(3-6) unfolding checked_def by auto
next
  case False
  then show ?thesis using assms(1) unfolding checked_def by auto
qed

lemma kernel_up_event: "kernel_up L up s \<Longrightarrow> same_breakpoint (debug s) g \<Longrightarrow> kernel_up L up (s\<lparr>debug := g\<rparr>)"
  unfolding kernel_up_def stepping_def by (auto intro: armed_same)

lemma run_user_event:
  assumes "user (debug s) r m = Some (e, g, r1, m1)"
  shows "run_user user priv call ksp (Suc n) (ToUser r) m s =
    bnd (full_except_ints priv call ksp e r1 (s\<lparr>debug := g\<rparr>)) (\<lambda>(t, s1). run_user user priv call ksp n t m1 s1)"
  using assms by simp

lemma sum_map_upd: "p \<notin> set qs \<Longrightarrow> sum_list (map (n(p := k)) qs) = sum_list (map n qs)"
  by (induction qs) auto

lemma hd_tl_snoc: "hd (qs @ [p]) # tl (qs @ [p]) = qs @ [p]"
  by (cases qs) auto

text \<open>The current thread is put behind the others, the rest of the run is given by the hypothesis \<open>IH\<close>.\<close>

lemma run_continues:
  assumes IH: "\<And>s m qs n. running L up own step hh ee s m qs n \<Longrightarrow> set (eq_cur s # qs) \<subseteq> T \<Longrightarrow>
      sum_list (map n (eq_cur s # qs)) \<le> f \<Longrightarrow>
      checked hh ee (set (eq_cur s # qs)) (eq_heap s) (start_regs s) (run f (ToUser (cur_regs s)) m s)"
    and w: "waiting L up own step hh ee s' m' qs (n(p := k))" and p: "eq_cur s' = p" and uart: "uart_answers b fuel up"
    and T: "set (p # qs) \<subseteq> T" and f: "k + sum_list (map n qs) \<le> f"
    and h: "\<forall>q. q \<noteq> p \<longrightarrow> eq_heap s' q = h q"
  shows "checked hh ee (set (p # qs)) h (start_regs s')
    (bnd (equiv_schedule b fuel s') (\<lambda>(t, s). run f t m' s))"
proof -
  obtain s2 where s2: "equiv_schedule b fuel s' = Inr (ToUser (cur_regs s2), s2)"
    "running L up own step hh ee s2 m' (tl (qs @ [p])) (n(p := k))" "eq_cur s2 = hd (qs @ [p])"
    "start_regs s2 = start_regs s'" "\<forall>q. q \<notin> set (p # qs) \<longrightarrow> eq_heap s2 q = eq_heap s' q"
    using waiting_schedule [OF w uart] p by auto
  have l: "eq_cur s2 # tl (qs @ [p]) = qs @ [p]" using s2(3) by (simp only: hd_tl_snoc)
  have pq: "p \<notin> set qs" using w p by (simp add: waiting_def)
  have "sum_list (map (n(p := k)) (qs @ [p])) = k + sum_list (map n qs)"
    using pq by (simp only: map_append sum_list_append sum_map_upd) simp
  then have "sum_list (map (n(p := k)) (eq_cur s2 # tl (qs @ [p]))) \<le> f" unfolding l using f by simp
  then have "checked hh ee (set (eq_cur s2 # tl (qs @ [p]))) (eq_heap s2) (start_regs s2) (run f (ToUser (cur_regs s2)) m' s2)"
    using s2(2) T by (intro IH) (simp_all only: l, auto)
  then have "checked hh ee (set (p # qs)) (eq_heap s2) (start_regs s') (run f (ToUser (cur_regs s2)) m' s2)"
    unfolding l s2(4) by (simp add: insert_commute)
  moreover have "\<forall>q. q \<notin> set (p # qs) \<longrightarrow> eq_heap s2 q = h q" using s2(5) h by (metis list.set_intros(1))
  ultimately have "checked hh ee (set (p # qs)) h (start_regs s') (run f (ToUser (cur_regs s2)) m' s2)"
    by (rule checked_frame)
  then show ?thesis using s2(1) by simp
qed

text \<open>The current thread is done and its block written; the others go on.\<close>

lemma run_after_exit:
  assumes IH: "\<And>s m qs n. running L up own step hh ee s m qs n \<Longrightarrow> set (eq_cur s # qs) \<subseteq> T \<Longrightarrow>
      sum_list (map n (eq_cur s # qs)) \<le> f \<Longrightarrow>
      checked hh ee (set (eq_cur s # qs)) (eq_heap s) (start_regs s) (run f (ToUser (cur_regs s)) m s)"
    and stop: "\<And>r m s. run f (ToPriv r) m s = Inr (r, m, s)"
    and k: "kernel_up L up s'" and q: "tq_repr (eq_heap s') (equiv_runq s') qs" and uart: "uart_answers b fuel up"
    and t: "\<forall>t \<in> set qs. thread_ok own step (l_ss_on_exit L) (eq_heap s') m' n hh ee t"
    and T: "set (p # qs) \<subseteq> T" and f: "sum_list (map n qs) \<le> f" and p: "p \<notin> set qs"
    and h: "eq_heap s' = h(p \<mapsto> th)" and th: "reg_hash th = hh p" "expected_hash th = hh p" "ee p = 0 \<or> ee p = hh p"
  shows "checked hh ee (set (p # qs)) h (start_regs s')
    (bnd (equiv_exit_next b fuel s') (\<lambda>(t, s). run f t m' s))"
proof (cases qs)
  case Nil
  have "equiv_exit_next b fuel s' = Inr (ToPriv (start_regs s'), s')"
    using exit_next_last [of s'] q Nil k by (simp add: kernel_up_def)
  then show ?thesis using q k th Nil h by (simp add: checked_def kernel_up_def stepping_def stop)
next
  case (Cons x xs)
  have "\<exists>s2. equiv_exit_next b fuel s' = Inr (ToUser (cur_regs s2), s2) \<and> running L up own step hh ee s2 m' xs n \<and>
      eq_cur s2 = x \<and> start_regs s2 = start_regs s' \<and> eq_heap s2 = eq_heap s'"
    using q t unfolding Cons by (intro exit_next_more [OF k _ uart])
  then obtain s2 where s2: "equiv_exit_next b fuel s' = Inr (ToUser (cur_regs s2), s2)"
      "running L up own step hh ee s2 m' xs n" "eq_cur s2 = x" "start_regs s2 = start_regs s'"
      "eq_heap s2 = eq_heap s'"
    by (elim exE conjE)
  have "checked hh ee (set (eq_cur s2 # xs)) (eq_heap s2) (start_regs s2) (run f (ToUser (cur_regs s2)) m' s2)"
    using T f Cons s2(3) by (intro IH [OF s2(2)]) auto
  then have "checked hh ee (insert p (set (eq_cur s2 # xs))) h (start_regs s2) (run f (ToUser (cur_regs s2)) m' s2)"
    using p th Cons s2(3) by (intro checked_insert [OF _ _ s2(5) [unfolded h]]) auto
  then show ?thesis unfolding s2(1) by (simp add: Cons s2(3,4))
qed

lemma run_threads:
  assumes iso: "isolated user own step T" and uart: "uart_answers b fuel up" and L: "good_labels L" and ksp: "100000 < ksp"
  shows "running L up own step hh ee s m qs n \<Longrightarrow> set (eq_cur s # qs) \<subseteq> T \<Longrightarrow> sum_list (map n (eq_cur s # qs)) \<le> f \<Longrightarrow>
    checked hh ee (set (eq_cur s # qs)) (eq_heap s) (start_regs s)
      (run_user user priv (eq_call b fuel L) ksp f (ToUser (cur_regs s)) m s)"
proof (induction f arbitrary: s m qs n)
  case 0
  then show ?case using running_event [OF 0(1) refl iso 0(2)] by auto
next
  case (Suc f)
  define p where "p = eq_cur s"
  note T = Suc.prems(2) [folded p_def]
  obtain th k e c g m1 where th: "eq_heap s p = Some th" and k: "n p = Suc k" and u: "in_user_mode (fst c)"
    and ex: "expected_hash th = ee p" and us: "user (debug s) (cur_regs s) m = Some (e, g, fst c, m1)"
    and g: "same_breakpoint (debug s) g" and o: "own p m1 = snd c" and oth: "\<forall>t \<in> set qs. own t m1 = own t m"
    and ev: "e = Prefetch_abort \<and> fst c ! 15 \<noteq> l_ss_on_exit L \<and>
       solo (step p) (l_ss_on_exit L) (stack_start th) (stack_end th) k c
         (fast_hash_inc32 (regs_bytes (fst c)) (reg_hash th)) = Some (hh p) \<or>
     e = Swi \<and> stack_start th \<le> fst c ! 13 \<and> fst c ! 13 \<le> stack_end th \<and>
       (fst c ! 0 = EQUIV_EXIT \<and> reg_hash th = hh p \<or>
        fst c ! 0 = EQUIV_PUTC \<and>
          solo (step p) (l_ss_on_exit L) (stack_start th) (stack_end th) k (saved_regs Swi (fst c), snd c) (reg_hash th) = Some (hh p))"
    using running_event [OF Suc.prems(1) p_def [symmetric] iso T] by (elim exE conjE)
  have w: "kernel_up L up s" "valid (eq_heap s) p" "distinct (p # qs)"
    and q0: "tq_repr (eq_heap s) (equiv_runq s) qs"
    using Suc.prems(1) by (auto simp: running_def waiting_def p_def)
  let ?s = "s\<lparr>debug := g\<rparr>"
  have up: "prefetch_handler ?s = l_mismatch_fault L" "step_handler ?s = l_hash_handler L"
    "syscall_handler ?s = l_syscall_handler L" "eq_cur ?s = p" "p \<noteq> 0" "eq_heap ?s p = Some th" "up (sdev ?s)"
    "privileged (start_regs s ! 16)"
    using w th by (auto simp: kernel_up_def p_def valid_def)
  have le: "k + sum_list (map n qs) \<le> f" using Suc.prems(3) k p_def by simp
  note upd = waiting_update [OF Suc.prems(1) p_def [symmetric] g _ _ _ _ oth]
  note cont = run_continues [where run = "run_user user priv (eq_call b fuel L) ksp" and k = k and p = p and n = n and
      qs = qs and m' = m1 and h = "eq_heap s" and L = L and own = own and step = step and hh = hh and ee = ee,
      OF Suc.IH _ _ uart T le]
  note run = run_user_event [where user = user and s = s, OF us]
  consider (hash) "e = Prefetch_abort" "fst c ! 15 \<noteq> l_ss_on_exit L"
      "solo (step p) (l_ss_on_exit L) (stack_start th) (stack_end th) k c
         (fast_hash_inc32 (regs_bytes (fst c)) (reg_hash th)) = Some (hh p)"
    | (putc) "e = Swi" "stack_start th \<le> fst c ! 13" "fst c ! 13 \<le> stack_end th" "fst c ! 0 = EQUIV_PUTC"
      "solo (step p) (l_ss_on_exit L) (stack_start th) (stack_end th) k (saved_regs Swi (fst c), snd c) (reg_hash th) = Some (hh p)"
    | (exit) "e = Swi" "stack_start th \<le> fst c ! 13" "fst c ! 13 \<le> stack_end th" "fst c ! 0 = EQUIV_EXIT"
      "reg_hash th = hh p"
    using ev by blast
  then show ?case
  proof cases
    case hash
    let ?th = "th\<lparr>th_regs := fst c, inst_cnt := inst_cnt th + 1,
      reg_hash := fast_hash_inc32 (regs_bytes (fst c)) (reg_hash th)\<rparr>"
    let ?s1 = "s\<lparr>debug := g, eq_heap := (eq_heap s)(p \<mapsto> ?th)\<rparr>"
    have "full_except_ints priv (eq_call b fuel L) ksp e (fst c) ?s = equiv_schedule b fuel ?s1"
      using deliver_hash [OF u L up(1,2) hash(2) up(4,5,6)] hash(1) by simp
    moreover have "waiting L up own step hh ee ?s1 m1 qs (n(p := k))"
      using upd [of "sdev s" ?th k] up(7) u ex hash(3) o by simp
    then have "checked hh ee (set (p # qs)) (eq_heap s) (start_regs ?s1)
        (bnd (equiv_schedule b fuel ?s1) (\<lambda>(t, s). run_user user priv (eq_call b fuel L) ksp f t m1 s))"
      using p_def by (intro cont) auto
    ultimately show ?thesis unfolding p_def [symmetric] run by simp
  next
    case putc
    obtain d where d: "up d" "full_except_ints priv (eq_call b fuel L) ksp Swi (fst c) ?s =
        equiv_schedule b fuel (?s\<lparr>eq_heap := (eq_heap ?s)(p \<mapsto> th\<lparr>th_regs := saved_regs Swi (fst c)\<rparr>), sdev := d\<rparr>)"
      using deliver_putc [OF u L up(3) ksp up(4,5,6) putc(2,3,4) uart up(7)] by blast
    let ?s1 = "s\<lparr>debug := g, eq_heap := (eq_heap s)(p \<mapsto> th\<lparr>th_regs := saved_regs Swi (fst c)\<rparr>), sdev := d\<rparr>"
    have "waiting L up own step hh ee ?s1 m1 qs (n(p := k))"
      using upd [of d "th\<lparr>th_regs := saved_regs Swi (fst c)\<rparr>" k] d(1) u ex putc(5) o by simp
    then have "checked hh ee (set (p # qs)) (eq_heap s) (start_regs ?s1)
        (bnd (equiv_schedule b fuel ?s1) (\<lambda>(t, s). run_user user priv (eq_call b fuel L) ksp f t m1 s))"
      using p_def by (intro cont) auto
    then show ?thesis unfolding p_def [symmetric] run putc(1) d(2) by simp
  next
    case exit
    let ?th = "th\<lparr>th_regs := saved_regs Swi (fst c), expected_hash := reg_hash th\<rparr>"
    obtain d where d: "up d" "full_except_ints priv (eq_call b fuel L) ksp Swi (fst c) ?s =
      (if expected_hash th = 0 \<or> expected_hash th = reg_hash th
       then equiv_exit_next b fuel (?s\<lparr>eq_heap := (eq_heap ?s)(p \<mapsto> ?th), sdev := d\<rparr>)
       else Inl (Panic ''MISMATCH ERROR''))"
      using deliver_exit [OF u L up(3) ksp up(4,5,6) exit(2,3,4) uart up(7)] by blast
    let ?s1 = "s\<lparr>debug := g, eq_heap := (eq_heap s)(p \<mapsto> ?th), sdev := d\<rparr>"
    show ?thesis
    proof (cases "ee p = 0 \<or> ee p = hh p")
      case False
      then show ?thesis unfolding p_def [symmetric] run exit(1) d(2) by (simp add: checked_def ex exit(5))
    next
      case True
      then have next_th: "full_except_ints priv (eq_call b fuel L) ksp Swi (fst c) ?s = equiv_exit_next b fuel ?s1"
        using d(2) ex exit(5) by simp
      have k1: "kernel_up L up ?s1"
        using kernel_up_event [OF w(1) g] d(1) by (simp add: kernel_up_def stepping_def)
      have q1: "tq_repr (eq_heap ?s1) (equiv_runq ?s1) qs"
        using tqq.rel_frame [OF q0, of "(eq_heap s)(p \<mapsto> ?th)"] w(3) by auto
      have t: "\<forall>t \<in> set qs. thread_ok own step (l_ss_on_exit L) (eq_heap ?s1) m1 n hh ee t"
      proof
        fix t assume t: "t \<in> set qs"
        have "thread_ok own step (l_ss_on_exit L) (eq_heap s) m n hh ee t" "t \<noteq> p" "own t m1 = own t m"
          using t Suc.prems(1) w(3) oth by (auto simp: running_def waiting_def)
        then show "thread_ok own step (l_ss_on_exit L) (eq_heap ?s1) m1 n hh ee t" by (simp add: thread_ok_def)
      qed
      have "checked hh ee (set (p # qs)) (eq_heap s) (start_regs ?s1) (bnd (equiv_exit_next b fuel ?s1)
          (\<lambda>(t, s). run_user user priv (eq_call b fuel L) ksp f t m1 s))"
        using le w(3) exit(5) True
        by (intro run_after_exit [where run = "run_user user priv (eq_call b fuel L) ksp" and th = "?th", OF Suc.IH _ k1 q1 uart t T]) auto
      then show ?thesis unfolding p_def [symmetric] run exit(1) next_th by simp
    qed
  qed
qed

text \<open>\<open>equiv_run\<close> up to the first switch.\<close>

lemma equiv_run_starts:
  assumes "steppable s" and "up (sdev s)" and "prefetch_handler s = l_mismatch_fault L"
    and "syscall_handler s = l_syscall_handler L" and "step_handler s = l_hash_handler L"
    and "privileged (cur_cpsr s)" and "privileged (cur ! 16)" and r: "tq_repr (eq_heap s) (equiv_runq s) (p # qs)"
    and t: "\<forall>t \<in> set (p # qs). thread_ok own step (l_ss_on_exit L) (eq_heap s) m n hh ee t"
  shows "\<exists>s2. running L up own step hh ee s2 m qs n \<and> eq_cur s2 = p \<and> start_regs s2 = cur \<and> eq_heap s2 = eq_heap s \<and>
    equiv_run b fuel L user priv ksp N cur m s =
      bnd (run_user user priv (eq_call b fuel L) ksp N (ToUser (cur_regs s2)) m s2) (\<lambda>(_, m, s).
      bnd (mismatch_off s) (\<lambda>s. Inr (m, s)))"
proof -
  obtain q where q: "tq_pop (eq_heap s) (equiv_runq s) = Inr (p, q)" "tq_repr (eq_heap s) q qs"
    using tqq.pop_cons [OF r] by blast
  have d: "distinct (p # qs)" "valid (eq_heap s) p" using tqq.rel_distinct [OF r] tqq.rel_valid [OF r] by auto
  obtain th where th: "eq_heap s p = Some th" "in_user_mode (th_regs th)"
    using t unfolding thread_ok_def by auto
  let ?s = "s\<lparr>equiv_runq := q, eq_cur := p\<rparr>"
  have "steppable ?s" using assms(1) by (simp add: steppable_def)
  then obtain g where g: "mismatch_on ?s = Inr (?s\<lparr>single_step_on_p := True, debug := g\<rparr>)" "armed g"
    using mismatch_on_ok by blast
  let ?s1 = "?s\<lparr>single_step_on_p := True, debug := g\<rparr>"
  have "stepping ?s1" using g(2) by (simp add: stepping_def)
  then obtain g1 where g1: "mismatch_pc_set (th_regs th ! 15) ?s1 = Inr (bvr0 (debug ?s1), ?s1\<lparr>debug := g1\<rparr>)" "armed g1"
      "bvr0 g1 = th_regs th ! 15"
    using mismatch_pc_set_stepping by blast
  let ?s2 = "?s1\<lparr>debug := g1, start_regs := cur\<rparr>"
  have c: "cur_regs ?s2 = th_regs th" using th by (simp add: cur_regs_def)
  have "running L up own step hh ee ?s2 m qs n"
    using assms(2-5,7) t q(2) d g1 c by (simp add: running_def waiting_def kernel_up_def stepping_def)
  moreover have "equiv_run b fuel L user priv ksp N cur m s =
      bnd (run_user user priv (eq_call b fuel L) ksp N (ToUser (cur_regs ?s2)) m ?s2) (\<lambda>(_, m, s).
      bnd (mismatch_off s) (\<lambda>s. Inr (m, s)))"
    unfolding c
    using q d g g1 th cswitch_user [OF assms(6) th(2)] by (simp add: equiv_run_def valid_def deref_def Let_def)
  ultimately show ?thesis by (intro exI [of _ ?s2]) simp
qed

text \<open>C7: Equivalence checking is sound whatever the schedule: threads that are isolated from each other and
  that each, run alone, exit with the hash \<open>hh t\<close>, all exit with exactly this hash when they are
  interleaved instruction by instruction, in whatever order they stand in the run queue and with
  whichever others.  If every expected hash is 0 or the right one, \<open>equiv_run\<close> returns with single
  stepping off, an empty run queue and every hash recorded; otherwise it panics with a mismatch.  One
  exception per step of the threads is enough.\<close>
theorem equiv_run_schedule_independent:
  assumes "isolated user own step (set ts)" and "uart_answers b fuel up" and "good_labels L" and "100000 < ksp"
    and "steppable s" and "up (sdev s)" and "prefetch_handler s = l_mismatch_fault L"
    and "syscall_handler s = l_syscall_handler L" and "step_handler s = l_hash_handler L"
    and "privileged (cur_cpsr s)" and "privileged (cur ! 16)"
    and "tq_repr (eq_heap s) (equiv_runq s) ts" and "ts \<noteq> []"
    and "\<forall>t \<in> set ts. thread_ok own step (l_ss_on_exit L) (eq_heap s) m n hh ee t"
    and "sum_list (map n ts) \<le> N"
  shows "if \<forall>t \<in> set ts. ee t = 0 \<or> ee t = hh t
    then \<exists>m' s'. equiv_run b fuel L user priv ksp N cur m s = Inr (m', s') \<and> \<not> single_step_on_p s' \<and>
      tq_repr (eq_heap s') (equiv_runq s') [] \<and>
      (\<forall>t \<in> set ts. \<exists>th. eq_heap s' t = Some th \<and> reg_hash th = hh t \<and> expected_hash th = hh t)
    else equiv_run b fuel L user priv ksp N cur m s = Inl (Panic ''MISMATCH ERROR'')"
proof -
  obtain p qs where ts: "ts = p # qs" using assms(13) by (cases ts) auto
  obtain s2 where s2: "running L up own step hh ee s2 m qs n" "eq_cur s2 = p" "start_regs s2 = cur" "eq_heap s2 = eq_heap s"
    and e: "equiv_run b fuel L user priv ksp N cur m s =
      bnd (run_user user priv (eq_call b fuel L) ksp N (ToUser (cur_regs s2)) m s2) (\<lambda>(_, m, s).
      bnd (mismatch_off s) (\<lambda>s. Inr (m, s)))"
    using equiv_run_starts [where up = up and s = s and L = L and own = own and step = step and m = m and n = n and
        hh = hh and ee = ee and cur = cur and b = b and fuel = fuel and user = user and priv = priv and ksp = ksp and
        N = N, OF assms(5-11) assms(12) [unfolded ts] assms(14) [unfolded ts]]
    by (elim exE conjE)
  have r: "checked hh ee (set ts) (eq_heap s) cur
      (run_user user priv (eq_call b fuel L) ksp N (ToUser (cur_regs s2)) m s2)"
    using run_threads [OF assms(1-4) s2(1), of N priv] s2 assms(15) by (simp add: ts)
  show ?thesis
  proof (cases "\<forall>t \<in> set ts. ee t = 0 \<or> ee t = hh t")
    case True
    then obtain m1 s1 where s1: "run_user user priv (eq_call b fuel L) ksp N (ToUser (cur_regs s2)) m s2 = Inr (cur, m1, s1)"
      "single_step_on_p s1" "tq_repr (eq_heap s1) (equiv_runq s1) []"
      "\<forall>t \<in> set ts. \<exists>th. eq_heap s1 t = Some th \<and> reg_hash th = hh t \<and> expected_hash th = hh t"
      using r unfolding checked_def by auto
    obtain g2 where "mismatch_off s1 = Inr (s1\<lparr>single_step_on_p := False, debug := g2\<rparr>)"
      using mismatch_off_ok [OF s1(2)] by blast
    then show ?thesis using True s1 by (simp add: e)
  next
    case False
    then have "run_user user priv (eq_call b fuel L) ksp N (ToUser (cur_regs s2)) m s2 = Inl (Panic ''MISMATCH ERROR'')"
      using r unfolding checked_def by (simp only: if_False)
    then show ?thesis using False by (simp only: e bnd_Inl if_False)
  qed
qed


text \<open>Two threads at different places of a program that executes one instruction and exits.\<close>

definition ex_step :: "unit local_step" where
  "ex_step c =
     (let r = fst c in
      if r ! 15 = 0x8000 then Some (Prefetch_abort, r[15 := 0x8004], ())
      else if r ! 15 = 0x8004 then Some (Swi, r[15 := 0x8008, 0 := 0], ())
      else None)"

definition ex_eq_user :: "unit processor" where
  "ex_eq_user g r m = (if bvr0 g = r ! 15 then map_option (\<lambda>(e, r1, m1). (e, g, r1, m1)) (ex_step (r, m)) else None)"

definition ex_regs :: "u32 \<Rightarrow> regs_t" where
  "ex_regs pc = (replicate 17 0)[13 := 100, 15 := pc, 16 := 0x10]"

definition ex_th :: "u32 \<Rightarrow> u32 \<Rightarrow> eq_th" where
  "ex_th next pc = \<lparr>nxt = next, th_regs = ex_regs pc, expected_hash = 0, reg_hash = 0, eq_tid = 1, eq_fn = pc, eq_arg = 0,
     stack_start = 0, stack_end = 1000, refork_cnt = 0, inst_cnt = 0, verbose_p = 0\<rparr>"

definition ex_labels :: eq_labels where
  "ex_labels = \<lparr>l_mismatch_fault = 0x9100, l_hash_handler = 0x9200, l_syscall_handler = 0x9300, l_ss_on_exit = 0x9400,
     l_sys_equiv_exit = 0x8004, l_full_except_ints = 0x9000\<rparr>"

definition ex_equiv :: "unit equiv" where
  "ex_equiv = \<lparr>debug = \<lparr>dscr = 0, bcr0 = 0, bvr0 = 0, wcr0 = 0, wvr0 = 0, wfar = 0, dfsr = 0, ifsr = 0, far = 0\<rparr>,
     cur_cpsr = 0x13, vec_base = 0x9000, prefetch_handler = 0x9100, data_abort_handler = 0, syscall_handler = 0x9300,
     watchpt_handler = 0, step_handler = 0x9200, single_step_on_p = False, ss_start_regs = [], ss_stack = 0, sdev = (),
     eq_heap = [16 \<mapsto> ex_th 32 0x8000, 32 \<mapsto> ex_th 0 0x8004], equiv_runq = \<lparr>tq_head = 16, tq_tail = 32\<rparr>, eq_cur = 0,
     start_regs = [], ntids = 3\<rparr>"

lemma ex_regs_nth: "ex_regs pc ! 13 = 100" "ex_regs pc ! 15 = pc" "ex_regs pc ! 16 = 0x10" "length (ex_regs pc) = 17"
  by (simp_all add: ex_regs_def)

lemma ex_step_first: "ex_step (ex_regs 0x8000, ()) = Some (Prefetch_abort, ex_regs 0x8004, ())"
  by (simp add: ex_step_def ex_regs_nth) (simp add: ex_regs_def list_update_swap [of 16 15])

lemma ex_step_exit: "ex_step (ex_regs 0x8004, ()) = Some (Swi, (ex_regs 0x8004)[15 := 0x8008, 0 := 0], ())"
  by (simp add: ex_step_def ex_regs_nth)

lemma ex_solo_exit: "solo ex_step e 0 1000 (Suc 0) (ex_regs 0x8004, ()) h = Some h"
  by (simp add: ex_step_exit in_user_mode_def ex_regs_nth USER_MODE_def EQUIV_EXIT_def)

lemma ex_solo_first:
  "e \<noteq> 0x8004 \<Longrightarrow> solo ex_step e 0 1000 (Suc (Suc 0)) (ex_regs 0x8000, ()) h =
     Some (fast_hash_inc32 (regs_bytes (ex_regs 0x8004)) h)"
  by (subst solo.simps)
     (simp add: ex_step_first ex_solo_exit in_user_mode_def ex_regs_nth USER_MODE_def del: solo.simps)

lemma ex_bus_answers: "uart_answers ex_bus (Suc k) (\<lambda>_. True)"
  by (simp add: uart_answers_def uart_put8_def uart_flush_tx_def wait_for_def uart_can_put8_def uart_tx_is_empty_def
      ex_bus_def Let_def)

theorem equiv_run_schedule_independent_witness:
  "\<exists>m' s'. equiv_run ex_bus 1 ex_labels ex_eq_user (\<lambda>_. (0, 0)) 200000 3 (replicate 16 0 @ [0x13]) () ex_equiv = Inr (m', s') \<and>
     \<not> single_step_on_p s' \<and> tq_repr (eq_heap s') (equiv_runq s') [] \<and>
     (\<exists>th. eq_heap s' 16 = Some th \<and> expected_hash th = fast_hash_inc32 (regs_bytes (ex_regs 0x8004)) 0) \<and>
     (\<exists>th. eq_heap s' 32 = Some th \<and> expected_hash th = 0)"
proof -
  let ?n = "\<lambda>t. if t = 16 then 2 else 1 :: nat"
  let ?h = "\<lambda>t. if t = 16 then fast_hash_inc32 (regs_bytes (ex_regs 0x8004)) 0 else (0 :: u32)"
  have iso: "isolated ex_eq_user (\<lambda>_ _. ()) (\<lambda>_. ex_step) (set [16, 32])"
    by (auto simp: isolated_def ex_eq_user_def same_breakpoint_def)
  have uart: "uart_answers ex_bus 1 (\<lambda>_. True)" using ex_bus_answers [of 0] by simp
  have L: "good_labels ex_labels" by (simp add: good_labels_def ex_labels_def)
  have s: "steppable ex_equiv" "privileged (cur_cpsr ex_equiv)" "privileged ((replicate 16 0 @ [0x13]) ! 16)"
    "prefetch_handler ex_equiv = l_mismatch_fault ex_labels" "syscall_handler ex_equiv = l_syscall_handler ex_labels"
    "step_handler ex_equiv = l_hash_handler ex_labels"
    by (auto simp: steppable_def ex_equiv_def ex_labels_def privileged_def mode_get_def mode_field mode_legal_def mode_defs nth_append)
  have "equiv_runq ex_equiv = tq_of \<lparr>q_head = 16, q_tail = 32, q_cnt = 2\<rparr>"
    by (simp add: ex_equiv_def tq_of_def)
  moreover have "q_repr (eq_heap ex_equiv) \<lparr>q_head = 16, q_tail = 32, q_cnt = 2\<rparr> [16, 32]"
    by (simp add: q_repr_def ex_equiv_def ex_th_def)
  ultimately have q: "tq_repr (eq_heap ex_equiv) (equiv_runq ex_equiv) [16, 32]"
    unfolding tq_repr_def by blast
  have u: "in_user_mode (ex_regs pc)" for pc by (simp add: in_user_mode_def ex_regs_nth USER_MODE_def)
  have t: "\<forall>t \<in> set [16, 32]. thread_ok (\<lambda>_ _. ()) (\<lambda>_. ex_step) (l_ss_on_exit ex_labels) (eq_heap ex_equiv) () ?n ?h (\<lambda>_. 0) t"
    using u ex_solo_first [of "0x9400" 0, folded numeral_2_eq_2] ex_solo_exit [of "0x9400" 0]
    by (simp add: thread_ok_def ex_equiv_def ex_th_def ex_labels_def del: solo.simps)
  note * = equiv_run_schedule_independent [where ksp = 200000 and N = 3 and priv = "\<lambda>_. (0, 0)",
      OF iso uart L _ s(1) _ s(4,5,6,2,3) q _ t]
  show ?thesis using * by auto
qed

subsection \<open>Forking\<close>

lemma equiv_regs_init_ok:
  "\<exists>r. equiv_regs_init L th s = Inr r \<and> in_user_mode r \<and> length r = 17 \<and> r ! 0 = eq_arg th \<and> r ! 15 = eq_fn th \<and>
     r ! 13 = stack_end th \<and> r ! 14 = l_sys_equiv_exit L"
proof -
  obtain c where "cpsr_inherit USER_MODE (cur_cpsr s) = Inr c" "c AND 31 = USER_MODE"
    using cpsr_inherit_user by blast
  then show ?thesis by (simp add: equiv_regs_init_def in_user_mode_def)
qed

text \<open>A fork puts the new thread in front of the run queue, so the last one forked runs first; its
  registers start \<open>fn(arg)\<close> on its own stack, with a return to \<open>sys_equiv_exit\<close>.\<close>

lemma equiv_fork_pushes:
  assumes "kma EQ_STACK_SIZE 8 (sdev s) = Inr (p, blk, d)" and "p mod 8 = 0" and "p \<noteq> 0" and "p \<notin> set ts"
    and "(p + EQ_STACK_SIZE) mod 8 = 0" and "p \<le> p + EQ_STACK_SIZE" and q: "tq_repr (eq_heap s) (equiv_runq s) ts"
  shows "\<exists>s' th. equiv_fork kma L fn arg expected s = Inr (p, s') \<and>
    tq_repr (eq_heap s') (equiv_runq s') (p # ts) \<and> eq_heap s' p = Some th \<and>
    in_user_mode (th_regs th) \<and> th_regs th ! 0 = arg \<and> th_regs th ! 15 = fn \<and>
    th_regs th ! 13 = p + EQ_STACK_SIZE \<and> th_regs th ! 14 = l_sys_equiv_exit L \<and>
    expected_hash th = expected \<and> reg_hash th = reg_hash blk \<and> ntids s' = ntids s + 1 \<and>
    (\<forall>t. t \<noteq> p \<longrightarrow> eq_heap s' t = eq_heap s t)"
proof -
  let ?b = "blk\<lparr>expected_hash := expected, eq_tid := ntids s, eq_fn := fn, eq_arg := arg, stack_start := p,
      stack_end := p + EQ_STACK_SIZE\<rparr>"
  let ?s = "s\<lparr>sdev := d, ntids := ntids s + 1\<rparr>"
  obtain r where r: "equiv_regs_init L ?b ?s = Inr r" "in_user_mode r" "r ! 0 = arg" "r ! 15 = fn"
      "r ! 13 = p + EQ_STACK_SIZE" "r ! 14 = l_sys_equiv_exit L"
    using equiv_regs_init_ok [of L ?b ?s] by auto
  let ?h = "(eq_heap s)(p \<mapsto> ?b\<lparr>th_regs := r\<rparr>)"
  have "tq_repr ?h (equiv_runq s) ts" using assms(4) by (intro tqq.rel_frame [OF q]) auto
  moreover have "valid ?h p" using assms(3) by (simp add: valid_def)
  ultimately obtain h' q' where h': "tq_push ?h (equiv_runq s) p = Inr (h', q')" "tq_repr h' q' (p # ts)"
      "same_but_next ?h h'" "\<forall>t. t \<noteq> p \<longrightarrow> h' t = ?h t"
    using tqq.push_law assms(4) by blast
  obtain n where n: "h' p = Some (?b\<lparr>th_regs := r, nxt := n\<rparr>)"
    using same_but_next_regs [OF h'(3), of p "?b\<lparr>th_regs := r\<rparr>"] by auto
  have "equiv_fork kma L fn arg expected s = Inr (p, ?s\<lparr>eq_heap := h', equiv_runq := q'\<rparr>)"
    using assms(1,2,5,6) r h'(1) by (simp add: equiv_fork_def check_sp_def Let_def not_less)
  then show ?thesis using h' n r by simp
qed

end
