(* ===== verification/Nrf.thy ===== *)
theory Nrf
  imports Timer Circular BitSupport
begin

text \<open>
  The NRF24L01+ radio of lab 17: register access over SPI (\<open>nrf-hw-support.c\<close>, \<open>nrf-hw-support.h\<close>), the
  driver's checks around its sending and receiving routines (\<open>nrf-driver.c\<close>), the public interface
  (\<open>nrf-public.c\<close>), the structures, checks and statistics of \<open>nrf.h\<close>, and \<open>pretty-time.h\<close>.  The SPI
  driver and the routines of \<open>staff-nrf-driver.o\<close> are object files: parameters.  What is printed is
  returned as lines, a name with the values printed on it.
\<close>

subsection \<open>Parameters and state\<close>

record spi_t =
  sp_chip :: u32
  sp_div :: u32
  sp_mosi :: u32
  sp_miso :: u32
  sp_clk :: u32
  sp_ce :: u32

text \<open>\<open>spi_n_transfer s tx d\<close> sends the bytes \<open>tx\<close> and returns the bytes received with them.\<close>

record 'd nrf_hw =
  nbus :: "'d bus"
  spi_n_init :: "u32 \<Rightarrow> u32 \<Rightarrow> 'd \<Rightarrow> (spi_t \<times> 'd) res"
  spi_n_transfer :: "spi_t \<Rightarrow> u8 list \<Rightarrow> 'd \<Rightarrow> (u8 list \<times> 'd) res"
  gpio_set_pulldown :: "u32 \<Rightarrow> 'd \<Rightarrow> 'd res"

record nrf_conf_t =
  spi_chip :: u8
  ce_pin :: u8
  int_pin :: u8
  pkt_nbytes :: u8
  channel :: u8

record nrf_t =
  config :: nrf_conf_t
  nspi :: spi_t
  rxaddr :: u32
  recvq :: "u8 cq"
  client_data :: u32
  start_usec :: u32
  tot_sent_msgs :: u32
  tot_sent_bytes :: u32
  tot_retrans :: u32
  tot_lost :: u32
  tot_recv_msgs :: u32
  tot_recv_bytes :: u32

text \<open>The routines that exist as object code.\<close>

record 'd nrf_staff =
  staff_nrf_init :: "nrf_conf_t \<Rightarrow> u32 \<Rightarrow> u32 \<Rightarrow> 'd \<Rightarrow> (nrf_t \<times> 'd) res"
  staff_nrf_get_pkts :: "nrf_t \<times> 'd \<Rightarrow> (u32 \<times> nrf_t \<times> 'd) res"
  staff_nrf_tx_send_ack :: "u32 \<Rightarrow> u8 list \<Rightarrow> u32 \<Rightarrow> nrf_t \<times> 'd \<Rightarrow> (u32 \<times> nrf_t \<times> 'd) res"
  staff_nrf_tx_send_noack :: "u32 \<Rightarrow> u8 list \<Rightarrow> u32 \<Rightarrow> nrf_t \<times> 'd \<Rightarrow> (u32 \<times> nrf_t \<times> 'd) res"

subsection \<open>\<open>nrf-default-values.h\<close> and the configuration checks of \<open>nrf.h\<close>\<close>

definition server_addr :: u32 where "server_addr = 0xd5d5d5"
definition client_addr :: u32 where "client_addr = 0xe5e5e5"

definition RF_DR_HI :: "u32 \<Rightarrow> u32" where "RF_DR_HI x = push_bit 3 x"
definition RF_DR_LO :: "u32 \<Rightarrow> u32" where "RF_DR_LO x = push_bit 5 x"
definition RF_DR_CLR :: "u32 \<Rightarrow> u32" where "RF_DR_CLR x = x AND NOT (RF_DR_HI 1 OR RF_DR_LO 1)"

definition nrf_1Mbps :: u32 where "nrf_1Mbps = 0"
definition nrf_2Mbps :: u32 where "nrf_2Mbps = RF_DR_HI 1"
definition nrf_250kbps :: u32 where "nrf_250kbps = RF_DR_LO 1"

definition dBm_minus18 :: u32 where "dBm_minus18 = push_bit 1 0"
definition dBm_minus12 :: u32 where "dBm_minus12 = push_bit 1 1"
definition dBm_minus6 :: u32 where "dBm_minus6 = push_bit 1 2"
definition dBm_0 :: u32 where "dBm_0 = push_bit 1 3"

definition nrf_default_nbytes :: u32 where "nrf_default_nbytes = 4"
definition nrf_default_channel :: u32 where "nrf_default_channel = 113"
definition nrf_default_data_rate :: u32 where "nrf_default_data_rate = nrf_2Mbps"
definition nrf_default_db :: u32 where "nrf_default_db = dBm_0"
definition nrf_default_retran_attempts :: u32 where "nrf_default_retran_attempts = 6"
definition nrf_default_retran_delay :: u32 where "nrf_default_retran_delay = 2000"
definition nrf_default_addr_nbytes :: u32 where "nrf_default_addr_nbytes = 3"

definition nrf_legal_Mhz :: "u32 \<Rightarrow> bool" where "nrf_legal_Mhz d \<longleftrightarrow> d < push_bit 8 1"
definition nrf_legal_nbytes :: "u32 \<Rightarrow> bool" where "nrf_legal_nbytes n \<longleftrightarrow> 0 < n \<and> n \<le> 32"

definition nrf_get_addr_nbytes :: "nrf_t \<Rightarrow> u32" where
  "nrf_get_addr_nbytes nic = nrf_default_addr_nbytes"

definition nrf_conf_mk :: "u32 \<Rightarrow> u32 \<Rightarrow> nrf_conf_t res" where
  "nrf_conf_mk nbytes ch =
     bnd (check (nrf_legal_Mhz ch) ''nrf_legal_Mhz(ch)'') (\<lambda>_.
     bnd (check (nrf_legal_nbytes nbytes) ''nrf_legal_nbytes(nbytes)'') (\<lambda>_.
     Inr \<lparr>spi_chip = 0, ce_pin = 0, int_pin = 0, pkt_nbytes = ucast nbytes, channel = ucast ch\<rparr>))"

text \<open>\<open>nrf-test.h\<close>: the two radios of the board.\<close>

definition parthiv_left :: "u32 \<Rightarrow> u32 \<Rightarrow> nrf_conf_t res" where
  "parthiv_left nbytes ch =
     bnd (nrf_conf_mk nbytes ch) (\<lambda>c. Inr (c\<lparr>spi_chip := 0, ce_pin := 6, int_pin := 22\<rparr>))"

definition parthiv_right :: "u32 \<Rightarrow> u32 \<Rightarrow> nrf_conf_t res" where
  "parthiv_right nbytes ch =
     bnd (nrf_conf_mk nbytes ch) (\<lambda>c. Inr (c\<lparr>spi_chip := 1, ce_pin := 5, int_pin := 23\<rparr>))"

definition client_conf :: "u32 \<Rightarrow> nrf_conf_t res" where
  "client_conf nbytes = parthiv_right nbytes nrf_default_channel"

definition server_conf :: "u32 \<Rightarrow> nrf_conf_t res" where
  "server_conf nbytes = parthiv_left nbytes nrf_default_channel"

subsection \<open>Registers and commands\<close>

definition NRF_CONFIG :: u8 where "NRF_CONFIG = 0"
definition NRF_EN_AA :: u8 where "NRF_EN_AA = 1"
definition NRF_EN_RXADDR :: u8 where "NRF_EN_RXADDR = 2"
definition NRF_SETUP_AW :: u8 where "NRF_SETUP_AW = 3"
definition NRF_SETUP_RETR :: u8 where "NRF_SETUP_RETR = 4"
definition NRF_RF_CH :: u8 where "NRF_RF_CH = 5"
definition NRF_RF_SETUP :: u8 where "NRF_RF_SETUP = 6"
definition NRF_STATUS :: u8 where "NRF_STATUS = 7"
definition NRF_RX_ADDR_P0 :: u8 where "NRF_RX_ADDR_P0 = 0xa"
definition NRF_TX_ADDR :: u8 where "NRF_TX_ADDR = 0x10"
definition NRF_RX_PW_P0 :: u8 where "NRF_RX_PW_P0 = 0x11"
definition NRF_FIFO_STATUS :: u8 where "NRF_FIFO_STATUS = 0x17"
definition NRF_DYNPD :: u8 where "NRF_DYNPD = 0x1c"
definition NRF_FEATURE :: u8 where "NRF_FEATURE = 0x1d"

definition NRF_WR_REG :: u8 where "NRF_WR_REG = 0x20"
definition FLUSH_TX :: u8 where "FLUSH_TX = 0xe1"
definition FLUSH_RX :: u8 where "FLUSH_RX = 0xe2"
definition NRF_NOP :: u8 where "NRF_NOP = 0xff"


subsection \<open>\<open>nrf-hw-support.c\<close>: SPI\<close>

definition nrf_spi_init :: "'d nrf_hw \<Rightarrow> nat \<Rightarrow> u32 \<Rightarrow> u32 \<Rightarrow> 'd \<Rightarrow> (spi_t \<times> 'd) res" where
  "nrf_spi_init h fuel ce chip d =
     bnd (delay_ms (nbus h) fuel 100 d) (\<lambda>d1.
     bnd (check (chip = 0 \<or> chip = 1) ''spi_chip == 0 || spi_chip == 1'') (\<lambda>_.
     bnd (spi_n_init h chip 20 d1) (\<lambda>(s, d2).
     bnd (check (sp_chip s = chip) ''s.chip == spi_chip'') (\<lambda>_.
     bnd (seq [delay_ms (nbus h) fuel 100, dev_barrier (nbus h), gpio_set_output (nbus h) ce,
               gpio_set_pulldown h ce, gpio_set_off (nbus h) ce, dev_barrier (nbus h)] d2) (\<lambda>d3.
     Inr (s, d3))))))"

definition nrf_get8 :: "'d nrf_hw \<Rightarrow> nrf_t \<Rightarrow> u8 \<Rightarrow> 'd \<Rightarrow> (u8 \<times> 'd) res" where
  "nrf_get8 h n reg d =
     bnd (spi_n_transfer h (nspi n) [reg, NRF_NOP] d) (\<lambda>(rx, d1).
     bnd (arr_get rx 1) (\<lambda>v. Inr (v, d1)))"

definition nrf_put8 :: "'d nrf_hw \<Rightarrow> nrf_t \<Rightarrow> u8 \<Rightarrow> u8 \<Rightarrow> 'd \<Rightarrow> (u8 \<times> 'd) res" where
  "nrf_put8 h n reg v d =
     bnd (spi_n_transfer h (nspi n) [NRF_WR_REG OR reg, v] d) (\<lambda>(rx, d1).
     bnd (arr_get rx 0) (\<lambda>status. Inr (status, d1)))"

text \<open>A value that does not read back ends in \<open>loc_panic\<close>, which reboots.\<close>

definition nrf_put8_chk :: "'d nrf_hw \<Rightarrow> nrf_t \<Rightarrow> u8 \<Rightarrow> u8 \<Rightarrow> 'd \<Rightarrow> (u8 \<times> 'd) res" where
  "nrf_put8_chk h nic reg v d =
     bnd (nrf_put8 h nic reg v d) (\<lambda>(status, d1).
     bnd (nrf_get8 h nic reg d1) (\<lambda>(x, d2).
     if x \<noteq> v then Inl Reboot else Inr (status, d2)))"

text \<open>The first \<open>nbytes + 1\<close> bytes of \<open>uint8_t tx[64]\<close> after the command and the data are stored.\<close>

definition tx_fill :: "u8 \<Rightarrow> u8 list \<Rightarrow> u8 list res" where
  "tx_fill cmd bytes = (if 1 + length bytes \<le> 64 then Inr (cmd # bytes) else Inl OutOfBounds)"

text \<open>Returns the status and the bytes the C code copies to its buffer.\<close>

definition nrf_getn :: "'d nrf_hw \<Rightarrow> nrf_t \<Rightarrow> u8 \<Rightarrow> u32 \<Rightarrow> 'd \<Rightarrow> (u8 \<times> u8 list \<times> 'd) res" where
  "nrf_getn h nic cmd nbytes d =
     bnd (check (nbytes < 64 + 1) ''nbytes < (sizeof tx + 1)'') (\<lambda>_.
     bnd (check (nbytes > 0) ''nbytes > 0'') (\<lambda>_.
     bnd (tx_fill cmd (replicate (unat nbytes) NRF_NOP)) (\<lambda>tx.
     bnd (spi_n_transfer h (nspi nic) tx d) (\<lambda>(rx, d1).
     if length rx = unat nbytes + 1 then Inr (rx ! 0, tl rx, d1) else Inl OutOfBounds))))"

definition nrf_putn :: "'d nrf_hw \<Rightarrow> nrf_t \<Rightarrow> u8 \<Rightarrow> u8 list \<Rightarrow> u32 \<Rightarrow> 'd \<Rightarrow> (u8 \<times> 'd) res" where
  "nrf_putn h nic cmd bytes nbytes d =
     bnd (check (nbytes < 64 + 1) ''nbytes < (sizeof tx + 1)'') (\<lambda>_.
     bnd (check (nbytes > 0) ''nbytes > 0'') (\<lambda>_.
     bnd (if unat nbytes \<le> length bytes then tx_fill cmd (take (unat nbytes) bytes) else Inl OutOfBounds)
       (\<lambda>tx.
     bnd (spi_n_transfer h (nspi nic) tx d) (\<lambda>(rx, d1).
     bnd (arr_get rx 0) (\<lambda>status. Inr (status, d1))))))"

definition nrf_or8 :: "'d nrf_hw \<Rightarrow> nrf_t \<Rightarrow> u8 \<Rightarrow> u8 \<Rightarrow> 'd \<Rightarrow> (u8 \<times> 'd) res" where
  "nrf_or8 h n reg v d = bnd (nrf_get8 h n reg d) (\<lambda>(x, d1). nrf_put8 h n reg (x OR v) d1)"

definition nrf_bit_clr :: "'d nrf_hw \<Rightarrow> nrf_t \<Rightarrow> u8 \<Rightarrow> u32 \<Rightarrow> 'd \<Rightarrow> 'd res" where
  "nrf_bit_clr h n reg i d =
     bnd (check (i < 8) ''bit < 8'') (\<lambda>_.
     bnd (nrf_get8 h n reg d) (\<lambda>(x, d1).
     bnd (bit_clr (ucast x) i) (\<lambda>y.
     bnd (nrf_put8_chk h n reg (ucast y) d1) (\<lambda>(_, d2). Inr d2))))"

definition nrf_bit_set :: "'d nrf_hw \<Rightarrow> nrf_t \<Rightarrow> u8 \<Rightarrow> u32 \<Rightarrow> 'd \<Rightarrow> 'd res" where
  "nrf_bit_set h n reg i d =
     bnd (check (i < 8) ''bit < 8'') (\<lambda>_.
     bnd (nrf_get8 h n reg d) (\<lambda>(x, d1).
     bnd (bit_set (ucast x) i) (\<lambda>y.
     bnd (nrf_put8_chk h n reg (ucast y) d1) (\<lambda>(_, d2). Inr d2))))"

definition nrf_bit_isset :: "'d nrf_hw \<Rightarrow> nrf_t \<Rightarrow> u8 \<Rightarrow> u8 \<Rightarrow> 'd \<Rightarrow> (bool \<times> 'd) res" where
  "nrf_bit_isset h n reg bit_n d =
     bnd (check (bit_n < 8) ''bit_n<8'') (\<lambda>_.
     bnd (nrf_get8 h n reg d) (\<lambda>(x, d1).
     bnd (bit_is_on (ucast x) (ucast bit_n)) (\<lambda>v. Inr (v = 1, d1))))"

definition nrf_tx_flush :: "'d nrf_hw \<Rightarrow> nrf_t \<Rightarrow> 'd \<Rightarrow> (u8 \<times> 'd) res" where
  "nrf_tx_flush h n d =
     bnd (spi_n_transfer h (nspi n) [FLUSH_TX] d) (\<lambda>(rx, d1).
     bnd (arr_get rx 0) (\<lambda>r. Inr (r, d1)))"

definition nrf_rx_flush :: "'d nrf_hw \<Rightarrow> nrf_t \<Rightarrow> 'd \<Rightarrow> (u8 \<times> 'd) res" where
  "nrf_rx_flush h n d =
     bnd (spi_n_transfer h (nspi n) [FLUSH_RX] d) (\<lambda>(rx, d1).
     bnd (arr_get rx 0) (\<lambda>r. Inr (r, d1)))"


subsection \<open>\<open>nrf_dump\<close>\<close>

type_synonym line = "string \<times> u32 list"

text \<open>A little-endian number of at most four bytes, and the bits \<open>bit_get(x, i)\<close> of a line.\<close>

definition le_value :: "u8 list \<Rightarrow> u32" where
  "le_value bs = (let v = bs @ [0, 0, 0, 0] in of_le32 (v ! 0) (v ! 1) (v ! 2) (v ! 3))"

fun bit_gets :: "u8 \<Rightarrow> u32 list \<Rightarrow> u32 list res" where
  "bit_gets x [] = Inr []"
| "bit_gets x (i # is) = bnd (bit_is_on (ucast x) i) (\<lambda>v. bnd (bit_gets x is) (\<lambda>vs. Inr (v # vs)))"

definition pipes_line :: "string \<Rightarrow> u8 \<Rightarrow> line res" where
  "pipes_line name x =
     (if x = 0x3f then Inr (name @ '' all'', [])
      else bnd (bit_gets x [0, 1, 2, 3, 4, 5]) (\<lambda>vs.
           Inr (name, map fst (filter (\<lambda>(i, v). v \<noteq> 0) (zip [0, 1, 2, 3, 4, 5] vs)))))"

definition dump_modes :: "'d nrf_hw \<Rightarrow> nrf_t \<Rightarrow> 'd \<Rightarrow> (line list \<times> 'd) res" where
  "dump_modes h nic d =
     bnd (nrf_get8 h nic NRF_CONFIG d) (\<lambda>(x, d1).
     bnd (bit_gets x [1, 0, 2, 3]) (\<lambda>v1.
     bnd (bit_gets x [6, 5, 4]) (\<lambda>v2.
     bnd (nrf_get8 h nic NRF_EN_AA d1) (\<lambda>(aa, d2).
     bnd (pipes_line ''auto-ack'' aa) (\<lambda>l1.
     bnd (nrf_get8 h nic NRF_EN_RXADDR d2) (\<lambda>(en, d3).
     bnd (pipes_line ''pipes enabled'' en) (\<lambda>l2.
     Inr ([(''CONFIG'', ucast x # v1), (''MASK'', v2), (''EN_AA'', [ucast aa]), l1,
           (''EN_RXADDR'', [ucast en]), l2], d3))))))))"

definition dump_power :: "u32 \<Rightarrow> int res" where
  "dump_power v =
     (if v = 0 then Inr (- 18) else if v = 1 then Inr (- 12) else if v = 2 then Inr (- 6)
      else if v = 3 then Inr 0 else Inl (Panic ''bad encoding''))"

definition dump_radio :: "'d nrf_hw \<Rightarrow> nrf_t \<Rightarrow> 'd \<Rightarrow> (u32 \<times> line list \<times> 'd) res" where
  "dump_radio h nic d =
     bnd (nrf_get8 h nic NRF_SETUP_AW d) (\<lambda>(aw, d1).
     bnd (check (aw \<ge> 1 \<and> aw \<le> 3) ''x >= 1 && x <= 3'') (\<lambda>_.
     let addr_nbytes = nrf_get_addr_nbytes nic in
     bnd (check (nrf_get_addr_nbytes nic = ucast aw + 2) ''nrf_get_addr_nbytes(nic) == x + 2'') (\<lambda>_.
     bnd (nrf_get8 h nic NRF_SETUP_RETR d1) (\<lambda>(re, d2).
     let delay = (drop_bit 4 (ucast re) + 1) * 250; retry = ucast re AND 0xf in
     bnd (nrf_get8 h nic NRF_RF_CH d2) (\<lambda>(ch, d3).
     bnd (nrf_get8 h nic NRF_RF_SETUP d3) (\<lambda>(rf, d4).
     bnd (bit_is_on (ucast rf) 5) (\<lambda>lo.
     bnd (check (lo = 0) ''!bit_get(x,5)'') (\<lambda>_.
     bnd (bit_is_on (ucast rf) 3) (\<lambda>hi.
     let bwidth = (if hi \<noteq> 0 then 2 else 1) in
     bnd (bits_get (ucast rf) 1 2) (\<lambda>e.
     bnd (dump_power e) (\<lambda>pwr.
     Inr (addr_nbytes,
          [(''SETUP_AW'', [addr_nbytes]), (''SETUP_RETR'', [ucast re, delay, retry]),
           (''RF_CH'', [ucast ch, 400 + ucast ch]), (''RF_SETUP'', [ucast rf, bwidth, word_of_int pwr])],
          d4))))))))))))"

fun dump_pipes :: "'d nrf_hw \<Rightarrow> nrf_t \<Rightarrow> u32 \<Rightarrow> u8 \<Rightarrow> u32 list \<Rightarrow> 'd \<Rightarrow> (line list \<times> 'd) res" where
  "dump_pipes h nic addr_nbytes pipes_en [] d = Inr ([], d)"
| "dump_pipes h nic addr_nbytes pipes_en (i # is) d =
     bnd (bit_is_on (ucast pipes_en) i) (\<lambda>on.
     if on = 0 then dump_pipes h nic addr_nbytes pipes_en is d
     else
       bnd (nrf_getn h nic (NRF_RX_ADDR_P0 + ucast i) addr_nbytes d) (\<lambda>(_, addr, d1).
       bnd (nrf_get8 h nic (NRF_RX_PW_P0 + ucast i) d1) (\<lambda>(x, d2).
       bnd (dump_pipes h nic addr_nbytes pipes_en is d2) (\<lambda>(ls, d3).
       Inr ((''RX_ADDR_P'', [i, le_value addr]) # (''RX_PW_P'', [i, ucast x, ucast x]) # ls, d3)))))"

definition dump_status :: "'d nrf_hw \<Rightarrow> nrf_t \<Rightarrow> u32 \<Rightarrow> 'd \<Rightarrow> (line list \<times> 'd) res" where
  "dump_status h nic addr_nbytes d =
     bnd (nrf_get8 h nic NRF_STATUS d) (\<lambda>(x, d1).
     bnd (bit_gets x [6, 5, 4]) (\<lambda>v1.
     bnd (bits_get (ucast x) 1 3) (\<lambda>pipe.
     bnd (bit_gets x [0]) (\<lambda>v2.
     bnd (nrf_getn h nic NRF_TX_ADDR addr_nbytes d1) (\<lambda>(_, txaddr, d2).
     bnd (nrf_get8 h nic NRF_EN_RXADDR d2) (\<lambda>(pipes_en, d3).
     bnd (dump_pipes h nic addr_nbytes pipes_en [0, 1, 2, 3, 4, 5] d3) (\<lambda>(ls, d4).
     Inr ((''STATUS'', ucast x # v1 @ [pipe] @ v2) # (''TX_ADDR'', [le_value txaddr]) # ls, d4))))))))"

definition nrf_conf_print :: "nrf_conf_t \<Rightarrow> line" where
  "nrf_conf_print c = (''pins'', [ucast (ce_pin c), ucast (int_pin c), ucast (spi_chip c)])"

definition nrf_dump :: "'d nrf_hw \<Rightarrow> nrf_t \<Rightarrow> 'd \<Rightarrow> (line list \<times> 'd) res" where
  "nrf_dump h nic d =
     bnd (dump_modes h nic d) (\<lambda>(l1, d1).
     bnd (dump_radio h nic d1) (\<lambda>(addr_nbytes, l2, d2).
     bnd (dump_status h nic addr_nbytes d2) (\<lambda>(l3, d3).
     bnd (nrf_get8 h nic NRF_FIFO_STATUS d3) (\<lambda>(x, d4).
     bnd (bit_gets x [5, 4, 1, 0]) (\<lambda>v.
     bnd (nrf_get8 h nic NRF_FEATURE d4) (\<lambda>(ft, d5).
     bnd (check (ft = 0) ''nrf_get8(nic, NRF_FEATURE) == 0'') (\<lambda>_.
     bnd (nrf_get8 h nic NRF_DYNPD d5) (\<lambda>(dy, d6).
     bnd (check (dy = 0) ''nrf_get8(nic, NRF_DYNPD) == 0'') (\<lambda>_.
     Inr (nrf_conf_print (config nic) # l1 @ l2 @ l3 @ [(''FIFO_STATUS'', ucast x # v)], d6))))))))))"

text \<open>\<open>nrf_assert\<close> dumps the configuration and panics; \<open>opt_check_p\<close> is 1, so \<open>nrf_opt_assert\<close> is the same
  on a condition that reads the device.\<close>

definition nrf_assert :: "'d nrf_hw \<Rightarrow> nrf_t \<Rightarrow> string \<Rightarrow> bool \<Rightarrow> 'd \<Rightarrow> 'd res" where
  "nrf_assert h nic msg ok d = (if ok then Inr d else bnd (nrf_dump h nic d) (\<lambda>_. Inl (Panic msg)))"

definition nrf_opt_assert ::
    "'d nrf_hw \<Rightarrow> nrf_t \<Rightarrow> string \<Rightarrow> ('d \<Rightarrow> (bool \<times> 'd) res) \<Rightarrow> 'd \<Rightarrow> 'd res" where
  "nrf_opt_assert h nic msg cond d = bnd (cond d) (\<lambda>(ok, d1). nrf_assert h nic msg ok d1)"

definition nrf_get_addr :: "'d nrf_hw \<Rightarrow> nrf_t \<Rightarrow> u8 \<Rightarrow> u32 \<Rightarrow> 'd \<Rightarrow> (u32 \<times> 'd) res" where
  "nrf_get_addr h nic reg nbytes d =
     bnd (check (nbytes = 4 \<or> nbytes = 3) ''nbytes==4 || nbytes==3'') (\<lambda>_.
     bnd (check (nbytes = nrf_default_addr_nbytes) ''nbytes == nrf_default_addr_nbytes'') (\<lambda>_.
     bnd (nrf_getn h nic reg nbytes d) (\<lambda>(_, bs, d1). Inr (le_value bs, d1))))"

definition nrf_set_addr :: "'d nrf_hw \<Rightarrow> nrf_t \<Rightarrow> u8 \<Rightarrow> u32 \<Rightarrow> u32 \<Rightarrow> 'd \<Rightarrow> 'd res" where
  "nrf_set_addr h nic reg addr nbytes d =
     bnd (check (nbytes = nrf_default_addr_nbytes) ''nbytes == nrf_default_addr_nbytes'') (\<lambda>_.
     bnd (check (nbytes = 4 \<or> nbytes = 3) ''nbytes==4 || nbytes==3'') (\<lambda>_.
     bnd (nrf_putn h nic (reg OR NRF_WR_REG) (le32 addr) nbytes d) (\<lambda>(_, d1).
     nrf_opt_assert h nic ''nrf_get_addr(nic, reg, nbytes) == addr''
       (\<lambda>d. bnd (nrf_get_addr h nic reg nbytes d) (\<lambda>(x, d2). Inr (x = addr, d2))) d1)))"

subsection \<open>\<open>nrf-hw-support.h\<close>: accessors\<close>

definition PWR_UP_BIT :: u32 where "PWR_UP_BIT = 1"
definition PRIM_RX :: u32 where "PRIM_RX = 0"
definition MAX_RT :: u8 where "MAX_RT = 4"
definition TX_DS :: u8 where "TX_DS = 5"
definition RX_DR :: u8 where "RX_DR = 6"

definition nrf_is_pwrup :: "'d nrf_hw \<Rightarrow> nrf_t \<Rightarrow> 'd \<Rightarrow> (bool \<times> 'd) res" where
  "nrf_is_pwrup h nic d =
     bnd (nrf_get8 h nic NRF_CONFIG d) (\<lambda>(x, d1).
     bnd (bit_is_on (ucast x) PWR_UP_BIT) (\<lambda>v. Inr (v \<noteq> 0, d1)))"

definition nrf_set_pwrup_off :: "'d nrf_hw \<Rightarrow> nrf_t \<Rightarrow> 'd \<Rightarrow> 'd res" where
  "nrf_set_pwrup_off h nic d =
     bnd (nrf_bit_clr h nic NRF_CONFIG PWR_UP_BIT d) (\<lambda>d1.
     bnd (nrf_is_pwrup h nic d1) (\<lambda>(up, d2).
     bnd (check (\<not> up) ''!nrf_is_pwrup(nic)'') (\<lambda>_. Inr d2)))"

definition nrf_set_pwrup_on :: "'d nrf_hw \<Rightarrow> nrf_t \<Rightarrow> 'd \<Rightarrow> 'd res" where
  "nrf_set_pwrup_on h nic d =
     bnd (nrf_bit_set h nic NRF_CONFIG PWR_UP_BIT d) (\<lambda>d1.
     bnd (nrf_is_pwrup h nic d1) (\<lambda>(up, d2).
     bnd (check up ''nrf_is_pwrup(nic)'') (\<lambda>_. Inr d2)))"

definition nrf_is_rx :: "'d nrf_hw \<Rightarrow> nrf_t \<Rightarrow> 'd \<Rightarrow> (bool \<times> 'd) res" where
  "nrf_is_rx h nic d =
     bnd (nrf_get8 h nic NRF_CONFIG d) (\<lambda>(x, d1).
     bnd (bit_is_on (ucast x) PRIM_RX) (\<lambda>v. Inr (v \<noteq> 0, d1)))"

definition nrf_is_tx :: "'d nrf_hw \<Rightarrow> nrf_t \<Rightarrow> 'd \<Rightarrow> (bool \<times> 'd) res" where
  "nrf_is_tx h nic d = bnd (nrf_is_rx h nic d) (\<lambda>(r, d1). Inr (\<not> r, d1))"

definition nrf_pipe_is_acked :: "'d nrf_hw \<Rightarrow> nrf_t \<Rightarrow> u32 \<Rightarrow> 'd \<Rightarrow> (bool \<times> 'd) res" where
  "nrf_pipe_is_acked h n p d =
     bnd (nrf_get8 h n NRF_EN_AA d) (\<lambda>(x, d1). bnd (bit_is_on (ucast x) p) (\<lambda>v. Inr (v = 1, d1)))"

definition nrf_pipe_is_enabled :: "'d nrf_hw \<Rightarrow> nrf_t \<Rightarrow> u32 \<Rightarrow> 'd \<Rightarrow> (bool \<times> 'd) res" where
  "nrf_pipe_is_enabled h n p d =
     bnd (nrf_get8 h n NRF_EN_RXADDR d) (\<lambda>(x, d1). bnd (bit_is_on (ucast x) p) (\<lambda>v. Inr (v = 1, d1)))"

definition pipeid_empty :: "u32 \<Rightarrow> bool" where "pipeid_empty pipeid \<longleftrightarrow> pipeid = 7"
definition pipeid_get :: "u8 \<Rightarrow> u32 res" where "pipeid_get status = bits_get (ucast status) 1 3"

definition nrf_rx_get_pipeid :: "'d nrf_hw \<Rightarrow> nrf_t \<Rightarrow> 'd \<Rightarrow> (u32 \<times> 'd) res" where
  "nrf_rx_get_pipeid h n d =
     bnd (nrf_get8 h n NRF_STATUS d) (\<lambda>(x, d1). bnd (pipeid_get x) (\<lambda>p. Inr (p, d1)))"

definition nrf_has_max_rt_intr :: "'d nrf_hw \<Rightarrow> nrf_t \<Rightarrow> 'd \<Rightarrow> (bool \<times> 'd) res" where
  "nrf_has_max_rt_intr h nic = nrf_bit_isset h nic NRF_STATUS MAX_RT"

definition nrf_has_tx_intr :: "'d nrf_hw \<Rightarrow> nrf_t \<Rightarrow> 'd \<Rightarrow> (bool \<times> 'd) res" where
  "nrf_has_tx_intr h nic = nrf_bit_isset h nic NRF_STATUS TX_DS"

definition nrf_has_rx_intr :: "'d nrf_hw \<Rightarrow> nrf_t \<Rightarrow> 'd \<Rightarrow> (bool \<times> 'd) res" where
  "nrf_has_rx_intr h nic = nrf_bit_isset h nic NRF_STATUS RX_DR"

definition nrf_rt_intr_clr :: "'d nrf_hw \<Rightarrow> nrf_t \<Rightarrow> 'd \<Rightarrow> 'd res" where
  "nrf_rt_intr_clr h nic d =
     bnd (nrf_put8 h nic NRF_STATUS (push_bit (unat MAX_RT) 1) d) (\<lambda>(_, d1). Inr d1)"

definition nrf_tx_intr_clr :: "'d nrf_hw \<Rightarrow> nrf_t \<Rightarrow> 'd \<Rightarrow> 'd res" where
  "nrf_tx_intr_clr h nic d =
     bnd (nrf_put8 h nic NRF_STATUS (push_bit (unat TX_DS) 1) d) (\<lambda>(_, d1). Inr d1)"

definition nrf_rx_intr_clr :: "'d nrf_hw \<Rightarrow> nrf_t \<Rightarrow> 'd \<Rightarrow> 'd res" where
  "nrf_rx_intr_clr h nic d =
     bnd (nrf_put8 h nic NRF_STATUS (push_bit (unat RX_DR) 1) d) (\<lambda>(_, d1). Inr d1)"

definition nrf_rx_fifo_empty :: "'d nrf_hw \<Rightarrow> nrf_t \<Rightarrow> 'd \<Rightarrow> (bool \<times> 'd) res" where
  "nrf_rx_fifo_empty h nic = nrf_bit_isset h nic NRF_FIFO_STATUS 0"

definition nrf_rx_has_packet :: "'d nrf_hw \<Rightarrow> nrf_t \<Rightarrow> 'd \<Rightarrow> (bool \<times> 'd) res" where
  "nrf_rx_has_packet h nic d = bnd (nrf_rx_fifo_empty h nic d) (\<lambda>(e, d1). Inr (\<not> e, d1))"

definition nrf_rx_fifo_full :: "'d nrf_hw \<Rightarrow> nrf_t \<Rightarrow> 'd \<Rightarrow> (bool \<times> 'd) res" where
  "nrf_rx_fifo_full h nic = nrf_bit_isset h nic NRF_FIFO_STATUS 1"

definition nrf_tx_fifo_empty :: "'d nrf_hw \<Rightarrow> nrf_t \<Rightarrow> 'd \<Rightarrow> (bool \<times> 'd) res" where
  "nrf_tx_fifo_empty h nic = nrf_bit_isset h nic NRF_FIFO_STATUS 4"

definition nrf_tx_fifo_full :: "'d nrf_hw \<Rightarrow> nrf_t \<Rightarrow> 'd \<Rightarrow> (bool \<times> 'd) res" where
  "nrf_tx_fifo_full h nic = nrf_bit_isset h nic NRF_FIFO_STATUS 5"

definition nrf_ce_val :: "'d nrf_hw \<Rightarrow> nrf_t \<Rightarrow> 'd \<Rightarrow> (u32 \<times> 'd) res" where
  "nrf_ce_val h nic = gpio_read (nbus h) (ucast (ce_pin (config nic)))"

definition nrf_is_standbyI :: "'d nrf_hw \<Rightarrow> nrf_t \<Rightarrow> 'd \<Rightarrow> (bool \<times> 'd) res" where
  "nrf_is_standbyI h nic d =
     bnd (nrf_is_pwrup h nic d) (\<lambda>(up, d1).
     if up then bnd (nrf_ce_val h nic d1) (\<lambda>(v, d2). Inr (v = 0, d2)) else Inr (False, d1))"

definition nrf_is_pwrdown :: "'d nrf_hw \<Rightarrow> nrf_t \<Rightarrow> 'd \<Rightarrow> (bool \<times> 'd) res" where
  "nrf_is_pwrdown h nic d = bnd (nrf_is_pwrup h nic d) (\<lambda>(up, d1). Inr (\<not> up, d1))"


subsection \<open>Statistics and \<open>pretty-time.h\<close>\<close>

definition nrf_stat_start :: "'d nrf_hw \<Rightarrow> nrf_t \<times> 'd \<Rightarrow> (nrf_t \<times> 'd) res" where
  "nrf_stat_start h = (\<lambda>(nic, d).
     bnd (timer_get_usec (nbus h) d) (\<lambda>(u, d1).
     Inr (nic\<lparr>start_usec := u, tot_sent_msgs := 0, tot_sent_bytes := 0, tot_retrans := 0, tot_lost := 0,
              tot_recv_msgs := 0, tot_recv_bytes := 0\<rparr>, d1)))"

definition usec_to_sec :: "u32 \<Rightarrow> u32" where "usec_to_sec t = t div (1000 * 1000)"
definition usec_to_msec :: "u32 \<Rightarrow> u32" where "usec_to_msec t = (let ms = t mod (1000 * 1000) in ms div 1000)"
definition usec_to_usec :: "u32 \<Rightarrow> u32" where "usec_to_usec t = t mod 1000"

record pretty_time_t =
  pt_sec :: u32
  pt_msec :: u32
  pt_usec :: u32

definition pretty_time_mk :: "'d bus \<Rightarrow> u32 \<Rightarrow> 'd \<Rightarrow> (pretty_time_t \<times> 'd) res" where
  "pretty_time_mk b start d =
     bnd (timer_get_usec b d) (\<lambda>(u, d1).
     let t = u - start in
     Inr (\<lparr>pt_sec = usec_to_sec t, pt_msec = usec_to_msec t, pt_usec = usec_to_usec t\<rparr>, d1))"

definition pretty_time_print :: "pretty_time_t \<Rightarrow> line list" where
  "pretty_time_print t =
     (if pt_sec t \<noteq> 0 then [(''sec'', [pt_sec t])] else []) @
     (if pt_msec t \<noteq> 0 then [(''ms'', [pt_msec t])] else []) @
     (if pt_usec t \<noteq> 0 then [(''usec'', [pt_usec t])] else [])"

definition pretty_print_usec :: "'d bus \<Rightarrow> u32 \<Rightarrow> 'd \<Rightarrow> (line list \<times> 'd) res" where
  "pretty_print_usec b start d = bnd (pretty_time_mk b start d) (\<lambda>(t, d1). Inr (pretty_time_print t, d1))"

text \<open>\<open>whole\<close> and \<open>fraction\<close>; the division by the milliseconds has no check.\<close>

definition kbytes_per_sec :: "u32 \<Rightarrow> u32 \<Rightarrow> (u32 \<times> u32) res" where
  "kbytes_per_sec tot_bytes tot_usec =
     (let tot_ms = tot_usec div 1000 in
      if tot_ms = 0 then Inl DivByZero
      else let b = (1000 * tot_bytes) div tot_ms in Inr (b div 1000, b mod 1000))"

definition stat_bytes :: "string \<Rightarrow> u32 \<Rightarrow> u32 \<Rightarrow> line list res" where
  "stat_bytes name tot_bytes tot_usec =
     (if tot_bytes \<noteq> 0
      then bnd (kbytes_per_sec tot_bytes tot_usec) (\<lambda>(whole, fraction).
           Inr [(name, [tot_bytes, whole, fraction])])
      else Inr [])"

definition stat_line :: "string \<Rightarrow> u32 \<Rightarrow> line list" where
  "stat_line name v = (if v \<noteq> 0 then [(name, [v])] else [])"

definition nrf_stat_print :: "'d nrf_hw \<Rightarrow> nrf_t \<Rightarrow> 'd \<Rightarrow> (line list \<times> 'd) res" where
  "nrf_stat_print h nic d =
     bnd (timer_get_usec (nbus h) d) (\<lambda>(u, d1).
     let tot_usec = u - start_usec nic in
     bnd (pretty_print_usec (nbus h) (start_usec nic) d1) (\<lambda>(l0, d2).
     bnd (stat_bytes ''total sent bytes'' (tot_sent_bytes nic) tot_usec) (\<lambda>l1.
     bnd (stat_bytes ''total received bytes'' (tot_recv_bytes nic) tot_usec) (\<lambda>l2.
     Inr (l0 @ stat_line ''total sent messages'' (tot_sent_msgs nic) @ l1 @
          stat_line ''total retrans'' (tot_retrans nic) @ stat_line ''total lost'' (tot_lost nic) @
          stat_line ''total received messages'' (tot_recv_msgs nic) @ l2, d2)))))"

subsection \<open>\<open>nrf-driver.c\<close>\<close>

definition set_bit :: "u8 \<Rightarrow> u8" where "set_bit x = push_bit (unat x) 1"

definition tx_config :: u8 where
  "tx_config = set_bit 3 OR set_bit 2 OR set_bit (ucast PWR_UP_BIT) OR (set_bit 6 OR set_bit 5 OR set_bit 4)"

definition rx_config :: u8 where "rx_config = tx_config OR set_bit (ucast PRIM_RX)"

definition in_rx_config :: "'d nrf_hw \<Rightarrow> nrf_t \<Rightarrow> 'd \<Rightarrow> 'd res" where
  "in_rx_config h n = nrf_opt_assert h n ''nrf_get8(n, NRF_CONFIG) == rx_config''
     (\<lambda>d. bnd (nrf_get8 h n NRF_CONFIG d) (\<lambda>(x, d1). Inr (x = rx_config, d1)))"

definition negate :: "('d \<Rightarrow> (bool \<times> 'd) res) \<Rightarrow> 'd \<Rightarrow> (bool \<times> 'd) res" where
  "negate c d = bnd (c d) (\<lambda>(ok, d1). Inr (\<not> ok, d1))"

definition acked_checks :: "'d nrf_hw \<Rightarrow> nrf_t \<Rightarrow> 'd \<Rightarrow> 'd res" where
  "acked_checks h n = seq
     [in_rx_config h n,
      nrf_opt_assert h n ''nrf_pipe_is_enabled(n, 0)'' (nrf_pipe_is_enabled h n 0),
      nrf_opt_assert h n ''nrf_pipe_is_enabled(n, 1)'' (nrf_pipe_is_enabled h n 1),
      nrf_opt_assert h n ''nrf_pipe_is_acked(n, 0)'' (nrf_pipe_is_acked h n 0),
      nrf_opt_assert h n ''nrf_pipe_is_acked(n, 1)'' (nrf_pipe_is_acked h n 1),
      nrf_opt_assert h n ''nrf_tx_fifo_empty(n)'' (nrf_tx_fifo_empty h n)]"

definition noack_checks :: "'d nrf_hw \<Rightarrow> nrf_t \<Rightarrow> 'd \<Rightarrow> 'd res" where
  "noack_checks h n = seq
     [in_rx_config h n,
      nrf_opt_assert h n ''!nrf_pipe_is_enabled(n, 0)'' (negate (nrf_pipe_is_enabled h n 0)),
      nrf_opt_assert h n ''nrf_pipe_is_enabled(n, 1)'' (nrf_pipe_is_enabled h n 1),
      nrf_opt_assert h n ''!nrf_pipe_is_acked(n, 1)'' (negate (nrf_pipe_is_acked h n 1)),
      nrf_opt_assert h n ''nrf_tx_fifo_empty(n)'' (nrf_tx_fifo_empty h n)]"

definition nrf_init :: "'d nrf_hw \<Rightarrow> 'd nrf_staff \<Rightarrow> nrf_conf_t \<Rightarrow> u32 \<Rightarrow> u32 \<Rightarrow> 'd \<Rightarrow> (nrf_t \<times> 'd) res" where
  "nrf_init h st c addr acked_p d =
     bnd (staff_nrf_init st c addr acked_p d) (\<lambda>(n, d1).
     bnd (if acked_p \<noteq> 0 then acked_checks h n d1 else noack_checks h n d1) (\<lambda>d2. Inr (n, d2)))"

definition nrf_get_pkts :: "'d nrf_hw \<Rightarrow> 'd nrf_staff \<Rightarrow> nrf_t \<times> 'd \<Rightarrow> (u32 \<times> nrf_t \<times> 'd) res" where
  "nrf_get_pkts h st = (\<lambda>(n, d).
     bnd (in_rx_config h n d) (\<lambda>d1.
     bnd (nrf_rx_has_packet h n d1) (\<lambda>(some, d2).
     if \<not> some then Inr (0, n, d2)
     else bnd (staff_nrf_get_pkts st (n, d2)) (\<lambda>(r, n1, d3).
          bnd (in_rx_config h n1 d3) (\<lambda>d4. Inr (r, n1, d4))))))"

text \<open>\<open>while(nrf_get_pkts(n)) ;\<close>\<close>

definition drain :: "'d nrf_hw \<Rightarrow> 'd nrf_staff \<Rightarrow> nat \<Rightarrow> nrf_t \<times> 'd \<Rightarrow> (nrf_t \<times> 'd) res" where
  "drain h st fuel = poll fuel (\<lambda>s. bnd (nrf_get_pkts h st s) (\<lambda>(r, s1). Inr (r = 0, s1)))"

definition after_send :: "'d nrf_hw \<Rightarrow> u32 \<times> nrf_t \<times> 'd \<Rightarrow> (u32 \<times> nrf_t \<times> 'd) res" where
  "after_send h = (\<lambda>(r, n, d).
     bnd (seq [nrf_opt_assert h n ''!nrf_has_tx_intr(n)'' (negate (nrf_has_tx_intr h n)), in_rx_config h n] d)
       (\<lambda>d1. Inr (r, n, d1)))"

definition nrf_tx_send_ack ::
    "'d nrf_hw \<Rightarrow> 'd nrf_staff \<Rightarrow> nat \<Rightarrow> u32 \<Rightarrow> u8 list \<Rightarrow> u32 \<Rightarrow> nrf_t \<times> 'd \<Rightarrow> (u32 \<times> nrf_t \<times> 'd) res" where
  "nrf_tx_send_ack h st fuel txaddr msg nbytes = (\<lambda>(n, d).
     bnd (acked_checks h n d) (\<lambda>d1.
     bnd (drain h st fuel (n, d1)) (\<lambda>s1.
     bnd (staff_nrf_tx_send_ack st txaddr msg nbytes s1) (after_send h))))"

definition nrf_tx_send_noack ::
    "'d nrf_hw \<Rightarrow> 'd nrf_staff \<Rightarrow> nat \<Rightarrow> u32 \<Rightarrow> u8 list \<Rightarrow> u32 \<Rightarrow> nrf_t \<times> 'd \<Rightarrow> (u32 \<times> nrf_t \<times> 'd) res" where
  "nrf_tx_send_noack h st fuel txaddr msg nbytes = (\<lambda>(n, d).
     bnd (noack_checks h n d) (\<lambda>d1.
     bnd (drain h st fuel (n, d1)) (\<lambda>s1.
     bnd (staff_nrf_tx_send_noack st txaddr msg nbytes s1) (after_send h))))"

subsection \<open>\<open>nrf-public.c\<close>\<close>

definition nrf_nbytes_avail :: "'d nrf_hw \<Rightarrow> 'd nrf_staff \<Rightarrow> nat \<Rightarrow> nrf_t \<times> 'd \<Rightarrow> (u32 \<times> nrf_t \<times> 'd) res" where
  "nrf_nbytes_avail h st fuel s =
     bnd (drain h st fuel s) (\<lambda>(n, d). Inr (cq_nelem CQ_N (recvq n), n, d))"

text \<open>Returns the count, the bytes stored in \<open>msg\<close> (none on 0) and the new state.  Interrupts do not
  touch the queue.\<close>

definition nrf_read_exact_noblk ::
    "'d nrf_hw \<Rightarrow> 'd nrf_staff \<Rightarrow> nat \<Rightarrow> u32 \<Rightarrow> nrf_t \<times> 'd \<Rightarrow> (u32 \<times> u8 list \<times> nrf_t \<times> 'd) res" where
  "nrf_read_exact_noblk h st fuel nbytes s =
     bnd (check (nbytes > 0) ''nbytes > 0'') (\<lambda>_.
     bnd (nrf_nbytes_avail h st fuel s) (\<lambda>(avail, n, d).
     if avail < nbytes then Inr (0, [], n, d)
     else bnd (cq_pop_n CQ_N False [] (recvq n) (unat nbytes)) (\<lambda>(bytes, _, q).
          Inr (nbytes, bytes, n\<lparr>recvq := q\<rparr>, d))))"

text \<open>The default \<open>rpi_wait\<close> does nothing.\<close>

definition rpi_wait :: "'d \<Rightarrow> 'd res" where "rpi_wait d = Inr d"

fun read_wait ::
    "'d nrf_hw \<Rightarrow> 'd nrf_staff \<Rightarrow> nat \<Rightarrow> nat \<Rightarrow> u32 \<Rightarrow> u32 \<Rightarrow> timeout_t \<Rightarrow> nrf_t \<times> 'd
      \<Rightarrow> (u32 \<times> u8 list \<times> nrf_t \<times> 'd) res" where
  "read_wait h st fuel 0 nbytes usec t s = Inl OutOfFuel"
| "read_wait h st fuel (Suc k) nbytes usec t s =
     bnd (nrf_read_exact_noblk h st fuel nbytes s) (\<lambda>(n, bytes, nic, d).
     if n \<noteq> 0 then Inr (n, bytes, nic, d)
     else bnd (timeout_usec (nbus h) t (ucast usec) d) (\<lambda>(over, t1, d1).
          if over then Inr (- 1, [], nic, d1)
          else bnd (rpi_wait d1) (\<lambda>d2. read_wait h st fuel k nbytes usec t1 (nic, d2))))"

definition nrf_read_exact_timeout ::
    "'d nrf_hw \<Rightarrow> 'd nrf_staff \<Rightarrow> nat \<Rightarrow> u32 \<Rightarrow> u32 \<Rightarrow> nrf_t \<times> 'd \<Rightarrow> (u32 \<times> u8 list \<times> nrf_t \<times> 'd) res" where
  "nrf_read_exact_timeout h st fuel nbytes usec = (\<lambda>(nic, d).
     bnd (timeout_start (nbus h) d) (\<lambda>(t, d1). read_wait h st fuel fuel nbytes usec t (nic, d1)))"

definition NRF_TIMEOUT :: u32 where "NRF_TIMEOUT = 10"

definition nrf_read_exact ::
    "'d nrf_hw \<Rightarrow> 'd nrf_staff \<Rightarrow> nat \<Rightarrow> u32 \<Rightarrow> nrf_t \<times> 'd \<Rightarrow> (u32 \<times> u8 list \<times> nrf_t \<times> 'd) res" where
  "nrf_read_exact h st fuel nbytes s =
     bnd (nrf_read_exact_timeout h st fuel nbytes (NRF_TIMEOUT * 1000 * 1000) s) (\<lambda>(n, bytes, s1).
     if n = nbytes then Inr (n, bytes, s1) else Inl (Panic ''connection error: no traffic''))"

definition nrf_send_ack ::
    "'d nrf_hw \<Rightarrow> 'd nrf_staff \<Rightarrow> nat \<Rightarrow> u32 \<Rightarrow> u8 list \<Rightarrow> u32 \<Rightarrow> nrf_t \<times> 'd \<Rightarrow> (u32 \<times> nrf_t \<times> 'd) res" where
  "nrf_send_ack h st fuel txaddr msg nbytes s = nrf_tx_send_ack h st fuel txaddr msg nbytes s"

definition nrf_send_noack ::
    "'d nrf_hw \<Rightarrow> 'd nrf_staff \<Rightarrow> nat \<Rightarrow> u32 \<Rightarrow> u8 list \<Rightarrow> u32 \<Rightarrow> nrf_t \<times> 'd \<Rightarrow> (u32 \<times> nrf_t \<times> 'd) res" where
  "nrf_send_noack h st fuel txaddr msg nbytes s = nrf_tx_send_noack h st fuel txaddr msg nbytes s"


subsection \<open>Buffers of 64 bytes\<close>

text \<open>An SPI driver that answers with as many bytes as it is sent.\<close>

definition spi_full_duplex :: "'d nrf_hw \<Rightarrow> bool" where
  "spi_full_duplex h \<longleftrightarrow>
     (\<forall>s tx d. \<exists>rx d'. spi_n_transfer h s tx d = Inr (rx, d') \<and> length rx = length tx)"

lemma spi_transfer:
  "spi_full_duplex h \<Longrightarrow> \<exists>rx d'. spi_n_transfer h s tx d = Inr (rx, d') \<and> length rx = length tx"
  unfolding spi_full_duplex_def by blast

lemma nrf_getn_cases:
  assumes "spi_full_duplex h"
  shows "nrf_getn h nic cmd k d =
      (if 65 \<le> k then Inl (AssertFail ''nbytes < (sizeof tx + 1)'')
       else if k = 0 then Inl (AssertFail ''nbytes > 0'')
       else if k = 64 then Inl OutOfBounds
       else bnd (spi_n_transfer h (nspi nic) (cmd # replicate (unat k) NRF_NOP) d) (\<lambda>(rx, d1). Inr (hd rx, tl rx, d1)))"
proof -
  obtain rx d' where t: "spi_n_transfer h (nspi nic) (cmd # replicate (unat k) NRF_NOP) d = Inr (rx, d')"
    and l: "length rx = Suc (unat k)"
    using spi_transfer [OF assms, of "nspi nic" "cmd # replicate (unat k) NRF_NOP" d] by auto
  have "k = 64 \<longleftrightarrow> unat k = 64" "k < 65 \<longleftrightarrow> unat k < 65" "65 \<le> k \<longleftrightarrow> \<not> unat k < 65" "k = 0 \<longleftrightarrow> unat k = 0"
    by (auto simp: word_unat_eq_iff word_less_nat_alt word_le_nat_alt)
  then show ?thesis
    using t l by (cases rx) (auto simp: nrf_getn_def tx_fill_def check_def word_gt_0 not_less)
qed

lemma nrf_putn_cases:
  assumes "spi_full_duplex h" and "length bytes = unat k"
  shows "nrf_putn h nic cmd bytes k d =
      (if 65 \<le> k then Inl (AssertFail ''nbytes < (sizeof tx + 1)'')
       else if k = 0 then Inl (AssertFail ''nbytes > 0'')
       else if k = 64 then Inl OutOfBounds
       else bnd (spi_n_transfer h (nspi nic) (cmd # bytes) d) (\<lambda>(rx, d1). Inr (hd rx, d1)))"
proof -
  obtain rx d' where t: "spi_n_transfer h (nspi nic) (cmd # bytes) d = Inr (rx, d')"
    and l: "length rx = Suc (unat k)"
    using spi_transfer [OF assms(1), of "nspi nic" "cmd # bytes" d] assms(2) by auto
  have "k = 64 \<longleftrightarrow> unat k = 64" "k < 65 \<longleftrightarrow> unat k < 65" "65 \<le> k \<longleftrightarrow> \<not> unat k < 65" "k = 0 \<longleftrightarrow> unat k = 0"
    by (auto simp: word_unat_eq_iff word_less_nat_alt word_le_nat_alt)
  then show ?thesis
    using t l assms(2)
    by (cases rx) (auto simp: nrf_putn_def tx_fill_def check_def word_gt_0 not_less)
qed

text \<open>C34: The transfers of several bytes and their 64-byte buffers: with an SPI driver that answers as many bytes
  as it is sent, \<open>nrf_getn\<close> and \<open>nrf_putn\<close> succeed on 1 to 63 bytes; a count of 64 passes their
  assertion and the byte after the command and 63 others is stored beyond the end of the array; every other
  count fails an assertion.\<close>

theorem nrf_transfer_bounds:
  assumes "spi_full_duplex h" and "length bytes = unat k"
  shows "((\<exists>r. nrf_getn h nic cmd k d = Inr r) \<longleftrightarrow> 0 < k \<and> k < 64) \<and>
    ((\<exists>r. nrf_putn h nic cmd bytes k d = Inr r) \<longleftrightarrow> 0 < k \<and> k < 64) \<and>
    (nrf_getn h nic cmd k d = Inl OutOfBounds \<longleftrightarrow> k = 64) \<and>
    (nrf_putn h nic cmd bytes k d = Inl OutOfBounds \<longleftrightarrow> k = 64)"
proof -
  obtain rx d' where g: "spi_n_transfer h (nspi nic) (cmd # replicate (unat k) NRF_NOP) d = Inr (rx, d')"
    using spi_transfer [OF assms(1)] by blast
  obtain rx2 d2 where p: "spi_n_transfer h (nspi nic) (cmd # bytes) d = Inr (rx2, d2)"
    using spi_transfer [OF assms(1)] by blast
  have "k < 64 \<longleftrightarrow> \<not> 65 \<le> k \<and> k \<noteq> 64" "k = 64 \<Longrightarrow> \<not> 65 \<le> k \<and> k \<noteq> 0" "0 < k \<longleftrightarrow> k \<noteq> 0"
    by (auto simp: word_unat_eq_iff word_less_nat_alt word_le_nat_alt)
  then show ?thesis
    unfolding nrf_getn_cases [OF assms(1)] nrf_putn_cases [OF assms] g p by auto
qed

text \<open>A chip with 32 registers, each holding the byte last written, that answers status 0xe.\<close>

definition chip_transfer :: "spi_t \<Rightarrow> u8 list \<Rightarrow> (u8 \<Rightarrow> u8) \<Rightarrow> (u8 list \<times> (u8 \<Rightarrow> u8)) res" where
  "chip_transfer s tx r =
     (case tx of [c, v] \<Rightarrow>
        if c AND 0xe0 = NRF_WR_REG then Inr ([0xe, 0], r(c AND 0x1f := v))
        else Inr ([0xe, r (c AND 0x1f)], r)
      | _ \<Rightarrow> Inr (map (\<lambda>_. 0xe) tx, r))"

definition chip_hw :: "(u8 \<Rightarrow> u8) nrf_hw" where
  "chip_hw = \<lparr>nbus = \<lparr>GET32 = \<lambda>a d. Inr (0, d), PUT32 = \<lambda>a v d. Inr d, dev_barrier = Inr,
       DEV_VAL32 = \<lambda>v d. Inr (v, d)\<rparr>,
     spi_n_init = \<lambda>c v d. Inr (\<lparr>sp_chip = c, sp_div = v, sp_mosi = 0, sp_miso = 0, sp_clk = 0, sp_ce = 0\<rparr>, d),
     spi_n_transfer = chip_transfer, gpio_set_pulldown = \<lambda>p. Inr\<rparr>"

lemma chip_full_duplex: "spi_full_duplex chip_hw"
  by (auto simp: spi_full_duplex_def chip_hw_def chip_transfer_def split: list.splits)

definition ex_nrf :: nrf_t where
  "ex_nrf = \<lparr>config = \<lparr>spi_chip = 0, ce_pin = 6, int_pin = 22, pkt_nbytes = 4, channel = 113\<rparr>,
     nspi = \<lparr>sp_chip = 0, sp_div = 20, sp_mosi = 0, sp_miso = 0, sp_clk = 0, sp_ce = 0\<rparr>, rxaddr = server_addr,
     recvq = cq_example, client_data = 0, start_usec = 0, tot_sent_msgs = 0, tot_sent_bytes = 0, tot_retrans = 0,
     tot_lost = 0, tot_recv_msgs = 0, tot_recv_bytes = 0\<rparr>"

theorem nrf_transfer_bounds_witness:
  "nrf_putn chip_hw ex_nrf 0xa0 (replicate 64 1) 64 (\<lambda>_. 0) = Inl OutOfBounds"
  using nrf_transfer_bounds [OF chip_full_duplex, of "replicate 64 1" 64] by simp

subsection \<open>Received bytes\<close>




















subsection \<open>Bandwidth, times and addresses\<close>

lemma kbytes_per_sec_faults: "kbytes_per_sec tot_bytes tot_usec = Inl DivByZero \<longleftrightarrow> tot_usec < 1000"
proof -
  have "tot_usec div 1000 = 0 \<longleftrightarrow> tot_usec < 1000"
    by (simp add: word_unat_eq_iff word_less_nat_alt unat_div_distrib div_eq_0_iff)
  then show ?thesis by (simp add: kbytes_per_sec_def Let_def)
qed

text \<open>4294968 bytes or more overflow the product: 4294968 bytes in a second print as 0.0 kb/s.\<close>

lemma kbytes_per_sec_overflow: "kbytes_per_sec 4294968 1000000 = Inr (0, 0)"
  by (simp add: kbytes_per_sec_def)

lemma pretty_time_splits:
  "unat t = 1000000 * unat (usec_to_sec t) + 1000 * unat (usec_to_msec t) + unat (usec_to_usec t)"
  "unat (usec_to_msec t) < 1000" "unat (usec_to_usec t) < 1000"
proof -
  have m: "unat t mod 1000000 mod 1000 = unat t mod 1000"
    using mod_mod_cancel [of 1000 1000000 "unat t"] by simp
  have "unat t = 1000000 * (unat t div 1000000) + (1000 * (unat t mod 1000000 div 1000) + unat t mod 1000000 mod 1000)"
    by (simp only: mult_div_mod_eq)
  then show "unat t = 1000000 * unat (usec_to_sec t) + 1000 * unat (usec_to_msec t) + unat (usec_to_usec t)"
    unfolding m
    by (simp add: usec_to_sec_def usec_to_msec_def usec_to_usec_def unat_div_distrib unat_mod_distrib Let_def)
  show "unat (usec_to_msec t) < 1000" "unat (usec_to_usec t) < 1000"
    by (simp_all add: usec_to_msec_def usec_to_usec_def unat_div_distrib unat_mod_distrib Let_def less_mult_imp_div_less)
qed

text \<open>An address of more than three bytes is never accepted: its top byte is not sent.\<close>

lemma le_value_3: "unat (le_value [a, b, c]) < 2 ^ 24"
proof -
  have "take_bit 24 (of_le32 a b c 0) = of_le32 a b c 0"
    by (rule bit_word_eqI) (auto simp: bit_take_bit_iff bit_of_le32)
  then have "unat (of_le32 a b c 0) = take_bit 24 (unat (of_le32 a b c 0))"
    by (metis unsigned_take_bit_eq)
  then show ?thesis by (simp add: le_value_def take_bit_eq_mod)
qed

lemma nrf_set_addr_three_bytes:
  assumes spi: "spi_full_duplex h" and ok: "nrf_set_addr h nic reg addr nbytes d = Inr d'"
  shows "nbytes = 3" and "unat addr < 2 ^ 24"
proof -
  have n3: "nbytes = 3" and a: "\<exists>d1 d2. nrf_get_addr h nic reg nbytes d1 = Inr (addr, d2)"
    using ok
    by (auto simp: nrf_set_addr_def res_simps nrf_default_addr_nbytes_def nrf_opt_assert_def nrf_assert_def
        split: prod.splits if_splits)
  obtain d1 d2 bs st where g: "nrf_getn h nic reg 3 d1 = Inr (st, bs, d2)" and v: "addr = le_value bs"
    using a by (auto simp: n3 nrf_get_addr_def res_simps nrf_default_addr_nbytes_def)
  have "length bs = 3"
    using g by (auto simp: nrf_getn_def res_simps split: if_splits prod.splits)
  then obtain x y z where "bs = [x, y, z]" by (auto simp: length_Suc_conv numeral_3_eq_3)
  then show "nbytes = 3" "unat addr < 2 ^ 24" using n3 v le_value_3 by auto
qed

end
