(* ===== verification/Imu.thy ===== *)
theory Imu
  imports Timer BitSupport "HOL-Library.Signed_Division"
begin

text \<open>
  The hardware I2C driver \<open>libpi/src/i2c.c\<close> (the same file as lab 12's) and, on top of it, the driver of the
  MPU-6050 accelerometer and gyroscope of lab 11 (\<open>mpu-6050.c\<close>, \<open>mpu-6050.h\<close>, \<open>driver-accel.c\<close>).  A C \<open>int\<close> is a
  32-bit word read with \<open>sint\<close>; the controller's registers are reached through the bus.
\<close>

subsection \<open>\<open>i2c.c\<close>\<close>

definition i2c_control :: u32 where "i2c_control = 0x20804000"
definition i2c_status :: u32 where "i2c_status = 0x20804004"
definition i2c_dlen :: u32 where "i2c_dlen = 0x20804008"
definition i2c_dev_addr :: u32 where "i2c_dev_addr = 0x2080400c"
definition i2c_fifo :: u32 where "i2c_fifo = 0x20804010"
definition i2c_clock_div :: u32 where "i2c_clock_div = 0x20804014"
definition i2c_clock_stretch_timeout :: u32 where "i2c_clock_stretch_timeout = 0x2080401c"

definition C_START :: u32 where "C_START = push_bit 7 1"
definition C_ENB :: u32 where "C_ENB = push_bit 15 1"
definition C_CLEAR_FIFO :: u32 where "C_CLEAR_FIFO = push_bit 4 1"
definition C_READ :: u32 where "C_READ = 1"
definition S_DONE :: u32 where "S_DONE = push_bit 1 1"
definition S_RXD :: u32 where "S_RXD = push_bit 5 1"
definition S_TXD :: u32 where "S_TXD = push_bit 4 1"
definition S_CLKT :: u32 where "S_CLKT = push_bit 9 1"
definition S_ERR :: u32 where "S_ERR = push_bit 8 1"

text \<open>\<open>while (!(i2c->status & S_DONE)) ;\<close>\<close>

definition i2c_done :: "'d bus \<Rightarrow> 'd \<Rightarrow> (bool \<times> 'd) res" where
  "i2c_done b d = bnd (GET32 b i2c_status d) (\<lambda>(s, d1). Inr (s AND S_DONE \<noteq> 0, d1))"

fun i2c_fill :: "'d bus \<Rightarrow> nat \<Rightarrow> u8 list \<Rightarrow> 'd \<Rightarrow> 'd res" where
  "i2c_fill b fuel [] d = Inr d"
| "i2c_fill b 0 (x # xs) d = Inl OutOfFuel"
| "i2c_fill b (Suc n) (x # xs) d =
     bnd (GET32 b i2c_status d) (\<lambda>(s, d1).
     if s AND (S_ERR OR S_CLKT) \<noteq> 0 then Inl (Panic ''i2c error '')
     else bnd (GET32 b i2c_status d1) (\<lambda>(s2, d2).
       if s2 AND S_TXD \<noteq> 0 then bnd (PUT32 b i2c_fifo (ucast x) d2) (i2c_fill b n xs)
       else i2c_fill b n (x # xs) d2))"

definition i2c_write :: "'d bus \<Rightarrow> nat \<Rightarrow> u32 \<Rightarrow> u8 list \<Rightarrow> u32 \<Rightarrow> 'd \<Rightarrow> (u32 \<times> 'd) res" where
  "i2c_write b fuel addr data nbytes d =
     bnd (if unat nbytes \<le> length data then Inr (take (unat nbytes) data) else Inl OutOfBounds) (\<lambda>bytes.
     bnd (seq [PUT32 b i2c_status (S_DONE OR S_ERR OR S_CLKT),
               PUT32 b i2c_dev_addr (addr AND 0x7f),
               PUT32 b i2c_dlen nbytes,
               PUT32 b i2c_control (C_ENB OR C_START OR C_CLEAR_FIFO),
               i2c_fill b fuel bytes,
               poll fuel (i2c_done b)] d) (\<lambda>d1. Inr (1, d1)))"

text \<open>The loop of \<open>i2c_read\<close>; it does not look at the error bits.\<close>

fun i2c_take :: "'d bus \<Rightarrow> nat \<Rightarrow> nat \<Rightarrow> 'd \<Rightarrow> (u8 list \<times> 'd) res" where
  "i2c_take b fuel 0 d = Inr ([], d)"
| "i2c_take b 0 (Suc k) d = Inl OutOfFuel"
| "i2c_take b (Suc n) (Suc k) d =
     bnd (GET32 b i2c_status d) (\<lambda>(s, d1).
     if s AND S_RXD \<noteq> 0
     then bnd (GET32 b i2c_fifo d1) (\<lambda>(v, d2).
          bnd (i2c_take b n k d2) (\<lambda>(vs, d3). Inr (ucast (v AND 0xff) # vs, d3)))
     else i2c_take b n (Suc k) d1)"

definition i2c_read :: "'d bus \<Rightarrow> nat \<Rightarrow> u32 \<Rightarrow> u32 \<Rightarrow> 'd \<Rightarrow> (u32 \<times> u8 list \<times> 'd) res" where
  "i2c_read b fuel addr nbytes d =
     bnd (seq [PUT32 b i2c_status (S_DONE OR S_ERR OR S_CLKT),
               PUT32 b i2c_dev_addr (addr AND 0x7f),
               PUT32 b i2c_dlen nbytes,
               PUT32 b i2c_control (C_ENB OR C_START OR C_READ OR C_CLEAR_FIFO)] d) (\<lambda>d1.
     bnd (i2c_take b fuel (unat nbytes) d1) (\<lambda>(vs, d2).
     bnd (poll fuel (i2c_done b) d2) (\<lambda>d3. Inr (1, vs, d3))))"

definition i2c_init :: "'d bus \<Rightarrow> 'd \<Rightarrow> 'd res" where
  "i2c_init b d =
     bnd (seq [gpio_set_function b 2 GPIO_FUNC_ALT0, dev_barrier b,
               gpio_set_function b 3 GPIO_FUNC_ALT0, dev_barrier b] d) (\<lambda>d1.
     bnd (gpio_read b 2 d1) (\<lambda>(sda, d2).
     bnd (if sda = 1 then gpio_read b 3 d2 else Inr (0, d2)) (\<lambda>(scl, d3).
     bnd (check (sda = 1 \<and> scl = 1) ''gpio_read(2) == 1 && gpio_read(3) == 1'') (\<lambda>_.
     bnd (seq [PUT32 b i2c_control (C_ENB OR C_CLEAR_FIFO), dev_barrier b,
               PUT32 b i2c_status (S_ERR OR S_CLKT OR S_DONE), dev_barrier b] d3) (\<lambda>d4.
     bnd (GET32 b i2c_status d4) (\<lambda>(s, d5).
     bnd (check (s AND (S_ERR OR S_CLKT OR S_DONE) = 0)
           ''(i2c->status & (S_ERR | S_CLKT | S_DONE)) == 0'') (\<lambda>_.
     bnd (GET32 b i2c_clock_div d5) (\<lambda>(cd, d6).
     bnd (check (cd AND 0xffff = 0x5dc) ''(i2c->clock_div & 0xffff)== 0x5dc'') (\<lambda>_.
     bnd (GET32 b i2c_clock_stretch_timeout d6) (\<lambda>(ct, d7).
     bnd (check (ct AND 0xffff = 0x40) ''(i2c->clock_stretch_timeout & 0xffff)== 0x40'') (\<lambda>_.
     Inr d7)))))))))))"

definition i2c_init_clk_div :: "'d bus \<Rightarrow> u32 \<Rightarrow> 'd \<Rightarrow> 'd res" where
  "i2c_init_clk_div b clk_div = seq [i2c_init b, PUT32 b i2c_clock_div (clk_div AND 0xffff), dev_barrier b]"

subsection \<open>Registers of the MPU-6050\<close>

definition accel_config_reg :: u8 where "accel_config_reg = 0x1c"
definition USER_CTRL :: u8 where "USER_CTRL = 0x6a"
definition accel_xout_h :: u8 where "accel_xout_h = 0x3b"
definition gyro_xout_h :: u8 where "gyro_xout_h = 0x43"
definition PWR_MGMT_1 :: u8 where "PWR_MGMT_1 = 0x6b"
definition INT_STATUS :: u8 where "INT_STATUS = 0x3a"
definition INT_ENABLE :: u8 where "INT_ENABLE = 0x38"
definition FIFO_COUNT_H :: u8 where "FIFO_COUNT_H = 0x72"
definition FIFO_COUNT_L :: u8 where "FIFO_COUNT_L = 0x73"
definition gyro_config_reg :: u8 where "gyro_config_reg = 0x1b"

definition imu_rd :: "'d bus \<Rightarrow> nat \<Rightarrow> u8 \<Rightarrow> u8 \<Rightarrow> 'd \<Rightarrow> (u8 \<times> 'd) res" where
  "imu_rd b fuel addr reg d =
     bnd (i2c_write b fuel (ucast addr) [reg] 1 d) (\<lambda>(_, d1).
     bnd (i2c_read b fuel (ucast addr) 1 d1) (\<lambda>(_, vs, d2).
     bnd (arr_get vs 0) (\<lambda>v. Inr (v, d2))))"

definition imu_wr :: "'d bus \<Rightarrow> nat \<Rightarrow> u8 \<Rightarrow> u8 \<Rightarrow> u8 \<Rightarrow> 'd \<Rightarrow> 'd res" where
  "imu_wr b fuel addr reg v d = bnd (i2c_write b fuel (ucast addr) [reg, v] 2 d) (\<lambda>(_, d1). Inr d1)"

definition imu_rd_n :: "'d bus \<Rightarrow> nat \<Rightarrow> u8 \<Rightarrow> u8 \<Rightarrow> u32 \<Rightarrow> 'd \<Rightarrow> (u32 \<times> u8 list \<times> 'd) res" where
  "imu_rd_n b fuel addr base_reg n d =
     bnd (i2c_write b fuel (ucast addr) [base_reg] 1 d) (\<lambda>(_, d1). i2c_read b fuel (ucast addr) n d1)"

text \<open>\<open>imu_wr(addr, reg, bit_set(imu_rd(addr, reg), i))\<close>\<close>

definition imu_set_bit :: "'d bus \<Rightarrow> nat \<Rightarrow> u8 \<Rightarrow> u8 \<Rightarrow> u32 \<Rightarrow> 'd \<Rightarrow> 'd res" where
  "imu_set_bit b fuel addr reg i d =
     bnd (imu_rd b fuel addr reg d) (\<lambda>(x, d1).
     bnd (bit_set (ucast x) i) (\<lambda>y. imu_wr b fuel addr reg (ucast y) d1))"

subsection \<open>Readings\<close>

record imu_xyz_t =
  ix :: u32
  iy :: u32
  iz :: u32

definition xyz_mk :: "u32 \<Rightarrow> u32 \<Rightarrow> u32 \<Rightarrow> imu_xyz_t" where
  "xyz_mk x y z = \<lparr>ix = x, iy = y, iz = z\<rparr>"

text \<open>C's division of \<open>int\<close>s, which truncates.\<close>

definition idiv :: "u32 \<Rightarrow> int \<Rightarrow> u32" where
  "idiv x k = word_of_int (sint x sdiv k)"

definition SHRT_MAX :: int where "SHRT_MAX = 32767"

definition mg_scaled :: "u32 \<Rightarrow> u32 \<Rightarrow> u32" where
  "mg_scaled v g = idiv (v * 1000 * g) SHRT_MAX"

definition mg_raw :: "u8 \<Rightarrow> u8 \<Rightarrow> u16" where
  "mg_raw lo hi = (let combine = 0; combine = combine OR push_bit 8 (ucast hi) in combine OR ucast lo)"

text \<open>The three readings of a burst of six registers.\<close>

definition xyz_of_regs :: "u8 list \<Rightarrow> imu_xyz_t res" where
  "xyz_of_regs v =
     bnd (arr_get v 0) (\<lambda>v0. bnd (arr_get v 1) (\<lambda>v1. bnd (arr_get v 2) (\<lambda>v2.
     bnd (arr_get v 3) (\<lambda>v3. bnd (arr_get v 4) (\<lambda>v4. bnd (arr_get v 5) (\<lambda>v5.
     Inr (xyz_mk (scast (mg_raw v1 v0)) (scast (mg_raw v3 v2)) (scast (mg_raw v5 v4)))))))))"

subsection \<open>Accelerometer\<close>

record accel_t =
  a_addr :: u8
  a_hz :: u32
  a_g :: u32

definition accel_2g :: u32 where "accel_2g = 0"
definition accel_4g :: u32 where "accel_4g = 1"
definition accel_8g :: u32 where "accel_8g = 2"
definition accel_16g :: u32 where "accel_16g = 3"

definition accel_scale :: "accel_t \<Rightarrow> imu_xyz_t \<Rightarrow> imu_xyz_t" where
  "accel_scale h p =
     xyz_mk (mg_scaled (a_g h) (ix p)) (mg_scaled (a_g h) (iy p)) (mg_scaled (a_g h) (iz p))"

definition accel_has_data :: "'d bus \<Rightarrow> nat \<Rightarrow> accel_t \<Rightarrow> 'd \<Rightarrow> (bool \<times> 'd) res" where
  "accel_has_data b fuel h d =
     bnd (imu_rd b fuel (a_addr h) INT_STATUS d) (\<lambda>(status, d1).
     bnd (bit_is_on (ucast status) 0) (\<lambda>v. Inr (v \<noteq> 0, d1)))"

text \<open>The caller passes \<open>mg_raw(h, l)\<close>, whose parameters are \<open>lo\<close> and \<open>hi\<close>.\<close>

definition test_mg :: "u32 \<Rightarrow> u8 \<Rightarrow> u8 \<Rightarrow> u32 \<Rightarrow> unit res" where
  "test_mg expected l h g =
     (let s_i = mg_scaled (scast (mg_raw h l)) g in check (s_i = expected) ''s_i == expected'')"

definition accel_g_of :: "u32 \<Rightarrow> u32 res" where
  "accel_g_of accel_g =
     (if accel_g = accel_2g then Inr 2 else if accel_g = accel_4g then Inr 4
      else if accel_g = accel_8g then Inr 8 else if accel_g = accel_16g then Inr 16
      else Inl (Panic ''invalid g''))"

definition accel_tests :: "unit res" where
  "accel_tests =
     bnd (test_mg 0 0x00 0x00 2) (\<lambda>_. bnd (test_mg 350 0x16 0x69 2) (\<lambda>_.
     bnd (test_mg 1000 0x40 0x09 2) (\<lambda>_. bnd (test_mg (- 350) 0xe9 0x97 2) (\<lambda>_.
     test_mg (- 1000) 0xbf 0xf7 2))))"

definition mpu6050_accel_init :: "'d bus \<Rightarrow> nat \<Rightarrow> u8 \<Rightarrow> u32 \<Rightarrow> 'd \<Rightarrow> (accel_t \<times> 'd) res" where
  "mpu6050_accel_init b fuel addr accel_g d =
     bnd (accel_g_of accel_g) (\<lambda>g.
     bnd accel_tests (\<lambda>_.
     bnd (seq [imu_wr b fuel addr accel_config_reg 0,
               imu_set_bit b fuel addr USER_CTRL 6,
               imu_wr b fuel addr 0x23 0x08] d) (\<lambda>d1.
     bnd (imu_rd b fuel addr accel_config_reg d1) (\<lambda>(_, d2).
     Inr (\<lparr>a_addr = addr, a_hz = 20, a_g = g\<rparr>, d2)))))"

text \<open>Returns whether the message that the device booted in sleep mode is printed.\<close>

definition mpu6050_reset :: "'d bus \<Rightarrow> nat \<Rightarrow> u8 \<Rightarrow> 'd \<Rightarrow> (bool \<times> 'd) res" where
  "mpu6050_reset b fuel addr d =
     bnd (seq [delay_ms b fuel 100, imu_set_bit b fuel addr PWR_MGMT_1 7, delay_ms b fuel 100] d) (\<lambda>d1.
     bnd (imu_rd b fuel addr PWR_MGMT_1 d1) (\<lambda>(x, d2).
     bnd (bit_set (ucast x) 6) (\<lambda>asleep.
     bnd (seq [imu_wr b fuel addr PWR_MGMT_1 0, delay_ms b fuel 100,
               imu_wr b fuel addr USER_CTRL 0, delay_ms b fuel 100,
               imu_wr b fuel addr 0x37 0x18, imu_set_bit b fuel addr INT_ENABLE 0] d2) (\<lambda>d3.
     bnd (imu_rd b fuel addr INT_STATUS d3) (\<lambda>(_, d4). Inr (asleep \<noteq> 0, d4))))))"

definition accel_rd :: "'d bus \<Rightarrow> nat \<Rightarrow> accel_t \<Rightarrow> 'd \<Rightarrow> (imu_xyz_t \<times> 'd) res" where
  "accel_rd b fuel h d =
     bnd (poll fuel (accel_has_data b fuel h) d) (\<lambda>d1.
     bnd (imu_rd b fuel (a_addr h) INT_STATUS d1) (\<lambda>(_, d2).
     bnd (imu_rd_n b fuel (a_addr h) accel_xout_h 6 d2) (\<lambda>(_, v, d3).
     bnd (xyz_of_regs v) (\<lambda>p. Inr (p, d3)))))"

text \<open>\<open>driver-accel.c\<close>: microseconds per reading and readings per second over 256 readings.\<close>

fun sps_sum :: "'d bus \<Rightarrow> nat \<Rightarrow> accel_t \<Rightarrow> nat \<Rightarrow> u32 \<Rightarrow> 'd \<Rightarrow> (u32 \<times> 'd) res" where
  "sps_sum b fuel h 0 acc d = Inr (acc, d)"
| "sps_sum b fuel h (Suc n) acc d =
     bnd (timer_get_usec b d) (\<lambda>(s, d1).
     bnd (accel_rd b fuel h d1) (\<lambda>(_, d2).
     bnd (timer_get_usec b d2) (\<lambda>(e, d3). sps_sum b fuel h n (acc + (e - s)) d3)))"

definition accel_sps :: "'d bus \<Rightarrow> nat \<Rightarrow> accel_t \<Rightarrow> 'd \<Rightarrow> (u32 \<times> u32 \<times> 'd) res" where
  "accel_sps b fuel h d =
     bnd (sps_sum b fuel h 256 0 d) (\<lambda>(total, d1).
     let usec_per_sample = total div 256 in
     if usec_per_sample = 0 then Inl DivByZero
     else Inr (usec_per_sample, 1000 * 1000 div usec_per_sample, d1))"

subsection \<open>Gyroscope\<close>

record gyro_t =
  g_addr :: u8
  g_hz :: u32
  g_dps :: u32

definition gyro_250dps :: u32 where "gyro_250dps = 0"
definition gyro_500dps :: u32 where "gyro_500dps = 1"
definition gyro_1000dps :: u32 where "gyro_1000dps = 2"
definition gyro_2000dps :: u32 where "gyro_2000dps = 3"

definition mdps_scaled :: "u32 \<Rightarrow> u32 \<Rightarrow> u32" where
  "mdps_scaled x dps_scale = idiv (x * dps_scale) 1000"

definition gyro_scale :: "gyro_t \<Rightarrow> imu_xyz_t \<Rightarrow> imu_xyz_t" where
  "gyro_scale h p =
     (let dps = g_dps h in xyz_mk (mdps_scaled dps (ix p)) (mdps_scaled dps (iy p)) (mdps_scaled dps (iz p)))"

definition dps_to_scale :: "u32 \<Rightarrow> u32 res" where
  "dps_to_scale dps =
     (if dps = 245 \<or> dps = 250 then Inr 8750 else if dps = 500 then Inr 17500
      else if dps = 1000 then Inr 35000 else if dps = 2000 then Inr 70000
      else Inl (Panic ''invalid dps''))"

definition mdps_scale_deg2 :: "u32 \<Rightarrow> u32 \<Rightarrow> u32 res" where
  "mdps_scale_deg2 deg dps =
     (if dps = 250 then Inr (idiv (deg * 250) SHRT_MAX)
      else if dps = 500 then Inr (idiv (deg * 500) SHRT_MAX)
      else Inl (Panic ''bad dps''))"

definition mdps_scale_deg :: "u32 \<Rightarrow> u32 \<Rightarrow> u32 res" where
  "mdps_scale_deg deg dps = bnd (dps_to_scale dps) (\<lambda>s. Inr (idiv (deg * s) 1000))"

definition within :: "u32 \<Rightarrow> u32 \<Rightarrow> u32 \<Rightarrow> bool" where
  "within expect got tol =
     (let diff = expect - got; diff1 = (if sint diff < 0 then - diff else diff) in sint diff1 \<le> sint tol)"

definition test_dps :: "u32 \<Rightarrow> u8 \<Rightarrow> u8 \<Rightarrow> u32 \<Rightarrow> unit res" where
  "test_dps expected_i h l dps =
     bnd (mdps_scale_deg (scast (mg_raw l h)) dps) (\<lambda>s_i.
     if \<not> within (expected_i * 1000) s_i 5 then Inl (Panic ''expected'') else Inr ())"

definition gyro_dps_of :: "u32 \<Rightarrow> u32 res" where
  "gyro_dps_of gyro_dps =
     (if gyro_dps = gyro_250dps then Inr 250 else if gyro_dps = gyro_500dps then Inr 500
      else if gyro_dps = gyro_1000dps then Inr 1000 else if gyro_dps = gyro_2000dps then Inr 2000
      else Inl (Panic ''invalid dps''))"

definition gyro_fs_sel :: "u32 \<Rightarrow> u32 res" where
  "gyro_fs_sel dps =
     (if dps = 250 then Inr 0 else if dps = 500 then Inr 1 else if dps = 1000 then Inr 2
      else if dps = 2000 then Inr 3 else Inl (Panic ''invalid dps''))"

definition gyro_tests :: "unit res" where
  "gyro_tests =
     bnd (test_dps 0 0x00 0x00 245) (\<lambda>_. bnd (test_dps 100 0x2c 0xa4 245) (\<lambda>_.
     bnd (test_dps 200 0x59 0x49 245) (\<lambda>_. test_dps (- 100) 0xd3 0x5c 245)))"

text \<open>The computed \<open>fs_sel\<close> is overwritten by 0 before it is used.\<close>

definition mpu6050_gyro_init :: "'d bus \<Rightarrow> nat \<Rightarrow> u8 \<Rightarrow> u32 \<Rightarrow> 'd \<Rightarrow> (gyro_t \<times> 'd) res" where
  "mpu6050_gyro_init b fuel addr gyro_dps d =
     bnd gyro_tests (\<lambda>_.
     bnd (gyro_dps_of gyro_dps) (\<lambda>dps.
     bnd (gyro_fs_sel dps) (\<lambda>_.
     let fs_sel = 0 in
     bnd (seq [imu_wr b fuel addr gyro_config_reg (push_bit 3 fs_sel),
               imu_set_bit b fuel addr USER_CTRL 6,
               imu_wr b fuel addr 0x23 0x70] d) (\<lambda>d1.
     Inr (\<lparr>g_addr = addr, g_hz = 0, g_dps = dps\<rparr>, d1)))))"

definition gyro_has_data :: "'d bus \<Rightarrow> nat \<Rightarrow> gyro_t \<Rightarrow> 'd \<Rightarrow> (bool \<times> 'd) res" where
  "gyro_has_data b fuel h d =
     bnd (imu_rd b fuel (g_addr h) INT_STATUS d) (\<lambda>(s, d1).
     bnd (bit_is_on (ucast s) 0) (\<lambda>ready.
     if ready \<noteq> 0
     then bnd (imu_rd b fuel (g_addr h) FIFO_COUNT_H d1) (\<lambda>(count_h, d2).
          bnd (imu_rd b fuel (g_addr h) FIFO_COUNT_L d2) (\<lambda>(count_l, d3).
          let count = push_bit 8 (ucast count_h) OR (ucast count_l :: u32) in Inr (6 \<le> count, d3)))
     else Inr (False, d1)))"

definition gyro_rd :: "'d bus \<Rightarrow> nat \<Rightarrow> gyro_t \<Rightarrow> 'd \<Rightarrow> (imu_xyz_t \<times> 'd) res" where
  "gyro_rd b fuel h d =
     bnd (poll fuel (gyro_has_data b fuel h) d) (\<lambda>d1.
     bnd (imu_rd b fuel (g_addr h) INT_STATUS d1) (\<lambda>(_, d2).
     bnd (imu_rd_n b fuel (g_addr h) gyro_xout_h 6 d2) (\<lambda>(_, v, d3).
     bnd (xyz_of_regs v) (\<lambda>p. Inr (p, d3)))))"


subsection \<open>Conversations with the I2C controller\<close>

text \<open>
  \<open>fill_conv bytes s\<close>: in the accesses \<open>s\<close> the controller takes \<open>bytes\<close>, after any number of statuses
  without room, never with an error.  \<open>take_conv vs s\<close>: it hands over \<open>vs\<close>, after any number of statuses
  without data.
\<close>

inductive fill_conv :: "u8 list \<Rightarrow> io list \<Rightarrow> bool" where
  fill_done: "fill_conv [] []"
| fill_wait: "s1 AND (S_ERR OR S_CLKT) = 0 \<Longrightarrow> s2 AND S_TXD = 0 \<Longrightarrow> fill_conv (x # xs) t \<Longrightarrow>
    fill_conv (x # xs) (IRd i2c_status s1 # IRd i2c_status s2 # t)"
| fill_send: "s1 AND (S_ERR OR S_CLKT) = 0 \<Longrightarrow> s2 AND S_TXD \<noteq> 0 \<Longrightarrow> fill_conv xs t \<Longrightarrow>
    fill_conv (x # xs) (IRd i2c_status s1 # IRd i2c_status s2 # IWr i2c_fifo (ucast x) # t)"

inductive take_conv :: "u8 list \<Rightarrow> io list \<Rightarrow> bool" where
  take_done: "take_conv [] []"
| take_wait: "s AND S_RXD = 0 \<Longrightarrow> take_conv (v # vs) t \<Longrightarrow> take_conv (v # vs) (IRd i2c_status s # t)"
| take_byte: "s AND S_RXD \<noteq> 0 \<Longrightarrow> take_conv vs t \<Longrightarrow> v = ucast (w AND 0xff) \<Longrightarrow>
    take_conv (v # vs) (IRd i2c_status s # IRd i2c_fifo w # t)"

definition setup_io :: "u32 \<Rightarrow> u32 \<Rightarrow> u32 \<Rightarrow> io list" where
  "setup_io addr n control =
     [IWr i2c_status 0x302, IWr i2c_dev_addr (addr AND 0x7f), IWr i2c_dlen n, IWr i2c_control control]"

definition done_conv :: "u32 list \<Rightarrow> bool" where
  "done_conv = polled i2c_status (\<lambda>s. s AND S_DONE \<noteq> 0)"

definition write_conv :: "u32 \<Rightarrow> u8 list \<Rightarrow> io list \<Rightarrow> bool" where
  "write_conv addr bytes s \<longleftrightarrow> (\<exists>f ss. fill_conv bytes f \<and> done_conv ss \<and>
     s = setup_io addr (of_nat (length bytes)) 0x8090 @ f @ map (IRd i2c_status) ss)"

definition read_conv :: "u32 \<Rightarrow> u8 list \<Rightarrow> io list \<Rightarrow> bool" where
  "read_conv addr vs s \<longleftrightarrow> (\<exists>f ss. take_conv vs f \<and> done_conv ss \<and>
     s = setup_io addr (of_nat (length vs)) 0x8091 @ f @ map (IRd i2c_status) ss)"

lemmas i2c_bits = C_START_def C_ENB_def C_CLEAR_FIFO_def C_READ_def S_DONE_def S_RXD_def S_TXD_def S_CLKT_def
  S_ERR_def

lemma i2c_fill_conv: "fill_conv bytes s \<Longrightarrow> length s \<le> fuel \<Longrightarrow> i2c_fill script_bus fuel bytes (s @ t) = Inr t"
proof (induction bytes s arbitrary: fuel rule: fill_conv.induct)
  case fill_done
  then show ?case by simp
next
  case (fill_wait s1 s2 x xs u)
  obtain n where "fuel = Suc n" using fill_wait.prems by (cases fuel) auto
  then show ?case using fill_wait by simp
next
  case (fill_send s1 s2 xs u x)
  obtain n where "fuel = Suc n" using fill_send.prems by (cases fuel) auto
  then show ?case using fill_send by simp
qed

lemma i2c_take_conv:
  "take_conv vs s \<Longrightarrow> length s \<le> fuel \<Longrightarrow> i2c_take script_bus fuel (length vs) (s @ t) = Inr (vs, t)"
proof (induction vs s arbitrary: fuel rule: take_conv.induct)
  case take_done
  then show ?case by simp
next
  case (take_wait s v vs u)
  obtain n where "fuel = Suc n" using take_wait.prems by (cases fuel) auto
  then show ?case using take_wait by simp
next
  case (take_byte s vs u v w)
  obtain n where "fuel = Suc n" using take_byte.prems by (cases fuel) auto
  then show ?case using take_byte by simp
qed

lemma i2c_done_poll: "done_conv ss \<Longrightarrow> length ss \<le> fuel \<Longrightarrow>
    poll fuel (i2c_done script_bus) (map (IRd i2c_status) ss @ t) = Inr t"
  unfolding done_conv_def by (rule poll_script [where ok = "\<lambda>s. s AND S_DONE \<noteq> 0"]) (simp_all add: i2c_done_def)

lemma i2c_write_conv:
  assumes "write_conv addr bytes s" and "length s \<le> fuel" and "length bytes < 4294967296"
  shows "i2c_write script_bus fuel addr bytes (of_nat (length bytes)) (s @ t) = Inr (1, t)"
proof -
  obtain f ss where f: "fill_conv bytes f" "done_conv ss"
    and s: "s = setup_io addr (of_nat (length bytes)) 0x8090 @ f @ map (IRd i2c_status) ss"
    using assms(1) unfolding write_conv_def by blast
  have l: "unat (of_nat (length bytes) :: u32) = length bytes" using assms(3) by (simp add: unat_of_nat)
  have "length f \<le> fuel" "length ss \<le> fuel" using assms(2) s by auto
  then show ?thesis
    using i2c_fill_conv [OF f(1), of fuel "map (IRd i2c_status) ss @ t"] i2c_done_poll [OF f(2)] l
    by (simp add: i2c_write_def s setup_io_def i2c_bits)
qed

lemma i2c_read_conv:
  assumes "read_conv addr vs s" and "length s \<le> fuel" and "length vs < 4294967296"
  shows "i2c_read script_bus fuel addr (of_nat (length vs)) (s @ t) = Inr (1, vs, t)"
proof -
  obtain f ss where f: "take_conv vs f" "done_conv ss"
    and s: "s = setup_io addr (of_nat (length vs)) 0x8091 @ f @ map (IRd i2c_status) ss"
    using assms(1) unfolding read_conv_def by blast
  have l: "unat (of_nat (length vs) :: u32) = length vs" using assms(3) by (simp add: unat_of_nat)
  have "length f \<le> fuel" "length ss \<le> fuel" using assms(2) s by auto
  then show ?thesis
    using i2c_take_conv [OF f(1), of fuel "map (IRd i2c_status) ss @ t"] i2c_done_poll [OF f(2)] l
    by (simp add: i2c_read_def s setup_io_def i2c_bits)
qed

text \<open>An error bit ends \<open>i2c_write\<close> in a panic; \<open>i2c_read\<close> never looks at it and waits on.\<close>

lemma i2c_write_error:
  assumes "e AND (S_ERR OR S_CLKT) \<noteq> 0" and "Suc (length xs) < 4294967296"
  shows "i2c_write script_bus (Suc fuel) addr (x # xs) (of_nat (Suc (length xs)))
    (setup_io addr (of_nat (Suc (length xs))) 0x8090 @ IRd i2c_status e # t) = Inl (Panic ''i2c error '')"
  using assms by (simp add: i2c_write_def setup_io_def i2c_bits unat_of_nat del: of_nat_Suc)

lemma i2c_read_ignores_errors:
  "\<forall>s \<in> set ss. s AND S_RXD = 0 \<Longrightarrow>
     i2c_take script_bus (length ss) (Suc k) (map (IRd i2c_status) ss @ t) = Inl OutOfFuel"
  by (induction ss) simp_all

subsection \<open>A reading of the accelerometer\<close>

text \<open>The registers from \<open>reg\<close> on of device \<open>addr\<close> are read as \<open>vs\<close>.\<close>

definition regs_conv :: "u8 \<Rightarrow> u8 \<Rightarrow> u8 list \<Rightarrow> io list \<Rightarrow> bool" where
  "regs_conv addr reg vs s \<longleftrightarrow> (\<exists>s1 s2. s = s1 @ s2 \<and> write_conv (ucast addr) [reg] s1 \<and> read_conv (ucast addr) vs s2)"

lemma imu_rd_n_conv:
  assumes "regs_conv addr reg vs s" and "length s \<le> fuel" and "length vs < 4294967296"
  shows "imu_rd_n script_bus fuel addr reg (of_nat (length vs)) (s @ t) = Inr (1, vs, t)"
proof -
  obtain s1 s2 where s: "s = s1 @ s2" "write_conv (ucast addr) [reg] s1" "read_conv (ucast addr) vs s2"
    using assms(1) unfolding regs_conv_def by blast
  show ?thesis
    using i2c_write_conv [OF s(2), of fuel "s2 @ t"] i2c_read_conv [OF s(3), of fuel t] assms(2,3)
    by (simp add: imu_rd_n_def s(1))
qed

lemma imu_rd_conv:
  assumes "regs_conv addr reg [v] s" and "length s \<le> fuel"
  shows "imu_rd script_bus fuel addr reg (s @ t) = Inr (v, t)"
proof -
  obtain s1 s2 where s: "s = s1 @ s2" "write_conv (ucast addr) [reg] s1" "read_conv (ucast addr) [v] s2"
    using assms(1) unfolding regs_conv_def by blast
  show ?thesis
    using i2c_write_conv [OF s(2), of fuel "s2 @ t"] i2c_read_conv [OF s(3), of fuel t] assms(2)
    by (simp add: imu_rd_def s(1))
qed

text \<open>The status register is read until its lowest bit is set.\<close>

inductive ready_conv :: "u8 \<Rightarrow> io list \<Rightarrow> bool" where
  ready_now: "regs_conv addr INT_STATUS [v] s \<Longrightarrow> bit v 0 \<Longrightarrow> ready_conv addr s"
| ready_later: "regs_conv addr INT_STATUS [v] s \<Longrightarrow> \<not> bit v 0 \<Longrightarrow> ready_conv addr t \<Longrightarrow> ready_conv addr (s @ t)"

lemma odd_u8: "((ucast (v :: u8) :: u32) AND 1 \<noteq> 0) = bit v 0"
proof -
  have "(ucast v :: u32) AND 1 = (if bit v 0 then 1 else 0)"
    by (rule bit_word_eqI) (auto simp: bit_and_iff bit_1_iff bit_ucast_iff simp del: bit_0 intro: gr0I)
  then show ?thesis by (simp del: bit_0)
qed

lemma accel_has_data_conv:
  assumes "regs_conv (a_addr h) INT_STATUS [v] s" and "length s \<le> fuel"
  shows "accel_has_data script_bus fuel h (s @ t) = Inr (bit v 0, t)"
proof -
  show ?thesis
    using imu_rd_conv [OF assms, of t] odd_u8 [of v] by (simp add: accel_has_data_def bit_is_on_def del: bit_0)
qed

lemma regs_conv_nonempty: "regs_conv addr reg vs s \<Longrightarrow> 0 < length s"
  by (auto simp: regs_conv_def write_conv_def setup_io_def)

lemma ready_poll:
  "ready_conv addr s \<Longrightarrow> addr = a_addr h \<Longrightarrow> length s \<le> fuel \<Longrightarrow> length s \<le> n \<Longrightarrow>
     poll n (accel_has_data script_bus fuel h) (s @ t) = Inr t"
proof (induction addr s arbitrary: n rule: ready_conv.induct)
  case (ready_now addr v s)
  then obtain m where "n = Suc m" using regs_conv_nonempty by (cases n) auto
  then show ?case using ready_now accel_has_data_conv [of h v s fuel t] by simp
next
  case (ready_later addr v s u)
  have "0 < length s" by (rule regs_conv_nonempty [OF ready_later.hyps(1)])
  then obtain m where m: "n = Suc m" "length u \<le> m"
    using ready_later.prems(3) by (cases n) (auto simp del: length_greater_0_conv)
  then show ?case using ready_later accel_has_data_conv [of h v s fuel "u @ t"] by simp
qed

lemma bit_mg_raw: "bit (mg_raw lo hi) n \<longleftrightarrow> (if n < 8 then bit lo n else n < 16 \<and> bit hi (n - 8))"
  unfolding mg_raw_def Let_def
  by (auto simp: bit_or_iff bit_push_bit_iff bit_ucast_iff dest: bit_imp_le_length)

lemma mg_raw_signed: "sint (scast (mg_raw lo hi) :: u32) = 256 * sint hi + uint lo"
proof -
  have "sint (scast (mg_raw lo hi) :: u32) = sint (mg_raw lo hi)"
    by (rule sint_up_scast) (simp add: is_up)
  also have "\<dots> = push_bit 8 (sint hi) OR uint lo"
    by (rule bit_eqI)
      (auto simp: bit_mg_raw bit_sint_iff bit_or_iff bit_push_bit_iff bit_uint_iff dest: bit_imp_le_length)
  also have "\<dots> = push_bit 8 (sint hi) + uint lo"
    by (rule disjunctive_add_eq_or [symmetric], rule bit_eqI)
      (auto simp: bit_and_iff bit_push_bit_iff bit_uint_iff)
  finally show ?thesis by (simp add: push_bit_eq_mult)
qed

lemma sint_of_small: "- 2147483648 \<le> j \<Longrightarrow> j < 2147483648 \<Longrightarrow> sint (word_of_int j :: u32) = j"
  by (simp add: sint_sbintrunc' signed_take_bit_int_eq_self)

lemma sdiv_small: "\<bar>j\<bar> \<le> m \<Longrightarrow> \<bar>j sdiv 32767\<bar> \<le> (m :: int)"
proof -
  assume "\<bar>j\<bar> \<le> m"
  moreover have "\<bar>j\<bar> div 32767 \<le> \<bar>j\<bar>" using zdiv_mono2 [of "\<bar>j\<bar>" 1 32767] by simp
  ultimately show ?thesis
    by (cases "0 < j"; cases "j = 0") (simp_all add: signed_divide_int_def sgn_if abs_if)
qed
text \<open>No overflow in the scaling of a 16-bit reading by a sensitivity the driver records.\<close>

lemma mg_scaled_exact:
  assumes "g \<in> {2, 4, 8, 16}" and "- 32768 \<le> sint x" and "sint x < 32768"
  shows "sint (mg_scaled g x) = uint g * 1000 * sint x sdiv 32767"
proof -
  define j where "j = uint g * 1000 * sint x"
  have g: "2 \<le> uint g" "uint g \<le> 16" using assms(1) by auto
  have "\<bar>j\<bar> \<le> 16 * 1000 * 32768"
    unfolding j_def abs_mult using g assms(2,3) by (intro mult_mono) auto
  then have j: "\<bar>j\<bar> \<le> 524288000" by simp
  have "g * 1000 * x = word_of_int j" by (simp add: j_def)
  then have b: "sint (g * 1000 * x) = j"
    using j by (simp only:) (rule sint_of_small, simp_all add: abs_le_iff)
  show ?thesis
    using sdiv_small [OF j] sint_of_small [of "j sdiv 32767"]
    unfolding mg_scaled_def SHRT_MAX_def idiv_def b j_def [symmetric] by (simp add: abs_le_iff)
qed

lemma mg_raw_range: "- 32768 \<le> sint (scast (mg_raw lo hi) :: u32)" "sint (scast (mg_raw lo hi) :: u32) < 32768"
proof -
  have "- 128 \<le> sint hi" "sint hi < 128" using sint_ge [of hi] sint_lt [of hi] by simp_all
  moreover have "0 \<le> uint lo" "uint lo < 256" using uint_lt2p [of lo] by simp_all
  ultimately show "- 32768 \<le> sint (scast (mg_raw lo hi) :: u32)" "sint (scast (mg_raw lo hi) :: u32) < 32768"
    unfolding mg_raw_signed by linarith+
qed

text \<open>C30: A reading of the accelerometer: against any I2C controller that carries the conversation, with any number
  of polls of the data-ready bit and of the FIFO flags, \<open>accel_rd\<close> returns; each coordinate is the signed
  16-bit number with the first register of its pair as high byte, and \<open>accel_scale\<close> turns it into
  thousandths of g without overflow.\<close>

theorem accel_rd_signed:
  assumes "ready_conv (a_addr h) s1" and "regs_conv (a_addr h) INT_STATUS [v] s2"
    and "regs_conv (a_addr h) accel_xout_h [xh, xl, yh, yl, zh, zl] s3" and "length (s1 @ s2 @ s3) \<le> fuel"
    and "a_g h \<in> {2, 4, 8, 16}"
  shows "\<exists>p. accel_rd script_bus fuel h (s1 @ s2 @ s3 @ t) = Inr (p, t) \<and>
    map sint [ix p, iy p, iz p] = map (\<lambda>(hi, lo). 256 * sint hi + uint lo) [(xh, xl), (yh, yl), (zh, zl)] \<and>
    map sint [ix (accel_scale h p), iy (accel_scale h p), iz (accel_scale h p)] =
      map (\<lambda>r. uint (a_g h) * 1000 * sint r sdiv 32767) [ix p, iy p, iz p]"
proof -
  let ?p = "xyz_mk (scast (mg_raw xl xh)) (scast (mg_raw yl yh)) (scast (mg_raw zl zh))"
  have "accel_rd script_bus fuel h (s1 @ s2 @ s3 @ t) = Inr (?p, t)"
    using ready_poll [OF assms(1) refl, of fuel fuel "s2 @ s3 @ t"] imu_rd_conv [OF assms(2), of fuel "s3 @ t"]
      imu_rd_n_conv [OF assms(3), of fuel t] assms(4)
    by (simp add: accel_rd_def xyz_of_regs_def)
  then show ?thesis
    using mg_scaled_exact [OF assms(5)] mg_raw_range
    by (intro exI [of _ ?p]) (simp add: xyz_mk_def accel_scale_def mg_raw_signed)
qed

subsection \<open>A controller that is always ready\<close>

definition prompt_write :: "u32 \<Rightarrow> u8 list \<Rightarrow> io list" where
  "prompt_write addr bytes = setup_io addr (of_nat (length bytes)) 0x8090 @
     concat (map (\<lambda>x. [IRd i2c_status 0x10, IRd i2c_status 0x10, IWr i2c_fifo (ucast x)]) bytes) @
     [IRd i2c_status 2]"

definition prompt_regs :: "u8 \<Rightarrow> u8 \<Rightarrow> u8 list \<Rightarrow> io list" where
  "prompt_regs addr reg vs = prompt_write (ucast addr) [reg] @ setup_io (ucast addr) (of_nat (length vs)) 0x8091 @
     concat (map (\<lambda>v. [IRd i2c_status 0x20, IRd i2c_fifo (ucast v)]) vs) @ [IRd i2c_status 2]"

lemma prompt_fill: "fill_conv bytes (concat (map (\<lambda>x. [IRd i2c_status 0x10, IRd i2c_status 0x10, IWr i2c_fifo (ucast x)]) bytes))"
  by (induction bytes) (auto intro: fill_conv.intros simp: i2c_bits)

lemma prompt_take: "take_conv vs (concat (map (\<lambda>v. [IRd i2c_status 0x20, IRd i2c_fifo (ucast v)]) vs))"
proof (induction vs)
  case (Cons v vs)
  have "v = ucast (ucast v AND 0xff :: u32)"
    unfolding u8_eq_iff all_less_8 by (simp add: bit_simps)
  then show ?case using Cons by (auto intro!: take_byte simp: i2c_bits)
qed (simp add: take_done)

lemma prompt_done: "done_conv [2]"
  by (simp add: done_conv_def polled_def i2c_bits)

lemma prompt_write_conv: "write_conv addr bytes (prompt_write addr bytes)"
  unfolding write_conv_def prompt_write_def using prompt_fill prompt_done by fastforce

lemma prompt_regs_conv: "regs_conv addr reg vs (prompt_regs addr reg vs)"
proof -
  have "read_conv (ucast addr) vs (setup_io (ucast addr) (of_nat (length vs)) 0x8091 @
      concat (map (\<lambda>v. [IRd i2c_status 0x20, IRd i2c_fifo (ucast v)]) vs) @ [IRd i2c_status 2])"
    unfolding read_conv_def using prompt_take prompt_done by fastforce
  then show ?thesis unfolding regs_conv_def prompt_regs_def using prompt_write_conv by blast
qed

definition ex_accel :: accel_t where "ex_accel = \<lparr>a_addr = 0x68, a_hz = 20, a_g = 2\<rparr>"

theorem accel_rd_signed_witness:
  "\<exists>p. accel_rd script_bus 200 ex_accel
      (prompt_regs 0x68 INT_STATUS [0] @ prompt_regs 0x68 INT_STATUS [1] @ prompt_regs 0x68 INT_STATUS [0] @
       prompt_regs 0x68 accel_xout_h [0x40, 0x09, 0xe9, 0x97, 0, 1]) = Inr (p, []) \<and>
    map sint [ix p, iy p, iz p] = [16393, - 5737, 1] \<and>
    map sint [ix (accel_scale ex_accel p), iy (accel_scale ex_accel p), iz (accel_scale ex_accel p)] = [1000, - 350, 0]"
proof -
  have r: "ready_conv (a_addr ex_accel) (prompt_regs 0x68 INT_STATUS [0] @ prompt_regs 0x68 INT_STATUS [1])"
    unfolding ex_accel_def by (auto intro!: ready_later [OF prompt_regs_conv] ready_now [OF prompt_regs_conv])
  have c: "regs_conv (a_addr ex_accel) reg vs (prompt_regs 0x68 reg vs)" for reg vs
    using prompt_regs_conv by (simp add: ex_accel_def)
  have l: "length ((prompt_regs 0x68 INT_STATUS [0] @ prompt_regs 0x68 INT_STATUS [1]) @ prompt_regs 0x68 INT_STATUS [0] @
       prompt_regs 0x68 accel_xout_h [0x40, 0x09, 0xe9, 0x97, 0, 1]) \<le> 200"
    by (simp add: prompt_regs_def prompt_write_def setup_io_def)
  show ?thesis
    using accel_rd_signed [OF r c c l, of "[]"]
    by (rule ex_forward) (auto simp: ex_accel_def signed_divide_int_def)
qed

subsection \<open>The configured range\<close>

lemma accel_tests_pass: "accel_tests = Inr ()"
  by (simp add: accel_tests_def test_mg_def mg_scaled_def idiv_def SHRT_MAX_def mg_raw_def signed_divide_int_def)

lemma gyro_tests_pass: "gyro_tests = Inr ()"
  by (simp add: gyro_tests_def test_dps_def mdps_scale_deg_def dps_to_scale_def idiv_def mg_raw_def within_def
      signed_divide_int_def)

lemma word_less_4: "(x :: u32) < 4 \<Longrightarrow> x = 0 \<or> x = 1 \<or> x = 2 \<or> x = 3"
proof -
  assume "x < 4"
  then have "unat x < 4" by (simp add: word_less_nat_alt)
  then have "unat x = unat (0 :: u32) \<or> unat x = unat (1 :: u32) \<or> unat x = unat (2 :: u32) \<or> unat x = unat (3 :: u32)"
    by auto
  then show ?thesis by (simp only: word_unat_eq_iff)
qed

text \<open>The sensitivity asked for never reaches the device: for each of the four values both initializations
  make exactly the accesses they make for the smallest range, with the same outcome; only the sensitivity
  recorded for scaling differs.  The scaled readings are right for the smallest range alone.\<close>

lemma imu_range_only_recorded:
  assumes "r < 4"
  shows "mpu6050_accel_init b fuel addr r d =
      bnd (mpu6050_accel_init b fuel addr accel_2g d) (\<lambda>(h, d'). Inr (h\<lparr>a_g := 2 * 2 ^ unat r\<rparr>, d')) \<and>
    mpu6050_gyro_init b fuel addr r d =
      bnd (mpu6050_gyro_init b fuel addr gyro_250dps d) (\<lambda>(h, d'). Inr (h\<lparr>g_dps := 250 * 2 ^ unat r\<rparr>, d'))"
proof -
  have a: "accel_g_of r = Inr (2 * 2 ^ unat r)" "accel_g_of accel_2g = Inr 2"
    using word_less_4 [OF assms]
    by (auto simp: accel_g_of_def accel_2g_def accel_4g_def accel_8g_def accel_16g_def)
  have g: "gyro_dps_of r = Inr (250 * 2 ^ unat r)" "gyro_dps_of gyro_250dps = Inr 250"
      "\<exists>f. gyro_fs_sel (250 * 2 ^ unat r) = Inr f" "gyro_fs_sel 250 = Inr 0"
    using word_less_4 [OF assms]
    by (auto simp: gyro_dps_of_def gyro_fs_sel_def gyro_250dps_def gyro_500dps_def gyro_1000dps_def gyro_2000dps_def)
  obtain f where f: "gyro_fs_sel (250 * 2 ^ unat r) = Inr f" using g(3) by blast
  show ?thesis
    by (simp add: mpu6050_accel_init_def mpu6050_gyro_init_def a g(1,2,4) f bnd_assoc case_prod_unfold Let_def
        accel_tests_pass gyro_tests_pass)
qed

lemma imu_wr_conv:
  "write_conv (ucast addr) [reg, v] s \<Longrightarrow> length s \<le> fuel \<Longrightarrow> imu_wr script_bus fuel addr reg v (s @ t) = Inr t"
  using i2c_write_conv [of "ucast addr" "[reg, v]" s fuel t] by (simp add: imu_wr_def)

lemma imu_set_bit_conv:
  assumes "regs_conv addr reg [x] s1" and "write_conv (ucast addr) [reg, x OR push_bit (unat i) 1] s2"
    and "length (s1 @ s2) \<le> fuel" and "i < 8"
  shows "imu_set_bit script_bus fuel addr reg i (s1 @ s2 @ t) = Inr t"
proof -
  have "unat i < 8" using assms(4) by (simp add: word_less_nat_alt)
  then have i: "i < 32" "ucast ((ucast x :: u32) OR push_bit (unat i) 1) = x OR push_bit (unat i) 1"
    by (simp add: word_less_nat_alt) (rule bit_word_eqI, auto simp: bit_simps)
  show ?thesis
    using imu_rd_conv [OF assms(1), of fuel "s2 @ t"] imu_wr_conv [OF assms(2), of fuel t] assms(3) i
    by (simp add: imu_set_bit_def bit_set_def)
qed

text \<open>With a device that answers, the initialization writes 0 to the configuration register (2 g), enables the
  FIFO and routes the accelerometer into it.\<close>

lemma accel_init_conv:
  assumes "write_conv (ucast addr) [accel_config_reg, 0] s1" and "regs_conv addr USER_CTRL [x] s2"
    and "write_conv (ucast addr) [USER_CTRL, x OR 0x40] s3" and "write_conv (ucast addr) [0x23, 0x08] s4"
    and "regs_conv addr accel_config_reg [y] s5" and "length (s1 @ s2 @ s3 @ s4 @ s5) \<le> fuel"
  shows "mpu6050_accel_init script_bus fuel addr accel_2g (s1 @ s2 @ s3 @ s4 @ s5 @ t) =
    Inr (\<lparr>a_addr = addr, a_hz = 20, a_g = 2\<rparr>, t)"
proof -
  have "imu_set_bit script_bus fuel addr USER_CTRL 6 (s2 @ s3 @ s4 @ s5 @ t) = Inr (s4 @ s5 @ t)"
    using imu_set_bit_conv [OF assms(2), of 6 s3 fuel "s4 @ s5 @ t"] assms(3,6) by simp
  then show ?thesis
    using imu_wr_conv [OF assms(1), of fuel "s2 @ s3 @ s4 @ s5 @ t"] imu_wr_conv [OF assms(4), of fuel "s5 @ t"]
      imu_rd_conv [OF assms(5), of fuel t] assms(6)
    by (simp add: mpu6050_accel_init_def accel_tests_pass accel_g_of_def)
qed

lemma imu_range_only_recorded_example:
  "mpu6050_accel_init script_bus 99 0x68 accel_16g
     (prompt_write 0x68 [accel_config_reg, 0] @ prompt_regs 0x68 USER_CTRL [1] @ prompt_write 0x68 [USER_CTRL, 0x41] @
      prompt_write 0x68 [0x23, 8] @ prompt_regs 0x68 accel_config_reg [0]) =
   Inr (\<lparr>a_addr = 0x68, a_hz = 20, a_g = 16\<rparr>, [])"
proof -
  have w: "write_conv (ucast (0x68 :: u8)) bytes (prompt_write 0x68 bytes)" for bytes
    using prompt_write_conv by simp
  have "length (prompt_write 0x68 [accel_config_reg, 0] @ prompt_regs 0x68 USER_CTRL [1] @
      prompt_write 0x68 [USER_CTRL, 1 OR 0x40] @ prompt_write 0x68 [0x23, 8] @ prompt_regs 0x68 accel_config_reg [0]) \<le> 99"
    by (simp add: prompt_regs_def prompt_write_def setup_io_def)
  from accel_init_conv [OF w prompt_regs_conv w w prompt_regs_conv this, of "[]"] show ?thesis
    using imu_range_only_recorded [of accel_16g script_bus 99 "0x68"] by (simp add: accel_16g_def)
qed

text \<open>The test for sleep mode sets the bit instead of reading it: the message is always printed.\<close>

lemma mpu6050_reset_message: "mpu6050_reset b fuel addr d = Inr (p, d') \<Longrightarrow> p"
proof -
  have "(ucast x :: u32) OR 64 \<noteq> 0" for x :: u8
  proof
    assume "(ucast x :: u32) OR 64 = 0"
    then have "bit ((ucast x :: u32) OR 64) 6 = bit (0 :: u32) 6" by simp
    then show False by (simp add: bit_simps)
  qed
  then show "mpu6050_reset b fuel addr d = Inr (p, d') \<Longrightarrow> p"
    by (auto simp: mpu6050_reset_def res_simps bit_set_def)
qed

end
