(* ===== verification/Mbox.thy ===== *)
theory Mbox
  imports Bus
begin

text \<open>
  The mailbox through which the Pi asks its firmware (lab 12, \<open>mbox.h\<close> and \<open>mbox.c\<close>).  The message is in memory
  the firmware reads and writes, so memory is part of the device state and is reached through two
  parameters, \<open>mb_ld\<close> and \<open>mb_st\<close>; \<open>msg\<close> is the address of the message on the stack.
\<close>

record 'd mbox_hw =
  mb_bus :: "'d bus"
  mb_ld :: "u32 \<Rightarrow> 'd \<Rightarrow> u32"
  mb_st :: "u32 \<Rightarrow> u32 \<Rightarrow> 'd \<Rightarrow> 'd"

definition MAILBOX_FULL :: u32 where "MAILBOX_FULL = push_bit 31 1"
definition MAILBOX_EMPTY :: u32 where "MAILBOX_EMPTY = push_bit 30 1"
definition GPU_MEM_OFFSET :: u32 where "GPU_MEM_OFFSET = 0x40000000"
definition MBOX_CH :: u32 where "MBOX_CH = 8"
definition MBOX_READ :: u32 where "MBOX_READ = 0x2000B880"
definition MBOX_STATUS :: u32 where "MBOX_STATUS = 0x2000B898"
definition MBOX_WRITE :: u32 where "MBOX_WRITE = 0x2000B8A0"

lemmas mbox_consts = MAILBOX_FULL_def MAILBOX_EMPTY_def GPU_MEM_OFFSET_def MBOX_CH_def MBOX_READ_def
  MBOX_STATUS_def MBOX_WRITE_def

definition uncached :: "u32 \<Rightarrow> u32" where "uncached cp = cp OR GPU_MEM_OFFSET"

definition mbox_write :: "'d mbox_hw \<Rightarrow> nat \<Rightarrow> u32 \<Rightarrow> u32 \<Rightarrow> 'd \<Rightarrow> 'd res" where
  "mbox_write h fuel channel data d =
     bnd (check (channel = MBOX_CH) ''channel == MBOX_CH'') (\<lambda>_.
     bnd (check (data mod 16 = 0) ''(unsigned)data%16 == 0'') (\<lambda>_.
     seq [dev_barrier (mb_bus h),
          poll fuel (\<lambda>d. bnd (GET32 (mb_bus h) MBOX_STATUS d) (\<lambda>(s, d1). Inr (s AND MAILBOX_FULL = 0, d1))),
          PUT32 (mb_bus h) MBOX_WRITE (uncached data OR channel),
          dev_barrier (mb_bus h)] d))"

definition mbox_read :: "'d mbox_hw \<Rightarrow> nat \<Rightarrow> u32 \<Rightarrow> 'd \<Rightarrow> (u32 \<times> 'd) res" where
  "mbox_read h fuel channel d =
     bnd (check (channel = MBOX_CH) ''channel == MBOX_CH'') (\<lambda>_.
     bnd (seq [dev_barrier (mb_bus h),
               poll fuel (\<lambda>d. bnd (GET32 (mb_bus h) MBOX_STATUS d) (\<lambda>(s, d1). Inr (s AND MAILBOX_EMPTY = 0, d1)))] d)
       (\<lambda>d1.
     bnd (GET32 (mb_bus h) MBOX_READ d1) (\<lambda>(v, d2).
     if v AND 0xf \<noteq> channel then Inl (Panic ''impossible(?): mailbox read for a different channel'')
     else Inr (v, d2))))"

definition mbox_send :: "'d mbox_hw \<Rightarrow> nat \<Rightarrow> u32 \<Rightarrow> u32 \<Rightarrow> 'd \<Rightarrow> (u32 \<times> 'd) res" where
  "mbox_send h fuel channel data d =
     bnd (mbox_write h fuel MBOX_CH data d) (\<lambda>d1.
     bnd (mbox_read h fuel MBOX_CH d1) (\<lambda>(_, d2).
     if mb_ld h (data + 4) d2 \<noteq> 0x80000000 then Inl (Panic ''invalid response'') else Inr (0, d2)))"

text \<open>\<open>msg[0] = ..; msg[1] = ..;\<close> and what every request of \<open>mbox.c\<close> does with its message.\<close>

fun store_words :: "'d mbox_hw \<Rightarrow> u32 \<Rightarrow> u32 list \<Rightarrow> 'd \<Rightarrow> 'd" where
  "store_words h a [] d = d"
| "store_words h a (w # ws) d = store_words h (a + 4) ws (mb_st h a w d)"

definition mbox_request :: "'d mbox_hw \<Rightarrow> nat \<Rightarrow> u32 \<Rightarrow> u32 list \<Rightarrow> u32 \<Rightarrow> 'd \<Rightarrow> 'd res" where
  "mbox_request h fuel msg words reply d =
     bnd (check (msg mod 16 = 0) ''(unsigned)msg%16 == 0'') (\<lambda>_.
     bnd (mbox_send h fuel MBOX_CH msg (store_words h msg words d)) (\<lambda>(_, d1).
     if mb_ld h (msg + 4) d1 \<noteq> 0x80000000 then Inl (Panic ''invalid response'')
     else bnd (check (mb_ld h (msg + 16) d1 = push_bit 31 1 OR reply) ''msg[4] == ((1<<31) | n)'') (\<lambda>_. Inr d1)))"

definition rpi_get_serialnum :: "'d mbox_hw \<Rightarrow> nat \<Rightarrow> u32 \<Rightarrow> 'd \<Rightarrow> (u64 \<times> 'd) res" where
  "rpi_get_serialnum h fuel msg d =
     bnd (mbox_request h fuel msg [8 * 4, 0, 0x00010004, 8, 0, 0, 0, 0] 8 d) (\<lambda>d1.
     bnd (check (mb_ld h (msg + 24) d1 = 0) ''msg[6] == 0'') (\<lambda>_.
     Inr (ucast (mb_ld h (msg + 20) d1), d1)))"

definition rpi_get_memsize :: "'d mbox_hw \<Rightarrow> nat \<Rightarrow> u32 \<Rightarrow> 'd \<Rightarrow> (u32 \<times> 'd) res" where
  "rpi_get_memsize h fuel msg d =
     bnd (mbox_request h fuel msg [32, 0, 0x00010005, 8, 0, 0, 0, 0] 8 d) (\<lambda>d1.
     Inr (mb_ld h (msg + 24) d1, d1))"

definition rpi_get_model :: "'d mbox_hw \<Rightarrow> nat \<Rightarrow> u32 \<Rightarrow> 'd \<Rightarrow> (u32 \<times> 'd) res" where
  "rpi_get_model h fuel msg d =
     bnd (mbox_request h fuel msg [28, 0, 0x00010001, 4, 0, 0, 0] 4 d) (\<lambda>d1.
     Inr (mb_ld h (msg + 20) d1, d1))"

definition rpi_get_revision :: "'d mbox_hw \<Rightarrow> nat \<Rightarrow> u32 \<Rightarrow> 'd \<Rightarrow> (u32 \<times> 'd) res" where
  "rpi_get_revision h fuel msg d =
     bnd (mbox_request h fuel msg [28, 0, 0x00010002, 4, 0, 0, 0] 4 d) (\<lambda>d1.
     Inr (mb_ld h (msg + 20) d1, d1))"

definition rpi_temp_get :: "'d mbox_hw \<Rightarrow> nat \<Rightarrow> u32 \<Rightarrow> 'd \<Rightarrow> (u32 \<times> 'd) res" where
  "rpi_temp_get h fuel msg d =
     bnd (mbox_request h fuel msg [32, 0, 0x00030006, 8, 0, 0, 0, 0] 8 d) (\<lambda>d1.
     Inr (mb_ld h (msg + 24) d1, d1))"

subsection \<open>A firmware on the other side\<close>

text \<open>
  The state is the mailbox script and the memory.  When the driver writes the address of a message to the
  mailbox the firmware answers in place: \<open>answer\<close> maps the request words to the reply words.
\<close>

definition load_words :: "(u32 \<Rightarrow> u32) \<Rightarrow> u32 \<Rightarrow> nat \<Rightarrow> u32 list" where
  "load_words m a n = map (\<lambda>i. m (a + 4 * of_nat i)) [0..<n]"

fun put_words :: "(u32 \<Rightarrow> u32) \<Rightarrow> u32 \<Rightarrow> u32 list \<Rightarrow> u32 \<Rightarrow> u32" where
  "put_words m a [] = m"
| "put_words m a (w # ws) = put_words (m(a := w)) (a + 4) ws"

definition firmware_hw :: "(u32 list \<Rightarrow> u32 list) \<Rightarrow> (io list \<times> (u32 \<Rightarrow> u32)) mbox_hw" where
  "firmware_hw answer = \<lparr>
     mb_bus = \<lparr>GET32 = \<lambda>a (s, m). bnd (script_get a s) (\<lambda>(v, s1). Inr (v, s1, m)),
       PUT32 = \<lambda>a v (s, m). bnd (script_put a v s) (\<lambda>s1.
         let p = v AND NOT (GPU_MEM_OFFSET OR 0xf); n = unat (m p div 4) in
         Inr (s1, if a = MBOX_WRITE then put_words m p (answer (load_words m p n)) else m)),
       dev_barrier = \<lambda>(s, m). bnd (script_barrier s) (\<lambda>s1. Inr (s1, m)),
       DEV_VAL32 = \<lambda>v d. Inr (v, d)\<rparr>,
     mb_ld = \<lambda>a (s, m). m a, mb_st = \<lambda>a v (s, m). (s, m(a := v))\<rparr>"

text \<open>The accesses of one exchange: the mailbox full for some reads, then empty for some.\<close>

definition mbox_io :: "u32 \<Rightarrow> u32 list \<Rightarrow> u32 list \<Rightarrow> u32 \<Rightarrow> io list" where
  "mbox_io msg busy nodata v =
     [IBar] @ map (IRd MBOX_STATUS) busy @ [IWr MBOX_WRITE (msg OR 0x40000008), IBar, IBar] @
     map (IRd MBOX_STATUS) nodata @ [IRd MBOX_READ v]"

lemma firmware_poll:
  assumes "polled a (\<lambda>s. s AND x = 0) vs" and "length vs \<le> fuel"
  shows "poll fuel (\<lambda>d. bnd (GET32 (mb_bus (firmware_hw f)) a d) (\<lambda>(s, d1). Inr (s AND x = 0, d1))) (map (IRd a) vs @ t, m) =
    Inr (t, m)"
  using assms
proof (induction vs arbitrary: fuel)
  case Nil
  then show ?case by (simp add: polled_def)
next
  case (Cons v vs)
  obtain n where "fuel = Suc n" using Cons.prems by (cases fuel) auto
  then show ?case
    using Cons by (cases "vs = []") (auto simp: firmware_hw_def polled_def)
qed

lemma store_words_firmware: "store_words (firmware_hw f) a ws (s, m) = (s, put_words m a ws)"
  by (induction ws arbitrary: a m) (simp_all add: firmware_hw_def)

lemma msg_bits:
  assumes "msg mod 16 = 0" and "\<not> bit (msg :: u32) 30"
  shows "(msg OR 0x40000008) AND NOT (GPU_MEM_OFFSET OR 0xf) = msg"
proof -
  have "take_bit 4 msg = 0" using assms(1) by (simp add: take_bit_eq_mod)
  then have low: "\<not> bit msg n" if "n < 4" for n
    using that by (metis bit_0_eq bit_take_bit_iff bot_apply bot_bool_def)
  have l: "\<not> bit msg 0" "\<not> bit msg 1" "\<not> bit msg 2" "\<not> bit msg 3" by (rule low, simp)+
  show ?thesis
    unfolding u32_eq_iff all_less_32 using l assms(2) by (simp add: bit_simps GPU_MEM_OFFSET_def del: bit_0)
qed

lemma put_words_outside: "\<forall>i < length ws. x \<noteq> a + 4 * of_nat i \<Longrightarrow> put_words m a ws x = m x"
proof (induction ws arbitrary: a m)
  case (Cons w ws)
  have "\<forall>i < length ws. x \<noteq> a + 4 + 4 * of_nat i"
  proof (intro allI impI)
    fix i
    assume "i < length ws"
    then have "x \<noteq> a + 4 * of_nat (Suc i)" using Cons.prems by (metis Suc_less_eq length_Cons)
    then show "x \<noteq> a + 4 + 4 * of_nat i" by (simp add: algebra_simps)
  qed
  moreover have "x \<noteq> a" using Cons.prems by force
  ultimately show ?case using Cons.IH [of "a + 4" "m(a := w)"] by (simp del: fun_upd_apply add: fun_upd_other)
qed simp

lemma put_words_at:
  "i < length ws \<Longrightarrow> length ws \<le> 1073741824 \<Longrightarrow> put_words m a ws (a + 4 * of_nat i) = ws ! i"
proof (induction ws arbitrary: a m i)
  case (Cons w ws)
  show ?case
  proof (cases i)
    case 0
    have "a \<noteq> a + 4 + 4 * of_nat j" if "j < length ws" for j
    proof
      assume "a = a + 4 + 4 * of_nat j"
      then have "unat (4 * of_nat (Suc j) :: u32) = unat (0 :: u32)" by (simp add: algebra_simps)
      then show False using that Cons.prems(2) by (simp add: unat_word_ariths unat_of_nat)
    qed
    then have "put_words (m(a := w)) (a + 4) ws a = w" using put_words_outside [of ws a "a + 4"] by simp
    then show ?thesis by (simp add: 0)
  next
    case (Suc j)
    then show ?thesis using Cons.IH [of j "m(a := w)" "a + 4"] Cons.prems by (simp del: fun_upd_apply add: algebra_simps)
  qed
qed simp

lemma load_put_words: "length ws \<le> 1073741824 \<Longrightarrow> load_words (put_words m a ws) a (length ws) = ws"
  by (rule nth_equalityI) (simp_all add: load_words_def put_words_at)

text \<open>One exchange: the firmware sees exactly the words of the request, and its reply is in the message.\<close>

lemma mbox_send_firmware:
  assumes io: "polled MBOX_STATUS (\<lambda>s. s AND MAILBOX_FULL = 0) busy" "polled MBOX_STATUS (\<lambda>s. s AND MAILBOX_EMPTY = 0) nodata"
    and "length busy \<le> fuel" and "length nodata \<le> fuel" and "v AND 0xf = 8"
    and a: "msg mod 16 = 0" "\<not> bit msg 30"
    and ws: "words = w # ws'" "unat w = 4 * length words" "length words \<le> 1073741824"
  shows "mbox_send (firmware_hw answer) fuel MBOX_CH msg (mbox_io msg busy nodata v @ t, put_words m msg words) =
    (let m' = put_words (put_words m msg words) msg (answer words) in
     if m' (msg + 4) \<noteq> 0x80000000 then Inl (Panic ''invalid response'') else Inr (0, t, m'))"
proof -
  let ?h = "firmware_hw answer" and ?m = "put_words m msg words"
  have h: "dev_barrier (mb_bus ?h) (IBar # s, m) = Inr (s, m)"
    "GET32 (mb_bus ?h) r (IRd r x # s, m) = Inr (x, s, m)" "mb_ld ?h r (s, m) = m r" for s m r x
    by (simp_all add: firmware_hw_def)
  have "?m msg = w" using put_words_at [of 0 words m msg] ws by simp
  then have n: "unat (?m msg div 4) = length words" using ws(2) by (simp add: unat_div_distrib)
  have u: "uncached msg OR MBOX_CH = msg OR 0x40000008"
    by (simp add: uncached_def GPU_MEM_OFFSET_def MBOX_CH_def or.assoc)
  have put: "PUT32 (mb_bus ?h) MBOX_WRITE (msg OR 0x40000008) (IWr MBOX_WRITE (msg OR 0x40000008) # s, ?m) =
      Inr (s, put_words ?m msg (answer words))" for s
    by (simp add: firmware_hw_def Let_def msg_bits [OF a, simplified] n load_put_words [OF ws(3)])
  show ?thesis
    by (simp add: mbox_send_def mbox_write_def mbox_read_def mbox_io_def a(1) u put h Let_def assms(5)
        firmware_poll [OF io(1) assms(3)] firmware_poll [OF io(2) assms(4)]) (simp add: MBOX_CH_def assms(5))
qed


lemma firmware_ld: "mb_ld (firmware_hw f) a (s, m) = m a"
  by (simp add: firmware_hw_def)

text \<open>A mailbox request against firmware that answers in place: whatever the number of polls, the firmware
  is given exactly the request words, the request returns with the firmware's reply as the message when
  the reply has the success code and the announced length, it panics on another code and fails its
  assertion on another length.\<close>

lemma mbox_request_answered:
  assumes "polled MBOX_STATUS (\<lambda>s. s AND MAILBOX_FULL = 0) busy" and "polled MBOX_STATUS (\<lambda>s. s AND MAILBOX_EMPTY = 0) nodata"
    and "length busy \<le> fuel" and "length nodata \<le> fuel" and "v AND 0xf = 8"
    and "msg mod 16 = 0" and "\<not> bit msg 30"
    and "unat (hd words) = 4 * length words" and "5 \<le> length words" and "length words \<le> 1073741824"
    and "length (answer words) = length words"
  shows "mbox_request (firmware_hw answer) fuel msg words n (mbox_io msg busy nodata v @ t, m) =
    (if answer words ! 1 \<noteq> 0x80000000 then Inl (Panic ''invalid response'')
     else if answer words ! 4 \<noteq> push_bit 31 1 OR n then Inl (AssertFail ''msg[4] == ((1<<31) | n)'')
     else Inr (t, put_words (put_words m msg words) msg (answer words)))"
proof -
  obtain w ws where w: "words = w # ws" using assms(9) by (cases words) auto
  let ?m = "put_words (put_words m msg words) msg (answer words)"
  have at: "?m (msg + 4 * of_nat i) = answer words ! i" if "i < length words" for i
    using put_words_at [of i "answer words" "put_words m msg words" msg] that assms(10,11) by simp
  have r: "?m (msg + 4) = answer words ! 1" "?m (msg + 16) = answer words ! 4"
    using at [of 1] at [of 4] assms(9) by simp_all
  have "mbox_send (firmware_hw answer) fuel MBOX_CH msg (mbox_io msg busy nodata v @ t, put_words m msg words) =
    (if answer words ! 1 \<noteq> 0x80000000 then Inl (Panic ''invalid response'') else Inr (0, t, ?m))"
    using mbox_send_firmware [OF assms(1-7) w _ assms(10), where m = m and t = t and answer = answer] assms(8) r(1)
    by (simp add: w Let_def)
  then show ?thesis
    using assms(6) r by (simp add: mbox_request_def store_words_firmware firmware_ld check_def)
qed

text \<open>A firmware that reports 512 MB from address 0.\<close>

definition ex_firmware :: "u32 list \<Rightarrow> u32 list" where
  "ex_firmware ws = [ws ! 0, 0x80000000, ws ! 2, 8, 0x80000008, 0, 0x20000000, 0]"

lemma mbox_request_answered_example:
  "\<exists>m. rpi_get_memsize (firmware_hw ex_firmware) 3 0x7fffff0 (mbox_io 0x7fffff0 [0x80000000, 0] [0x40000000, 0] 8, \<lambda>_. 0) =
     Inr (0x20000000, [], m)"
proof -
  let ?w = "[32, 0, 0x00010005, 8, 0, 0, 0, 0] :: u32 list"
  let ?m = "put_words (put_words (\<lambda>_. 0) 0x7fffff0 ?w) 0x7fffff0 (ex_firmware ?w)"
  have p: "polled MBOX_STATUS (\<lambda>s. s AND MAILBOX_FULL = 0) [0x80000000, 0]"
    "polled MBOX_STATUS (\<lambda>s. s AND MAILBOX_EMPTY = 0) [0x40000000, 0]"
    by (simp_all add: polled_def MAILBOX_FULL_def MAILBOX_EMPTY_def)
  have "mbox_request (firmware_hw ex_firmware) 3 0x7fffff0 ?w 8 (mbox_io 0x7fffff0 [0x80000000, 0] [0x40000000, 0] 8, \<lambda>_. 0) =
    Inr ([], ?m)"
    using mbox_request_answered [OF p, where t = "[]" and fuel = 3 and v = 8 and msg = "0x7fffff0" and words = ?w
        and answer = ex_firmware and n = 8 and m = "\<lambda>_. 0"]
    by (simp add: ex_firmware_def)
  moreover have "?m (0x7fffff0 + 24) = 0x20000000"
    using put_words_at [of 6 "ex_firmware ?w" "put_words (\<lambda>_. 0) 0x7fffff0 ?w" "0x7fffff0"] by (simp add: ex_firmware_def)
  ultimately show ?thesis by (simp add: rpi_get_memsize_def firmware_ld)
qed

end
