(* ===== verification/Unix.thy ===== *)
theory Unix
  imports Prelude "HOL-Library.Sublist"
begin

text \<open>
  The host library \<open>libunix\<close> and the driver of the bootloader: exact reads and writes, reading a file, names of
  serial devices (\<open>find-ttyusb.c\<close>), records appended to a binary (\<open>pitag-linker.c\<close>), the echo of the Pi's output with its
  shutdown detector (\<open>pi-cat.c\<close>, \<open>pi-echo.c\<close>), prefixes and suffixes, and the options of \<open>my-install.c\<close>.

  The operating system is a parameter, a record of the calls used, on a state.  C strings are lists of
  characters without their zero; \<open>panic\<close>, \<open>die\<close> and \<open>sys_die\<close> are \<open>Panic\<close>, \<open>exit(0)\<close> is \<open>ExitOk\<close>.
\<close>

record 'o os =
  os_read :: "int \<Rightarrow> nat \<Rightarrow> 'o \<Rightarrow> (int \<times> u8 list) \<times> 'o"
  os_write :: "int \<Rightarrow> u8 list \<Rightarrow> 'o \<Rightarrow> int \<times> 'o"
  os_open :: "string \<Rightarrow> 'o \<Rightarrow> int \<times> 'o"
  os_creat :: "string \<Rightarrow> 'o \<Rightarrow> int \<times> 'o"
  os_close :: "int \<Rightarrow> 'o \<Rightarrow> 'o"
  os_stat :: "string \<Rightarrow> 'o \<Rightarrow> (nat \<times> int) option"
  os_select :: "int \<Rightarrow> u32 \<Rightarrow> 'o \<Rightarrow> (int \<times> bool) \<times> 'o"
  os_dir :: "string \<Rightarrow> 'o \<Rightarrow> string list"

text \<open>\<open>read\<close> returns a count and the bytes stored, \<open>stat\<close> size and modification time, \<open>select\<close> its result and
  whether the descriptor is readable.\<close>

subsection \<open>\<open>read-exact.c\<close>, \<open>write-exact.c\<close>, \<open>put-get.c\<close>, \<open>creat-file.c\<close>, \<open>tty-gone.c\<close>, \<open>can-read.c\<close>\<close>

definition read_exact :: "'o os \<Rightarrow> int \<Rightarrow> nat \<Rightarrow> 'o \<Rightarrow> (u8 list \<times> 'o) res" where
  "read_exact os fd n w =
     bnd (check (n \<noteq> 0) ''n'') (\<lambda>_.
     let ((got, data), o1) = os_read os fd n w in
     if got < 0 then Inl (Panic ''read_exact failed'')
     else if got \<noteq> int n then Inl (Panic ''attempted to read'') else Inr (data, o1))"

definition write_exact :: "'o os \<Rightarrow> int \<Rightarrow> u8 list \<Rightarrow> 'o \<Rightarrow> 'o res" where
  "write_exact os fd data w =
     bnd (check (length data \<noteq> 0) ''n'') (\<lambda>_.
     let (got, o1) = os_write os fd data w in
     if got < 0 then Inl (Panic ''write_exact failed'')
     else if got \<noteq> int (length data) then Inl (Panic ''expected a write'') else Inr o1)"

definition put_uint8_fd :: "'o os \<Rightarrow> int \<Rightarrow> u8 \<Rightarrow> 'o \<Rightarrow> 'o res" where
  "put_uint8_fd os fd b = write_exact os fd [b]"

definition put_uint32_fd :: "'o os \<Rightarrow> int \<Rightarrow> u32 \<Rightarrow> 'o \<Rightarrow> 'o res" where
  "put_uint32_fd os fd u = write_exact os fd (le32 u)"

definition get_uint8_fd :: "'o os \<Rightarrow> int \<Rightarrow> 'o \<Rightarrow> (u8 \<times> 'o) res" where
  "get_uint8_fd os fd w = bnd (read_exact os fd 1 w) (\<lambda>(bs, o1). bnd (arr_get bs 0) (\<lambda>b. Inr (b, o1)))"

definition get_uint32_fd :: "'o os \<Rightarrow> int \<Rightarrow> 'o \<Rightarrow> (u32 \<times> 'o) res" where
  "get_uint32_fd os fd w =
     bnd (get_uint8_fd os fd w) (\<lambda>(b0, o1). bnd (get_uint8_fd os fd o1) (\<lambda>(b1, o2).
     bnd (get_uint8_fd os fd o2) (\<lambda>(b2, o3). bnd (get_uint8_fd os fd o3) (\<lambda>(b3, o4).
     Inr (ucast b0 OR push_bit 8 (ucast b1) OR push_bit 16 (ucast b2) OR push_bit 24 (ucast b3), o4)))))"

definition create_file :: "'o os \<Rightarrow> string \<Rightarrow> 'o \<Rightarrow> (int \<times> 'o) res" where
  "create_file os name w =
     (let (fd, o1) = os_creat os name w in
      if fd < 0 then Inl (Panic ''could not open file'') else Inr (fd, o1))"

definition exists :: "'o os \<Rightarrow> string \<Rightarrow> 'o \<Rightarrow> bool" where
  "exists os name w \<longleftrightarrow> os_stat os name w \<noteq> None"

definition tty_gone :: "'o os \<Rightarrow> string \<Rightarrow> 'o \<Rightarrow> bool" where
  "tty_gone os ttyname w \<longleftrightarrow> os_stat os ttyname w = None"

definition can_read_timeout :: "'o os \<Rightarrow> int \<Rightarrow> u32 \<Rightarrow> 'o \<Rightarrow> (bool \<times> 'o) res" where
  "can_read_timeout os fd usec w =
     (let ((r, isset), o1) = os_select os fd usec w in
      if r < 0 then Inl (Panic ''failed?'') else Inr (isset, o1))"

definition can_read :: "'o os \<Rightarrow> int \<Rightarrow> 'o \<Rightarrow> (bool \<times> 'o) res" where
  "can_read os fd = can_read_timeout os fd 0"

text \<open>\<open>read-timeout.c\<close>: the count is assigned to an \<open>unsigned\<close>, which is never below 0, so a failed \<open>read\<close>
  is returned as -1.\<close>

definition read_timeout :: "'o os \<Rightarrow> int \<Rightarrow> nat \<Rightarrow> u32 \<Rightarrow> 'o \<Rightarrow> ((int \<times> u8 list) \<times> 'o) res" where
  "read_timeout os fd n timeout w =
     bnd (can_read_timeout os fd timeout w) (\<lambda>(can, o1).
     if \<not> can then Inr ((0, []), o1) else Inr (os_read os fd n o1))"

text \<open>\<open>open-tty.c\<close>; \<open>sleep\<close> takes time only.\<close>

fun open_tty_n :: "'o os \<Rightarrow> string \<Rightarrow> nat \<Rightarrow> 'o \<Rightarrow> (int \<times> 'o) res" where
  "open_tty_n os device 0 w = Inl (Panic ''couldn't open tty port'')"
| "open_tty_n os device (Suc n) w =
     (let (fd, o1) = os_open os device w in
      if fd \<ge> 0 then Inr (fd, o1) else open_tty_n os device n o1)"

definition open_tty :: "'o os \<Rightarrow> string \<Rightarrow> 'o \<Rightarrow> (int \<times> 'o) res" where
  "open_tty os device = open_tty_n os device 5"

subsection \<open>\<open>read-file.c\<close>\<close>

text \<open>The result of \<open>stat\<close> is not checked: on failure the size is read from an uninitialized structure, which is
  a fault here.  The result of \<open>read\<close> is not checked either.\<close>

definition read_file :: "'o os \<Rightarrow> string \<Rightarrow> 'o \<Rightarrow> (nat \<times> u8 list \<times> 'o) res" where
  "read_file os name w =
     (case os_stat os name w of
        None \<Rightarrow> Inl OutOfBounds
      | Some (st_size, _) \<Rightarrow>
          let padded_size = 4 * ((st_size + 3) div 4);
              (fd, o1) = os_open os name w in
          if fd = - 1 then Inl (Panic ''Error opening file'')
          else
            let ((_, data), o2) = os_read os fd st_size o1;
                buf = data @ replicate (padded_size - length data) 0 in
            Inr (st_size, buf, os_close os fd o2))"

subsection \<open>\<open>suffix.c\<close>\<close>

definition suffix_cmp :: "string \<Rightarrow> string \<Rightarrow> bool" where
  "suffix_cmp s suff =
     (let n0 = length s; n1 = length suff in
      if n0 < n1 then False else drop (n0 - n1) s = suff)"

definition prefix_cmp :: "string \<Rightarrow> string \<Rightarrow> bool" where
  "prefix_cmp s pre =
     (let n0 = length s; n1 = length pre in
      if n0 < n1 then False else take n1 s = take n1 pre)"

subsection \<open>\<open>find-ttyusb.c\<close>\<close>

definition ttyusb_prefixes :: "string list" where
  "ttyusb_prefixes = [''ttyUSB'', ''ttyACM'', ''cu.SLAB_USB'']"

definition tty_filter :: "string \<Rightarrow> bool" where
  "tty_filter d = list_ex (\<lambda>p. take (length p) d = p) ttyusb_prefixes"

definition dev_path :: "string \<Rightarrow> string" where
  "dev_path name = ''/dev/'' @ name"

definition compare_mtime_less :: "'o os \<Rightarrow> 'o \<Rightarrow> string \<Rightarrow> string \<Rightarrow> int" where
  "compare_mtime_less os w a b =
     (case (os_stat os (dev_path a) w, os_stat os (dev_path b) w) of
        (Some (_, ta), Some (_, tb)) \<Rightarrow> if ta < tb then 1 else if tb < ta then - 1 else 0
      | _ \<Rightarrow> 0)"

definition compare_mtime_greater :: "'o os \<Rightarrow> 'o \<Rightarrow> string \<Rightarrow> string \<Rightarrow> int" where
  "compare_mtime_greater os w a b =
     (case (os_stat os (dev_path a) w, os_stat os (dev_path b) w) of
        (Some (_, ta), Some (_, tb)) \<Rightarrow> if ta < tb then - 1 else if tb < ta then 1 else 0
      | _ \<Rightarrow> 0)"

text \<open>\<open>scandir\<close> of the C library: the entries that pass the filter, sorted by the comparison.\<close>

fun insert_by :: "('a \<Rightarrow> 'a \<Rightarrow> int) \<Rightarrow> 'a \<Rightarrow> 'a list \<Rightarrow> 'a list" where
  "insert_by cmp x [] = [x]"
| "insert_by cmp x (y # ys) = (if cmp x y \<le> 0 then x # y # ys else y # insert_by cmp x ys)"

definition scandir :: "(string \<Rightarrow> bool) \<Rightarrow> (string \<Rightarrow> string \<Rightarrow> int) \<Rightarrow> string list \<Rightarrow> string list" where
  "scandir keep cmp names = foldr (insert_by cmp) (filter keep names) []"

fun alphasort :: "string \<Rightarrow> string \<Rightarrow> int" where
  "alphasort [] [] = 0"
| "alphasort [] b = - 1"
| "alphasort a [] = 1"
| "alphasort (x # a) (y # b) =
     (if (of_char x :: nat) < of_char y then - 1 else if (of_char y :: nat) < of_char x then 1 else alphasort a b)"

datatype tty_option = LAST | FIRST | UNDEF

definition wrap_find_ttyusb :: "'o os \<Rightarrow> tty_option \<Rightarrow> 'o \<Rightarrow> string res" where
  "wrap_find_ttyusb os op w =
     (let cmp = (case op of LAST \<Rightarrow> compare_mtime_greater os w | FIRST \<Rightarrow> compare_mtime_less os w | UNDEF \<Rightarrow> alphasort);
          name_list = scandir tty_filter cmp (os_dir os ''/dev'' w);
          n = length name_list in
      if (n = 0 \<or> n > 1) \<and> n \<noteq> 2 then Inl (Panic ''scandir return'')
      else Inr (''/dev'' @ ''/'' @ name_list ! 0))"

definition find_ttyusb :: "'o os \<Rightarrow> 'o \<Rightarrow> string res" where "find_ttyusb os = wrap_find_ttyusb os UNDEF"
definition find_ttyusb_last :: "'o os \<Rightarrow> 'o \<Rightarrow> string res" where "find_ttyusb_last os = wrap_find_ttyusb os LAST"
definition find_ttyusb_first :: "'o os \<Rightarrow> 'o \<Rightarrow> string res" where "find_ttyusb_first os = wrap_find_ttyusb os FIRST"

subsection \<open>\<open>pitag-linker.c\<close>\<close>

definition BIN_TAG :: u32 where "BIN_TAG = 0x12345678"

record pitag_t =
  pt_fd :: int
  tot_nbytes :: u32

definition pitag_start :: "'o os \<Rightarrow> string \<Rightarrow> u8 list \<Rightarrow> 'o \<Rightarrow> (pitag_t \<times> 'o) res" where
  "pitag_start os out prog w =
     bnd (create_file os out w) (\<lambda>(fd, o1).
     bnd (check (fd > 0) ''fd>0'') (\<lambda>_.
     bnd (write_exact os fd prog o1) (\<lambda>o2.
     Inr (\<lparr>pt_fd = fd, tot_nbytes = of_nat (length prog)\<rparr>, o2))))"

definition pitag_start_file :: "'o os \<Rightarrow> string \<Rightarrow> string \<Rightarrow> 'o \<Rightarrow> (pitag_t \<times> 'o) res" where
  "pitag_start_file os out prog_name w =
     bnd (read_file os prog_name w) (\<lambda>(nbytes, prog, o1). pitag_start os out (take nbytes prog) o1)"

text \<open>\<open>bin_name\<close> as the bytes of the C string.\<close>

definition pitag_add_bin :: "'o os \<Rightarrow> pitag_t \<Rightarrow> u8 list \<Rightarrow> u8 list \<Rightarrow> 'o \<Rightarrow> (pitag_t \<times> 'o) res" where
  "pitag_add_bin os h bin_name bin w =
     (let entry_nbytes = of_nat (length bin_name) + 1 + of_nat (length bin) + 4 * 4 in
      bnd (write_exact os (pt_fd h) (le32 BIN_TAG) w) (\<lambda>o1.
      bnd (write_exact os (pt_fd h) (le32 entry_nbytes) o1) (\<lambda>o2.
      bnd (write_exact os (pt_fd h) (le32 (of_nat (length bin))) o2) (\<lambda>o3.
      bnd (write_exact os (pt_fd h) (le32 (tot_nbytes h)) o3) (\<lambda>o4.
      bnd (write_exact os (pt_fd h) bin o4) (\<lambda>o5.
      bnd (write_exact os (pt_fd h) (bin_name @ [0]) o5) (\<lambda>o6.
      Inr (h\<lparr>tot_nbytes := tot_nbytes h + entry_nbytes\<rparr>, o6))))))))"

definition char_bytes :: "string \<Rightarrow> u8 list" where
  "char_bytes s = map of_char s"

definition pitag_add_bin_file :: "'o os \<Rightarrow> pitag_t \<Rightarrow> string \<Rightarrow> 'o \<Rightarrow> (pitag_t \<times> 'o) res" where
  "pitag_add_bin_file os h bin_name w =
     bnd (read_file os bin_name w) (\<lambda>(nbytes, bin, o1). pitag_add_bin os h (char_bytes bin_name) (take nbytes bin) o1)"

definition pitag_done :: "'o os \<Rightarrow> pitag_t \<Rightarrow> 'o \<Rightarrow> 'o" where
  "pitag_done os h = os_close os (pt_fd h)"

subsection \<open>\<open>pi-cat.c\<close> and \<open>pi-echo.c\<close>\<close>

definition exit_string :: "u8 list" where
  "exit_string = [0x44, 0x4f, 0x4e, 0x45, 0x21, 0x21, 0x21, 0x0a]"

text \<open>\<open>pi_done\<close> on the bytes up to the zero; the static \<open>pos\<close> is passed and returned.\<close>

fun pi_done :: "nat \<Rightarrow> u8 list \<Rightarrow> (bool \<times> nat) res" where
  "pi_done pos [] = Inr (False, pos)"
| "pi_done pos (c # s) =
     bnd (check (pos < 8) ''pos < n'') (\<lambda>_.
     if c \<noteq> exit_string ! pos then pi_done 0 s
     else let pos = pos + 1 in
          if pos = 8 then Inr (True, pos) else pi_done pos s)"

definition isprint :: "u8 \<Rightarrow> bool" where "isprint c \<longleftrightarrow> 0x20 \<le> c \<and> c \<le> 0x7e"
definition isspace :: "u8 \<Rightarrow> bool" where "isspace c \<longleftrightarrow> c = 0x20 \<or> 9 \<le> c \<and> c \<le> 13"

definition remove_nonprint :: "u8 list \<Rightarrow> u8 list" where
  "remove_nonprint buf = map (\<lambda>p. if isprint p \<or> isspace p \<and> p \<noteq> 13 then p else 0x20) buf"

text \<open>One round of the loop of \<open>pi_cat\<close>: the state is \<open>pos\<close>, the output so far and the system.\<close>

definition pi_cat_step :: "'o os \<Rightarrow> int \<Rightarrow> string \<Rightarrow> nat \<times> u8 list \<times> 'o \<Rightarrow> (nat \<times> u8 list \<times> 'o) res" where
  "pi_cat_step os fd portname = (\<lambda>(pos, out, w).
     let ((n, bytes), o1) = os_read os fd 4095 w in
     if n = 0 then if tty_gone os portname o1 then Inl ExitOk else Inr (pos, out, o1)
     else if n < 0 then Inl (Panic ''pi connection closed'')
     else
       let buf = remove_nonprint bytes in
       bnd (pi_done pos buf) (\<lambda>(d, pos1).
       if d then Inl ExitOk else Inr (pos1, out @ buf, o1)))"

fun pi_cat :: "'o os \<Rightarrow> nat \<Rightarrow> int \<Rightarrow> string \<Rightarrow> nat \<times> u8 list \<times> 'o \<Rightarrow> unit res" where
  "pi_cat os 0 fd portname s = Inl OutOfFuel"
| "pi_cat os (Suc n) fd portname s = bnd (pi_cat_step os fd portname s) (pi_cat os n fd portname)"

text \<open>A round of \<open>pi_echo\<close>: what the user types goes to the Pi; \<open>buf[n] = 0\<close> on a 4096-byte buffer.\<close>

definition pi_echo_in :: "'o os \<Rightarrow> int \<Rightarrow> int \<Rightarrow> 'o \<Rightarrow> 'o res" where
  "pi_echo_in os unix_fd pi_fd w =
     bnd (read_timeout os unix_fd 4096 1000 w) (\<lambda>((n, bytes), o1).
     if n = 0 then Inr o1
     else if n < 0 \<or> 4096 \<le> n then Inl OutOfBounds
     else write_exact os pi_fd bytes o1)"

definition pi_echo_step ::
    "'o os \<Rightarrow> int \<Rightarrow> int \<Rightarrow> string option \<Rightarrow> nat \<times> u8 list \<times> 'o \<Rightarrow> (nat \<times> u8 list \<times> 'o) res" where
  "pi_echo_step os unix_fd pi_fd portname = (\<lambda>(pos, out, w).
     bnd (pi_echo_in os unix_fd pi_fd w) (\<lambda>o1.
     bnd (can_read_timeout os pi_fd 1000 o1) (\<lambda>(can, o2).
     if \<not> can then Inr (pos, out, o2)
     else
       let ((n, bytes), o3) = os_read os pi_fd 4095 o2 in
       if n = 0 then
         if (case portname of None \<Rightarrow> True | Some p \<Rightarrow> tty_gone os p o3) then Inl ExitOk else Inr (pos, out, o3)
       else if n < 0 then Inl (Panic ''pi connection closed'')
       else
         let buf = remove_nonprint bytes in
         bnd (pi_done pos buf) (\<lambda>(d, pos1).
         if d then Inl ExitOk else Inr (pos1, out @ buf, o3)))))"

fun pi_echo ::
    "'o os \<Rightarrow> nat \<Rightarrow> int \<Rightarrow> int \<Rightarrow> string option \<Rightarrow> nat \<times> u8 list \<times> 'o \<Rightarrow> unit res" where
  "pi_echo os 0 unix_fd pi_fd portname s = Inl OutOfFuel"
| "pi_echo os (Suc n) unix_fd pi_fd portname s =
     bnd (check (pi_fd \<noteq> 0) ''pi_fd'') (\<lambda>_.
     bnd (pi_echo_step os unix_fd pi_fd portname s) (pi_echo os n unix_fd pi_fd portname))"


subsection \<open>The options of \<open>my-install.c\<close>\<close>

text \<open>\<open>atoi\<close> of the C library: blanks, a sign, then digits; \<open>usage\<close> prints and exits with 1.\<close>

definition atoi_digits :: "u8 list \<Rightarrow> int" where
  "atoi_digits s = foldl (\<lambda>n c. 10 * n + (uint c - 0x30)) 0 (takeWhile (\<lambda>c. 0x30 \<le> c \<and> c \<le> 0x39) s)"

definition atoi :: "string \<Rightarrow> int" where
  "atoi str =
     (case dropWhile isspace (char_bytes str) of
        [] \<Rightarrow> 0
      | c # s \<Rightarrow> if c = 0x2d then - atoi_digits s else if c = 0x2b then atoi_digits s else atoi_digits (c # s))"

datatype trace_kind = TRACE_OFF | TRACE_CONTROL_ONLY | TRACE_ALL

record install_opts =
  dev_name :: "string option"
  pi_prog :: "string option"
  exec_argv :: "string list option"
  baud_rate :: u32
  boot_addr :: u32
  trace_p :: trace_kind

fun parse_args :: "'o os \<Rightarrow> 'o \<Rightarrow> string list \<Rightarrow> install_opts \<Rightarrow> install_opts res" where
  "parse_args os w [] opts = Inr opts"
| "parse_args os w (arg # rest) opts =
     (if arg = ''--trace-control'' then parse_args os w rest (opts\<lparr>trace_p := TRACE_CONTROL_ONLY\<rparr>)
      else if arg = ''--trace-all'' then parse_args os w rest (opts\<lparr>trace_p := TRACE_ALL\<rparr>)
      else if arg = ''--last'' then
        bnd (find_ttyusb_last os w) (\<lambda>d. parse_args os w rest (opts\<lparr>dev_name := Some d\<rparr>))
      else if arg = ''--first'' then
        bnd (find_ttyusb_first os w) (\<lambda>d. parse_args os w rest (opts\<lparr>dev_name := Some d\<rparr>))
      else if prefix_cmp arg ''/dev/'' then parse_args os w rest (opts\<lparr>dev_name := Some arg\<rparr>)
      else if suffix_cmp arg ''.bin'' then parse_args os w rest (opts\<lparr>pi_prog := Some arg\<rparr>)
      else if arg = ''--baud'' then
        (case rest of [] \<Rightarrow> Inl (Panic ''usage'')
         | a # rest1 \<Rightarrow> parse_args os w rest1 (opts\<lparr>baud_rate := word_of_int (atoi a)\<rparr>))
      else if arg = ''--addr'' then
        (case rest of [] \<Rightarrow> Inl (Panic ''usage'')
         | a # rest1 \<Rightarrow> parse_args os w rest1 (opts\<lparr>boot_addr := word_of_int (atoi a)\<rparr>))
      else if arg = ''--exec'' then
        (case rest of [] \<Rightarrow> Inl (Panic ''usage'') | a # rest1 \<Rightarrow> Inr (opts\<lparr>exec_argv := Some rest\<rparr>))
      else if arg = ''--device'' then
        (case rest of [] \<Rightarrow> Inl (Panic ''usage'')
         | a # rest1 \<Rightarrow> parse_args os w rest1 (opts\<lparr>dev_name := Some a\<rparr>))
      else Inl (Panic ''usage''))"

text \<open>\<open>main\<close> up to the opening of the device; \<open>B115200\<close> is the constant of the system's terminal header.\<close>

definition install_options :: "'o os \<Rightarrow> u32 \<Rightarrow> 'o \<Rightarrow> string list \<Rightarrow> (string \<times> string \<times> install_opts) res" where
  "install_options os B115200 w argv =
     bnd (parse_args os w argv
            \<lparr>dev_name = None, pi_prog = None, exec_argv = None, baud_rate = B115200, boot_addr = 0x8000,
             trace_p = TRACE_OFF\<rparr>) (\<lambda>opts.
     case pi_prog opts of
       None \<Rightarrow> Inl (Panic ''usage'')
     | Some prog \<Rightarrow>
         bnd (case dev_name opts of Some d \<Rightarrow> Inr d | None \<Rightarrow> find_ttyusb_last os w) (\<lambda>d. Inr (d, prog, opts)))"

subsection \<open>Prefixes, suffixes and exact transfers\<close>

lemma suffix_cmp_iff: "suffix_cmp s t \<longleftrightarrow> suffix t s"
proof
  assume "suffix t s"
  then show "suffix_cmp s t"
    by (auto simp: suffix_def suffix_cmp_def Let_def)
next
  assume a: "suffix_cmp s t"
  have "s = take (length s - length t) s @ drop (length s - length t) s"
    by simp
  with a show "suffix t s"
    by (metis suffix_cmp_def suffix_def)
qed

lemma prefix_cmp_iff: "prefix_cmp s t \<longleftrightarrow> prefix t s"
proof
  assume "prefix t s"
  then show "prefix_cmp s t"
    by (auto simp: prefix_def prefix_cmp_def Let_def)
next
  assume a: "prefix_cmp s t"
  have "take (length t) s = t"
    using a by (auto simp: prefix_cmp_def Let_def split: if_splits)
  then show "prefix t s"
    using take_is_prefix [of "length t" s] by simp
qed

text \<open>A device always wins over a program: a path with both the prefix and the suffix is a device.\<close>

lemma parse_args_device:
  "prefix ''/dev/'' arg \<Longrightarrow> parse_args os w (arg # rest) opts = parse_args os w rest (opts\<lparr>dev_name := Some arg\<rparr>)"
  by (auto simp: prefix_cmp_iff prefix_def)

lemma parse_args_program:
  assumes "suffix ''.bin'' arg" and "\<not> prefix ''/dev/'' arg"
  shows "parse_args os w (arg # rest) opts = parse_args os w rest (opts\<lparr>pi_prog := Some arg\<rparr>)"
  using assms by (auto simp: prefix_cmp_iff suffix_cmp_iff suffix_def)


subsection \<open>The shutdown detector\<close>

lemma exit_string_length [simp]: "length exit_string = 8"
  by (simp add: exit_string_def)

text \<open>The result does not depend on how the stream is cut into buffers.\<close>

lemma pi_done_append:
  "pi_done pos (xs @ ys) = bnd (pi_done pos xs) (\<lambda>(d, p). if d then Inr (True, p) else pi_done p ys)"
  by (induction pos xs rule: pi_done.induct) (auto simp: check_def Let_def)

lemma pi_done_pos_le: "pi_done pos xs = Inr (d, p) \<Longrightarrow> pos < 8 \<Longrightarrow> if d then p = 8 else p < 8"
  by (induction pos xs arbitrary: d p rule: pi_done.induct)
    (auto simp: check_def Let_def split: if_splits)

lemma pi_done_total: "pos < 8 \<Longrightarrow> \<exists>r. pi_done pos xs = Inr r"
  by (induction pos xs rule: pi_done.induct) (auto simp: check_def Let_def)

text \<open>What was matched so far is the end of the stream.\<close>

lemma pi_done_matched:
  assumes "pi_done pos xs = Inr (d, p)" and "pos < 8" and "suffix (take pos exit_string) ys"
  shows "\<exists>m. prefix m xs \<and> suffix (take p exit_string) (ys @ m) \<and> (\<not> d \<longrightarrow> m = xs)"
  using assms
proof (induction pos xs arbitrary: ys rule: pi_done.induct)
  case (1 pos)
  then show ?case by auto
next
  case (2 pos c s)
  show ?case
  proof (cases "c = exit_string ! pos")
    case False
    then have "pi_done 0 s = Inr (d, p)"
      using 2 by simp
    then obtain m where "prefix m s" "suffix (take p exit_string) ((ys @ [c]) @ m)" "\<not> d \<longrightarrow> m = s"
      using "2.IH"(1) [of "()" "ys @ [c]"] 2(4) False by (auto simp: check_def)
    then show ?thesis
      by (intro exI [of _ "c # m"]) auto
  next
    case True
    have next_suffix: "suffix (take (Suc pos) exit_string) (ys @ [c])"
      using 2(4,5) True by (auto simp: suffix_def take_Suc_conv_app_nth)
    show ?thesis
    proof (cases "pos = 7")
      case pos7: True
      then have "d" "p = 8"
        using 2(3) True by auto
      then show ?thesis
        using next_suffix pos7 by (intro exI [of _ "[c]"]) auto
    next
      case pos7: False
      then have "pi_done (Suc pos) s = Inr (d, p)"
        using 2(3,4) True by simp
      then obtain m where "prefix m s" "suffix (take p exit_string) ((ys @ [c]) @ m)" "\<not> d \<longrightarrow> m = s"
        using "2.IH"(2) [of "()" "Suc pos" "ys @ [c]"] 2(4) True next_suffix pos7 by (auto simp: check_def)
      then show ?thesis
        by (intro exI [of _ "c # m"]) auto
    qed
  qed
qed

lemma pi_done_sound:
  assumes "pi_done 0 xs = Inr (True, p)"
  shows "sublist exit_string xs"
proof -
  obtain m where m: "prefix m xs" "suffix (take p exit_string) m"
    using pi_done_matched [OF assms, of "[]"] by auto
  have "p = 8"
    using pi_done_pos_le [OF assms] by simp
  then have "suffix exit_string m"
    using m(2) by simp
  with m(1) show ?thesis
    unfolding sublist_def prefix_def suffix_def by force
qed

lemma pi_done_exit_string: "pi_done 0 (exit_string @ xs) = Inr (True, 8)"
  by (simp add: exit_string_def)

text \<open>The detector of the Pi's shutdown message sees the output as one stream: what it reports does not depend on
  how the output is cut into reads, a report means that the message was printed, and the message is seen when no
  partial match precedes it; but a byte that breaks a partial match is skipped as a possible start, so
  the message right after a D is missed.\<close>

lemma pi_done_stream:
  "pi_done pos (xs @ ys) = bnd (pi_done pos xs) (\<lambda>(d, p). if d then Inr (True, p) else pi_done p ys) \<and>
   (pi_done 0 xs = Inr (True, p) \<longrightarrow> sublist exit_string xs) \<and>
   (pi_done 0 xs = Inr (False, 0) \<longrightarrow> pi_done 0 (xs @ exit_string @ ys) = Inr (True, 8)) \<and>
   pi_done 0 (0x44 # exit_string) = Inr (False, 0)"
proof (intro conjI impI)
  show "pi_done 0 (0x44 # exit_string) = Inr (False, 0)"
    by (simp add: exit_string_def)
  show "pi_done 0 (xs @ exit_string @ ys) = Inr (True, 8)" if "pi_done 0 xs = Inr (False, 0)"
    using that by (simp add: pi_done_append [of 0 xs] pi_done_exit_string)
qed (auto simp: pi_done_append pi_done_sound)

lemma pi_done_stream_example:
  "sublist exit_string (0x41 # exit_string) \<and> pi_done 0 ([0x41] @ exit_string @ []) = Inr (True, 8)"
proof -
  have "pi_done 0 (0x41 # exit_string) = Inr (True, 8)" "pi_done 0 [0x41] = Inr (False, 0)"
    by (simp_all add: exit_string_def)
  then show ?thesis
    using pi_done_stream [of 0 "0x41 # exit_string" "[]" 8] pi_done_stream [of 0 "[0x41]" "[]" 8] by blast
qed


subsection \<open>The two serial devices\<close>

lemma tty_ends [simp]: "tty_filter a \<Longrightarrow> tty_filter b \<Longrightarrow> filter tty_filter [a, b] = [a, b]"
  by simp

text \<open>With two serial devices of different age plugged in, \<open>find_ttyusb_last\<close> returns the one that was mounted
  first and \<open>find_ttyusb_first\<close> the one that was mounted last, whatever their order in the directory.\<close>

lemma find_ttyusb_swapped:
  assumes "filter tty_filter (os_dir os ''/dev'' w) = [a, b] \<or> filter tty_filter (os_dir os ''/dev'' w) = [b, a]"
    and "os_stat os (dev_path a) w = Some (sa, ta)" and "os_stat os (dev_path b) w = Some (sb, tb)"
    and "ta < tb"
  shows "find_ttyusb_last os w = Inr (dev_path a) \<and> find_ttyusb_first os w = Inr (dev_path b)"
  using assms
  by (auto simp: find_ttyusb_last_def find_ttyusb_first_def wrap_find_ttyusb_def scandir_def compare_mtime_greater_def
      compare_mtime_less_def dev_path_def)

definition ex_os :: "u8 list os" where
  "ex_os =
     \<lparr>os_read = (\<lambda>fd n w. ((0, []), w)), os_write = (\<lambda>fd bs w. (int (length bs), w @ bs)),
      os_open = (\<lambda>f w. (3, w)), os_creat = (\<lambda>f w. (3, w)), os_close = (\<lambda>fd w. w),
      os_stat = (\<lambda>f w. if f = ''/dev/ttyUSB0'' then Some (0, 10) else if f = ''/dev/ttyUSB1'' then Some (0, 20)
                      else None),
      os_select = (\<lambda>fd t w. ((0, False), w)), os_dir = (\<lambda>d w. [''null'', ''ttyUSB1'', ''ttyUSB0''])\<rparr>"

lemma find_ttyusb_swapped_example:
  "find_ttyusb_last ex_os [] = Inr ''/dev/ttyUSB0'' \<and> find_ttyusb_first ex_os [] = Inr ''/dev/ttyUSB1''"
  using find_ttyusb_swapped [of ex_os "[]" "''ttyUSB0''" "''ttyUSB1''" 0 10 0 20]
  by (simp add: ex_os_def dev_path_def tty_filter_def ttyusb_prefixes_def)

subsection \<open>The records of the tag linker\<close>

lemma write_exact_appends:
  assumes "\<And>fd bs w. os_write os fd bs w = (int (length bs), w @ bs)" and "bs \<noteq> []"
  shows "write_exact os fd bs w = Inr (w @ bs)"
  using assms by (simp add: write_exact_def check_def)

definition tag_entry :: "u32 \<Rightarrow> u8 list \<times> u8 list \<Rightarrow> u8 list" where
  "tag_entry off = (\<lambda>(name, bin).
     le32 BIN_TAG @ le32 (of_nat (length name) + 1 + of_nat (length bin) + 16) @ le32 (of_nat (length bin)) @ le32 off @
     bin @ name @ [0])"

lemma tag_entry_length: "length (tag_entry off (name, bin)) = 17 + length name + length bin"
  by (simp add: tag_entry_def)

text \<open>The program is followed by the records of the binaries in the order they were added; an empty binary is refused
  by the assertion of \<open>write_exact\<close>.\<close>

fun add_bins :: "'o os \<Rightarrow> pitag_t \<Rightarrow> (u8 list \<times> u8 list) list \<Rightarrow> 'o \<Rightarrow> (pitag_t \<times> 'o) res" where
  "add_bins os h [] w = Inr (h, w)"
| "add_bins os h ((name, bin) # bs) w = bnd (pitag_add_bin os h name bin w) (\<lambda>(h1, w1). add_bins os h1 bs w1)"

lemma pitag_add_bin_appends:
  assumes "\<And>fd bs w. os_write os fd bs w = (int (length bs), w @ bs)"
    and "bin \<noteq> []" and "tot_nbytes h = of_nat (length w)"
  shows "pitag_add_bin os h name bin w =
    Inr (h\<lparr>tot_nbytes := of_nat (length (w @ tag_entry (of_nat (length w)) (name, bin)))\<rparr>,
         w @ tag_entry (of_nat (length w)) (name, bin))"
proof -
  show ?thesis
    unfolding pitag_add_bin_def Let_def
    by (simp add: write_exact_appends [OF assms(1)] assms(2,3) tag_entry_def algebra_simps)
qed


text \<open>Reading the records back, from the end of the program: each record names its own position.\<close>

definition word_at :: "u8 list \<Rightarrow> nat \<Rightarrow> u32" where
  "word_at r i = of_le32 (r ! i) (r ! (i + 1)) (r ! (i + 2)) (r ! (i + 3))"

fun read_tags :: "nat \<Rightarrow> nat \<Rightarrow> u8 list \<Rightarrow> (u8 list \<times> u8 list) list option" where
  "read_tags fuel pos [] = Some []"
| "read_tags 0 pos r = None"
| "read_tags (Suc fuel) pos r =
     (if length r < 16 \<or> word_at r 0 \<noteq> BIN_TAG \<or> unat (word_at r 12) \<noteq> pos then None
      else
        let entry_nbytes = unat (word_at r 4); n = unat (word_at r 8);
            bin = take n (drop 16 r); name = takeWhile (\<lambda>c. c \<noteq> 0) (drop (16 + n) r) in
        map_option ((#) (name, bin)) (read_tags fuel (pos + entry_nbytes) (drop entry_nbytes r)))"

lemma read_tags_Suc:
  "r \<noteq> [] \<Longrightarrow> read_tags (Suc fuel) pos r =
     (if length r < 16 \<or> word_at r 0 \<noteq> BIN_TAG \<or> unat (word_at r 12) \<noteq> pos then None
      else
        let entry_nbytes = unat (word_at r 4); n = unat (word_at r 8);
            bin = take n (drop 16 r); name = takeWhile (\<lambda>c. c \<noteq> 0) (drop (16 + n) r) in
        map_option ((#) (name, bin)) (read_tags fuel (pos + entry_nbytes) (drop entry_nbytes r)))"
  by (cases r) (simp_all only: read_tags.simps simp_thms)

fun tags_bytes :: "nat \<Rightarrow> (u8 list \<times> u8 list) list \<Rightarrow> u8 list" where
  "tags_bytes pos [] = []"
| "tags_bytes pos (nb # nbs) =
     (let e = tag_entry (of_nat pos) nb in e @ tags_bytes (pos + length e) nbs)"

lemma le32_nth [simp]: "of_le32 (le32 u ! 0) (le32 u ! 1) (le32 u ! 2) (le32 u ! 3) = u"
  using of_le32_le32 [of u] by (simp add: le32_def)

lemma word_at_le32: "word_at (le32 u @ r) 0 = u"
  using le32_nth [of u] by (simp add: word_at_def nth_append numeral_2_eq_2)

lemma word_at_skip: "word_at (le32 u @ r) 4 = word_at r 0" "word_at (le32 u @ r) 8 = word_at r 4"
  "word_at (le32 u @ r) 12 = word_at r 8"
  by (simp_all add: word_at_def nth_append numeral_2_eq_2)

lemma tag_entry_words:
  fixes name bin rest :: "u8 list" and off :: u32
  defines "r \<equiv> tag_entry off (name, bin) @ rest"
  shows "word_at r 0 = BIN_TAG" and "word_at r 4 = of_nat (17 + length name + length bin)"
    and "word_at r 8 = of_nat (length bin)" and "word_at r 12 = off"
proof -
  have r: "r = le32 BIN_TAG @ le32 (of_nat (17 + length name + length bin)) @ le32 (of_nat (length bin)) @ le32 off @
      bin @ name @ [0] @ rest"
    by (simp add: r_def tag_entry_def algebra_simps)
  show "word_at r 0 = BIN_TAG" "word_at r 4 = of_nat (17 + length name + length bin)"
    "word_at r 8 = of_nat (length bin)" "word_at r 12 = off"
    by (simp_all only: r word_at_skip word_at_le32)
qed

lemma tag_entry_parts:
  "take (length bin) (drop 16 (tag_entry off (name, bin) @ rest)) = bin"
  "drop (16 + length bin) (tag_entry off (name, bin) @ rest) = name @ 0 # rest"
proof -
  let ?h = "le32 BIN_TAG @ le32 (of_nat (length name) + 1 + of_nat (length bin) + 16) @ le32 (of_nat (length bin)) @
    le32 off"
  have r: "tag_entry off (name, bin) @ rest = ?h @ bin @ name @ 0 # rest" and h: "length ?h = 16"
    by (simp_all add: tag_entry_def)
  show "take (length bin) (drop 16 (tag_entry off (name, bin) @ rest)) = bin"
    "drop (16 + length bin) (tag_entry off (name, bin) @ rest) = name @ 0 # rest"
    unfolding r using h by simp_all
qed

lemma takeWhile_name: "0 \<notin> set name \<Longrightarrow> takeWhile (\<lambda>c. c \<noteq> 0) (name @ 0 # rest) = (name :: u8 list)"
  by (induction name) auto

lemma read_tags_bytes:
  assumes "\<forall>nb \<in> set nbs. 0 \<notin> set (fst nb)"
    and "pos + length (tags_bytes pos nbs) < 2 ^ 32" and "length nbs \<le> fuel"
  shows "read_tags fuel pos (tags_bytes pos nbs) = Some nbs"
  using assms
proof (induction nbs arbitrary: pos fuel)
  case Nil
  then show ?case by simp
next
  case (Cons nb nbs)
  obtain name bin f where nb: "nb = (name, bin)" and f: "fuel = Suc f"
    using Cons.prems(3) by (cases nb, cases fuel) auto
  define pos1 where "pos1 = pos + length (tag_entry (of_nat pos) nb)"
  define r where "r = tag_entry (of_nat pos) (name, bin) @ tags_bytes pos1 nbs"
  have len: "17 + length name + length bin < 2 ^ 32" "pos < 2 ^ 32"
    using Cons.prems(2) by (simp_all add: nb tag_entry_length Let_def)
  have tags: "tags_bytes pos (nb # nbs) = r"
    by (simp add: r_def pos1_def Let_def nb)
  have next_tags: "read_tags f pos1 (tags_bytes pos1 nbs) = Some nbs"
    using Cons by (intro Cons.IH) (auto simp: pos1_def f Let_def)
  have r_len: "length r \<ge> 17"
    by (simp add: r_def tag_entry_length)
  have unats: "unat (word_at r 4) = 17 + length name + length bin" "unat (word_at r 8) = length bin"
    "unat (word_at r 12) = pos"
    using len by (simp_all only: r_def tag_entry_words unat_of_nat) (simp_all add: take_bit_eq_mod)
  have drop_r: "drop (17 + length name + length bin) r = tags_bytes pos1 nbs"
    by (simp add: r_def tag_entry_length)
  have "read_tags (Suc f) pos r = map_option ((#) nb)
     (read_tags f (pos + (17 + length name + length bin)) (drop (17 + length name + length bin) r))"
    using r_len Cons.prems(1) tag_entry_parts [of bin "of_nat pos" name "tags_bytes pos1 nbs"]
      tag_entry_words(1) [of "of_nat pos" name bin "tags_bytes pos1 nbs"]
    by (subst read_tags_Suc) (auto simp: unats nb takeWhile_name Let_def simp flip: r_def)
  then show ?case
    unfolding tags f drop_r using next_tags by (simp add: pos1_def nb tag_entry_length)
qed


lemma add_bins_appends:
  assumes "\<And>fd bs w. os_write os fd bs w = (int (length bs), w @ bs)"
    and "\<forall>nb \<in> set nbs. snd nb \<noteq> []" and "tot_nbytes h = of_nat (length w)"
  shows "\<exists>h1. add_bins os h nbs w = Inr (h1, w @ tags_bytes (length w) nbs) \<and> pt_fd h1 = pt_fd h"
  using assms(2,3)
proof (induction nbs arbitrary: h w)
  case Nil
  then show ?case by simp
next
  case (Cons nb nbs)
  obtain name bin where nb: "nb = (name, bin)"
    by (cases nb)
  let ?e = "tag_entry (of_nat (length w)) nb"
  have "pitag_add_bin os h name bin w = Inr (h\<lparr>tot_nbytes := of_nat (length (w @ ?e))\<rparr>, w @ ?e)"
    using Cons.prems pitag_add_bin_appends [OF assms(1), of bin h w name] by (simp add: nb)
  moreover obtain h1 where "add_bins os (h\<lparr>tot_nbytes := of_nat (length (w @ ?e))\<rparr>) nbs (w @ ?e) =
      Inr (h1, (w @ ?e) @ tags_bytes (length (w @ ?e)) nbs)" "pt_fd h1 = pt_fd h"
    using Cons.prems Cons.IH [of "h\<lparr>tot_nbytes := of_nat (length (w @ ?e))\<rparr>" "w @ ?e"] by auto
  ultimately show ?case
    by (simp add: nb Let_def)
qed

text \<open>C37: The file that the tag linker writes for a program and a list of binaries is the program followed by
  records from which exactly these names and binaries, in this order, can be read back, each record carrying
  its own position in the file.\<close>

theorem pitag_read_back:
  assumes "\<And>fd bs w. os_write os fd bs w = (int (length bs), w @ bs)"
    and "\<And>w. os_creat os out w = (fd, [])" and "fd > 0" and "prog \<noteq> []"
    and "\<forall>nb \<in> set nbs. 0 \<notin> set (fst nb) \<and> snd nb \<noteq> []"
    and "length prog + length (tags_bytes (length prog) nbs) < 2 ^ 32"
  shows "\<exists>h file. bnd (pitag_start os out prog w) (\<lambda>(h, w1). add_bins os h nbs w1) = Inr (h, prog @ file) \<and>
    read_tags (length nbs) (length prog) file = Some nbs"
proof -
  let ?h = "\<lparr>pt_fd = fd, tot_nbytes = of_nat (length prog)\<rparr>"
  have "pitag_start os out prog w = Inr (?h, prog)"
    using assms(2-4) write_exact_appends [OF assms(1), of prog fd "[]"]
    by (simp add: pitag_start_def create_file_def check_def)
  moreover obtain h1 where "add_bins os ?h nbs prog = Inr (h1, prog @ tags_bytes (length prog) nbs)"
    using add_bins_appends [OF assms(1), of nbs ?h prog] assms(5) by auto
  moreover have "read_tags (length nbs) (length prog) (tags_bytes (length prog) nbs) = Some nbs"
    using assms(5,6) by (intro read_tags_bytes) auto
  ultimately show ?thesis
    by simp
qed

definition ex_fs :: "u8 list os" where
  "ex_fs = ex_os\<lparr>os_creat := (\<lambda>f w. (3, []))\<rparr>"

theorem pitag_read_back_witness:
  "\<exists>h file. bnd (pitag_start ex_fs ''out'' [1, 2, 3] []) (\<lambda>(h, w1). add_bins ex_fs h [([0x61], [9]), ([], [7, 8])] w1) =
     Inr (h, [1, 2, 3] @ file) \<and>
     read_tags (length [([0x61 :: u8], [9 :: u8]), ([], [7, 8])]) (length [1 :: u8, 2, 3]) file =
       Some [([0x61], [9]), ([], [7, 8])]"
  by (rule pitag_read_back [where fd = 3]) (simp_all add: ex_fs_def ex_os_def tag_entry_length Let_def)

subsection \<open>Failing reads\<close>

text \<open>A failed \<open>read\<close> is returned by \<open>read_timeout\<close> as it is, and \<open>pi_echo\<close> then stores behind the negative index; so
  does a read that fills the buffer.\<close>

lemma pi_echo_in_out_of_bounds:
  assumes "os_select os fd 1000 w = ((1, True), w1)" and "os_read os fd 4096 w1 = ((n, bs), w2)"
    and "n < 0 \<or> n = 4096"
  shows "pi_echo_in os fd pi_fd w = Inl OutOfBounds"
  using assms by (auto simp: pi_echo_in_def read_timeout_def can_read_timeout_def)

lemma read_exact_complete:
  "read_exact os fd n w = Inr (data, w1) \<Longrightarrow> \<exists>d. os_read os fd n w = ((int n, d), w1) \<and> d = data"
  by (auto simp: read_exact_def res_simps Let_def check_def split: prod.splits if_splits)

lemma open_tty_tries:
  assumes "\<And>w. os_open os dev w = (- 1, f w)"
  shows "open_tty os dev w = Inl (Panic ''couldn't open tty port'')"
  by (simp add: open_tty_def eval_nat_numeral assms)

end
