(* ===== verification/DeviceInt.thy ===== *)
theory DeviceInt
  imports Circular Timer DebugHw
begin

text \<open>
  Device interrupts: the interrupt tests of lab 9 (\<open>3-handlers-gpio-int\<close>: GPIO edges and the ARM timer
  behind one handler) and the logic analyzer (\<open>4-logic-analyzer\<close>), whose handler puts a time and a level
  into the circular queue for every edge.  Hardware is the parameter \<open>bus\<close>, the cycle counter a parameter.
\<close>

subsection \<open>\<open>test-interrupts.c\<close>, \<open>test-interrupts.h\<close> and \<open>interrupt-vec.c\<close>\<close>

definition out_pin :: u32 where "out_pin = 21"
definition in_pin :: u32 where "in_pin = 20"
definition GPIO_INT0 :: u32 where "GPIO_INT0 = 49"
definition IRQ_pending_2 :: u32 where "IRQ_pending_2 = IRQ_Base + 8"

text \<open>The client's routines passed to \<open>test_startup\<close>.\<close>

datatype client = FALLING | RISING | RISE_FALL | TIMER | RISE_FALL_TIMER

record test_int =
  n_interrupt :: u32
  n_falling :: u32
  n_rising :: u32
  interrupt_fn :: "client option"
  vec_reg :: u32
  cpsr_int :: bool

definition falling_handler :: "'d bus \<Rightarrow> test_int \<times> 'd \<Rightarrow> (test_int \<times> 'd) res" where
  "falling_handler b = (\<lambda>(t, d).
     bnd (gpio_event_clear b in_pin d) (\<lambda>d1. Inr (t\<lparr>n_falling := n_falling t + 1\<rparr>, d1)))"

definition rising_handler :: "'d bus \<Rightarrow> test_int \<times> 'd \<Rightarrow> (test_int \<times> 'd) res" where
  "rising_handler b = (\<lambda>(t, d).
     bnd (gpio_event_clear b in_pin d) (\<lambda>d1. Inr (t\<lparr>n_rising := n_rising t + 1\<rparr>, d1)))"

definition timer_test_handler :: "'d bus \<Rightarrow> test_int \<times> 'd \<Rightarrow> (test_int \<times> 'd) res" where
  "timer_test_handler b = (\<lambda>(t, d).
     bnd (seq [dev_barrier b, PUT32 b arm_timer_IRQClear 1, dev_barrier b] d) (\<lambda>d1. Inr (t, d1)))"

definition falling_init :: "'d bus \<Rightarrow> 'd \<Rightarrow> 'd res" where
  "falling_init b = seq [gpio_write b out_pin 1, gpio_int_falling_edge b in_pin]"

definition rising_init :: "'d bus \<Rightarrow> 'd \<Rightarrow> 'd res" where
  "rising_init b = seq [gpio_write b out_pin 0, gpio_int_rising_edge b in_pin]"

definition timer_test_init :: "'d bus \<Rightarrow> 'd \<Rightarrow> 'd res" where
  "timer_test_init b = timer_interrupt_init b 4"

definition rise_fall_init :: "'d bus \<Rightarrow> 'd \<Rightarrow> 'd res" where
  "rise_fall_init b d =
     bnd (seq [rising_init b, falling_init b] d) (\<lambda>d1.
     bnd (gpio_read b in_pin d1) (\<lambda>(v, d2).
     bnd (check (v = 1) ''gpio_read(in_pin) == 1'') (\<lambda>_. Inr d2)))"

definition rise_fall_timer_init :: "'d bus \<Rightarrow> 'd \<Rightarrow> 'd res" where
  "rise_fall_timer_init b = seq [rise_fall_init b, timer_test_init b]"

fun client_init :: "'d bus \<Rightarrow> client \<Rightarrow> 'd \<Rightarrow> 'd res" where
  "client_init b FALLING = falling_init b"
| "client_init b RISING = rising_init b"
| "client_init b RISE_FALL = rise_fall_init b"
| "client_init b TIMER = timer_test_init b"
| "client_init b RISE_FALL_TIMER = rise_fall_timer_init b"

definition vector_base_install :: "u32 \<Rightarrow> test_int \<Rightarrow> test_int res" where
  "vector_base_install vec t =
     bnd (vector_base_chk vec) (\<lambda>ok.
     if \<not> ok then Inl (Panic ''illegal vector base'')
     else if vec_reg t \<noteq> 0 then Inl (Panic ''vector base register already set'')
     else
       let t1 = t\<lparr>vec_reg := vec\<rparr> in
       if vec_reg t1 \<noteq> vec then Inl (Panic ''set vector'') else Inr t1)"

definition int_vec_init :: "'d bus \<Rightarrow> u32 \<Rightarrow> test_int \<times> 'd \<Rightarrow> (test_int \<times> 'd) res" where
  "int_vec_init b v = (\<lambda>(t, d).
     let t1 = t\<lparr>cpsr_int := False\<rparr> in
     bnd (seq [dev_barrier b, PUT32 b Disable_IRQs_1 0xffffffff, PUT32 b Disable_IRQs_2 0xffffffff, dev_barrier b] d) (\<lambda>d1.
     bnd (vector_base_install v t1) (\<lambda>t2. Inr (t2, d1))))"

definition test_startup :: "'d bus \<Rightarrow> u32 \<Rightarrow> client \<Rightarrow> client \<Rightarrow> test_int \<times> 'd \<Rightarrow> (test_int \<times> 'd) res" where
  "test_startup b interrupt_vec init_fn int_fn s =
     bnd (int_vec_init b interrupt_vec s) (\<lambda>(t, d).
     bnd (seq [gpio_set_output b out_pin, gpio_set_input b in_pin, client_init b init_fn] d) (\<lambda>d1.
     let t1 = t\<lparr>interrupt_fn := Some int_fn\<rparr> in
     bnd (gpio_event_clear b in_pin d1) (\<lambda>d2. Inr (t1\<lparr>cpsr_int := True\<rparr>, d2))))"

text \<open>\<open>interrupt_vector\<close>: the registered routine is not called; what the pin reads after the interrupt decides
  between a rising and a falling edge.\<close>

definition test_interrupt_vector :: "'d bus \<Rightarrow> test_int \<times> 'd \<Rightarrow> (test_int \<times> 'd) res" where
  "test_interrupt_vector b = (\<lambda>(t, d).
     bnd (dev_barrier b d) (\<lambda>d1.
     let t1 = t\<lparr>n_interrupt := n_interrupt t + 1\<rparr> in
     bnd (GET32 b IRQ_basic_pending d1) (\<lambda>(basic, d2).
     bnd (dev_barrier b d2) (\<lambda>d3.
     bnd (GET32 b IRQ_pending_2 d3) (\<lambda>(p2, d4).
     bnd (dev_barrier b d4) (\<lambda>d5.
     bnd (if basic AND RPI_BASIC_ARM_TIMER_IRQ \<noteq> 0 then timer_test_handler b (t1, d5)
          else if p2 AND push_bit (unat (GPIO_INT0 mod 32)) 1 \<noteq> 0 then
            bnd (gpio_event_detected b in_pin d5) (\<lambda>(ev, d6).
            if ev = 0 then Inl (Panic ''gpio-int0 is triggered, expect event detect'')
            else
              bnd (gpio_read b in_pin d6) (\<lambda>(v, d7).
              if v \<noteq> 0 then rising_handler b (t1, d7) else falling_handler b (t1, d7)))
          else Inl (Panic ''should only be either timer, gpio_interrupt_0'')) (\<lambda>(t2, d8).
     bnd (dev_barrier b d8) (\<lambda>d9. Inr (t2, d9)))))))))"

subsection \<open>\<open>logic-analyzer.c\<close>\<close>

record analyzer =
  uartQ :: "u8 cq"
  n_rising_edge :: u32
  n_falling_edge :: u32
  last_cycle :: u32

text \<open>The results of \<open>cq_push32\<close> are not looked at.  The trace message the handler prints is left out.\<close>

definition la_interrupt_vector ::
    "'d bus \<Rightarrow> ('d \<Rightarrow> (u32 \<times> 'd) res) \<Rightarrow> analyzer \<times> 'd \<Rightarrow> (analyzer \<times> 'd) res" where
  "la_interrupt_vector b cycle_cnt_read = (\<lambda>(a, d).
     bnd (GET32 b IRQ_pending_2 d) (\<lambda>(p2, d1).
     let pending = p2 AND push_bit (unat (GPIO_INT0 mod 32)) 1 in
     bnd (dev_barrier b d1) (\<lambda>d2.
     if pending = 0 \<or> last_cycle a = 0 then bnd (gpio_event_clear b in_pin d2) (\<lambda>d3. Inr (a, d3))
     else
       bnd (cycle_cnt_read d2) (\<lambda>(s, d3).
       let diff = s - last_cycle a; a1 = a\<lparr>last_cycle := s\<rparr> in
       bnd (cq_push32 CQ_N (uartQ a1) diff) (\<lambda>(_, q1).
       bnd (gpio_read b in_pin d3) (\<lambda>(v, d4).
       bnd (cq_push32 CQ_N q1 (if v \<noteq> 0 then 0 else 1)) (\<lambda>(_, q2).
       let a2 = (if v \<noteq> 0 then a1\<lparr>uartQ := q2, n_rising_edge := n_rising_edge a1 + 1\<rparr>
                 else a1\<lparr>uartQ := q2, n_falling_edge := n_falling_edge a1 + 1\<rparr>) in
       bnd (seq [dev_barrier b, gpio_event_clear b in_pin, dev_barrier b] d4) (\<lambda>d5. Inr (a2, d5)))))))))"

text \<open>The loop of \<open>notmain\<close> that prints the queue: the pairs printed.  It runs with interrupts enabled.\<close>

fun la_print :: "nat \<Rightarrow> u8 cq \<Rightarrow> ((u32 \<times> u32) list \<times> u8 cq) res" where
  "la_print 0 q = Inl OutOfFuel"
| "la_print (Suc fuel) q =
     (if cq_empty q then Inr ([], q)
      else
        bnd (cq_pop32 CQ_N True [] q) (\<lambda>(ncycles, _, q1).
        bnd (cq_pop32 CQ_N True [] q1) (\<lambda>(v, _, q2).
        bnd (la_print fuel q2) (\<lambda>(r, q3). Inr ((ncycles, v) # r, q3)))))"


subsection \<open>What the logic analyzer records\<close>

lemmas la_regs = IRQ_pending_2_def IRQ_Base_def in_pin_def GPIO_INT0_def

text \<open>An interrupt for an edge: the pending bit of GPIO, the counter, the level.\<close>

definition la_script :: "u32 \<Rightarrow> u32 \<times> u32 \<Rightarrow> io list" where
  "la_script ccnt = (\<lambda>(s, lev).
     [IRd IRQ_pending_2 (push_bit 17 1), IBar, IRd ccnt s, IRd gpio_lev0 lev, IBar, IBar,
      IWr gpio_eds0 (push_bit 20 1), IBar, IBar])"

text \<open>While the stored time is 0 the handler only clears the event.\<close>

definition la_drop_script :: "io list" where
  "la_drop_script = [IRd IRQ_pending_2 (push_bit 17 1), IBar, IBar, IWr gpio_eds0 (push_bit 20 1), IBar]"

fun la_scripts :: "u32 \<Rightarrow> u32 \<Rightarrow> (u32 \<times> u32) list \<Rightarrow> io list" where
  "la_scripts ccnt lst [] = []"
| "la_scripts ccnt lst (e # es) =
     (if lst = 0 then la_drop_script @ la_scripts ccnt 0 es else la_script ccnt e @ la_scripts ccnt (fst e) es)"

definition edge_val :: "u32 \<Rightarrow> u32" where
  "edge_val lev = (if bit lev 20 then 0 else 1)"

definition pair_bytes :: "u32 \<times> u32 \<Rightarrow> u8 list" where
  "pair_bytes = (\<lambda>(d, v). le32 d @ le32 v)"

lemma pin_level: "(drop_bit 20 (lev :: u32) AND 1 \<noteq> 0) = bit lev 20"
  by (simp add: and_one_eq_bit0 bit_drop_bit_eq)

lemma la_push_pair:
  assumes "cq_inv q" and "length (cq_abs q) + 8 \<le> 8191"
  shows "\<exists>q1 q2. cq_push32 CQ_N q d = Inr (True, q1) \<and> cq_push32 CQ_N q1 v = Inr (True, q2) \<and> cq_inv q2 \<and>
    cq_abs q2 = cq_abs q @ pair_bytes (d, v)"
proof -
  obtain q1 where q1: "cq_push32 CQ_N q d = Inr (True, q1)" "cq_inv q1" "cq_abs q1 = cq_abs q @ le32 d"
    using cq_push_n_room [OF assms(1), of "le32 d"] assms(2) by (auto simp: cq_push32_def)
  moreover obtain q2 where "cq_push32 CQ_N q1 v = Inr (True, q2)" "cq_inv q2" "cq_abs q2 = cq_abs q1 @ le32 v"
    using cq_push_n_room [OF q1(2), of "le32 v"] assms(2) q1(3) by (auto simp: cq_push32_def)
  ultimately show ?thesis
    by (auto simp: pair_bytes_def)
qed

text \<open>The handler, whatever the queue makes of the two words.\<close>

lemma la_interrupt_vector_script:
  assumes "last_cycle a \<noteq> 0" and "cq_push32 CQ_N (uartQ a) (s - last_cycle a) = Inr (ok1, q1)"
    and "cq_push32 CQ_N q1 (edge_val lev) = Inr (ok2, q2)"
  shows "la_interrupt_vector script_bus (GET32 script_bus ccnt) (a, la_script ccnt (s, lev) @ r) =
    Inr (if bit lev 20 then a\<lparr>uartQ := q2, last_cycle := s, n_rising_edge := n_rising_edge a + 1\<rparr>
         else a\<lparr>uartQ := q2, last_cycle := s, n_falling_edge := n_falling_edge a + 1\<rparr>, r)"
  using assms
  by (simp add: la_interrupt_vector_def la_script_def la_regs gpio_read_def gpio_event_clear_def pin_level edge_val_def
      Let_def split del: if_split) (simp split: if_split)

fun la_run :: "'d bus \<Rightarrow> ('d \<Rightarrow> (u32 \<times> 'd) res) \<Rightarrow> nat \<Rightarrow> analyzer \<times> 'd \<Rightarrow> (analyzer \<times> 'd) res" where
  "la_run b cyc 0 s = Inr s"
| "la_run b cyc (Suc n) s = bnd (la_interrupt_vector b cyc s) (la_run b cyc n)"

fun la_pairs :: "u32 \<Rightarrow> (u32 \<times> u32) list \<Rightarrow> (u32 \<times> u32) list" where
  "la_pairs lst [] = []"
| "la_pairs lst ((s, lev) # es) = (if lst = 0 then [] else (s - lst, edge_val lev) # la_pairs s es)"

lemma la_pairs_0 [simp]: "la_pairs 0 es = []"
  by (cases "(0 :: u32, es)" rule: la_pairs.cases) auto

lemma la_zero_time_drops:
  assumes "last_cycle a = 0"
  shows "la_interrupt_vector script_bus cyc (a, la_drop_script @ r) = Inr (a, r)"
  using assms by (simp add: la_interrupt_vector_def la_drop_script_def la_regs gpio_event_clear_def)

lemma la_run_script:
  assumes "cq_inv (uartQ a)" and "length (cq_abs (uartQ a)) + 8 * length (la_pairs (last_cycle a) es) \<le> 8191"
  shows "\<exists>a'. la_run script_bus (GET32 script_bus ccnt) (length es) (a, la_scripts ccnt (last_cycle a) es @ r) = Inr (a', r) \<and>
    cq_inv (uartQ a') \<and> cq_abs (uartQ a') = cq_abs (uartQ a) @ concat (map pair_bytes (la_pairs (last_cycle a) es)) \<and>
    last_cycle a' = last_cycle a + sum_list (map fst (la_pairs (last_cycle a) es)) \<and>
    n_rising_edge a' + n_falling_edge a' = n_rising_edge a + n_falling_edge a + of_nat (length (la_pairs (last_cycle a) es))"
  using assms
proof (induction es arbitrary: a)
  case Nil
  then show ?case by simp
next
  case (Cons e es)
  obtain s lev where e: "e = (s, lev)"
    by (cases e)
  show ?case
  proof (cases "last_cycle a = 0")
    case True
    then show ?thesis
      using Cons.IH [of a] Cons.prems la_zero_time_drops [OF True] by simp
  next
    case False
    obtain q1 q2 where q: "cq_push32 CQ_N (uartQ a) (s - last_cycle a) = Inr (True, q1)"
      "cq_push32 CQ_N q1 (edge_val lev) = Inr (True, q2)" "cq_inv q2"
      "cq_abs q2 = cq_abs (uartQ a) @ pair_bytes (s - last_cycle a, edge_val lev)"
      using la_push_pair [of "uartQ a" "s - last_cycle a" "edge_val lev"] Cons.prems False by (auto simp: e)
    define a1 where "a1 = (if bit lev 20 then a\<lparr>uartQ := q2, last_cycle := s, n_rising_edge := n_rising_edge a + 1\<rparr>
      else a\<lparr>uartQ := q2, last_cycle := s, n_falling_edge := n_falling_edge a + 1\<rparr>)"
    have a1: "uartQ a1 = q2" "last_cycle a1 = s"
      "n_rising_edge a1 + n_falling_edge a1 = n_rising_edge a + n_falling_edge a + 1"
      by (simp_all add: a1_def)
    have step: "la_interrupt_vector script_bus (GET32 script_bus ccnt) (a, la_script ccnt e @ t) = Inr (a1, t)" for t
      using la_interrupt_vector_script [OF False q(1,2)] by (simp add: e a1_def)
    have "length (pair_bytes p) = 8" for p
      by (cases p) (simp add: pair_bytes_def)
    then obtain a' where "la_run script_bus (GET32 script_bus ccnt) (length es) (a1, la_scripts ccnt s es @ r) =
        Inr (a', r)" "cq_inv (uartQ a')"
      "cq_abs (uartQ a') = cq_abs q2 @ concat (map pair_bytes (la_pairs s es))" "last_cycle a' = s + sum_list (map fst (la_pairs s es))"
      "n_rising_edge a' + n_falling_edge a' = n_rising_edge a1 + n_falling_edge a1 + of_nat (length (la_pairs s es))"
      using Cons.IH [of a1] Cons.prems q(3,4) a1 False by (auto simp: e)
    then show ?thesis
      using step q(4) a1 False by (auto simp: e algebra_simps)
  qed
qed

lemma cq_empty_abs: "cq_inv q \<Longrightarrow> cq_empty q \<longleftrightarrow> cq_abs q = []"
  by (simp add: cq_inv_def cq_empty_iff [of CQ_N])

lemma cq_pop32_avail:
  assumes "cq_inv q" and "cq_abs q = le32 x @ ys"
  shows "\<exists>q'. cq_pop32 CQ_N ie env q = Inr (x, env, q') \<and> cq_inv q' \<and> cq_abs q' = ys"
proof -
  obtain q' where "cq_pop_n CQ_N ie env q 4 = Inr (le32 x, env, q')" "cq_inv q'" "cq_abs q' = ys"
    using cq_pop_n_avail [OF assms, of ie env] by auto
  moreover have "u32_of_bytes (le32 x) = Inr x"
    by (simp add: u32_of_bytes_def le32_def of_le32_le32)
  ultimately show ?thesis
    by (simp add: cq_pop32_def)
qed

lemma la_print_pairs:
  "cq_inv q \<Longrightarrow> cq_abs q = concat (map pair_bytes ps) \<Longrightarrow> length ps < fuel \<Longrightarrow>
   \<exists>q'. la_print fuel q = Inr (ps, q') \<and> cq_inv q' \<and> cq_abs q' = []"
proof (induction ps arbitrary: q fuel)
  case Nil
  then obtain f where "fuel = Suc f"
    by (cases fuel) auto
  with Nil show ?case
    by (simp add: cq_empty_abs)
next
  case (Cons p ps)
  obtain d v f where p: "p = (d, v)" and f: "fuel = Suc f"
    using Cons.prems(3) by (cases p, cases fuel) auto
  have abs: "cq_abs q = le32 d @ le32 v @ concat (map pair_bytes ps)"
    using Cons.prems(2) by (simp add: p pair_bytes_def)
  then have "\<not> cq_empty q"
    using Cons.prems(1) by (simp add: cq_empty_abs)
  moreover obtain q1 where q1: "cq_pop32 CQ_N True [] q = Inr (d, [], q1)" "cq_inv q1"
    "cq_abs q1 = le32 v @ concat (map pair_bytes ps)"
    using cq_pop32_avail [OF Cons.prems(1) abs] by blast
  moreover obtain q2 where "cq_pop32 CQ_N True [] q1 = Inr (v, [], q2)" "cq_inv q2"
    "cq_abs q2 = concat (map pair_bytes ps)"
    using cq_pop32_avail [OF q1(2,3)] by blast
  moreover from this obtain q' where "la_print f q2 = Inr (ps, q')" "cq_inv q'" "cq_abs q' = []"
    using Cons.IH [of q2 f] Cons.prems(3) f by auto
  ultimately show ?case
    by (simp add: p f)
qed

text \<open>C28: The logic analyzer, as long as the queue has room for the records (1023 of them): every edge it is interrupted for, up to and
  including the first at which the cycle counter reads 0, is printed in order as the cycles since the previous edge and the level before the edge; the
  edges after such a reading are dropped, because 0 also stands for a time that is not set yet.  The cycles add up
  to the time from the start to the last edge recorded, and the two counters to the number of records.\<close>

theorem la_capture_then_print:
  assumes "cq_inv (uartQ a)" and "cq_abs (uartQ a) = []" and "length (la_pairs (last_cycle a) es) \<le> 1023"
  shows "\<exists>a' q'. la_run script_bus (GET32 script_bus ccnt) (length es) (a, la_scripts ccnt (last_cycle a) es @ r) = Inr (a', r) \<and>
    la_print (Suc (length es)) (uartQ a') = Inr (la_pairs (last_cycle a) es, q') \<and> cq_abs q' = [] \<and>
    last_cycle a + sum_list (map fst (la_pairs (last_cycle a) es)) = last_cycle a' \<and>
    n_rising_edge a' + n_falling_edge a' = n_rising_edge a + n_falling_edge a + of_nat (length (la_pairs (last_cycle a) es))"
proof -
  obtain a' where a': "la_run script_bus (GET32 script_bus ccnt) (length es) (a, la_scripts ccnt (last_cycle a) es @ r) =
      Inr (a', r)" "cq_inv (uartQ a')" "cq_abs (uartQ a') = concat (map pair_bytes (la_pairs (last_cycle a) es))"
    "last_cycle a' = last_cycle a + sum_list (map fst (la_pairs (last_cycle a) es))"
    "n_rising_edge a' + n_falling_edge a' = n_rising_edge a + n_falling_edge a + of_nat (length (la_pairs (last_cycle a) es))"
    using la_run_script [OF assms(1), of es ccnt r] assms(2,3) by auto
  have "length (la_pairs l es) \<le> length es" for l
    by (induction l es rule: la_pairs.induct) auto
  then obtain q' where "la_print (Suc (length es)) (uartQ a') = Inr (la_pairs (last_cycle a) es, q')" "cq_abs q' = []"
    using la_print_pairs [OF a'(2,3), of "Suc (length es)"] by (auto simp: less_Suc_eq_le)
  then show ?thesis
    using a' by (intro exI [of _ a'] exI [of _ q']) auto
qed

definition la_example :: analyzer where
  "la_example = \<lparr>uartQ = cq_example, n_rising_edge = 0, n_falling_edge = 0, last_cycle = 100\<rparr>"

definition edges_example :: "(u32 \<times> u32) list" where
  "edges_example = [(150, 0), (90, 0x100000), (0, 0), (7, 0x100000)]"

theorem la_capture_then_print_witness:
  "\<exists>a' q'. la_run script_bus (GET32 script_bus 4) (length edges_example)
      (la_example, la_scripts 4 100 edges_example @ []) = Inr (a', []) \<and>
    la_print (Suc (length edges_example)) (uartQ a') = Inr ([(50, 1), (- 60, 0), (- 90, 1)], q')"
proof -
  have "last_cycle la_example = 100" "la_pairs 100 edges_example = [(50, 1), (- 60, 0), (- 90, 1)]"
    "cq_inv (uartQ la_example)" "cq_abs (uartQ la_example) = []"
    by (simp_all add: la_example_def edges_example_def edge_val_def cq_example_inv)
  moreover from this have "length (la_pairs (last_cycle la_example) edges_example) \<le> 1023"
    by simp
  ultimately show ?thesis
    using la_capture_then_print [of la_example edges_example 4 "[]"] by metis
qed

text \<open>One record more: the queue has room for the cycles but not for the level, so it holds half a record, and the
  records that follow are read out of step.\<close>

lemma la_half_record:
  assumes "cq_inv (uartQ a)" and "length (cq_abs (uartQ a)) = 8 * 1023" and "last_cycle a \<noteq> 0"
  shows "\<exists>a'. la_interrupt_vector script_bus (GET32 script_bus ccnt) (a, la_script ccnt (s, lev) @ r) = Inr (a', r) \<and>
    cq_abs (uartQ a') = cq_abs (uartQ a) @ le32 (s - last_cycle a)"
proof -
  obtain q1 where q1: "cq_push32 CQ_N (uartQ a) (s - last_cycle a) = Inr (True, q1)" "cq_inv q1"
    "cq_abs q1 = cq_abs (uartQ a) @ le32 (s - last_cycle a)"
    using cq_push_n_room [OF assms(1), of "le32 (s - last_cycle a)"] assms(2) by (auto simp: cq_push32_def)
  have "cq_push32 CQ_N q1 (edge_val lev) = Inr (False, q1)"
    using cq_push_n_no_room [OF q1(2), of "le32 (edge_val lev)"] assms(2) q1(3) by (simp add: cq_push32_def)
  then show ?thesis
    using la_interrupt_vector_script [OF assms(3) q1(1), of lev False q1 ccnt r] q1(3) by auto
qed

subsection \<open>The counts of the interrupt tests\<close>

text \<open>An interrupt: the two pending registers, the event register and the level of the pins at the time the handler
  reads them.\<close>

datatype irq = TimerIrq u32 | EdgeIrq u32 u32 u32 u32

fun irq_io :: "irq \<Rightarrow> io list" where
  "irq_io (TimerIrq p2) = [IBar, IRd IRQ_basic_pending 1, IBar, IRd IRQ_pending_2 p2, IBar,
     IBar, IWr arm_timer_IRQClear 1, IBar, IBar]"
| "irq_io (EdgeIrq basic p2 eds lev) = [IBar, IRd IRQ_basic_pending basic, IBar, IRd IRQ_pending_2 p2, IBar,
     IBar, IRd gpio_eds0 eds, IBar, IRd gpio_lev0 lev,
     IBar, IWr gpio_eds0 (push_bit 20 1), IBar, IBar]"

fun irq_ok :: "irq \<Rightarrow> bool" where
  "irq_ok (TimerIrq p2) = True"
| "irq_ok (EdgeIrq basic p2 eds lev) = (\<not> bit basic 0 \<and> bit p2 17 \<and> bit eds 20)"

definition is_rise :: "irq \<Rightarrow> bool" where
  "is_rise q = (case q of TimerIrq _ \<Rightarrow> False | EdgeIrq _ _ _ lev \<Rightarrow> bit lev 20)"

definition is_fall :: "irq \<Rightarrow> bool" where
  "is_fall q = (case q of TimerIrq _ \<Rightarrow> False | EdgeIrq _ _ _ lev \<Rightarrow> \<not> bit lev 20)"

fun test_irqs :: "'d bus \<Rightarrow> nat \<Rightarrow> test_int \<times> 'd \<Rightarrow> (test_int \<times> 'd) res" where
  "test_irqs b 0 s = Inr s"
| "test_irqs b (Suc n) s = bnd (test_interrupt_vector b s) (test_irqs b n)"

definition after_irq :: "irq \<Rightarrow> test_int \<Rightarrow> test_int" where
  "after_irq q t = t\<lparr>n_interrupt := n_interrupt t + 1, n_rising := n_rising t + (if is_rise q then 1 else 0),
     n_falling := n_falling t + (if is_fall q then 1 else 0)\<rparr>"

lemma and_bit17: "((p2 :: u32) AND push_bit 17 1 = 0) \<longleftrightarrow> \<not> bit p2 17"
  using and_push1 [of p2 17] by blast

lemma test_interrupt_vector_irq:
  assumes "irq_ok q"
  shows "test_interrupt_vector script_bus (t, irq_io q @ r) = Inr (after_irq q t, r)"
proof (cases q)
  case (TimerIrq p2)
  then show ?thesis
    by (simp add: test_interrupt_vector_def timer_test_handler_def RPI_BASIC_ARM_TIMER_IRQ_def after_irq_def is_rise_def
        is_fall_def Let_def)
next
  case (EdgeIrq basic p2 eds lev)
  have ev: "drop_bit 20 eds AND 1 = 1" "basic AND 1 = 0"
    using assms EdgeIrq by (simp_all add: and_one_eq_bit0 bit_drop_bit_eq)
  have p2: "p2 AND push_bit 17 1 \<noteq> 0"
    using assms EdgeIrq by (simp add: and_bit17 del: push_bit_of_1)
  show ?thesis
    using p2 unfolding EdgeIrq
    by (simp add: test_interrupt_vector_def rising_handler_def falling_handler_def RPI_BASIC_ARM_TIMER_IRQ_def after_irq_def
        is_rise_def is_fall_def Let_def la_regs gpio_event_detected_def gpio_event_clear_def gpio_read_def ev
        pin_level)
qed


lemma count_step: "of_nat (length (filter P (q # qs))) = (if P q then 1 else 0) + (of_nat (length (filter P qs)) :: u32)"
  by simp

text \<open>The interrupt tests count every interrupt once: a timer interrupt, which is acknowledged first when both are
  pending, as neither edge, a GPIO event as a rising edge when the pin reads 1 by the time the handler looks and
  as a falling edge otherwise.\<close>

lemma test_irqs_counted:
  assumes "\<forall>q \<in> set qs. irq_ok q"
  shows "\<exists>t'. test_irqs script_bus (length qs) (t, concat (map irq_io qs) @ r) = Inr (t', r) \<and>
    n_interrupt t' = n_interrupt t + of_nat (length qs) \<and>
    n_rising t' = n_rising t + of_nat (length (filter is_rise qs)) \<and>
    n_falling t' = n_falling t + of_nat (length (filter is_fall qs))"
  using assms
proof (induction qs arbitrary: t)
  case Nil
  then show ?case by simp
next
  case (Cons q qs)
  then obtain t' where "test_irqs script_bus (length qs) (after_irq q t, concat (map irq_io qs) @ r) = Inr (t', r)"
    "n_interrupt t' = n_interrupt (after_irq q t) + of_nat (length qs)"
    "n_rising t' = n_rising (after_irq q t) + of_nat (length (filter is_rise qs))"
    "n_falling t' = n_falling (after_irq q t) + of_nat (length (filter is_fall qs))"
    by (metis list.set_intros(2))
  moreover have "test_interrupt_vector script_bus (t, irq_io q @ concat (map irq_io qs) @ r) =
      Inr (after_irq q t, concat (map irq_io qs) @ r)"
    using Cons.prems by (intro test_interrupt_vector_irq) simp
  ultimately show ?case
    by (auto simp: after_irq_def simp del: filter.simps simp: count_step)
qed

definition ti_example :: test_int where
  "ti_example = \<lparr>n_interrupt = 0, n_falling = 0, n_rising = 0, interrupt_fn = None, vec_reg = 0, cpsr_int = True\<rparr>"

lemma test_irqs_counted_example:
  "\<exists>t'. test_irqs script_bus (length [EdgeIrq 0 0x20000 0x100000 0x100000, TimerIrq 0x20000, EdgeIrq 0 0x20000 0x100000 0])
      (ti_example, concat (map irq_io [EdgeIrq 0 0x20000 0x100000 0x100000, TimerIrq 0x20000, EdgeIrq 0 0x20000 0x100000 0]) @
        []) = Inr (t', []) \<and> n_interrupt t' = 3 \<and> n_rising t' = 1 \<and> n_falling t' = 1"
proof -
  have ok: "\<forall>q \<in> set [EdgeIrq 0 0x20000 0x100000 0x100000, TimerIrq 0x20000, EdgeIrq 0 0x20000 0x100000 0]. irq_ok q"
    by simp
  show ?thesis
    using test_irqs_counted [OF ok, of ti_example "[]"] by (simp add: ti_example_def is_rise_def is_fall_def)
qed

text \<open>Starting a test: whichever client routine is passed for the interrupts, the same accesses are made and the
  handler behaves the same, so a client that expects falling edges only is not told about others.\<close>

lemma test_startup_ignores_fn:
  "test_startup b v init f1 s = Inr (t1, d) \<Longrightarrow> \<exists>t2. test_startup b v init f2 s = Inr (t2, d) \<and>
     t2 = t1\<lparr>interrupt_fn := Some f2\<rparr>"
  by (auto simp: test_startup_def res_simps Let_def)

lemma vector_base_install_ok:
  "vector_base_install vec t = Inr t1 \<Longrightarrow> vec \<noteq> 0 \<and> vec_reg t = 0 \<and> t1 = t\<lparr>vec_reg := vec\<rparr>"
  by (auto simp: vector_base_install_def vector_base_chk_def res_simps Let_def split: if_splits)

end
