(* ===== verification/Coherence.thy ===== *)
theory Coherence
  imports PageTable
begin

text \<open>
  The coherence routines of lab 15 (\<open>15-vm-coherence/code/your-mmu-asm.S\<close>), instruction by instruction, and the
  functions of its \<open>mmu.c\<close> that differ from lab 16's.  The rules they have to follow are those the lab gives
  (\<open>MEMORY-ORDER-cheatsheet.md\<close>), as a machine that tracks which maintenance is still outstanding.
\<close>

subsection \<open>Instructions\<close>

text \<open>The coprocessor registers and operations of \<open>armv6-coprocessor-asm.h\<close>, named by what an \<open>mcr\<close> to them does.\<close>

datatype creg =
    INV_ICACHE | INV_DCACHE | CLEAN_INV_DCACHE | INV_TLB | FLUSH_BTB | PREFETCH_FLUSH | DSB_OP
  | DOMAIN_CTRL | ASID_REG | TTBR0_REG | TTBR1_REG | TTBR_BASE_CTRL | CONTROL_REG1

datatype insn = MOV nat u32 | LSL nat nat nat | MCR creg nat | NOP

text \<open>The core registers, the coprocessor registers and the writes made to the coprocessor, oldest first.\<close>

record mach =
  core :: "nat \<Rightarrow> u32"
  cp15 :: "creg \<Rightarrow> u32"
  clog :: "(creg \<times> u32) list"

fun exec :: "insn \<Rightarrow> mach \<Rightarrow> mach" where
  "exec (MOV rd x) s = s\<lparr>core := (core s)(rd := x)\<rparr>"
| "exec (LSL rd rs n) s = s\<lparr>core := (core s)(rd := push_bit n (core s rs))\<rparr>"
| "exec (MCR r rd) s = s\<lparr>cp15 := (cp15 s)(r := core s rd), clog := clog s @ [(r, core s rd)]\<rparr>"
| "exec NOP s = s"

definition run :: "insn list \<Rightarrow> mach \<Rightarrow> mach" where
  "run p s = fold exec p s"

text \<open>A call with its arguments in the first registers; the others keep whatever they hold.\<close>

definition call1 :: "insn list \<Rightarrow> u32 \<Rightarrow> mach \<Rightarrow> mach" where
  "call1 p a0 s = run p (s\<lparr>core := (core s)(0 := a0)\<rparr>)"

definition call2 :: "insn list \<Rightarrow> u32 \<Rightarrow> u32 \<Rightarrow> mach \<Rightarrow> mach" where
  "call2 p a0 a1 s = run p (s\<lparr>core := (core s)(0 := a0, 1 := a1)\<rparr>)"

subsection \<open>\<open>your-mmu-asm.S\<close>\<close>

definition inv_icache_errata :: "insn list" where
  "inv_icache_errata = replicate 4 (MCR INV_ICACHE 0) @ replicate 11 NOP"

definition mmu_reset_asm :: "insn list" where
  "mmu_reset_asm =
     MOV 0 0 # inv_icache_errata @
     [MCR INV_DCACHE 0, MCR INV_TLB 0, MCR PREFETCH_FLUSH 0, MCR DSB_OP 0]"

definition cp15_domain_ctrl_wr :: "insn list" where
  "cp15_domain_ctrl_wr = [MCR DOMAIN_CTRL 0, MCR PREFETCH_FLUSH 0]"

definition cp15_set_procid_ttbr0 :: "insn list" where
  "cp15_set_procid_ttbr0 =
     [MCR DSB_OP 3,
      LSL 2 0 8, MCR ASID_REG 2, MOV 3 0, MCR FLUSH_BTB 3, MCR PREFETCH_FLUSH 3,
      MCR TTBR0_REG 1, MCR FLUSH_BTB 3, MCR PREFETCH_FLUSH 3,
      MCR TTBR1_REG 3, MCR FLUSH_BTB 3, MCR PREFETCH_FLUSH 3,
      MCR TTBR_BASE_CTRL 3, MCR FLUSH_BTB 3, MCR PREFETCH_FLUSH 3,
      MCR ASID_REG 0, MCR FLUSH_BTB 3, MCR PREFETCH_FLUSH 3]"

definition mmu_disable_set_asm :: "insn list" where
  "mmu_disable_set_asm =
     [MOV 1 0, MCR CLEAN_INV_DCACHE 1] @ inv_icache_errata @
     [MCR CONTROL_REG1 0, MOV 0 0, MCR DSB_OP 0, MCR PREFETCH_FLUSH 0, MCR FLUSH_BTB 0]"

definition mmu_enable_set_asm :: "insn list" where
  "mmu_enable_set_asm =
     [MCR CONTROL_REG1 0, MOV 0 0, MCR DSB_OP 0, MCR PREFETCH_FLUSH 0, MCR FLUSH_BTB 0]"

definition mmu_sync_pte_mods :: "insn list" where
  "mmu_sync_pte_mods =
     [MOV 0 0, MCR CLEAN_INV_DCACHE 0] @ inv_icache_errata @
     [MCR DSB_OP 0, MCR INV_TLB 0, MCR FLUSH_BTB 0, MCR DSB_OP 0, MCR PREFETCH_FLUSH 0]"

subsection \<open>The rules\<close>

text \<open>Maintenance that is due, issued but possibly not complete, complete but possibly not visible to the
  instruction fetch, done.\<close>

datatype stage = Due | Issued | Complete | Done

record hazards =
  hz_cp15 :: stage
  hz_btb :: stage
  hz_dcache :: stage
  hz_pte :: stage
  hz_icache :: stage
  hz_tlb :: stage

definition quiet :: hazards where
  "quiet = \<lparr>hz_cp15 = Done, hz_btb = Done, hz_dcache = Done, hz_pte = Done, hz_icache = Done, hz_tlb = Done\<rparr>"

definition drain :: "stage \<Rightarrow> stage" where "drain x = (if x = Issued then Complete else x)"
definition fetch :: "stage \<Rightarrow> stage" where "fetch x = (if x = Complete then Done else x)"

text \<open>A write of CP15 is visible after a prefetch flush; the branch predictor is due for a flush after a change of
  the MMU, the translation registers or the context, and its flush is complete only after a prefetch flush;
  cache and TLB operations complete with a DSB and are then visible to the fetch after a prefetch flush, for
  the data cache the DSB is enough; a TLB invalidated before a changed entry has reached memory is due again.\<close>

fun obey :: "creg \<Rightarrow> hazards \<Rightarrow> hazards" where
  "obey INV_ICACHE h = h\<lparr>hz_icache := Issued\<rparr>"
| "obey INV_DCACHE h = h\<lparr>hz_dcache := Issued\<rparr>"
| "obey CLEAN_INV_DCACHE h = h\<lparr>hz_dcache := Issued, hz_pte := (if hz_pte h = Due then Issued else hz_pte h)\<rparr>"
| "obey INV_TLB h = h\<lparr>hz_tlb := (if hz_pte h = Done then Issued else Due)\<rparr>"
| "obey FLUSH_BTB h = h\<lparr>hz_btb := Complete\<rparr>"
| "obey PREFETCH_FLUSH h =
     h\<lparr>hz_cp15 := Done, hz_btb := fetch (hz_btb h), hz_icache := fetch (hz_icache h), hz_tlb := fetch (hz_tlb h)\<rparr>"
| "obey DSB_OP h =
     h\<lparr>hz_dcache := fetch (drain (hz_dcache h)), hz_pte := fetch (drain (hz_pte h)), hz_icache := drain (hz_icache h), hz_tlb := drain (hz_tlb h)\<rparr>"
| "obey DOMAIN_CTRL h = h\<lparr>hz_cp15 := Issued\<rparr>"
| "obey _ h = h\<lparr>hz_cp15 := Issued, hz_btb := Due\<rparr>"

definition after :: "(creg \<times> u32) list \<Rightarrow> hazards \<Rightarrow> hazards" where
  "after ops h = fold (\<lambda>(r, _). obey r) ops h"

text \<open>A page table entry written through the cache: the entry may sit in the cache, the TLBs and the branch predictor may
  hold the old mapping.\<close>

definition pte_written :: hazards where
  "pte_written = quiet\<lparr>hz_pte := Due, hz_tlb := Due, hz_btb := Due\<rparr>"

text \<open>The states a program goes through, and the address space and table in use in each.\<close>

fun states :: "insn list \<Rightarrow> mach \<Rightarrow> mach list" where
  "states [] s = [s]"
| "states (i # p) s = s # states p (exec i s)"

definition asid_of :: "mach \<Rightarrow> u32" where
  "asid_of s = cp15 s ASID_REG AND 0xff"

definition space :: "mach \<Rightarrow> u32 \<times> u32" where
  "space s = (asid_of s, cp15 s TTBR0_REG)"

text \<open>Every write of a translation register or of the context finds the one before visible and the branch predictor
  flushed.\<close>

fun settled :: "(creg \<times> u32) list \<Rightarrow> hazards \<Rightarrow> bool" where
  "settled [] h = True"
| "settled ((r, v) # ops) h =
     ((r \<in> {ASID_REG, TTBR0_REG, TTBR1_REG, TTBR_BASE_CTRL} \<longrightarrow> hz_cp15 h = Done \<and> hz_btb h = Done) \<and>
      settled ops (obey r h))"

lemmas hz_simps = after_def quiet_def drain_def fetch_def pte_written_def

lemmas asm_code = mmu_reset_asm_def cp15_domain_ctrl_wr_def cp15_set_procid_ttbr0_def mmu_disable_set_asm_def
  mmu_enable_set_asm_def mmu_sync_pte_mods_def inv_icache_errata_def

lemma run_simps [simp]: "run [] s = s" "run (i # p) s = run p (exec i s)" "run (p @ q) s = run q (run p s)"
  by (simp_all add: run_def)

lemma asid_zero: "push_bit 8 (x :: u32) AND 0xff = 0"
proof -
  have m: "(0xff :: u32) = mask 8"
    by (simp add: mask_eq_exp_minus_1)
  show ?thesis
    unfolding m by (rule bit_word_eqI) (auto simp: bit_and_iff bit_mask_iff bit_push_bit_iff)
qed

subsection \<open>Switching the address space\<close>

text \<open>The coprocessor writes of \<open>cp15_set_procid_ttbr0\<close>; the first one is made with what the caller left in r3.\<close>

definition set_ctx_ops :: "u32 \<Rightarrow> u32 \<Rightarrow> u32 \<Rightarrow> (creg \<times> u32) list" where
  "set_ctx_ops x pt r3 =
     [(DSB_OP, r3), (ASID_REG, push_bit 8 x), (FLUSH_BTB, 0), (PREFETCH_FLUSH, 0),
      (TTBR0_REG, pt), (FLUSH_BTB, 0), (PREFETCH_FLUSH, 0), (TTBR1_REG, 0), (FLUSH_BTB, 0), (PREFETCH_FLUSH, 0),
      (TTBR_BASE_CTRL, 0), (FLUSH_BTB, 0), (PREFETCH_FLUSH, 0), (ASID_REG, x), (FLUSH_BTB, 0), (PREFETCH_FLUSH, 0)]"

lemma set_procid_log:
  "clog (call2 cp15_set_procid_ttbr0 x pt s) = clog s @ set_ctx_ops x pt (core s 3)"
  by (simp add: call2_def asm_code set_ctx_ops_def eval_nat_numeral del: push_bit_Suc)

text \<open>C12: Switching the address space: whatever the registers held, \<open>cp15_set_procid_ttbr0\<close> leaves the new table in TTBR0, zero
  in the other translation registers and the new context; at every instruction in between the processor uses the
  old space, the new one, or the reserved address space 0, so no translation of one table is tagged with the
  other's identifier; each change is made visible, with the branch predictor flushed, before the next, and nothing
  is outstanding at the end.\<close>

theorem cp15_set_procid_ttbr0_safe:
  fixes x pt :: u32
  defines "s0 \<equiv> \<lambda>s. s\<lparr>core := (core s)(0 := x, 1 := pt)\<rparr>"
  shows "let s' = call2 cp15_set_procid_ttbr0 x pt s; ops = drop (length (clog s)) (clog s') in
    cp15 s' = (cp15 s)(DSB_OP := core s 3, FLUSH_BTB := 0, PREFETCH_FLUSH := 0,
                       TTBR0_REG := pt, TTBR1_REG := 0, TTBR_BASE_CTRL := 0, ASID_REG := x) \<and>
    list_all (\<lambda>t. space t = space s \<or> asid_of t = 0 \<or> space t = (x AND 0xff, pt)) (states cp15_set_procid_ttbr0 (s0 s)) \<and>
    settled ops quiet \<and> after ops quiet = quiet"
proof -
  have regs: "cp15 (call2 cp15_set_procid_ttbr0 x pt s) = (cp15 s)(DSB_OP := core s 3, FLUSH_BTB := 0, PREFETCH_FLUSH := 0,
      TTBR0_REG := pt, TTBR1_REG := 0, TTBR_BASE_CTRL := 0, ASID_REG := x)"
    by (simp add: call2_def asm_code fun_upd_twist)
  have spaces: "list_all (\<lambda>t. space t = space s \<or> asid_of t = 0 \<or> space t = (x AND 0xff, pt)) (states cp15_set_procid_ttbr0 (s0 s))"
    by (simp add: asm_code s0_def space_def asid_of_def asid_zero)
  have "settled (set_ctx_ops x pt r) quiet" "after (set_ctx_ops x pt r) quiet = quiet" for r
    by (simp_all add: set_ctx_ops_def hz_simps)
  then show ?thesis
    using regs spaces by (simp add: set_procid_log)
qed

subsection \<open>Page table changes\<close>

definition sync_ops :: "(creg \<times> u32) list" where
  "sync_ops = (CLEAN_INV_DCACHE, 0) # replicate 4 (INV_ICACHE, 0) @
     [(DSB_OP, 0), (INV_TLB, 0), (FLUSH_BTB, 0), (DSB_OP, 0), (PREFETCH_FLUSH, 0)]"

lemma sync_pte_log: "clog (run mmu_sync_pte_mods s) = clog s @ sync_ops"
  by (simp add: asm_code sync_ops_def eval_nat_numeral)

text \<open>After a page table entry was written, \<open>mmu_sync_pte_mods\<close> brings the entry to memory before the TLB is invalidated and
  leaves nothing outstanding; without the first DSB the TLB could have been refilled with the old entry, and
  without the last one the invalidation is not complete.\<close>

lemma mmu_sync_pte_mods_syncs:
  "after (drop (length (clog s)) (clog (run mmu_sync_pte_mods s))) pte_written = quiet \<and>
   hz_tlb (after (remove1 (DSB_OP, 0) sync_ops) pte_written) \<noteq> Done \<and>
   hz_tlb (after (take 8 sync_ops @ drop 9 sync_ops) pte_written) \<noteq> Done"
  by (simp add: sync_pte_log) (simp add: sync_ops_def hz_simps eval_nat_numeral)

subsection \<open>Enabling and disabling the MMU\<close>

definition control_ops :: "u32 \<Rightarrow> (creg \<times> u32) list" where
  "control_ops c = [(CONTROL_REG1, c), (DSB_OP, 0), (PREFETCH_FLUSH, 0), (FLUSH_BTB, 0)]"

lemma mmu_enable_log: "clog (call1 mmu_enable_set_asm c s) = clog s @ control_ops c"
  by (simp add: call1_def asm_code control_ops_def)

lemma mmu_disable_log:
  "clog (call1 mmu_disable_set_asm c s) =
     clog s @ (CLEAN_INV_DCACHE, 0) # replicate 4 (INV_ICACHE, c) @ control_ops c"
  by (simp add: call1_def asm_code control_ops_def eval_nat_numeral)

text \<open>C33: Enabling and disabling the MMU set the control register as asked, and all cache maintenance is complete and visible,
  but the flush of the branch predictor comes after the only prefetch flush, so by the rules of the lab it is not
  guaranteed to be complete when the routines return; the reset leaves its I-cache and TLB invalidations invisible to the
  fetch, because its prefetch flush comes before the DSB.\<close>

theorem mmu_switch_leaves_btb:
  "cp15 (call1 mmu_enable_set_asm c s) CONTROL_REG1 = c \<and> cp15 (call1 mmu_disable_set_asm c s) CONTROL_REG1 = c \<and>
   after (drop (length (clog s)) (clog (call1 mmu_enable_set_asm c s))) quiet = quiet\<lparr>hz_btb := Complete\<rparr> \<and>
   after (drop (length (clog s)) (clog (call1 mmu_disable_set_asm c s))) quiet = quiet\<lparr>hz_btb := Complete\<rparr> \<and>
   after (drop (length (clog s)) (clog (run mmu_reset_asm s))) quiet = quiet\<lparr>hz_icache := Complete, hz_tlb := Complete\<rparr>"
proof (intro conjI)
  show "cp15 (call1 mmu_enable_set_asm c s) CONTROL_REG1 = c" "cp15 (call1 mmu_disable_set_asm c s) CONTROL_REG1 = c"
    by (simp_all add: call1_def asm_code eval_nat_numeral)
  show "after (drop (length (clog s)) (clog (call1 mmu_enable_set_asm c s))) quiet = quiet\<lparr>hz_btb := Complete\<rparr>"
    "after (drop (length (clog s)) (clog (call1 mmu_disable_set_asm c s))) quiet = quiet\<lparr>hz_btb := Complete\<rparr>"
    unfolding mmu_enable_log mmu_disable_log by (simp_all add: control_ops_def hz_simps eval_nat_numeral)
  have "clog (run mmu_reset_asm s) = clog s @ replicate 4 (INV_ICACHE, 0) @
      [(INV_DCACHE, 0), (INV_TLB, 0), (PREFETCH_FLUSH, 0), (DSB_OP, 0)]"
    by (simp add: asm_code eval_nat_numeral)
  then show "after (drop (length (clog s)) (clog (run mmu_reset_asm s))) quiet = quiet\<lparr>hz_icache := Complete, hz_tlb := Complete\<rparr>"
    by (simp add: hz_simps eval_nat_numeral)
qed

text \<open>The I-cache is invalidated with the control word in the register that should be zero.\<close>

lemma mmu_disable_rd_not_zero: "(INV_ICACHE, c) \<in> set (clog (call1 mmu_disable_set_asm c s))"
  by (simp add: mmu_disable_log)

subsection \<open>\<open>mmu.c\<close> on the assembly\<close>

text \<open>\<open>mmu_set_ctx\<close> and \<open>domain_access_ctrl_set\<close> of lab 15; the latter has its two instructions inline.\<close>

definition mmu_set_ctx15 :: "('h \<Rightarrow> u32 \<Rightarrow> u32 \<Rightarrow> 'h) \<Rightarrow> u32 \<Rightarrow> u32 \<Rightarrow> u32 \<Rightarrow> 'h \<Rightarrow> 'h res" where
  "mmu_set_ctx15 set_procid pid asid pt h =
     bnd (check (asid \<noteq> 0) ''asid != 0'') (\<lambda>_.
     bnd (check (asid < 64) ''asid < 64'') (\<lambda>_.
     Inr (set_procid h (push_bit 8 pid OR asid) pt)))"

definition domain_access_ctrl_set15 :: "(mach \<Rightarrow> u32) \<Rightarrow> u32 \<Rightarrow> mach \<Rightarrow> mach res" where
  "domain_access_ctrl_set15 domain_get r s =
     (let s1 = call2 [MCR DOMAIN_CTRL 0, MCR PREFETCH_FLUSH 1] r 0 s in
      bnd (check (domain_get s1 = r) ''domain_access_ctrl_get() == r'') (\<lambda>_. Inr s1))"

text \<open>The coprocessor as lab 16's \<open>mmu.c\<close> sees it, with these routines in place of the object files.  The
  initialization \<open>staff_mmu_init\<close> stays an object file in both labs: it is the parameter \<open>init\<close>.\<close>

definition asm_hw :: "(mach \<Rightarrow> mach) \<Rightarrow> mach mmu_hw" where
  "asm_hw init =
     \<lparr>ctrl_rd = (\<lambda>s. cp15 s CONTROL_REG1), ctrl_wr = call1 [MCR CONTROL_REG1 0],
      staff_mmu_disable_set_asm = call1 mmu_disable_set_asm, staff_mmu_enable_set_asm = call1 mmu_enable_set_asm,
      staff_cp15_set_procid_ttbr0 = call2 cp15_set_procid_ttbr0, staff_mmu_init = init,
      staff_domain_access_ctrl_get = (\<lambda>s. cp15 s DOMAIN_CTRL),
      staff_domain_access_ctrl_set = call1 cp15_domain_ctrl_wr\<rparr>"

interpretation asm: mmu_coprocessor "asm_hw init" for init
  by unfold_locales (simp_all add: asm_hw_def call1_def call2_def asm_code)

lemma low_byte_of_context: "asid < 64 \<Longrightarrow> (push_bit 8 pid OR asid) AND 0xff = (asid :: u32)"
proof -
  assume "asid < 64"
  then have "take_bit 8 asid = asid"
    by (simp add: take_bit_eq_mod word_less_nat_alt word_unat_eq_iff unat_mod_distrib)
  then have "asid AND 0xff = asid"
    by (simp add: take_bit_eq_mask mask_eq_exp_minus_1)
  then show ?thesis
    by (simp add: bit.conj_disj_distrib2 asid_zero)
qed

text \<open>Setting the domains, switching the context and enabling, as one sequence of coprocessor writes.\<close>

definition turn_on_ops :: "u32 \<Rightarrow> u32 \<Rightarrow> u32 \<Rightarrow> u32 \<Rightarrow> u32 \<Rightarrow> (creg \<times> u32) list" where
  "turn_on_ops d x pt r3 c = [(DOMAIN_CTRL, d), (PREFETCH_FLUSH, d)] @ set_ctx_ops x pt r3 @ control_ops c"

lemma turn_on_settled:
  "settled (turn_on_ops d x pt r3 c) quiet \<and> after (turn_on_ops d x pt r3 c) quiet = quiet\<lparr>hz_btb := Complete\<rparr>"
  by (simp add: turn_on_ops_def set_ctx_ops_def control_ops_def hz_simps)

text \<open>C18: The initialization, switch and enabling of lab 16's page table code run on lab 15's assembly, with any
  \<open>staff_mmu_init\<close> that does what the labs ask of the initialization (the ARMv6 format selected, the MMU left off): for a
  valid process and address space identifier every assertion passes, and the MMU is on with the table, the address
  space and the domains asked for, the other translation registers zero, and every other bit of the control register as
  the initialization left it.  The writes made after the initialization each find the one before settled, and leave
  nothing outstanding but the flush of the branch predictor.\<close>

theorem vm_mmu_on_asm:
  assumes "\<forall>h. \<not> bit (cp15 (init h) CONTROL_REG1) 0 \<and> bit (cp15 (init h) CONTROL_REG1) 23"
    and "pt \<noteq> 0" and "drop_bit 24 pid = 0" and "64 < pid" and "asid \<noteq> 0" and "asid < 64"
  shows "\<exists>s1 s2 ops. vm_mmu_init (asm_hw init) d s = Inr s1 \<and>
    bnd (vm_mmu_switch (asm_hw init) pt pid asid s1) (vm_mmu_enable (asm_hw init)) = Inr s2 \<and>
    mmu_is_enabled (asm_hw init) s2 \<and> cp15 s2 CONTROL_REG1 = cp15 (init s) CONTROL_REG1 OR 1 \<and>
    bit (cp15 s2 CONTROL_REG1) 23 \<and>
    cp15 s2 TTBR0_REG = pt \<and> cp15 s2 TTBR1_REG = 0 \<and> cp15 s2 TTBR_BASE_CTRL = 0 \<and> asid_of s2 = asid \<and>
    cp15 s2 DOMAIN_CTRL = d \<and>
    clog s2 = clog (init s) @ ops \<and> settled ops quiet \<and> after ops quiet = quiet\<lparr>hz_btb := Complete\<rparr>"
proof -
  let ?w = "asm_hw init"
  define s1 where "s1 = call1 cp15_domain_ctrl_wr d (init s)"
  have s1: "vm_mmu_init ?w d s = Inr s1" "cp15 s1 DOMAIN_CTRL = d" "cp15 s1 CONTROL_REG1 = cp15 (init s) CONTROL_REG1"
    "clog s1 = clog (init s) @ [(DOMAIN_CTRL, d), (PREFETCH_FLUSH, d)]"
    by (simp_all add: s1_def vm_mmu_init_def domain_access_ctrl_set_def check_def asm_hw_def call1_def asm_code)
  define s2 where "s2 = call1 mmu_enable_set_asm (cp15 s1 CONTROL_REG1 OR 1)
    (call2 cp15_set_procid_ttbr0 (push_bit 8 pid OR asid) pt s1)"
  have off: "\<not> mmu_is_enabled ?w s1"
    using assms(1) s1(3) by (simp add: mmu_is_enabled_def asm_hw_def)
  have on: "bnd (vm_mmu_switch ?w pt pid asid s1) (vm_mmu_enable ?w) = Inr s2" "mmu_is_enabled ?w s2"
    using asm.vm_mmu_on [OF off assms(2-6)] by (simp_all add: s2_def asm_hw_def)
  have regs: "cp15 s2 TTBR0_REG = pt" "cp15 s2 TTBR1_REG = 0" "cp15 s2 TTBR_BASE_CTRL = 0"
    "cp15 s2 ASID_REG = push_bit 8 pid OR asid" "cp15 s2 DOMAIN_CTRL = cp15 s1 DOMAIN_CTRL"
    "cp15 s2 CONTROL_REG1 = cp15 s1 CONTROL_REG1 OR 1"
    by (simp_all add: s2_def call1_def call2_def asm_code)
  have log: "clog s2 = clog (init s) @
      turn_on_ops d (push_bit 8 pid OR asid) pt (core s1 3) (cp15 s1 CONTROL_REG1 OR 1)"
    by (simp add: s2_def mmu_enable_log set_procid_log s1(4) turn_on_ops_def)
  show ?thesis
    using s1 on regs log turn_on_settled low_byte_of_context [OF assms(6), of pid] assms(1)
    by (intro exI [of _ s1] exI [of _ s2]) (auto simp: asid_of_def bit_or_iff)
qed

definition mach0 :: mach where
  "mach0 = \<lparr>core = (\<lambda>_. 0xdead), cp15 = (\<lambda>_. 5), clog = []\<rparr>"

text \<open>An initialization as the lab describes it: reset, then the bits of the control register.\<close>

theorem vm_mmu_on_asm_witness:
  "let init = \<lambda>h. call1 [MCR CONTROL_REG1 0] 0x800004 (run mmu_reset_asm h) in
   \<exists>s1 s2. vm_mmu_init (asm_hw init) 0x55 mach0 = Inr s1 \<and>
    bnd (vm_mmu_switch (asm_hw init) 0x4000 0x140e 1 s1) (vm_mmu_enable (asm_hw init)) = Inr s2 \<and>
    asid_of s2 = 1 \<and> cp15 s2 CONTROL_REG1 = 0x800005"
proof -
  let ?init = "\<lambda>h. call1 [MCR CONTROL_REG1 0] 0x800004 (run mmu_reset_asm h)"
  have "cp15 (?init h) CONTROL_REG1 = 0x800004" for h
    by (simp add: call1_def)
  then show ?thesis
    using vm_mmu_on_asm [of ?init "0x4000" "0x140e" 1 "0x55" mach0]
    by (auto simp: drop_bit_eq_div)
qed

text \<open>Lab 15's \<open>mmu_set_ctx\<close> accepts identifiers lab 16's refuses, among them processes that do not fit the 24 bits left for
  them, whose upper bits are lost.\<close>

lemma mmu_set_ctx15_loses_bits:
  "mmu_set_ctx15 set_procid pid 1 pt h = mmu_set_ctx15 set_procid (pid AND 0x00ffffff) 1 pt h"
proof -
  have m: "(0x00ffffff :: u32) = mask 24"
    by (simp add: mask_eq_exp_minus_1)
  have "push_bit 8 pid = push_bit 8 (pid AND 0x00ffffff)"
    unfolding m by (rule bit_word_eqI) (auto simp: bit_push_bit_iff bit_and_iff bit_mask_iff)
  then show ?thesis
    by (simp only: mmu_set_ctx15_def)
qed

lemma domain_access_ctrl_set15_ok:
  "domain_access_ctrl_set15 (\<lambda>s. cp15 s DOMAIN_CTRL) r s =
     Inr (call2 [MCR DOMAIN_CTRL 0, MCR PREFETCH_FLUSH 1] r 0 s) \<and>
   after [(DOMAIN_CTRL, r), (PREFETCH_FLUSH, 0)] quiet = quiet"
  by (simp add: domain_access_ctrl_set15_def call2_def check_def hz_simps)

end
