(* ===== verification/PageTyping.thy ===== *)
theory PageTyping
  imports PageTable
begin

text \<open>
  The type of a page table of lab 16: every entry is empty or a section descriptor that passes the check of the code and
  names a domain of the process map.  \<open>vm_map_kernel\<close> makes such a table and later mappings keep it so.
\<close>

definition entry_typed :: "u32 \<Rightarrow> u32 \<Rightarrow> bool" where
  "entry_typed doms w \<longleftrightarrow> w = 0 \<or> fld_check_valid (fld_of w) = Inr () \<and> bit doms (unat (domain (fld_of w)))"

definition pt_typed :: "u32 \<Rightarrow> u32 \<Rightarrow> wmem \<Rightarrow> bool" where
  "pt_typed pt doms m \<longleftrightarrow> (\<forall>i < 4096. entry_typed doms (m (pt + 4 * of_nat i)))"

lemma the_fld_typed:
  assumes "pin_dom attr < 16" and "bit doms (unat (pin_dom attr))"
  shows "entry_typed doms (fld_bits (the_fld pa attr))"
proof -
  have "unat (ucast (pin_dom attr) :: 4 word) = unat (pin_dom attr)"
    using assms(1) by (simp add: unsigned_ucast_eq word_less_nat_alt take_bit_nat_eq_self)
  then show ?thesis
    using assms(2) by (simp add: entry_typed_def fld_of_bits the_fld_simps fld_check_valid_def check_def)
qed

lemma pt_typed_upd: "pt_typed pt doms m \<Longrightarrow> entry_typed doms w \<Longrightarrow> pt_typed pt doms (m(a := w))"
  by (simp add: pt_typed_def)

lemma pt_typed_zero: "pt_typed pt doms (zero_words 4096 pt m)"
  by (auto simp: pt_typed_def entry_typed_def zero_words_at)

text \<open>A mapping that succeeds writes a descriptor.\<close>

lemma vm_map_sec_keeps_typed:
  assumes "pt_typed pt doms m" and "pin_dom attr < 16" and "bit doms (unat (pin_dom attr))"
    and "vm_map_sec quiet_p pt va pa attr m = Inr (f, m')"
  shows "pt_typed pt doms m'"
proof -
  have "m' = m(pt OR push_bit 2 (drop_bit 20 va) := fld_bits (the_fld pa attr))"
    using assms(4) by (auto simp: vm_map_sec_def the_fld_simps bnd_eq_Inr Let_def)
  then show ?thesis
    using pt_typed_upd [OF assms(1)] the_fld_typed [OF assms(2,3)] by simp
qed

lemma attr_mk_dom: "attr_mk e = Inr attr \<Longrightarrow> pin_dom attr = pr_dom e"
  by (auto simp: attr_mk_def pin_mk_device_def pin_mk_global_def pin_mk_def bnd_eq_Inr split: mem_type.splits)

lemma map_entries_keep_typed:
  assumes "\<forall>e \<in> set es. pr_dom e < 16 \<and> bit doms (unat (pr_dom e))"
  shows "pt_typed pt doms m \<Longrightarrow> map_entries quiet_p pt es m = Inr m' \<Longrightarrow> pt_typed pt doms m'"
  using assms
proof (induction es arbitrary: m)
  case (Cons e es)
  obtain attr f m1 where e: "attr_mk e = Inr attr" "vm_map_sec quiet_p pt (pr_addr e) (pr_addr e) attr m = Inr (f, m1)"
    "map_entries quiet_p pt es m1 = Inr m'"
    using Cons.prems(2) by (auto simp: bnd_eq_Inr)
  have "pt_typed pt doms m1"
    using vm_map_sec_keeps_typed [OF Cons.prems(1) _ _ e(2)] attr_mk_dom [OF e(1)] Cons.prems(3) by simp
  then show ?case
    using Cons.IH [OF _ e(3)] Cons.prems(3) by simp
qed simp

text \<open>C14: Page tables are well typed.  The table \<open>vm_map_kernel\<close> builds for a well-formed process map has in each of its 4096
  places zero or a section descriptor that \<open>fld_check_valid\<close> accepts and whose domain is one of the domains of the map, which
  are the ones it opens; and every mapping added with \<open>vm_map_sec\<close> under such a domain, whatever its other attributes and
  whether its addresses are mapped already, gives a table of the same type.\<close>

theorem vm_map_kernel_typed:
  assumes "procmap_wf p" and "vm_map_kernel w quiet_p pt p enable_p (m, h) = Inr (pt', m', h')"
  shows "pt_typed pt' (dom_ids p) m' \<and>
    (\<forall>va pa attr f m2. pin_dom attr < 16 \<and> bit (dom_ids p) (unat (pin_dom attr)) \<and>
       vm_map_sec quiet_p pt' va pa attr m' = Inr (f, m2) \<longrightarrow> pt_typed pt' (dom_ids p) m2)"
proof -
  have run: "pt' = pt" "map_entries quiet_p pt (pmap p) (zero_words 4096 pt m) = Inr m'"
    using assms(2) by (auto simp: vm_map_kernel_def bnd_eq_Inr vm_pt_alloc_def Let_def)
  have "\<forall>e \<in> set (pmap p). pr_dom e < 16 \<and> bit (dom_ids p) (unat (pr_dom e))"
    using assms(1) by (auto simp: procmap_wf_def ent_wf_def)
  then have "pt_typed pt' (dom_ids p) m'"
    using map_entries_keep_typed [OF _ pt_typed_zero run(2)] run(1) by simp
  then show ?thesis
    using vm_map_sec_keeps_typed by blast
qed

text \<open>The default map, and a section mapped over the first one with other attributes.\<close>

theorem vm_map_kernel_typed_witness:
  "\<exists>p m' h' f m2. procmap_default_mk 0x9000 MB (2 * MB) 1 = Inr p \<and>
     vm_map_kernel ex_hw False 0x104000 p True (\<lambda>_. 7, (0, 0)) = Inr (0x104000, m', h') \<and> pt_typed 0x104000 (dom_ids p) m' \<and>
     vm_map_sec False 0x104000 0 MB \<lparr>pin_G = 0, pin_asid = 3, pin_dom = 1, pagesize = PAGE_1MB, AP_perm = 1, mem_attr = 0\<rparr> m' =
       Inr (f, m2) \<and> pt_typed 0x104000 (dom_ids p) m2"
proof -
  obtain p where p: "procmap_default_mk 0x9000 MB (2 * MB) 1 = Inr p" "procmap_wf p" "pmap p \<noteq> []" "bit (dom_ids p) 1"
  proof -
    obtain p where p: "procmap_default_mk 0x9000 MB (2 * MB) 1 = Inr p" "procmap_wf p"
      "map pr_addr (pmap p) = [0x20000000, 0x20100000, 0x20200000, 0, 0x100000, INT_STACK_ADDR - MB, STACK_ADDR - MB]"
      using procmap_default_wf [of "0x9000" 1] by (auto simp: MB_def)
    have "bit (dom_ids p) 1"
      using p(1) by (auto simp: procmap_default_mk_def push_mk_def pr_ent_mk_def procmap_push_def bnd_eq_Inr bit_or_iff bit_exp_iff)
    then show ?thesis using that p by auto
  qed
  have "mmu_hw_ok ex_hw" by (simp add: mmu_hw_ok_def ex_hw_def)
  then obtain m' h' where k: "vm_map_kernel ex_hw False 0x104000 p True (\<lambda>_. 7, (0, 0)) = Inr (0x104000, m', h')"
    using vm_map_kernel_identity [OF p(2,3), of "0x104000" ex_hw False True "\<lambda>_. 7" "(0, 0)"] by auto
  let ?a = "\<lparr>pin_G = 0, pin_asid = 3, pin_dom = 1, pagesize = PAGE_1MB, AP_perm = 1, mem_attr = 0\<rparr>"
  obtain f m2 where s: "vm_map_sec False 0x104000 0 MB ?a m' = Inr (f, m2)"
    using vm_map_sec_ok [of "0x104000" 0 MB ?a False m'] by (auto simp: MB_def)
  have "pt_typed 0x104000 (dom_ids p) m'"
    using vm_map_kernel_typed [OF p(2) k] by blast
  moreover have "pin_dom ?a < 16 \<and> bit (dom_ids p) (unat (pin_dom ?a))"
    using p(4) by simp
  then have "pt_typed 0x104000 (dom_ids p) m2"
    using vm_map_kernel_typed [OF p(2) k] s by blast
  ultimately show ?thesis
    using p(1) k s by blast
qed

end
