(* ===== verification/Arm.thy ===== *)
theory Arm
  imports Ram DebugHw
begin

text \<open>
  The processor that runs the assembly of labs 5, 9, 13 and 14: registers banked by mode, the program status
  registers and the instructions those files use, after the pseudo-code of \<open>docs/armv6.pdf\<close>
  (ARM DDI 0100I).  Memory is a map from word addresses; data is little-endian, the processor is in ARM state,
  and what the manual calls UNPREDICTABLE is a fault, as is a multiple access at an unaligned address.
\<close>

subsection \<open>State\<close>

text \<open>r0 to r7 are shared by all modes, r8 to r12 by all but FIQ, r13 and r14 are banked; user and system mode share
  a bank (table A2-2).\<close>

datatype bank = Usr | Fiq | Irq | Svc | Abt | Und

definition mode_bank :: "u32 \<Rightarrow> bank" where
  "mode_bank p =
     (let m = p AND 31 in
      if m = FIQ_MODE then Fiq else if m = IRQ_MODE then Irq else if m = SUPER_MODE then Svc
      else if m = ABORT_MODE then Abt else if m = UNDEF_MODE then Und else Usr)"

definition modes :: "u32 list" where
  "modes = [USER_MODE, FIQ_MODE, IRQ_MODE, SUPER_MODE, ABORT_MODE, UNDEF_MODE, SYS_MODE]"

definition user_mode :: "u32 \<Rightarrow> bool" where
  "user_mode p \<longleftrightarrow> p AND 31 = USER_MODE"

text \<open>The modes that have a saved status register: all but user and system.\<close>

definition has_spsr :: "u32 \<Rightarrow> bool" where
  "has_spsr p \<longleftrightarrow> mode_bank p \<noteq> Usr"

record arm =
  gpr :: "bank \<times> nat \<Rightarrow> u32"
  psr :: u32
  saved_psr :: "bank \<Rightarrow> u32"
  pcr :: u32
  vbar :: u32
  ram :: "u32 \<Rightarrow> u32"

definition phys :: "bank \<Rightarrow> nat \<Rightarrow> bank \<times> nat" where
  "phys b i = (if i < 8 \<or> i < 13 \<and> b \<noteq> Fiq then (Usr, i) else (b, i))"

abbreviation reg_name :: "arm \<Rightarrow> nat \<Rightarrow> bank \<times> nat" where
  "reg_name s i \<equiv> phys (mode_bank (psr s)) i"

definition rd :: "arm \<Rightarrow> nat \<Rightarrow> u32" where
  "rd s i = gpr s (reg_name s i)"

definition wr :: "nat \<Rightarrow> u32 \<Rightarrow> arm \<Rightarrow> arm" where
  "wr i v s = s\<lparr>gpr := (gpr s)(reg_name s i := v)\<rparr>"

definition unpredictable :: "'a res" where
  "unpredictable = Inl (Panic ''UNPREDICTABLE'')"

subsection \<open>Instructions\<close>

datatype fields = All_fc | Control

text \<open>Loads and stores of lists: \<open>IA\<close> from the base upwards (\<open>ldm\<close>, \<open>stm\<close>), \<open>DB\<close> below the base (\<open>stmfd\<close>, \<open>push\<close>); the
  flag is write-back.  \<open>STMU\<close> and \<open>LDMU\<close> are the forms with a caret, of the user registers.\<close>

datatype amode = IA | DB

datatype ins =
    MOVI nat u32
  | MOV nat nat
  | ADDI nat nat u32
  | SUBI nat nat u32
  | ANDI nat nat u32
  | BICI nat nat u32
  | ORR nat nat nat
  | ORRI nat nat u32
  | LDRW nat nat u32
  | STRW nat nat u32
  | LDM nat "nat list" bool
  | LDM_PC nat "nat list"
  | STM amode nat "nat list" bool
  | LDMU nat "nat list"
  | STMU amode nat "nat list"
  | MRS nat
  | MRS_SPSR nat
  | MSR fields nat
  | MSRI fields u32
  | CPS u32
  | RFE nat
  | SRS u32
  | FLUSH nat
  | MOVS_PC nat
  | BL u32
  | BX nat
  | BLX nat
  | SWI

text \<open>\<open>MSR\<close> (A4.1.39, table A4-1): the f and c fields are the top and the bottom byte; user mode changes the flags
  only.\<close>

fun byte_mask :: "fields \<Rightarrow> u32" where
  "byte_mask All_fc = 0xFF0000FF"
| "byte_mask Control = 0x000000FF"

definition valid_mode :: "u32 \<Rightarrow> bool" where
  "valid_mode p \<longleftrightarrow> p AND 31 \<in> set modes"

definition msr_mask :: "fields \<Rightarrow> u32 \<Rightarrow> u32" where
  "msr_mask f p = byte_mask f AND (0xF80F0200 OR (if user_mode p then 0 else 0x000001DF))"

definition merge :: "u32 \<Rightarrow> u32 \<Rightarrow> u32 \<Rightarrow> u32" where
  "merge m v p = (p AND NOT m) OR (v AND m)"

definition msr :: "fields \<Rightarrow> u32 \<Rightarrow> arm \<Rightarrow> arm res" where
  "msr f v s =
     (if v AND 0x06F0FC00 \<noteq> 0 then unpredictable
      else if \<not> user_mode (psr s) \<and> v AND 0x01000020 \<noteq> 0 then unpredictable
      else
        let p = merge (msr_mask f (psr s)) v (psr s) in
        if valid_mode p then Inr (s\<lparr>psr := p\<rparr>) else unpredictable)"

text \<open>A load of the program counter (A4.1.20): bit 0 goes to the Thumb bit.\<close>

definition branch_to :: "u32 \<Rightarrow> arm \<Rightarrow> arm res" where
  "branch_to v s =
     (if v AND 3 = 2 then unpredictable
      else Inr (s\<lparr>pcr := v AND 0xFFFFFFFE, psr := (psr s AND NOT 0x20) OR push_bit 5 (v AND 1)\<rparr>))"

definition lowest :: "amode \<Rightarrow> u32 \<Rightarrow> nat list \<Rightarrow> u32" where
  "lowest a p rs = (if a = DB then p - 4 * of_nat (length rs) else p)"

definition nxt_pc :: "arm \<Rightarrow> arm" where
  "nxt_pc s = s\<lparr>pcr := pcr s + 4\<rparr>"

text \<open>Registers in the order of their numbers, with the words loaded for them.\<close>

definition set_regs :: "(nat \<times> u32) list \<Rightarrow> arm \<Rightarrow> arm" where
  "set_regs ws s = fold (\<lambda>(i, v). wr i v) ws s"

definition set_user_regs :: "(nat \<times> u32) list \<Rightarrow> arm \<Rightarrow> arm" where
  "set_user_regs ws s = s\<lparr>gpr := fold (\<lambda>(i, v) g. g((Usr, i) := v)) ws (gpr s)\<rparr>"

subsection \<open>Exceptions\<close>

text \<open>Entry (A2.6): the program counter is the instruction that raises it, for an interrupt the next one to execute.
  Interrupts are disabled, for aborts and interrupts imprecise aborts as well; exceptions are taken in little-endian ARM state.
  \<open>vbar\<close> is the vector base.\<close>

datatype exception = Undefined_ins | Software_int | Prefetch_ab | Data_ab | Irq_int

fun exn_mode :: "exception \<Rightarrow> u32" where
  "exn_mode Undefined_ins = UNDEF_MODE"
| "exn_mode Software_int = SUPER_MODE"
| "exn_mode Prefetch_ab = ABORT_MODE"
| "exn_mode Data_ab = ABORT_MODE"
| "exn_mode Irq_int = IRQ_MODE"

fun exn_vector :: "exception \<Rightarrow> u32" where
  "exn_vector Undefined_ins = 4"
| "exn_vector Software_int = 8"
| "exn_vector Prefetch_ab = 12"
| "exn_vector Data_ab = 16"
| "exn_vector Irq_int = 24"

definition take_exn :: "exception \<Rightarrow> arm \<Rightarrow> arm" where
  "take_exn e s =
     (let m = exn_mode e; b = mode_bank m;
          p = if e \<in> {Undefined_ins, Software_int} then merge 0x2BF (m OR 0x80) (psr s)
              else merge 0x3BF (m OR 0x180) (psr s)
      in s\<lparr>saved_psr := (saved_psr s)(b := psr s), gpr := (gpr s)((b, 14) := pcr s + (if e = Data_ab then 8 else 4)),
           psr := p, pcr := vbar s + exn_vector e\<rparr>)"

subsection \<open>Execution\<close>

fun ins_body :: "ins \<Rightarrow> arm \<Rightarrow> arm res" where
  "ins_body (MOVI d v) s = Inr (wr d v s)"
| "ins_body (MOV d n) s = Inr (wr d (rd s n) s)"
| "ins_body (ADDI d n v) s = Inr (wr d (rd s n + v) s)"
| "ins_body (SUBI d n v) s = Inr (wr d (rd s n - v) s)"
| "ins_body (ANDI d n v) s = Inr (wr d (rd s n AND v) s)"
| "ins_body (BICI d n v) s = Inr (wr d (rd s n AND NOT v) s)"
| "ins_body (ORR d n m) s = Inr (wr d (rd s n OR rd s m) s)"
| "ins_body (ORRI d n v) s = Inr (wr d (rd s n OR v) s)"
| "ins_body (LDRW d n v) s = bnd (aligned_access (rd s n + v)) (\<lambda>_. Inr (wr d (ram s (rd s n + v)) s))"
| "ins_body (STRW d n v) s = bnd (aligned_access (rd s n + v)) (\<lambda>_. Inr (s\<lparr>ram := (ram s)(rd s n + v := rd s d)\<rparr>))"
| "ins_body (LDM n rs w) s =
     bnd (aligned_access (rd s n)) (\<lambda>_.
     if w \<and> n \<in> set rs then unpredictable
     else
       let s1 = if w then wr n (rd s n + 4 * of_nat (length rs)) s else s in
       Inr (set_regs (zip rs (ldm (ram s) (rd s n) (length rs))) s1))"
| "ins_body (LDM_PC n rs) s =
     bnd (aligned_access (rd s n)) (\<lambda>_.
     branch_to (ram s (rd s n + 4 * of_nat (length rs))) (set_regs (zip rs (ldm (ram s) (rd s n) (length rs))) s))"
| "ins_body (STM a n rs w) s =
     (let p = lowest a (rd s n) rs in
      bnd (aligned_access p) (\<lambda>_.
      if w \<and> n \<in> set rs then unpredictable
      else
        let s1 = s\<lparr>ram := stm (ram s) p (map (rd s) rs)\<rparr> in
        Inr (if w then wr n (if a = DB then p else p + 4 * of_nat (length rs)) s1 else s1)))"
| "ins_body (LDMU n rs) s =
     (if \<not> has_spsr (psr s) then unpredictable
      else bnd (aligned_access (rd s n)) (\<lambda>_.
        Inr (set_user_regs (zip rs (ldm (ram s) (rd s n) (length rs))) s)))"
| "ins_body (STMU a n rs) s =
     (if \<not> has_spsr (psr s) then unpredictable
      else
        let p = lowest a (rd s n) rs in
        bnd (aligned_access p) (\<lambda>_.
        Inr (s\<lparr>ram := stm (ram s) p (map (\<lambda>i. gpr s (Usr, i)) rs)\<rparr>)))"
| "ins_body (MRS d) s = Inr (wr d (psr s) s)"
| "ins_body (MRS_SPSR d) s =
     (if has_spsr (psr s) then Inr (wr d (saved_psr s (mode_bank (psr s))) s) else unpredictable)"
| "ins_body (MSR f n) s = msr f (rd s n) s"
| "ins_body (MSRI f v) s = msr f v s"
| "ins_body (CPS m) s =
     (if user_mode (psr s) then Inr s
      else
        let p = merge 31 m (psr s) in
        if valid_mode p then Inr (s\<lparr>psr := p\<rparr>) else unpredictable)"
| "ins_body (RFE n) s =
     bnd (aligned_access (rd s n)) (\<lambda>_.
     let p = ram s (rd s n + 4) in
     if user_mode (psr s) \<or> \<not> valid_mode p then unpredictable
     else Inr (s\<lparr>psr := p, pcr := ram s (rd s n)\<rparr>))"
| "ins_body (FLUSH d) s = Inr s"
| "ins_body (MOVS_PC n) s =
     (let p = saved_psr s (mode_bank (psr s)) in
      if \<not> has_spsr (psr s) \<or> \<not> valid_mode p then unpredictable
      else Inr (s\<lparr>psr := p, pcr := rd s n\<rparr>))"
| "ins_body (BL a) s = Inr (wr 14 (pcr s + 4) (s\<lparr>pcr := a\<rparr>))"
| "ins_body (BX n) s = branch_to (rd s n) s"
| "ins_body (BLX n) s = branch_to (rd s n) (wr 14 (pcr s + 4) s)"
| "ins_body (SRS m) s =
     (let p = gpr s (mode_bank m, 13) in
      bnd (aligned_access p) (\<lambda>_.
      if \<not> has_spsr (psr s) then unpredictable
      else Inr (s\<lparr>ram := (ram s)(p := rd s 14, p + 4 := saved_psr s (mode_bank (psr s)))\<rparr>)))"
| "ins_body SWI s = Inr (take_exn Software_int s)"

fun leaves :: "ins \<Rightarrow> bool" where
  "leaves (LDM_PC _ _) = True"
| "leaves (RFE _) = True"
| "leaves (MOVS_PC _) = True"
| "leaves (BL _) = True"
| "leaves (BX _) = True"
| "leaves (BLX _) = True"
| "leaves SWI = True"
| "leaves _ = False"

text \<open>Code in a row, up to the first instruction that leaves it.\<close>

fun arun :: "ins list \<Rightarrow> arm \<Rightarrow> arm res" where
  "arun [] s = Inr s"
| "arun (i # is) s = bnd (ins_body i s) (\<lambda>s1. if leaves i then Inr s1 else arun is (nxt_pc s1))"

subsection \<open>Registers\<close>

named_theorems arm_simps \<open>evaluation of instructions\<close>

lemmas [arm_simps] = rd_def wr_def lowest_def aligned_access_def nxt_pc_def set_regs_def set_user_regs_def ldm_numeral Let_def

lemma phys_low [simp]: "i < 8 \<Longrightarrow> phys b i = (Usr, i)"
  by (simp add: phys_def)

lemma phys_mid [simp]: "b \<noteq> Fiq \<Longrightarrow> i < 13 \<Longrightarrow> phys b i = (Usr, i)"
  by (simp add: phys_def)

lemma phys_banked [simp]: "13 \<le> i \<Longrightarrow> phys b i = (b, i)"
  by (simp add: phys_def)

lemma phys_usr [simp]: "phys Usr i = (Usr, i)"
  by (simp add: phys_def)

lemma phys_other [simp]: "i \<noteq> j \<Longrightarrow> phys b i \<noteq> (c, j)" "i \<noteq> j \<Longrightarrow> (c, j) \<noteq> phys b i"
  by (auto simp: phys_def split: if_splits)

lemma phys_inj: "phys b i = phys b j \<longleftrightarrow> i = j"
  by (auto simp: phys_def split: if_splits)

lemma rd_wr: "rd (wr i v s) j = (if j = i then v else rd s j)"
  by (auto simp: rd_def wr_def phys_inj)

subsection \<open>Modes\<close>

lemma merge_and_in: "m AND k = k \<Longrightarrow> merge m v p AND k = v AND k"
  unfolding merge_def by (rule bit_eqI) (auto simp: bit_simps dest: bit_eq_iff [THEN iffD1, rule_format])

lemma merge_and_out: "m AND k = 0 \<Longrightarrow> merge m v p AND k = p AND k"
  unfolding merge_def by (rule bit_eqI) (auto simp: bit_simps dest: bit_eq_iff [THEN iffD1, rule_format])

lemma merge_same [simp]: "merge m p p = p"
  unfolding merge_def by (rule bit_eqI) (auto simp: bit_simps)

lemma merge_restore: "v AND NOT a = p AND NOT a \<Longrightarrow> merge a p (merge c v p) = p"
  unfolding merge_def by (rule bit_eqI) (auto simp: bit_simps dest: bit_eq_iff [THEN iffD1, rule_format])

lemma mode_merge:
  assumes "m AND 31 = 31"
  shows "mode_bank (merge m v p) = mode_bank v" and "user_mode (merge m v p) = user_mode v"
    and "has_spsr (merge m v p) = has_spsr v" and "valid_mode (merge m v p) = valid_mode v"
  using merge_and_in [OF assms] by (simp_all add: mode_bank_def user_mode_def has_spsr_def valid_mode_def)

lemma mode_bank_cong: "p AND 31 = q AND 31 \<Longrightarrow> mode_bank p = mode_bank q"
  by (simp add: mode_bank_def)

lemma user_mode_bank: "user_mode p \<Longrightarrow> mode_bank p = Usr"
  by (simp add: user_mode_def mode_bank_def mode_defs)

lemma has_spsr_not_user: "has_spsr p \<Longrightarrow> \<not> user_mode p"
  using user_mode_bank by (auto simp: has_spsr_def)

subsection \<open>Branches in ARM state\<close>

lemma and_sub: "p AND (m :: u32) = 0 \<Longrightarrow> k AND m = k \<Longrightarrow> p AND k = 0"
proof -
  assume p: "p AND m = 0" and k: "k AND m = k"
  have "p AND k = p AND (m AND k)"
    using k by (simp only: and.commute)
  also have "\<dots> = (p AND m) AND k"
    by (simp only: and.assoc)
  finally show "p AND k = 0"
    using p by simp
qed

lemma and_not_same: "(p :: u32) AND k = 0 \<Longrightarrow> p AND NOT k = p"
proof -
  assume "p AND k = 0"
  then have "p AND NOT k = (p AND k) OR (p AND NOT k)"
    by simp
  then show "p AND NOT k = p"
    by (simp flip: bit.conj_disj_distrib)
qed

lemma branch_to_arm:
  assumes "v AND 3 = 0" and "psr s AND 0x20 = 0"
  shows "branch_to v s = Inr (s\<lparr>pcr := v\<rparr>)"
proof -
  have "v AND 1 = 0" using assms(1) by (rule and_sub) simp
  moreover from this have "v AND NOT 1 = v" by (rule and_not_same)
  moreover have "(0xFFFFFFFE :: u32) = NOT 1" by simp
  ultimately have "v AND 1 = 0" "v AND 0xFFFFFFFE = v" by (simp_all only:)
  then show ?thesis
    using assms and_not_same [of "psr s" "0x20"] by (simp add: branch_to_def)
qed

end
