(* ===== verification/Modes.thy ===== *)
theory Modes
  imports Arm
begin

text \<open>
  The assembly that changes modes: the banked registers of user mode (\<open>labs/13-ss-equiv/1-code/0-user-sp-lr-asm.S\<close>),
  \<open>rfe\<close> (\<open>1-rfe-asm.S\<close>), saving a register set (\<open>2-reg-save-asm.S\<close>), the interrupt and system call trampolines of
  labs 5 and 9, starting up (\<open>staff-start.S\<close>) and the notes on mode bugs.

  A routine is the list of its instructions, written in the order and with the operands of the source; where it
  calls C code it is cut in two at the call.  The theorems run it on the processor of \<open>Arm\<close>.
\<close>

subsection \<open>Banked registers\<close>

definition user_sp_get :: "ins list" where
  "user_sp_get = [CPS SYS_MODE, MOVI 1 0, FLUSH 1, MOV 0 13, CPS SUPER_MODE, MOVI 1 0, FLUSH 1, BX 14]"

definition user_sp_set :: "ins list" where
  "user_sp_set = [CPS SYS_MODE, MOVI 1 0, FLUSH 1, MOV 13 0, CPS SUPER_MODE, MOVI 1 0, FLUSH 1, BX 14]"

definition user_lr_get :: "ins list" where
  "user_lr_get = [CPS SYS_MODE, MOVI 1 0, FLUSH 1, MOV 0 14, CPS SUPER_MODE, MOVI 1 0, FLUSH 1, BX 14]"

definition user_lr_set :: "ins list" where
  "user_lr_set = [CPS SYS_MODE, MOVI 1 0, FLUSH 1, MOV 14 0, CPS SUPER_MODE, MOVI 1 0, FLUSH 1, BX 14]"

definition mem_user_sp_get :: "ins list" where "mem_user_sp_get = [STMU IA 0 [13], BX 14]"
definition mem_user_sp_set :: "ins list" where "mem_user_sp_set = [LDMU 0 [13], BX 14]"
definition mem_user_lr_get :: "ins list" where "mem_user_lr_get = [STMU IA 0 [14], BX 14]"
definition mem_user_lr_set :: "ins list" where "mem_user_lr_set = [LDMU 0 [14], BX 14]"
definition mem_user_sp_lr_get :: "ins list" where "mem_user_sp_lr_get = [STMU IA 0 [13, 14], BX 14]"
definition mem_user_sp_lr_set :: "ins list" where "mem_user_sp_lr_set = [LDMU 0 [13, 14], BX 14]"

definition mode_get_lr_sp_asm :: "ins list" where
  "mode_get_lr_sp_asm =
     [MRS 3, BICI 12 3 0x1F, ANDI 0 0 0x1F, ORR 12 12 0, MSR All_fc 12, STRW 13 1 0, STRW 14 2 0, MSR Control 3, BX 14]"

subsection \<open>\<open>rfe\<close> and \<open>srs\<close>\<close>

definition rfe_asm :: "ins list" where
  "rfe_asm = [MOV 13 0, RFE 13]"

definition rfe_trampoline_asm :: "u32 \<Rightarrow> ins list" where
  "rfe_trampoline_asm rfe_c_code = [MOVI 13 INT_STACK_ADDR, MOV 0 13, BL rfe_c_code]"

definition blk_rfe_asm :: "ins list" where
  "blk_rfe_asm = [MOV 13 0, ADDI 13 13 60, RFE 13]"

definition srs_super :: "ins list" where
  "srs_super = [STRW 14 1 0, MOV 2 13, MOV 13 0, SRS SUPER_MODE, MOV 13 2, BX 14]"

definition rfe_user :: "ins list" where
  "rfe_user = [MOV 14 0, LDMU 14 [13, 14], ADDI 14 14 8, RFE 14]"

subsection \<open>Register sets\<close>

abbreviation r0_r12 :: "nat list" where "r0_r12 \<equiv> [0, 1, 2, 3, 4, 5, 6, 7, 8, 9, 10, 11, 12]"

definition switchto_user_asm :: "ins list" where
  "switchto_user_asm = [MOV 13 0, LDMU 13 (r0_r12 @ [13, 14]), ADDI 13 13 60, RFE 13]"

definition swi_trampoline :: "u32 \<Rightarrow> ins list" where
  "swi_trampoline do_syscall =
     [MOVI 13 INT_STACK_ADDR, SUBI 13 13 16, STM DB 13 r0_r12 True, MOVI 13 INT_STACK_ADDR,
      MRS_SPSR 0, STM DB 13 [0] True, STM DB 13 [14] True, STMU DB 13 [13, 14], SUBI 13 13 8, SUBI 13 13 52,
      MOV 0 13, BL do_syscall]"

subsection \<open>Interrupts and system calls of labs 5 and 9\<close>

definition system_enable_interrupts :: "ins list" where
  "system_enable_interrupts = [MRS 0, BICI 0 0 0x80, MSR Control 0, BX 14]"

definition system_disable_interrupts :: "ins list" where
  "system_disable_interrupts = [MRS 0, ORRI 0 0 0x80, MSR Control 0, BX 14]"

definition interrupt_asm :: "u32 \<Rightarrow> ins list" where
  "interrupt_asm interrupt_vector =
     [MOVI 13 INT_STACK_ADDR, SUBI 14 14 4, STM DB 13 (r0_r12 @ [14]) True, MOV 0 14, BL interrupt_vector]"

definition interrupt_asm_ret :: "ins list" where
  "interrupt_asm_ret = [LDM 13 (r0_r12 @ [14]) True, MOVS_PC 14]"

definition software_interrupt_asm :: "u32 \<Rightarrow> ins list" where
  "software_interrupt_asm syscall_vector =
     [STM DB 13 [1, 2, 3, 4, 5, 6, 7, 8, 9, 10, 11, 12, 14] True, MOV 1 0, SUBI 0 14 4, BL syscall_vector]"

definition software_interrupt_asm_ret :: "ins list" where
  "software_interrupt_asm_ret = [LDM 13 [1, 2, 3, 4, 5, 6, 7, 8, 9, 10, 11, 12, 14] True, MOVS_PC 14]"

definition syscall_hello :: "ins list" where
  "syscall_hello = [STM DB 13 [14] True, SWI]"

definition syscall_hello_ret :: "ins list" where
  "syscall_hello_ret = [LDM 13 [14] True, BX 14]"

definition run_user_code_asm :: "ins list" where
  "run_user_code_asm = [MSRI All_fc 0x90, MOVI 2 0, FLUSH 2, MOV 13 1, BLX 0]"

definition sys_plus1_handler :: "ins list" where
  "sys_plus1_handler = [ADDI 0 0 1, MOVS_PC 14]"

definition get_super_lr :: "ins list" where
  "get_super_lr = [MRS 1, MSRI Control SUPER_MODE, MOV 0 14, MSR Control 1, BX 14]"

definition store_shadow_lr :: "ins list" where
  "store_shadow_lr = [STMU IA 0 [14], BX 14]"

subsection \<open>Start and user programs\<close>

definition start_asm :: "u32 \<Rightarrow> ins list" where
  "start_asm cstart =
     [MOVI 0 SUPER_MODE, ORRI 0 0 0x80, MSR All_fc 0, MOVI 1 0, FLUSH 1, MOVI 13 STACK_ADDR, MOVI 11 0, BL cstart]"

definition mov_ident :: "ins list" where
  "mov_ident = map (\<lambda>i. MOVI i (of_nat i)) [0..<15] @ [SWI]"

definition sys_equiv_exit :: "ins list" where
  "sys_equiv_exit = [MOVI 0 0, SWI]"

definition sys_equiv_putc :: "ins list" where
  "sys_equiv_putc = [STM DB 13 [14] True, MOV 1 0, MOVI 0 1, SWI]"

subsection \<open>The notes on mode bugs\<close>

definition switch_to_system_bug1 :: "ins list" where
  "switch_to_system_bug1 = [MOVI 1 0x1F, ORRI 1 1 0x80, MSR All_fc 1, MOVI 1 0, FLUSH 1, BX 14]"

definition switch_to_system_bug2 :: "ins list" where
  "switch_to_system_bug2 = [MOV 0 14, MOVI 1 0x1F, ORRI 1 1 0x80, MSR All_fc 1, MOVI 1 0, FLUSH 1, BLX 0]"

definition switch_to_system_w_stack :: "ins list" where
  "switch_to_system_w_stack = [MOV 1 14, MSRI All_fc 0x9F, MOVI 2 0, FLUSH 2, MOV 13 0, BLX 1]"

definition run_fn_at_system :: "ins list" where
  "run_fn_at_system = [MSRI All_fc 0x9F, MOVI 2 0, FLUSH 2, MOV 13 1, BLX 0]"

subsection \<open>Stack routines of lab 6\<close>

definition push_one :: "ins list" where
  "push_one = [MOV 2 13, MOV 13 0, STM DB 13 [1] True, MOV 0 13, MOV 13 2, BX 14]"

definition push_two :: "ins list" where
  "push_two = [MOV 3 13, MOV 13 0, STM DB 13 [1, 2] True, MOV 0 13, MOV 13 3, BX 14]"

definition ident_set :: "ins list" where
  "ident_set = map (\<lambda>i. MOVI i (of_nat i)) [4..<13]"

definition push_r4_r12_asm :: "ins list" where
  "push_r4_r12_asm =
     [STM DB 13 [4, 5, 6, 7, 8, 9, 10, 11, 12] True, MOV 1 13, MOV 13 0] @ ident_set @
     [STM DB 13 [4, 5, 6, 7, 8, 9, 10, 11, 12] True, MOV 0 13, MOV 13 1,
      LDM 13 [4, 5, 6, 7, 8, 9, 10, 11, 12] True, BX 14]"

definition write_regs_to_stack :: "u32 \<Rightarrow> ins list" where
  "write_regs_to_stack after_writing_regs =
     map (\<lambda>i. MOVI i (of_nat i)) [4..<12] @
     [MOVI 14 14, STM DB 13 [4, 5, 6, 7, 8, 9, 10, 11, 14] True, STRW 13 0 0, MOV 0 13, BL after_writing_regs]"

end
