(* ===== verification/Traps.thy ===== *)
theory Traps
  imports Modes
begin

text \<open>
  Taking a full exception and switching to a register set, of lab 14 (\<open>full-except-asm.S\<close>, \<open>switchto-asm.S\<close>): the
  trampolines that save the registers for the C handlers, the switches to user and privileged register sets and the
  voluntary context switch.  \<open>DebugHw\<close> holds the C code on both sides; here the assembly is shown to do what that model
  takes it to do.
\<close>

abbreviation r0_r14 :: "nat list" where "r0_r14 \<equiv> r0_r12 @ [13, 14]"

subsection \<open>Trampolines\<close>

definition full_save :: "u32 \<Rightarrow> u32 \<Rightarrow> ins list" where
  "full_save offset fn =
     [MOVI 13 INT_STACK_ADDR, SUBI 14 14 offset, SUBI 13 13 16, STM DB 13 r0_r12 True, MOVI 13 INT_STACK_ADDR,
      MRS_SPSR 1, STM DB 13 [1] True, STM DB 13 [14] True, STMU DB 13 [13, 14], SUBI 13 13 8, SUBI 13 13 52,
      MOV 0 13, MOV 2 14, BL fn]"

definition prefetch_handler_full :: "u32 \<Rightarrow> ins list" where
  "prefetch_handler_full fn = full_save 4 fn"

definition data_abort_full :: "u32 \<Rightarrow> ins list" where
  "data_abort_full fn = full_save 8 fn"

definition syscall_full :: "u32 \<Rightarrow> ins list" where
  "syscall_full fn =
     [MOVI 13 INT_STACK_ADDR, MRS_SPSR 1, STM DB 13 [1] True, STM DB 13 [14] True, STMU DB 13 [13, 14], SUBI 13 13 8,
      STMU DB 13 r0_r12, SUBI 13 13 52, MOV 0 13, MOV 2 14, BL fn]"

text \<open>\<open>MK_TRAMPOLINE\<close>, cut at the call.\<close>

definition trampoline :: "u32 \<Rightarrow> u32 \<Rightarrow> ins list" where
  "trampoline offset fn =
     [SUBI 14 14 offset, MOVI 13 INT_STACK_ADDR, STM DB 13 (r0_r12 @ [14]) True, MOV 0 14, BL fn]"

definition trampoline_ret :: "ins list" where
  "trampoline_ret = [LDM 13 (r0_r12 @ [14]) True, MOVS_PC 14]"

definition syscall_trampoline :: "ins list" where
  "syscall_trampoline = [STM DB 13 [14] True, SWI]"

definition syscall_trampoline_ret :: "ins list" where
  "syscall_trampoline_ret = [LDM 13 [14] True, BX 14]"

subsection \<open>Switches\<close>

definition priv_get_sp_lr_asm :: "ins list" where
  "priv_get_sp_lr_asm =
     [MRS 3, BICI 12 3 0x1F, ANDI 0 0 0x1F, ORR 12 12 0, MSR All_fc 12, STRW 13 1 0, STRW 14 2 0, MSR Control 3, BX 14]"

definition switchto_priv_asm :: "ins list" where
  "switchto_priv_asm = [LDRW 1 0 64, MSR All_fc 1, LDM_PC 0 r0_r14]"

definition cswitch_save :: "u32 \<Rightarrow> ins list" where
  "cswitch_save target = [STM IA 0 r0_r14 False, STRW 14 0 60, MRS 2, STRW 2 0 64, MOV 0 1, BL target]"

definition cswitchto_priv_asm :: "u32 \<Rightarrow> arm \<Rightarrow> arm res" where
  "cswitchto_priv_asm l s = bnd (arun (cswitch_save l) s) (arun switchto_priv_asm)"

definition cswitchto_user_asm :: "u32 \<Rightarrow> arm \<Rightarrow> arm res" where
  "cswitchto_user_asm l s = bnd (arun (cswitch_save l) s) (arun switchto_user_asm)"

subsection \<open>Register sets\<close>

text \<open>The registers of the running code, as \<open>regs_t\<close> holds them.\<close>

definition ctx :: "arm \<Rightarrow> regs_t" where
  "ctx s = map (rd s) r0_r14 @ [pcr s, psr s]"

text \<open>The block the trampolines build at the top of the interrupt stack.\<close>

definition SAVE_BASE :: u32 where "SAVE_BASE = INT_STACK_ADDR - 68"

definition outside :: "u32 \<Rightarrow> bool" where
  "outside q \<longleftrightarrow> q < SAVE_BASE \<or> INT_STACK_ADDR \<le> q"

lemma full_save_runs:
  assumes b: "mode_bank (psr t) = b" and h: "b \<in> {Abt, Svc}"
  shows "\<exists>t'. arun (full_save offset fn) t = Inr t' \<and> pcr t' = fn \<and> psr t' = psr t \<and>
    rd t' 0 = SAVE_BASE \<and> rd t' 1 = saved_psr t b \<and> rd t' 2 = gpr t (b, 14) - offset \<and>
    ldm (ram t') SAVE_BASE 17 = map (\<lambda>i. gpr t (Usr, i)) r0_r14 @ [gpr t (b, 14) - offset, saved_psr t b] \<and>
    (\<forall>q. outside q \<longrightarrow> ram t' q = ram t q) \<and>
    (\<forall>x. x \<notin> {(Usr, 0), (Usr, 1), (Usr, 2), (b, 13), (b, 14)} \<longrightarrow> gpr t' x = gpr t x)"
proof -
  have "b \<noteq> Fiq" "b \<noteq> Usr" "has_spsr (psr t)" using h b by (auto simp: has_spsr_def)
  then show ?thesis
    unfolding full_save_def
    by (simp add: b INT_STACK_ADDR_def SAVE_BASE_def outside_def arm_simps)
qed

lemma syscall_full_runs:
  assumes b: "mode_bank (psr t) = Svc"
  shows "\<exists>t'. arun (syscall_full fn) t = Inr t' \<and> pcr t' = fn \<and> psr t' = psr t \<and>
    rd t' 0 = SAVE_BASE \<and> rd t' 1 = saved_psr t Svc \<and> rd t' 2 = gpr t (Svc, 14) \<and>
    ldm (ram t') SAVE_BASE 17 =
      (map (\<lambda>i. gpr t (Usr, i)) r0_r14 @ [gpr t (Svc, 14), saved_psr t Svc])[1 := saved_psr t Svc] \<and>
    (\<forall>q. outside q \<longrightarrow> ram t' q = ram t q) \<and>
    (\<forall>x. x \<notin> {(Usr, 0), (Usr, 1), (Usr, 2), (Svc, 13), (Svc, 14)} \<longrightarrow> gpr t' x = gpr t x)"
proof -
  have "has_spsr (psr t)" using b by (auto simp: has_spsr_def)
  then show ?thesis
    unfolding syscall_full_def
    by (simp add: b INT_STACK_ADDR_def SAVE_BASE_def outside_def arm_simps)
qed

subsection \<open>Switching to a register set\<close>

lemma block_words:
  "ldm m p 17 = [m p, m (p + 4), m (p + 8), m (p + 12), m (p + 16), m (p + 20), m (p + 24), m (p + 28), m (p + 32),
    m (p + 36), m (p + 40), m (p + 44), m (p + 48), m (p + 52), m (p + 56), m (p + 60), m (p + 64)]"
  by (simp add: ldm_numeral ac_simps)

lemma switchto_user_runs:
  assumes "has_spsr (psr s)" and "rd s 0 = p" and "p AND 3 = 0" and "r = ldm (ram s) p 17"
    and "r ! 16 AND 31 \<in> {USER_MODE, SYS_MODE}"
  shows "\<exists>s'. arun switchto_user_asm s = Inr s' \<and> ctx s' = r \<and> ram s' = ram s \<and> saved_psr s' = saved_psr s \<and>
    (\<forall>b i. b \<noteq> Usr \<longrightarrow> (b, i) \<noteq> (mode_bank (psr s), 13) \<longrightarrow> gpr s' (b, i) = gpr s (b, i))"
proof -
  have m: "mode_bank (r ! 16) = Usr" "valid_mode (r ! 16)"
    using assms(5) by (auto simp: mode_bank_def valid_mode_def modes_def mode_defs)
  have u: "\<not> user_mode (psr s)" "mode_bank (psr s) \<noteq> Usr"
    using assms(1) has_spsr_not_user by (auto simp: has_spsr_def)
  have "(p + 60) AND 3 = 0"
    using assms(3) by (intro aligned_add) auto
  then show ?thesis
    using assms(1-4) m u unfolding switchto_user_asm_def by (simp add: ctx_def arm_simps block_words add.assoc)
qed

text \<open>From user or system mode the load of user registers is unpredictable.\<close>

lemma switchto_user_needs_bank: "rd s 0 AND 3 = 0 \<Longrightarrow> \<not> has_spsr (psr s) \<Longrightarrow> arun switchto_user_asm s = unpredictable"
  by (simp add: switchto_user_asm_def unpredictable_def has_spsr_def nxt_pc_def wr_def)

text \<open>A privileged register set: the status register is written by \<open>msr\<close>, which leaves the bits outside the masks.\<close>

definition arm_state :: "u32 \<Rightarrow> bool" where
  "arm_state p \<longleftrightarrow> p AND 0x07F0FC20 = 0"

lemma arm_stateD: "arm_state p \<Longrightarrow> p AND 0x06F0FC00 = 0 \<and> p AND 0x01000020 = 0 \<and> p AND 0x20 = 0"
  unfolding arm_state_def by (auto elim: and_sub)

lemma switchto_priv_runs:
  assumes "\<not> user_mode (psr s)" and "arm_state (psr s)" and "rd s 0 = p" and "p AND 3 = 0" and "r = ldm (ram s) p 17"
    and "valid_mode (r ! 16)" and "arm_state (r ! 16)" and "r ! 15 AND 3 = 0"
  shows "\<exists>s'. arun switchto_priv_asm s = Inr s' \<and> ctx s' = r[16 := merge 0xF80000DF (r ! 16) (psr s)] \<and> ram s' = ram s \<and>
    saved_psr s' = saved_psr s"
proof -
  have st: "r ! 16 AND 0x06F0FC00 = 0" "r ! 16 AND 0x01000020 = 0"
    using arm_stateD [OF assms(7)] by auto
  have m: "\<And>v q. mode_bank (merge 0xF80000DF v q) = mode_bank v" "\<And>v q. valid_mode (merge 0xF80000DF v q) = valid_mode v"
    by (simp_all add: mode_merge)
  have t: "merge 0xF80000DF v (psr s) AND 0x20 = 0" for v
    using arm_stateD [OF assms(2)] by (simp add: merge_and_out)
  have "(p + 64) AND 3 = 0"
    using assms(4) by (intro aligned_add) auto
  then show ?thesis
    using assms(1,3-6,8) st unfolding switchto_priv_asm_def
    by (simp add: ctx_def arm_simps block_words msr_def msr_mask_def m t branch_to_arm phys_inj add.assoc)
qed

text \<open>The voluntary switch stores the registers of the caller, with the return address as program counter.\<close>

lemma cswitch_save_runs:
  assumes "rd s 0 = p" and "rd s 1 = n" and "p AND 3 = 0"
  shows "\<exists>s'. arun (cswitch_save l) s = Inr s' \<and> psr s' = psr s \<and> rd s' 0 = n \<and> saved_psr s' = saved_psr s \<and>
    ldm (ram s') p 17 = (ctx s)[15 := rd s 14]"
proof -
  have "(p + 60) AND 3 = 0" "(p + 64) AND 3 = 0"
    using assms(3) by (auto intro!: aligned_add)
  then show ?thesis
    using assms unfolding cswitch_save_def by (simp add: ctx_def arm_simps block_words add.assoc)
qed

subsection \<open>Reading the banked registers of a mode\<close>

lemma merge_arm_state: "arm_state p \<Longrightarrow> m AND 0x07F0FC20 = 0 \<Longrightarrow> arm_state (merge m v p)"
  by (simp add: arm_state_def merge_and_out)

lemma priv_get_sp_lr_runs:
  assumes s: "\<not> user_mode (psr s)" "arm_state (psr s)" and m: "rd s 0 = m" "valid_mode m" "\<not> user_mode m"
    and b: "mode_bank (psr s) \<noteq> Fiq" "valid_mode (psr s)"
    and p: "rd s 1 = sp" "rd s 2 = lr" "sp AND 3 = 0" "lr AND 3 = 0" and ret: "rd s 14 AND 3 = 0"
  shows "\<exists>s'. arun priv_get_sp_lr_asm s = Inr s' \<and> psr s' = psr s \<and> pcr s' = rd s 14 \<and> saved_psr s' = saved_psr s \<and>
    ram s' = (ram s)(sp := gpr s (mode_bank m, 13), lr := gpr s (mode_bank m, 14)) \<and>
    (\<forall>x. x \<notin> {(Usr, 0), (Usr, 3), (Usr, 12)} \<longrightarrow> gpr s' x = gpr s x)"
proof -
  let ?v = "merge 31 m (psr s)"
  have v: "(psr s AND - 32) OR (m AND 31) = ?v"
    by (simp add: merge_def)
  have "arm_state ?v"
    using s(2) by (rule merge_arm_state) simp
  then have a: "?v AND 0x06F0FC00 = 0" "?v AND 0x01000020 = 0"
    using arm_stateD by auto
  have mm: "mode_bank (merge 0xF80000DF w q) = mode_bank w" "valid_mode (merge 0xF80000DF w q) = valid_mode w"
      "user_mode (merge 0xF80000DF w q) = user_mode w" "mode_bank (merge 31 w q) = mode_bank w"
      "valid_mode (merge 31 w q) = valid_mode w" "user_mode (merge 31 w q) = user_mode w" for w q
    by (simp_all add: mode_merge)
  have r: "merge 0xDF (psr s) (merge 0xF80000DF ?v (psr s)) = psr s"
    by (rule merge_restore) (simp add: merge_and_out)
  show ?thesis
    using assms a arm_stateD [OF s(2)] unfolding priv_get_sp_lr_asm_def
    by (simp add: arm_simps v msr_def msr_mask_def mm r branch_to_arm)
qed

subsection \<open>Interrupts\<close>

text \<open>What a C function does that is called with \<open>bl\<close> and keeps the calling convention: it returns, in the same mode, may
  change the flags, r0 to r3, r12 and lr, and leaves the stack from sp up to \<open>lim\<close> alone.\<close>

definition c_returns :: "u32 \<Rightarrow> arm \<Rightarrow> arm \<Rightarrow> bool" where
  "c_returns lim s s' \<longleftrightarrow>
     pcr s' = rd s 14 \<and> psr s' AND 0x07FFFFFF = psr s AND 0x07FFFFFF \<and> saved_psr s' = saved_psr s \<and>
     (\<forall>x. x \<notin> {(Usr, 0), (Usr, 1), (Usr, 2), (Usr, 3), reg_name s 12, reg_name s 14} \<longrightarrow> gpr s' x = gpr s x) \<and>
     (\<forall>q. rd s 13 \<le> q \<longrightarrow> q < lim \<longrightarrow> ram s' q = ram s q)"

definition c_function :: "u32 \<Rightarrow> (arm \<Rightarrow> arm res) \<Rightarrow> bool" where
  "c_function lim f \<longleftrightarrow> (\<forall>s. \<exists>s'. f s = Inr s' \<and> c_returns lim s s')"

lemma c_returns_mode: "c_returns lim s s' \<Longrightarrow> mode_bank (psr s') = mode_bank (psr s)"
proof -
  assume "c_returns lim s s'"
  then have "psr s' AND 0x07FFFFFF = psr s AND 0x07FFFFFF"
    by (simp add: c_returns_def)
  then have "(psr s' AND 0x07FFFFFF) AND 31 = (psr s AND 0x07FFFFFF) AND 31"
    by simp
  then show ?thesis
    by (intro mode_bank_cong) (simp add: and.assoc)
qed

lemma interrupt_in:
  assumes b: "mode_bank (psr t) = b" and "b \<notin> {Usr, Fiq}"
    and code: "code \<in> {[SUBI 14 14 offset, MOVI 13 INT_STACK_ADDR], [MOVI 13 INT_STACK_ADDR, SUBI 14 14 offset]}"
  shows "\<exists>t'. arun (code @ [STM DB 13 (r0_r12 @ [14]) True, MOV 0 14, BL fn]) t = Inr t' \<and> psr t' = psr t \<and>
    saved_psr t' = saved_psr t \<and> rd t' 13 = INT_STACK_ADDR - 56 \<and>
    ldm (ram t') (INT_STACK_ADDR - 56) 14 = map (\<lambda>i. gpr t (Usr, i)) r0_r12 @ [gpr t (b, 14) - offset] \<and>
    (\<forall>x. x \<notin> {(Usr, 0), (b, 13), (b, 14)} \<longrightarrow> gpr t' x = gpr t x)"
  using assms(2) code by (elim insertE) (simp_all add: b INT_STACK_ADDR_def arm_simps)

lemma interrupt_ret:
  assumes b: "mode_bank (psr t) = b" "b \<notin> {Usr, Fiq}" and v: "valid_mode (saved_psr t b)" and sp: "rd t 13 = p" "p AND 3 = 0"
    and ws: "ldm (ram t) p 14 = ws"
  shows "\<exists>t'. arun [LDM 13 (r0_r12 @ [14]) True, MOVS_PC 14] t = Inr t' \<and> psr t' = saved_psr t b \<and> pcr t' = ws ! 13 \<and>
    map (\<lambda>i. gpr t' (Usr, i)) r0_r12 = take 13 ws \<and> ram t' = ram t \<and>
    (\<forall>x. x \<notin> set (map (Pair Usr) r0_r12) \<union> {(b, 13), (b, 14)} \<longrightarrow> gpr t' x = gpr t x)"
proof -
  have ww: "ws = [ram t p, ram t (p+4), ram t (p+8), ram t (p+12), ram t (p+16), ram t (p+20), ram t (p+24), ram t (p+28),
    ram t (p+32), ram t (p+36), ram t (p+40), ram t (p+44), ram t (p+48), ram t (p+52)]"
    using ws by (simp add: ldm_numeral add.assoc)
  have h: "has_spsr (psr t)" using b by (auto simp: has_spsr_def)
  show ?thesis
    using b(2) v sp h unfolding ww by (simp add: arm_simps b(1) add.assoc)
qed

lemma take_exn_facts:
  "mode_bank (psr (take_exn e s)) = mode_bank (exn_mode e)" "saved_psr (take_exn e s) (mode_bank (exn_mode e)) = psr s"
  "gpr (take_exn e s) (mode_bank (exn_mode e), 14) = pcr s + (if e = Data_ab then 8 else 4)" "ram (take_exn e s) = ram s"
  "x \<noteq> (mode_bank (exn_mode e), 14) \<Longrightarrow> gpr (take_exn e s) x = gpr s x"
  by (cases e; simp add: take_exn_def Let_def mode_merge; simp add: mode_bank_def mode_defs)+

lemma exn_bank: "mode_bank (exn_mode e) \<notin> {Usr, Fiq}"
  by (cases e) (simp_all add: mode_bank_def mode_defs)

lemma interrupt_round:
  assumes code: "code \<in> {[SUBI 14 14 4, MOVI 13 INT_STACK_ADDR], [MOVI 13 INT_STACK_ADDR, SUBI 14 14 4]}"
    and s: "valid_mode (psr s)" "mode_bank (psr s) \<noteq> mode_bank (exn_mode e)" "e \<noteq> Data_ab"
    and f: "c_function INT_STACK_ADDR f"
  shows "\<exists>s'. bnd (arun (code @ [STM DB 13 (r0_r12 @ [14]) True, MOV 0 14, BL fn]) (take_exn e s)) (\<lambda>t. bnd (f t)
      (arun [LDM 13 (r0_r12 @ [14]) True, MOVS_PC 14])) = Inr s' \<and>
    psr s' = psr s \<and> pcr s' = pcr s \<and> ctx s' = ctx s \<and>
    (\<forall>x. x \<notin> {(mode_bank (exn_mode e), 13), (mode_bank (exn_mode e), 14)} \<longrightarrow> gpr s' x = gpr s x)"
proof -
  let ?b = "mode_bank (exn_mode e)" and ?t = "take_exn e s"
  note t = take_exn_facts [where e = e and s = s] and b = exn_bank [of e]
  obtain t1 where t1: "arun (code @ [STM DB 13 (r0_r12 @ [14]) True, MOV 0 14, BL fn]) ?t = Inr t1" "psr t1 = psr ?t"
    "saved_psr t1 = saved_psr ?t" "rd t1 13 = INT_STACK_ADDR - 56"
    "ldm (ram t1) (INT_STACK_ADDR - 56) 14 = map (\<lambda>i. gpr ?t (Usr, i)) r0_r12 @ [gpr ?t (?b, 14) - 4]"
    "\<forall>x. x \<notin> {(Usr, 0), (?b, 13), (?b, 14)} \<longrightarrow> gpr t1 x = gpr ?t x"
    using interrupt_in [OF t(1) b code] by blast
  obtain t2 where t2: "f t1 = Inr t2" "c_returns INT_STACK_ADDR t1 t2"
    using f by (auto simp: c_function_def)
  have m1: "mode_bank (psr t1) = ?b" using t1(2) t(1) by simp
  then have m2: "mode_bank (psr t2) = ?b" using c_returns_mode [OF t2(2)] by simp
  have g2: "x \<notin> {(Usr, 0), (Usr, 1), (Usr, 2), (Usr, 3), (Usr, 12), (?b, 14)} \<Longrightarrow> gpr t2 x = gpr t1 x" for x
    using t2(2) b m1 by (cases x) (simp add: c_returns_def)
  have "rd t2 13 = INT_STACK_ADDR - 56"
    using t1(4) g2 [of "(?b, 13)"] b by (simp add: rd_def m1 m2)
  moreover have "ram t2 q = ram t1 q" if "INT_STACK_ADDR - 56 \<le> q" "q < INT_STACK_ADDR" for q
    using t2(2) t1(4) that by (simp add: c_returns_def)
  then have "ldm (ram t2) (INT_STACK_ADDR - 56) 14 = ldm (ram t1) (INT_STACK_ADDR - 56) 14"
    by (intro ldm_cong) (simp_all add: word_le_nat_alt word_less_nat_alt INT_STACK_ADDR_def)
  moreover have sv: "saved_psr t2 ?b = psr s"
    using t2(2) t1(3) t(2) by (simp add: c_returns_def)
  ultimately obtain s' where s': "arun [LDM 13 (r0_r12 @ [14]) True, MOVS_PC 14] t2 = Inr s'" "psr s' = psr s"
    "pcr s' = ldm (ram t1) (INT_STACK_ADDR - 56) 14 ! 13"
    "map (\<lambda>i. gpr s' (Usr, i)) r0_r12 = take 13 (ldm (ram t1) (INT_STACK_ADDR - 56) 14)"
    "\<forall>x. x \<notin> set (map (Pair Usr) r0_r12) \<union> {(?b, 13), (?b, 14)} \<longrightarrow> gpr s' x = gpr t2 x"
    using interrupt_ret [OF m2 b, of "INT_STACK_ADDR - 56" "ldm (ram t1) (INT_STACK_ADDR - 56) 14"] s(1)
    by (auto simp: INT_STACK_ADDR_def)
  have pc: "pcr s' = pcr s"
    using s'(3) t(3) s(3) unfolding t1(5) by (simp add: nth_append)
  have "map (\<lambda>i. gpr s' (Usr, i)) r0_r12 = map (\<lambda>i. gpr ?t (Usr, i)) r0_r12"
    using s'(4) unfolding t1(5) by simp
  then have low: "gpr s' x = gpr s x" if "x \<in> set (map (Pair Usr) r0_r12)" for x
    using that t(5) b by auto
  have all: "gpr s' x = gpr s x" if "x \<notin> {(?b, 13), (?b, 14)}" for x
  proof (cases "x \<in> set (map (Pair Usr) r0_r12)")
    case False
    have "gpr s' x = gpr t2 x" using s'(5) that False by blast
    also have "... = gpr t1 x" using that False by (intro g2) auto
    also have "... = gpr ?t x" using t1(6) [rule_format, of x] that False by force
    finally show ?thesis using t(5) that by simp
  qed (rule low)
  then have "rd s' i = rd s i" for i
    using s(2) by (auto simp: rd_def s'(2) phys_def)
  then have "ctx s' = ctx s"
    using pc s'(2) by (simp add: ctx_def)
  then show ?thesis
    using t1(1) t2(1) s'(1,2) pc all by simp
qed

subsection \<open>Properties of the trampolines\<close>

text \<open>Interrupt handling of labs 5 and 9, and of the generic trampolines of lab 14, around the C function \<open>f\<close>.\<close>

definition handle_interrupt :: "u32 \<Rightarrow> (arm \<Rightarrow> arm res) \<Rightarrow> arm \<Rightarrow> arm res" where
  "handle_interrupt fn f s =
     bnd (arun (interrupt_asm fn) (take_exn Irq_int s)) (\<lambda>t. bnd (f t) (arun interrupt_asm_ret))"

definition handle_generic :: "exception \<Rightarrow> u32 \<Rightarrow> (arm \<Rightarrow> arm res) \<Rightarrow> arm \<Rightarrow> arm res" where
  "handle_generic e fn f s = bnd (arun (trampoline 4 fn) (take_exn e s)) (\<lambda>t. bnd (f t) (arun trampoline_ret))"

lemma handle_generic_transparent:
  assumes "valid_mode (psr s)" and "mode_bank (psr s) \<noteq> mode_bank (exn_mode e)" and "e \<noteq> Data_ab"
    and "c_function INT_STACK_ADDR f"
  shows "\<exists>s'. handle_generic e fn f s = Inr s' \<and> psr s' = psr s \<and> pcr s' = pcr s \<and> ctx s' = ctx s \<and>
    (\<forall>x. x \<notin> {(mode_bank (exn_mode e), 13), (mode_bank (exn_mode e), 14)} \<longrightarrow> gpr s' x = gpr s x)"
  using interrupt_round [of "[SUBI 14 14 4, MOVI 13 INT_STACK_ADDR]" s e f fn] assms
  by (simp add: handle_generic_def trampoline_def trampoline_ret_def)

text \<open>C5: An interrupt is invisible to the code it interrupts: in whatever mode but IRQ mode the processor is, after the
  trampoline of labs 5 and 9, a handler in C that keeps the calling convention and the return, the program counter, the
  status register with its flags and mode, and every register of every mode are what they were, except for the stack
  pointer and link register of IRQ mode itself.\<close>

theorem interrupt_transparent:
  assumes "valid_mode (psr s)" and "mode_bank (psr s) \<noteq> Irq" and "c_function INT_STACK_ADDR f"
  shows "\<exists>s'. handle_interrupt fn f s = Inr s' \<and> psr s' = psr s \<and> pcr s' = pcr s \<and> ctx s' = ctx s \<and>
    (\<forall>x. x \<notin> {(Irq, 13), (Irq, 14)} \<longrightarrow> gpr s' x = gpr s x)"
proof -
  have "mode_bank IRQ_MODE = Irq"
    by (simp add: mode_bank_def mode_defs)
  then show ?thesis
    using interrupt_round [of "[MOVI 13 INT_STACK_ADDR, SUBI 14 14 4]" s Irq_int f fn] assms
    by (simp add: handle_interrupt_def interrupt_asm_def interrupt_asm_ret_def)
qed

text \<open>A processor in user mode with the numbers of its registers in them, and a C function that trashes what it may.\<close>

definition ex_arm :: arm where
  "ex_arm = \<lparr>gpr = (\<lambda>(b, i). of_nat i), psr = 0x10, saved_psr = (\<lambda>_. 0), pcr = 0x8000, vbar = 0, ram = (\<lambda>_. 0)\<rparr>"

definition trash :: "arm \<Rightarrow> arm res" where
  "trash s = Inr (wr 14 1 (wr 12 1 (wr 3 1 (wr 2 1 (wr 1 1 (wr 0 1 (s\<lparr>pcr := rd s 14\<rparr>)))))))"

lemma trash_c_function: "c_function lim trash"
  by (auto simp: c_function_def c_returns_def trash_def wr_def)

theorem interrupt_transparent_witness:
  "\<exists>s'. handle_interrupt 0x9000 trash ex_arm = Inr s' \<and> pcr s' = 0x8000 \<and> ctx s' = ctx ex_arm \<and> gpr s' (Usr, 3) = 3"
  using interrupt_transparent [of ex_arm trash "0x9000"] trash_c_function
  by (auto simp: ex_arm_def valid_mode_def modes_def mode_bank_def mode_defs)


subsection \<open>Full exceptions\<close>

fun exception_of :: "exn \<Rightarrow> exception" where
  "exception_of Prefetch_abort = Prefetch_ab"
| "exception_of Data_abort = Data_ab"
| "exception_of Swi = Software_int"

text \<open>The vector table \<open>full_except_ints\<close>; \<open>fn\<close> is the C function the entry calls.\<close>

fun handler_code :: "exn \<Rightarrow> u32 \<Rightarrow> ins list" where
  "handler_code Prefetch_abort fn = prefetch_handler_full fn"
| "handler_code Data_abort fn = data_abort_full fn"
| "handler_code Swi fn = syscall_full fn"

text \<open>The registers at the exception: the program counter is the faulting instruction, for a system call the next one.\<close>

definition exn_ctx :: "exn \<Rightarrow> arm \<Rightarrow> regs_t" where
  "exn_ctx e s = (ctx s)[15 := pcr s + (if e = Swi then 4 else 0)]"

lemma user_ctx:
  "user_mode (psr s) \<Longrightarrow> exn_ctx e s = map (\<lambda>i. gpr s (Usr, i)) r0_r14 @ [pcr s + (if e = Swi then 4 else 0), psr s]"
  by (simp add: exn_ctx_def ctx_def rd_def user_mode_bank list_update_append)

definition handler_entered :: "exn \<Rightarrow> u32 \<Rightarrow> arm \<Rightarrow> arm \<Rightarrow> bool" where
  "handler_entered e fn s t \<longleftrightarrow> pcr t = fn \<and>
    rd t 0 = SAVE_BASE \<and> rd t 1 = exn_ctx e s ! REGS_CPSR \<and> rd t 2 = exn_ctx e s ! REGS_PC \<and>
    ldm (ram t) SAVE_BASE 17 = saved_regs e (exn_ctx e s) \<and> (\<forall>q. outside q \<longrightarrow> ram t q = ram s q) \<and>
    (\<forall>i. i \<notin> {0, 1, 2} \<longrightarrow> gpr t (Usr, i) = gpr s (Usr, i)) \<and> has_spsr (psr t)"

lemma abort_saves:
  assumes "user_mode (psr s)" and e: "e \<noteq> Swi"
  shows "\<exists>t. arun (handler_code e fn) (take_exn (exception_of e) s) = Inr t \<and> handler_entered e fn s t"
proof -
  let ?x = "take_exn (exception_of e) s" and ?d = "if e = Data_abort then 8 else 4 :: u32"
  note t = take_exn_facts [where e = "exception_of e" and s = s]
  have m: "mode_bank (exn_mode (exception_of e)) = Abt"
    using e by (cases e) (simp_all add: mode_bank_def mode_defs)
  have c: "handler_code e fn = full_save ?d fn" and o: "gpr ?x (Abt, 14) - ?d = pcr s"
    using e t(3) m by (cases e; simp add: prefetch_handler_full_def data_abort_full_def)+
  obtain t' where "arun (full_save ?d fn) ?x = Inr t'" "pcr t' = fn" "psr t' = psr ?x" "rd t' 0 = SAVE_BASE"
    "rd t' 1 = saved_psr ?x Abt" "rd t' 2 = gpr ?x (Abt, 14) - ?d"
    "ldm (ram t') SAVE_BASE 17 = map (\<lambda>i. gpr ?x (Usr, i)) r0_r14 @ [gpr ?x (Abt, 14) - ?d, saved_psr ?x Abt]"
    "\<forall>q. outside q \<longrightarrow> ram t' q = ram ?x q"
    "\<forall>y. y \<notin> {(Usr, 0), (Usr, 1), (Usr, 2), (Abt, 13), (Abt, 14)} \<longrightarrow> gpr t' y = gpr ?x y"
    using full_save_runs [of ?x Abt ?d fn] t(1) m by auto
  moreover have "has_spsr (psr ?x)" "saved_regs e r = r" for r
    using t(1) m e by (simp_all add: has_spsr_def saved_regs_def)
  ultimately show ?thesis
    unfolding c handler_entered_def user_ctx [OF assms(1)] o using t(2,4,5) m e by (auto simp: nth_append)
qed

lemma syscall_saves:
  assumes "user_mode (psr s)"
  shows "\<exists>t. arun (syscall_full fn) (take_exn Software_int s) = Inr t \<and> handler_entered Swi fn s t"
proof -
  let ?x = "take_exn Software_int s"
  note t = take_exn_facts [where e = Software_int and s = s]
  have m: "mode_bank (exn_mode Software_int) = Svc"
    by (simp add: mode_bank_def mode_defs)
  have ms: "mode_bank (psr ?x) = Svc" using t(1) m by simp
  obtain t' where "arun (syscall_full fn) ?x = Inr t'" "pcr t' = fn" "psr t' = psr ?x" "rd t' 0 = SAVE_BASE"
    "rd t' 1 = saved_psr ?x Svc" "rd t' 2 = gpr ?x (Svc, 14)"
    "ldm (ram t') SAVE_BASE 17 =
       (map (\<lambda>i. gpr ?x (Usr, i)) r0_r14 @ [gpr ?x (Svc, 14), saved_psr ?x Svc])[1 := saved_psr ?x Svc]"
    "\<forall>q. outside q \<longrightarrow> ram t' q = ram ?x q"
    "\<forall>y. y \<notin> {(Usr, 0), (Usr, 1), (Usr, 2), (Svc, 13), (Svc, 14)} \<longrightarrow> gpr t' y = gpr ?x y"
    using syscall_full_runs [OF ms] by blast
  moreover have "has_spsr (psr ?x)" using ms by (simp add: has_spsr_def)
  ultimately show ?thesis
    unfolding handler_entered_def user_ctx [OF assms] using t(2-5) m by (auto simp: nth_append saved_regs_def)
qed

lemma full_except_saves_lemma:
  assumes "user_mode (psr s)"
  shows "\<exists>t. arun (handler_code e fn) (take_exn (exception_of e) s) = Inr t \<and> handler_entered e fn s t"
  using abort_saves [OF assms, of e fn] syscall_saves [OF assms, of fn] by (cases e) auto

text \<open>C9: The trampolines of the three full exceptions give the C handlers what \<open>full_except_ints\<close> of the C model gives
  them: for an exception in user mode r0 points to a block of the interrupt stack that holds the registers as they were at
  the exception, except that at a system call r1 is lost (\<open>saved_regs\<close>), r1 is the saved status register and r2 the program
  counter of the block, so the two assertions of the handlers hold; no other memory is written, no register of user mode
  but the three argument registers is changed, and the processor is in a mode from which the handlers can switch.\<close>

theorem full_except_saves:
  assumes "user_mode (psr s)"
  shows "\<exists>t. arun (handler_code e fn) (take_exn (exception_of e) s) = Inr t \<and> pcr t = fn \<and>
    rd t 0 = SAVE_BASE \<and> rd t 1 = exn_ctx e s ! REGS_CPSR \<and> rd t 2 = exn_ctx e s ! REGS_PC \<and>
    ldm (ram t) SAVE_BASE 17 = saved_regs e (exn_ctx e s) \<and> (\<forall>q. outside q \<longrightarrow> ram t q = ram s q) \<and>
    (\<forall>i. i \<notin> {0, 1, 2} \<longrightarrow> gpr t (Usr, i) = gpr s (Usr, i)) \<and> has_spsr (psr t)"
  using full_except_saves_lemma [OF assms, of e fn] unfolding handler_entered_def .


theorem full_except_saves_witness:
  "\<exists>t. arun (handler_code Swi 0x9000) (take_exn Software_int ex_arm) = Inr t \<and>
     ldm (ram t) SAVE_BASE 17 = [0, 0x10, 2, 3, 4, 5, 6, 7, 8, 9, 10, 11, 12, 13, 14, 0x8004, 0x10]"
proof -
  have u: "user_mode (psr ex_arm)"
    by (simp add: ex_arm_def user_mode_def mode_defs)
  have "exn_ctx Swi ex_arm = [0, 1, 2, 3, 4, 5, 6, 7, 8, 9, 10, 11, 12, 13, 14, 0x8004, 0x10]"
    unfolding user_ctx [OF u] by (simp add: ex_arm_def)
  then show ?thesis
    using full_except_saves [OF u, of Swi "0x9000"] by (auto simp: saved_regs_def)
qed

text \<open>C10: A handler that switches back to the block it was given resumes the interrupted user code: with the registers, the
  program counter and the status register of the exception after an abort, with r1 replaced by the status register after a
  system call; memory outside the block is what it was.\<close>

theorem full_except_resumes:
  assumes "user_mode (psr s)"
  shows "\<exists>s'. bnd (arun (handler_code e fn) (take_exn (exception_of e) s)) (arun switchto_user_asm) = Inr s' \<and>
    ctx s' = saved_regs e (exn_ctx e s) \<and> (\<forall>q. outside q \<longrightarrow> ram s' q = ram s q)"
proof -
  obtain t where t: "arun (handler_code e fn) (take_exn (exception_of e) s) = Inr t" "rd t 0 = SAVE_BASE"
    "ldm (ram t) SAVE_BASE 17 = saved_regs e (exn_ctx e s)" "\<forall>q. outside q \<longrightarrow> ram t q = ram s q" "has_spsr (psr t)"
    using full_except_saves_lemma [OF assms, of e fn] unfolding handler_entered_def by blast
  have "exn_ctx e s ! 16 AND 31 = USER_MODE"
    using assms by (simp add: exn_ctx_def ctx_def nth_append user_mode_def)
  moreover have "SAVE_BASE AND 3 = 0"
    by (simp add: SAVE_BASE_def INT_STACK_ADDR_def)
  ultimately obtain s' where "arun switchto_user_asm t = Inr s'" "ctx s' = saved_regs e (exn_ctx e s)" "ram s' = ram t"
    using switchto_user_runs [OF t(5,2) _ refl] t(3) by auto
  then show ?thesis
    using t(1,4) by auto
qed

theorem full_except_resumes_witness:
  "\<exists>s'. bnd (arun (handler_code Data_abort 0x9000) (take_exn Data_ab ex_arm)) (arun switchto_user_asm) = Inr s' \<and>
     ctx s' = [0, 1, 2, 3, 4, 5, 6, 7, 8, 9, 10, 11, 12, 13, 14, 0x8000, 0x10]"
proof -
  have u: "user_mode (psr ex_arm)"
    by (simp add: ex_arm_def user_mode_def mode_defs)
  have "exn_ctx Data_abort ex_arm = [0, 1, 2, 3, 4, 5, 6, 7, 8, 9, 10, 11, 12, 13, 14, 0x8000, 0x10]"
    unfolding user_ctx [OF u] by (simp add: ex_arm_def)
  then show ?thesis
    using full_except_resumes [OF u, of Data_abort "0x9000"] by auto
qed

subsection \<open>Voluntary switches\<close>

lemma cswitch_save_frame:
  assumes "arun (cswitch_save l) s = Inr s'" and p: "rd s 0 = p" "p AND 3 = 0" "unat p + 68 \<le> 4294967296"
    and q: "unat q < unat p \<or> unat p + 68 \<le> unat q"
  shows "ram s' q = ram s q"
proof -
  have a: "(p + 60) AND 3 = 0" "(p + 64) AND 3 = 0"
    using p(2) by (auto intro!: aligned_add)
  have n: "q \<noteq> p + k" if "unat k < 68" for k
    using unat_add_small [of p k] p(3) q that by auto
  have "q \<noteq> p" "q \<noteq> p + 60" "q \<noteq> p + 64"
    using n [of 0] n [of 60] n [of 64] by simp_all
  moreover have "unat q < unat p \<or> unat p + 4 * length (map (rd s) r0_r14) \<le> unat q"
    using q by auto
  then have "stm (ram s) p (map (rd s) r0_r14) q = ram s q"
    using p(3) by (intro stm_other) auto
  ultimately show ?thesis
    using assms(1) p a unfolding cswitch_save_def
    by (auto simp: arm_simps simp del: stm.simps list.map)
qed

lemma cswitchto_user_runs:
  assumes s: "has_spsr (psr s)" and old: "rd s 0 = old" "old AND 3 = 0" "unat old + 68 \<le> 4294967296"
    and nx: "rd s 1 = nx" "nx AND 3 = 0" "unat nx + 68 \<le> 4294967296"
    and sep: "unat old + 68 \<le> unat nx \<or> unat nx + 68 \<le> unat old" and u: "ldm (ram s) nx 17 ! 16 AND 31 = USER_MODE"
  shows "\<exists>s2. cswitchto_user_asm l s = Inr s2 \<and> ctx s2 = ldm (ram s) nx 17 \<and> ldm (ram s2) old 17 = (ctx s)[15 := rd s 14]"
proof -
  obtain s1 where s1: "arun (cswitch_save l) s = Inr s1" "psr s1 = psr s" "rd s1 0 = nx"
    "ldm (ram s1) old 17 = (ctx s)[15 := rd s 14]"
    using cswitch_save_runs [OF old(1) nx(1) old(2)] by auto
  have "ram s1 q = ram s q" if "unat nx \<le> unat q" "unat q < unat nx + 4 * 17" for q
    using that sep by (intro cswitch_save_frame [OF s1(1) old]) auto
  then have "ldm (ram s1) nx 17 = ldm (ram s) nx 17"
    using nx(3) by (intro ldm_cong) auto
  then obtain s2 where "arun switchto_user_asm s1 = Inr s2" "ctx s2 = ldm (ram s) nx 17" "ram s2 = ram s1"
    using switchto_user_runs [of s1 nx, OF _ s1(3) nx(2) refl] s u s1(2) by auto
  then show ?thesis
    using s1 by (simp add: cswitchto_user_asm_def)
qed

text \<open>C20: A voluntary switch to user code returns.  \<open>cswitchto_user_asm(old, next)\<close> leaves the processor with exactly the
  registers, program counter and user status register of \<open>next\<close>; and whenever later code in a privileged mode switches back
  to \<open>old\<close>, which still holds what was stored, execution is at the return address of the first call with every
  register the caller had; its status register is restored in all the bits that \<open>msr\<close> can write.\<close>

theorem cswitch_returns:
  assumes "has_spsr (psr s)" and "valid_mode (psr s)" and "arm_state (psr s)" and "rd s 14 AND 3 = 0"
    and "rd s 0 = old" and "old AND 3 = 0" and "unat old + 68 \<le> 4294967296"
    and "rd s 1 = nx" and "nx AND 3 = 0" and "unat nx + 68 \<le> 4294967296"
    and "unat old + 68 \<le> unat nx \<or> unat nx + 68 \<le> unat old" and "ldm (ram s) nx 17 ! 16 AND 31 = USER_MODE"
  shows "\<exists>s2. cswitchto_user_asm l s = Inr s2 \<and> ctx s2 = ldm (ram s) nx 17 \<and>
    (\<forall>t. \<not> user_mode (psr t) \<longrightarrow> arm_state (psr t) \<longrightarrow> rd t 0 = old \<longrightarrow> ldm (ram t) old 17 = ldm (ram s2) old 17 \<longrightarrow>
      (\<exists>s'. arun switchto_priv_asm t = Inr s' \<and>
         ctx s' = (ctx s)[15 := rd s 14, 16 := merge 0xF80000DF (psr s) (psr t)]))"
proof -
  obtain s2 where s2: "cswitchto_user_asm l s = Inr s2" "ctx s2 = ldm (ram s) nx 17"
    "ldm (ram s2) old 17 = (ctx s)[15 := rd s 14]"
    using cswitchto_user_runs [OF assms(1,5-12)] by blast
  have w: "(ctx s)[15 := rd s 14] ! 16 = psr s" "(ctx s)[15 := rd s 14] ! 15 = rd s 14"
    by (simp_all add: ctx_def nth_append)
  have "\<exists>s'. arun switchto_priv_asm t = Inr s' \<and> ctx s' = (ctx s)[15 := rd s 14, 16 := merge 0xF80000DF (psr s) (psr t)]"
    if t: "\<not> user_mode (psr t)" "arm_state (psr t)" "rd t 0 = old" "ldm (ram t) old 17 = ldm (ram s2) old 17" for t
    using switchto_priv_runs [OF t(1-3) assms(6), of "(ctx s)[15 := rd s 14]"] t(4) s2(3) w assms(2-4) by auto
  then show ?thesis
    using s2 by blast
qed

definition ex_priv :: arm where
  "ex_priv = ex_arm\<lparr>psr := 0x13, gpr := (gpr ex_arm)((Usr, 0) := 0x1000, (Usr, 1) := 0x2000, (Svc, 14) := 0x8100),
     ram := (ram ex_arm)(0x2040 := 0x10, 0x203C := 0x8000)\<rparr>"

theorem cswitch_returns_witness:
  "\<exists>s2 s'. cswitchto_user_asm 0x9000 ex_priv = Inr s2 \<and> ctx s2 = [0, 0, 0, 0, 0, 0, 0, 0, 0, 0, 0, 0, 0, 0, 0, 0x8000, 0x10] \<and>
     arun switchto_priv_asm ((take_exn Software_int s2)\<lparr>gpr := (gpr s2)((Usr, 0) := 0x1000)\<rparr>) = Inr s' \<and>
     ctx s' = [0x1000, 0x2000, 2, 3, 4, 5, 6, 7, 8, 9, 10, 11, 12, 13, 0x8100, 0x8100, 0x13]"
proof -
  have f: "has_spsr (psr ex_priv)" "valid_mode (psr ex_priv)" "arm_state (psr ex_priv)" "rd ex_priv 14 AND 3 = 0"
    "rd ex_priv 0 = 0x1000" "rd ex_priv 1 = 0x2000" "ldm (ram ex_priv) 0x2000 17 ! 16 AND 31 = USER_MODE"
    by (simp_all add: ex_priv_def ex_arm_def has_spsr_def valid_mode_def modes_def mode_bank_def mode_defs arm_state_def
        rd_def block_words)
  have n: "(0x1000 :: u32) AND 3 = 0" "unat (0x1000 :: u32) + 68 \<le> 4294967296" "(0x2000 :: u32) AND 3 = 0"
    "unat (0x2000 :: u32) + 68 \<le> 4294967296"
    "unat (0x1000 :: u32) + 68 \<le> unat (0x2000 :: u32) \<or> unat (0x2000 :: u32) + 68 \<le> unat (0x1000 :: u32)"
    by simp_all
  obtain s2 where s2: "cswitchto_user_asm 0x9000 ex_priv = Inr s2" "ctx s2 = ldm (ram ex_priv) 0x2000 17"
    and resume: "\<forall>t. \<not> user_mode (psr t) \<longrightarrow> arm_state (psr t) \<longrightarrow> rd t 0 = 0x1000 \<longrightarrow>
      ldm (ram t) 0x1000 17 = ldm (ram s2) 0x1000 17 \<longrightarrow>
      (\<exists>s'. arun switchto_priv_asm t = Inr s' \<and>
         ctx s' = (ctx ex_priv)[15 := rd ex_priv 14, 16 := merge 0xF80000DF (psr ex_priv) (psr t)])"
    using cswitch_returns [OF f(1-5) n(1,2) f(6) n(3-5) f(7), of "0x9000"] by (elim exE conjE)
  have c: "ctx s2 = [0, 0, 0, 0, 0, 0, 0, 0, 0, 0, 0, 0, 0, 0, 0, 0x8000, 0x10]"
    using s2(2) by (simp add: block_words ex_priv_def ex_arm_def)
  then have "psr s2 = 0x10"
    by (simp add: ctx_def)
  then have p: "psr ((take_exn Software_int s2)\<lparr>gpr := (gpr s2)((Usr, 0) := 0x1000)\<rparr>) = 0x93"
    by (simp add: take_exn_def merge_def mode_defs Let_def)
  let ?t = "(take_exn Software_int s2)\<lparr>gpr := (gpr s2)((Usr, 0) := 0x1000)\<rparr>"
  have "\<exists>s'. arun switchto_priv_asm ?t = Inr s' \<and>
      ctx s' = (ctx ex_priv)[15 := rd ex_priv 14, 16 := merge 0xF80000DF (psr ex_priv) (psr ?t)]"
    using resume [rule_format, of ?t] p take_exn_facts(4) [of Software_int s2]
    by (simp add: user_mode_def arm_state_def mode_defs rd_def)
  moreover have "(ctx ex_priv)[15 := rd ex_priv 14, 16 := merge 0xF80000DF (psr ex_priv) (psr ?t)] =
      [0x1000, 0x2000, 2, 3, 4, 5, 6, 7, 8, 9, 10, 11, 12, 13, 0x8100, 0x8100, 0x13]"
    unfolding p by (simp add: ctx_def rd_def ex_priv_def ex_arm_def mode_bank_def mode_defs merge_def)
  ultimately show ?thesis
    using s2(1) c by auto
qed

end
