(* ===== verification/Banks.thy ===== *)
theory Banks
  imports Traps
begin

text \<open>
  What the mode and stack routines of \<open>Modes\<close> do: the three ways to reach the banked registers of user mode agree, starting
  code in user mode, the system calls of labs 5 and 9, the notes on mode bugs, and the stack routines of lab 6.
\<close>

subsection \<open>Banked registers\<close>

text \<open>The routines are called from supervisor mode, in ARM state.\<close>

definition in_super :: "arm \<Rightarrow> bool" where
  "in_super s \<longleftrightarrow> psr s AND 31 = SUPER_MODE \<and> arm_state (psr s) \<and> rd s 14 AND 3 = 0"

lemma super_facts:
  assumes "in_super s"
  shows "mode_bank (psr s) = Svc" "\<not> user_mode (psr s)" "valid_mode (psr s)" "has_spsr (psr s)"
    "psr s AND 0x06F0FC00 = 0" "psr s AND 0x01000020 = 0" "psr s AND 0x20 = 0" "gpr s (Svc, 14) AND 3 = 0"
    "merge 31 SUPER_MODE (merge 31 m (psr s)) = psr s"
proof -
  have m: "psr s AND 31 = SUPER_MODE"
    using assms by (simp add: in_super_def)
  then show b: "mode_bank (psr s) = Svc" "\<not> user_mode (psr s)" "valid_mode (psr s)" "has_spsr (psr s)"
    by (simp_all add: mode_bank_def user_mode_def valid_mode_def has_spsr_def modes_def mode_defs)
  show "psr s AND 0x06F0FC00 = 0" "psr s AND 0x01000020 = 0" "psr s AND 0x20 = 0"
    using assms arm_stateD by (auto simp: in_super_def)
  show "gpr s (Svc, 14) AND 3 = 0"
    using assms b(1) by (simp add: in_super_def rd_def)
  have "(psr s AND 31) = SUPER_MODE AND 31"
    using m by (simp add: mode_defs)
  then show "merge 31 SUPER_MODE (merge 31 m (psr s)) = psr s"
    unfolding merge_def by (intro bit_eqI) (auto simp: bit_simps dest: bit_eq_iff [THEN iffD1, rule_format])
qed

lemma cps_facts:
  "mode_bank (merge 31 SYS_MODE p) = Usr" "valid_mode (merge 31 SYS_MODE p)" "\<not> user_mode (merge 31 SYS_MODE p)"
  "p AND 0x20 = 0 \<Longrightarrow> merge 31 m p AND 0x20 = 0"
  by (simp_all add: mode_merge merge_and_out) (simp_all add: mode_bank_def valid_mode_def user_mode_def modes_def mode_defs)

lemma user_sp_get_runs:
  assumes "in_super s"
  shows "\<exists>s'. arun user_sp_get s = Inr s' \<and> rd s' 0 = gpr s (Usr, 13) \<and> psr s' = psr s \<and> pcr s' = rd s 14 \<and>
    ram s' = ram s \<and> (\<forall>x. x \<notin> {(Usr, 0), (Usr, 1)} \<longrightarrow> gpr s' x = gpr s x)"
  using super_facts [OF assms] unfolding user_sp_get_def
  by (simp add: arm_simps cps_facts branch_to_arm)


lemma user_lr_get_runs:
  assumes "in_super s"
  shows "\<exists>s'. arun user_lr_get s = Inr s' \<and> rd s' 0 = gpr s (Usr, 14) \<and> psr s' = psr s \<and> pcr s' = rd s 14 \<and>
    ram s' = ram s \<and> (\<forall>x. x \<notin> {(Usr, 0), (Usr, 1)} \<longrightarrow> gpr s' x = gpr s x)"
  using super_facts [OF assms] unfolding user_lr_get_def
  by (simp add: arm_simps cps_facts branch_to_arm)

lemma user_sp_lr_set_runs:
  assumes "in_super s"
  shows "\<exists>s'. arun user_sp_set s = Inr s' \<and> gpr s' (Usr, 13) = rd s 0 \<and> psr s' = psr s \<and> pcr s' = rd s 14 \<and> ram s' = ram s \<and>
      (\<forall>x. x \<notin> {(Usr, 1), (Usr, 13)} \<longrightarrow> gpr s' x = gpr s x)"
    and "\<exists>s'. arun user_lr_set s = Inr s' \<and> gpr s' (Usr, 14) = rd s 0 \<and> psr s' = psr s \<and> pcr s' = rd s 14 \<and> ram s' = ram s \<and>
      (\<forall>x. x \<notin> {(Usr, 1), (Usr, 14)} \<longrightarrow> gpr s' x = gpr s x)"
  using super_facts [OF assms] unfolding user_sp_set_def user_lr_set_def
  by (simp_all add: arm_simps cps_facts branch_to_arm)

lemma mem_user_get_runs:
  assumes "in_super s" and "rd s 0 AND 3 = 0"
  shows "arun mem_user_sp_get s = Inr (s\<lparr>ram := (ram s)(rd s 0 := gpr s (Usr, 13)), pcr := rd s 14\<rparr>)"
    and "arun mem_user_lr_get s = Inr (s\<lparr>ram := (ram s)(rd s 0 := gpr s (Usr, 14)), pcr := rd s 14\<rparr>)"
    and "arun mem_user_sp_lr_get s =
      Inr (s\<lparr>ram := (ram s)(rd s 0 := gpr s (Usr, 13), rd s 0 + 4 := gpr s (Usr, 14)), pcr := rd s 14\<rparr>)"
  using super_facts [OF assms(1)] assms(2) unfolding mem_user_sp_get_def mem_user_lr_get_def mem_user_sp_lr_get_def
  by (simp_all add: arm_simps branch_to_arm)

lemma mem_user_set_runs:
  assumes "in_super s" and "rd s 0 AND 3 = 0"
  shows "arun mem_user_sp_set s = Inr (s\<lparr>gpr := (gpr s)((Usr, 13) := ram s (rd s 0)), pcr := rd s 14\<rparr>)"
    and "arun mem_user_lr_set s = Inr (s\<lparr>gpr := (gpr s)((Usr, 14) := ram s (rd s 0)), pcr := rd s 14\<rparr>)"
    and "arun mem_user_sp_lr_set s =
      Inr (s\<lparr>gpr := (gpr s)((Usr, 13) := ram s (rd s 0), (Usr, 14) := ram s (rd s 0 + 4)), pcr := rd s 14\<rparr>)"
  using super_facts [OF assms(1)] assms(2) unfolding mem_user_sp_set_def mem_user_lr_set_def mem_user_sp_lr_set_def
  by (simp_all add: arm_simps branch_to_arm eval_nat_numeral)

lemma mode_get_is_priv_get: "mode_get_lr_sp_asm = priv_get_sp_lr_asm"
  by (simp add: mode_get_lr_sp_asm_def priv_get_sp_lr_asm_def)

lemma sys_bank: "mode_bank SYS_MODE = Usr" "valid_mode SYS_MODE" "\<not> user_mode SYS_MODE"
  by (simp_all add: mode_bank_def valid_mode_def user_mode_def modes_def mode_defs)

text \<open>The three ways of lab 13 to read the stack pointer and link register of user mode from supervisor mode agree: through
  system mode with \<open>cps\<close>, with the caret form of \<open>stm\<close>, and with \<open>mode_get_lr_sp_asm\<close> for system mode; each returns to its
  caller in the mode it was called in.\<close>

lemma user_banks_agree:
  assumes "in_super s" and "p AND 3 = 0"
  shows "\<exists>a b c d. arun user_sp_get s = Inr a \<and> arun user_lr_get s = Inr b \<and>
    arun mem_user_sp_lr_get (wr 0 p s) = Inr c \<and>
    arun mode_get_lr_sp_asm (wr 0 SYS_MODE (wr 1 p (wr 2 (p + 4) s))) = Inr d \<and>
    [rd a 0, rd b 0] = [gpr s (Usr, 13), gpr s (Usr, 14)] \<and> ldm (ram c) p 2 = [rd a 0, rd b 0] \<and>
    ldm (ram d) p 2 = [rd a 0, rd b 0] \<and> list_all (\<lambda>t. psr t = psr s \<and> pcr t = rd s 14) [a, b, c, d]"
proof -
  note f = super_facts [OF assms(1)]
  have st: "arm_state (psr s)" "rd s 14 AND 3 = 0"
    using assms(1) by (simp_all add: in_super_def)
  have p4: "(p + 4) AND 3 = 0"
    using assms(2) by (intro aligned_add) auto
  obtain a b where ab: "arun user_sp_get s = Inr a" "rd a 0 = gpr s (Usr, 13)" "psr a = psr s" "pcr a = rd s 14"
    "arun user_lr_get s = Inr b" "rd b 0 = gpr s (Usr, 14)" "psr b = psr s" "pcr b = rd s 14"
    using user_sp_get_runs [OF assms(1)] user_lr_get_runs [OF assms(1)] by blast
  have w: "psr (wr i v t) = psr t" "ram (wr i v t) = ram t" for i v t
    by (simp_all add: wr_def)
  have g: "gpr (wr i v s) (Usr, j) = gpr s (Usr, j)" if "i < 13" "13 \<le> j" for i j v
    using that f by (simp add: wr_def)
  have "in_super (wr 0 p s)"
    using assms(1) by (simp add: in_super_def w rd_wr)
  then have c: "arun mem_user_sp_lr_get (wr 0 p s) =
      Inr ((wr 0 p s)\<lparr>ram := (ram s)(p := gpr s (Usr, 13), p + 4 := gpr s (Usr, 14)), pcr := rd s 14\<rparr>)"
    using mem_user_get_runs(3) [of "wr 0 p s"] assms(2) by (simp add: rd_wr w g)
  let ?t = "wr 0 SYS_MODE (wr 1 p (wr 2 (p + 4) s))"
  have gt: "gpr ?t (Usr, j) = gpr s (Usr, j)" if "13 \<le> j" for j
    using that f by (simp add: wr_def)
  obtain d where d: "arun mode_get_lr_sp_asm ?t = Inr d" "psr d = psr s" "pcr d = rd s 14"
    "ram d = (ram s)(p := gpr s (Usr, 13), p + 4 := gpr s (Usr, 14))"
    using priv_get_sp_lr_runs [of ?t SYS_MODE p "p + 4"] f st sys_bank assms(2) p4 gt
    unfolding mode_get_is_priv_get by (auto simp: w rd_wr)
  show ?thesis
    using ab c d by (simp add: ldm_numeral w)
qed


definition ex_super :: arm where
  "ex_super = ex_arm\<lparr>psr := 0xD3, gpr := (gpr ex_arm)((Usr, 13) := 0xfeedface, (Usr, 14) := 0xdeadbeef, (Svc, 13) := 0x8000000,
     (Svc, 14) := 0x8100)\<rparr>"

lemma ex_super_in: "in_super ex_super"
  by (simp add: in_super_def ex_super_def ex_arm_def mode_defs arm_state_def rd_def mode_bank_def)

lemma user_banks_agree_example:
  "\<exists>a d. arun user_sp_get ex_super = Inr a \<and> rd a 0 = 0xfeedface \<and>
     arun mode_get_lr_sp_asm (wr 0 SYS_MODE (wr 1 0x1000 (wr 2 0x1004 ex_super))) = Inr d \<and>
     ldm (ram d) 0x1000 2 = [0xfeedface, 0xdeadbeef]"
  using user_banks_agree [OF ex_super_in, of "0x1000"] by (auto simp: ex_super_def)

subsection \<open>System calls of labs 5 and 9\<close>

definition swi_saved :: "nat list" where
  "swi_saved = [1, 2, 3, 4, 5, 6, 7, 8, 9, 10, 11, 12, 14]"

lemma swi_in:
  assumes b: "mode_bank (psr t) = Svc" and sp: "rd t 13 = sp" "(sp - 52) AND 3 = 0"
  shows "\<exists>t1. arun (software_interrupt_asm fn) t = Inr t1 \<and> psr t1 = psr t \<and> saved_psr t1 = saved_psr t \<and> pcr t1 = fn \<and>
    rd t1 0 = gpr t (Svc, 14) - 4 \<and> rd t1 1 = gpr t (Usr, 0) \<and> rd t1 13 = sp - 52 \<and>
    ram t1 = stm (ram t) (sp - 52) (map (rd t) swi_saved) \<and>
    (\<forall>x. x \<notin> {(Usr, 0), (Usr, 1), (Svc, 13), (Svc, 14)} \<longrightarrow> gpr t1 x = gpr t x)"
  using sp unfolding software_interrupt_asm_def swi_saved_def
  by (simp add: b arm_simps del: stm.simps list.map)

lemma swi_ret:
  assumes b: "mode_bank (psr t) = Svc" and v: "valid_mode (saved_psr t Svc)" and sp: "rd t 13 = p" "p AND 3 = 0"
    and ws: "ldm (ram t) p 13 = ws"
  shows "\<exists>t'. arun software_interrupt_asm_ret t = Inr t' \<and> psr t' = saved_psr t Svc \<and> pcr t' = ws ! 12 \<and>
    map (\<lambda>i. gpr t' (Usr, i)) (butlast swi_saved) = take 12 ws \<and> gpr t' (Svc, 13) = p + 52 \<and> ram t' = ram t \<and>
    (\<forall>x. x \<notin> set (map (Pair Usr) (butlast swi_saved)) \<union> {(Svc, 13), (Svc, 14)} \<longrightarrow> gpr t' x = gpr t x)"
proof -
  have ww: "ws = [ram t p, ram t (p+4), ram t (p+8), ram t (p+12), ram t (p+16), ram t (p+20), ram t (p+24), ram t (p+28),
    ram t (p+32), ram t (p+36), ram t (p+40), ram t (p+44), ram t (p+48)]"
    using ws by (simp add: ldm_numeral add.assoc)
  have h: "has_spsr (psr t)" using b by (auto simp: has_spsr_def)
  show ?thesis
    using v sp h unfolding ww software_interrupt_asm_ret_def swi_saved_def by (simp add: arm_simps b add.assoc)
qed


definition handle_swi :: "u32 \<Rightarrow> (arm \<Rightarrow> arm res) \<Rightarrow> arm \<Rightarrow> arm res" where
  "handle_swi fn f s =
     bnd (arun (software_interrupt_asm fn) (take_exn Software_int s)) (\<lambda>t. bnd (f t) (arun software_interrupt_asm_ret))"

lemma svc_bank: "mode_bank (exn_mode Software_int) = Svc"
  by (simp add: mode_bank_def mode_defs)

lemma handle_swi_runs:
  assumes v: "valid_mode (psr s)" and sp: "gpr s (Svc, 13) = sp" "sp AND 3 = 0" "52 \<le> unat sp" and f: "c_function sp f"
  shows "\<exists>t t2 s'. f t = Inr t2 \<and> c_returns sp t t2 \<and> rd t 0 = pcr s \<and> rd t 1 = gpr s (Usr, 0) \<and> pcr t = fn \<and> rd t 13 = sp - 52 \<and>
    handle_swi fn f s = Inr s' \<and> psr s' = psr s \<and> pcr s' = pcr s + 4 \<and> gpr s' (Usr, 0) = rd t2 0 \<and>
    (\<forall>x. x \<notin> {(Usr, 0), (Svc, 14)} \<longrightarrow> gpr s' x = gpr s x) \<and>
    (\<forall>q. q < sp - 52 \<or> sp \<le> q \<longrightarrow> ram t q = ram s q) \<and> ram s' = ram t2"
proof -
  let ?t = "take_exn Software_int s"
  note t = take_exn_facts [where e = Software_int and s = s, unfolded svc_bank]
  have spt: "rd ?t 13 = sp" using t(1,5) sp(1) by (simp add: rd_def)
  have u: "unat (sp - 52) = unat sp - 52" using sp(3) by (subst unat_sub) (simp_all add: word_le_nat_alt)
  then have al: "(sp - 52) AND 3 = 0"
    using sp(2,3) unfolding aligned_unat by (simp add: mod_diff_eq [symmetric]) presburger
  obtain t1 where t1: "arun (software_interrupt_asm fn) ?t = Inr t1" "psr t1 = psr ?t" "saved_psr t1 = saved_psr ?t" "pcr t1 = fn"
    "rd t1 0 = gpr ?t (Svc, 14) - 4" "rd t1 1 = gpr ?t (Usr, 0)" "rd t1 13 = sp - 52"
    "ram t1 = stm (ram ?t) (sp - 52) (map (rd ?t) swi_saved)"
    "\<forall>x. x \<notin> {(Usr, 0), (Usr, 1), (Svc, 13), (Svc, 14)} \<longrightarrow> gpr t1 x = gpr ?t x"
    using swi_in [OF t(1) spt al] by blast
  obtain t2 where t2: "f t1 = Inr t2" "c_returns sp t1 t2"
    using f by (auto simp: c_function_def)
  have m1: "mode_bank (psr t1) = Svc" using t1(2) t(1) by simp
  then have m2: "mode_bank (psr t2) = Svc" using c_returns_mode [OF t2(2)] by simp
  have g2: "x \<notin> {(Usr, 0), (Usr, 1), (Usr, 2), (Usr, 3), (Usr, 12), (Svc, 14)} \<Longrightarrow> gpr t2 x = gpr t1 x" for x
    using t2(2) m1 by (cases x) (simp add: c_returns_def)
  have len: "unat (sp - 52) + 4 * length (map (rd ?t) swi_saved) \<le> 4294967296"
    using u sp(3) less_imp_le [OF unat_u32_lt [of sp]] by (simp add: swi_saved_def)
  have len13: "length (map (rd ?t) swi_saved) = 13"
    by (simp add: swi_saved_def)
  have "rd t2 13 = sp - 52"
    using t1(7) g2 [of "(Svc, 13)"] by (simp add: rd_def m1 m2)
  moreover have "ldm (ram t2) (sp - 52) 13 = map (rd ?t) swi_saved"
  proof -
    have "ram t2 q = ram t1 q" if "sp - 52 \<le> q" "q < sp" for q
      using t2(2) t1(7) that by (simp add: c_returns_def)
    then have "ldm (ram t2) (sp - 52) 13 = ldm (ram t1) (sp - 52) 13"
      using u sp(3) less_imp_le [OF unat_u32_lt [of sp]] by (intro ldm_cong) (simp_all add: word_le_nat_alt word_less_nat_alt)
    also have "... = map (rd ?t) swi_saved"
      using ldm_stm_same [OF len, of "ram ?t"] unfolding t1(8) len13 .
    finally show ?thesis .
  qed
  moreover have "saved_psr t2 Svc = psr s"
    using t2(2) t1(3) t(2) by (simp add: c_returns_def)
  ultimately obtain s' where s': "arun software_interrupt_asm_ret t2 = Inr s'" "psr s' = psr s"
    "pcr s' = map (rd ?t) swi_saved ! 12" "map (\<lambda>i. gpr s' (Usr, i)) (butlast swi_saved) = take 12 (map (rd ?t) swi_saved)"
    "gpr s' (Svc, 13) = sp" "ram s' = ram t2"
    "\<forall>x. x \<notin> set (map (Pair Usr) (butlast swi_saved)) \<union> {(Svc, 13), (Svc, 14)} \<longrightarrow> gpr s' x = gpr t2 x"
    using swi_ret [OF m2, of "sp - 52"] v al by auto
  have rt: "rd ?t i = gpr s (Usr, i)" if "i < 13" for i
    using that t(1,5) by (simp add: rd_def)
  have low: "gpr s' x = gpr s x" if "x \<in> set (map (Pair Usr) (butlast swi_saved))" for x
    using that s'(4) rt by (auto simp: swi_saved_def)
  have all: "gpr s' x = gpr s x" if "x \<notin> {(Usr, 0), (Svc, 14)}" for x
  proof (cases "x \<in> set (map (Pair Usr) (butlast swi_saved)) \<or> x = (Svc, 13)")
    case True
    then show ?thesis using low s'(5) sp(1) by metis
  next
    case False
    have "gpr s' x = gpr t2 x" using s'(7) that False by blast
    also have "... = gpr t1 x" using that False by (intro g2) (auto simp: swi_saved_def)
    also have "... = gpr ?t x" using t1(9) that False by (cases x) (auto simp: swi_saved_def)
    finally show ?thesis using t(5) that by simp
  qed
  have "gpr s' (Usr, 0) = rd t2 0"
    using s'(7) [rule_format, of "(Usr, 0)"] by (simp add: rd_def swi_saved_def)
  moreover have "pcr s' = pcr s + 4"
    using s'(3) t(1,3) by (simp add: swi_saved_def rd_def)
  moreover have "ram t1 q = ram s q" if "q < sp - 52 \<or> sp \<le> q" for q
    using that u sp(3) len unfolding t1(8) t(4) [symmetric]
    by (intro stm_other) (auto simp: word_le_nat_alt word_less_nat_alt swi_saved_def)
  ultimately show ?thesis
    using t2 t1 t(3,5) s'(1,2,6) all by (intro exI [of _ t1] exI [of _ t2] exI [of _ s']) (simp add: handle_swi_def)
qed


text \<open>A system call of lab 5 from supervisor mode: \<open>syscall_hello\<close> around the trampoline and the C function \<open>f\<close>.\<close>

definition call_syscall_hello :: "u32 \<Rightarrow> (arm \<Rightarrow> arm res) \<Rightarrow> arm \<Rightarrow> arm res" where
  "call_syscall_hello fn f s =
     bnd (arun syscall_hello s) (\<lambda>t. bnd (arun (software_interrupt_asm fn) t) (\<lambda>t1. bnd (f t1) (\<lambda>t2.
     bnd (arun software_interrupt_asm_ret t2) (arun syscall_hello_ret))))"

lemma c_function_mono: "c_function l f \<Longrightarrow> l' \<le> l \<Longrightarrow> c_function l' f"
  unfolding c_function_def c_returns_def by (meson order_less_le_trans)

text \<open>C32: A system call from supervisor mode is an ordinary call, although \<open>swi\<close> overwrites the link register and the saved
  status register of that very mode: the kernel function gets the address of the \<open>swi\<close> instruction and the caller's r0, and
  after the two trampolines execution is at the caller's return address, in the caller's mode and flags, with the result in r0
  and every other register of every mode as it was.\<close>

theorem syscall_hello_returns:
  assumes "in_super s" and "rd s 13 = sp" and "sp AND 3 = 0" and "56 \<le> unat sp" and "c_function sp f"
  shows "\<exists>t t2 s'. f t = Inr t2 \<and> rd t 0 = pcr s + 4 \<and> rd t 1 = rd s 0 \<and> call_syscall_hello fn f s = Inr s' \<and>
    psr s' = psr s \<and> pcr s' = rd s 14 \<and> rd s' 0 = rd t2 0 \<and> (\<forall>x. x \<noteq> (Usr, 0) \<longrightarrow> gpr s' x = gpr s x)"
proof -
  note f = super_facts [OF assms(1)]
  have spg: "gpr s (Svc, 13) = sp" using assms(2) f(1) by (simp add: rd_def)
  have u: "unat (sp - 4) = unat sp - 4" "unat (sp - 56) = unat sp - 56"
    using assms(4) by (subst unat_sub; simp add: word_le_nat_alt)+
  have al: "(sp - 4) AND 3 = 0"
    using assms(3,4) u unfolding aligned_unat by presburger
  let ?s1 = "s\<lparr>ram := (ram s)(sp - 4 := rd s 14), gpr := (gpr s)((Svc, 13) := sp - 4), pcr := pcr s + 4\<rparr>"
  have push: "arun syscall_hello s = Inr (take_exn Software_int ?s1)"
    using spg al f(1) by (simp add: syscall_hello_def arm_simps)
  have "c_function (sp - 4) f"
    using u by (intro c_function_mono [OF assms(5)]) (simp add: word_le_nat_alt)
  moreover have "52 \<le> unat (sp - 4)" using assms(4) u by simp
  ultimately obtain t t2 s2 where t: "f t = Inr t2" "rd t 0 = pcr s + 4" "rd t 1 = gpr s (Usr, 0)" "rd t 13 = sp - 56"
    "handle_swi fn f ?s1 = Inr s2" "psr s2 = psr s" "pcr s2 = pcr s + 8" "gpr s2 (Usr, 0) = rd t2 0"
    "\<forall>x. x \<notin> {(Usr, 0), (Svc, 14)} \<longrightarrow> gpr s2 x = gpr ?s1 x" "\<forall>q. q < sp - 56 \<or> sp - 4 \<le> q \<longrightarrow> ram t q = ram ?s1 q"
    "ram s2 = ram t2"
    using handle_swi_runs [of ?s1 "sp - 4" f fn] f(3) al by (auto simp: add.commute)
  have "c_returns sp t t2"
    using assms(5) t(1) unfolding c_function_def by (metis sum.inject(2))
  then have "ram t2 (sp - 4) = ram t (sp - 4)"
    using t(4) u assms(4) by (simp add: c_returns_def word_le_nat_alt word_less_nat_alt)
  then have lr: "ram s2 (sp - 4) = rd s 14"
    using t(10,11) by simp
  have m2: "mode_bank (psr s2) = Svc" "psr s2 AND 0x20 = 0"
    using t(6) f(1,7) by simp_all
  have sp2: "gpr s2 (Svc, 13) = sp - 4"
    using t(9) by simp
  let ?s' = "s2\<lparr>gpr := (gpr s2)((Svc, 13) := sp, (Svc, 14) := rd s 14), pcr := rd s 14\<rparr>"
  have "arun syscall_hello_ret s2 = Inr ?s'"
    using sp2 m2 lr al assms(1) by (simp add: syscall_hello_ret_def arm_simps branch_to_arm in_super_def rd_def eval_nat_numeral)
  moreover have "call_syscall_hello fn f s = bnd (handle_swi fn f ?s1) (arun syscall_hello_ret)"
    by (simp add: call_syscall_hello_def push handle_swi_def bnd_assoc)
  ultimately have call: "call_syscall_hello fn f s = Inr ?s'"
    using t(5) by simp
  have "gpr ?s' x = gpr s x" if "x \<noteq> (Usr, 0)" for x
    using t(9) [rule_format, of x] that spg f(1) by (auto simp: rd_def)
  moreover have "rd ?s' 0 = rd t2 0" "rd t 1 = rd s 0"
    using t(3,8) by (simp_all add: rd_def)
  ultimately show ?thesis
    using t(1,2,6) call by (intro exI [of _ t] exI [of _ t2] exI [of _ ?s']) simp
qed

theorem syscall_hello_returns_witness:
  "\<exists>s'. call_syscall_hello 0x9000 trash ex_super = Inr s' \<and> pcr s' = 0x8100 \<and> gpr s' (Usr, 3) = 3 \<and> gpr s' (Svc, 14) = 0x8100"
proof -
  have "rd ex_super 13 = 0x8000000" "rd ex_super 14 = 0x8100" "gpr ex_super (Usr, 3) = 3" "gpr ex_super (Svc, 14) = 0x8100"
    by (simp_all add: ex_super_def ex_arm_def rd_def mode_bank_def mode_defs)
  then show ?thesis
    using syscall_hello_returns [OF ex_super_in, of "0x8000000" trash "0x9000"] trash_c_function by auto
qed

subsection \<open>Starting code\<close>

text \<open>\<open>run_user_code_asm\<close> starts \<open>fn\<close> in user mode, interrupts off, on the stack it is given.\<close>

lemma run_user_code_starts:
  assumes "\<not> user_mode (psr s)" and "psr s AND 0x20 = 0" and "rd s 0 AND 3 = 0"
  shows "\<exists>s'. arun run_user_code_asm s = Inr s' \<and> user_mode (psr s') \<and> psr s' = merge 0xF80000DF 0x90 (psr s) \<and>
    pcr s' = rd s 0 \<and> rd s' 13 = rd s 1"
proof -
  have "mode_bank (merge 0xF80000DF 0x90 (psr s)) = Usr" "user_mode (merge 0xF80000DF 0x90 (psr s))"
    "valid_mode (merge 0xF80000DF 0x90 (psr s))" "merge 0xF80000DF 0x90 (psr s) AND 0x20 = 0"
    using assms(2) by (simp_all add: mode_merge merge_and_out) (simp_all add: mode_bank_def user_mode_def valid_mode_def modes_def mode_defs)
  then show ?thesis
    using assms unfolding run_user_code_asm_def by (simp add: arm_simps msr_def msr_mask_def branch_to_arm)
qed

text \<open>\<open>staff-start.S\<close>: whatever privileged mode the loader leaves, the C code starts in supervisor mode with interrupts off
  on the stack at \<open>STACK_ADDR\<close>.\<close>

lemma start_asm_super:
  assumes "\<not> user_mode (psr s)"
  shows "\<exists>s'. arun (start_asm fn) s = Inr s' \<and> psr s' = merge 0xF80000DF 0x93 (psr s) \<and> mode_bank (psr s') = Svc \<and>
    pcr s' = fn \<and> rd s' 13 = STACK_ADDR \<and> rd s' 11 = 0"
proof -
  have "mode_bank (merge 0xF80000DF 0x93 (psr s)) = Svc" "valid_mode (merge 0xF80000DF 0x93 (psr s))"
    by (simp_all add: mode_merge) (simp_all add: mode_bank_def valid_mode_def modes_def mode_defs)
  then show ?thesis
    using assms unfolding start_asm_def by (simp add: arm_simps msr_def msr_mask_def mode_defs phys_inj)
qed

text \<open>Interrupts on and off: one bit of the status register.\<close>

lemma merge_merge: "m AND a = m \<Longrightarrow> merge a (merge m v p) p = merge m v p"
  unfolding merge_def by (rule bit_eqI) (auto simp: bit_simps dest: bit_eq_iff [THEN iffD1, rule_format])

lemma merge_bit7: "p AND - 129 = merge 0x80 0 p" "p OR 0x80 = merge 0x80 0x80 (p :: u32)"
  unfolding merge_def by simp (rule bit_eqI, auto simp: bit_simps)

lemma interrupts_switch:
  assumes "in_super s"
  shows "\<exists>s'. arun system_enable_interrupts s = Inr s' \<and> psr s' = psr s AND NOT 0x80 \<and> pcr s' = rd s 14"
    and "\<exists>s'. arun system_disable_interrupts s = Inr s' \<and> psr s' = psr s OR 0x80 \<and> pcr s' = rd s 14"
proof -
  note f = super_facts [OF assms]
  have "arm_state (merge 0x80 v (psr s))" for v
    using assms by (intro merge_arm_state) (simp_all add: in_super_def)
  then have a: "merge 0x80 v (psr s) AND 0x06F0FC00 = 0" "merge 0x80 v (psr s) AND 0x01000020 = 0"
    "merge 0x80 v (psr s) AND 0x20 = 0" for v
    using arm_stateD by auto
  have "merge 0x80 v (psr s) AND 31 = psr s AND 31" for v
    by (simp add: merge_and_out)
  then have m: "mode_bank (merge 0x80 v (psr s)) = Svc" "valid_mode (merge 0x80 v (psr s))" for v
    using f(1,3) by (simp_all add: mode_bank_def valid_mode_def)
  show "\<exists>s'. arun system_enable_interrupts s = Inr s' \<and> psr s' = psr s AND NOT 0x80 \<and> pcr s' = rd s 14"
    and "\<exists>s'. arun system_disable_interrupts s = Inr s' \<and> psr s' = psr s OR 0x80 \<and> pcr s' = rd s 14"
    using f a m unfolding system_enable_interrupts_def system_disable_interrupts_def
    by (simp_all add: arm_simps msr_def msr_mask_def merge_bit7 merge_merge branch_to_arm)
qed

subsection \<open>The notes on mode bugs\<close>

text \<open>The first routine returns through the link register of system mode, the second to its caller but on the stack of system
  mode, the third to its caller on the new stack.\<close>

lemma mode_bugs:
  assumes "in_super s" and "gpr s (Usr, 14) AND 3 = 0" 
  shows "\<exists>s'. arun switch_to_system_bug1 s = Inr s' \<and> pcr s' = gpr s (Usr, 14)"
    and "\<exists>s'. arun switch_to_system_bug2 s = Inr s' \<and> pcr s' = rd s 14 \<and> rd s' 13 = gpr s (Usr, 13)"
    and "\<exists>s'. arun switch_to_system_w_stack s = Inr s' \<and> pcr s' = rd s 14 \<and> rd s' 13 = rd s 0"
proof -
  note f = super_facts [OF assms(1)]
  have m: "mode_bank (merge 0xF80000DF 0x9F (psr s)) = Usr" "valid_mode (merge 0xF80000DF 0x9F (psr s))"
     "merge 0xF80000DF 0x9F (psr s) AND 0x20 = 0"
    using f(7) by (simp_all add: mode_merge merge_and_out) (simp_all add: mode_bank_def valid_mode_def modes_def mode_defs)
  show "\<exists>s'. arun switch_to_system_bug1 s = Inr s' \<and> pcr s' = gpr s (Usr, 14)"
    and "\<exists>s'. arun switch_to_system_bug2 s = Inr s' \<and> pcr s' = rd s 14 \<and> rd s' 13 = gpr s (Usr, 13)"
    and "\<exists>s'. arun switch_to_system_w_stack s = Inr s' \<and> pcr s' = rd s 14 \<and> rd s' 13 = rd s 0"
    using f assms(2) m unfolding switch_to_system_bug1_def switch_to_system_bug2_def switch_to_system_w_stack_def
    by (simp_all add: arm_simps msr_def msr_mask_def branch_to_arm)
qed

subsection \<open>Stack routines of lab 6\<close>

lemma push_one_runs:
  assumes "mode_bank (psr s) \<noteq> Fiq" and "psr s AND 0x20 = 0" and "rd s 14 AND 3 = 0" and "(rd s 0 - 4) AND 3 = 0"
  shows "\<exists>s'. arun push_one s = Inr s' \<and> rd s' 0 = rd s 0 - 4 \<and> ram s' = (ram s)(rd s 0 - 4 := rd s 1) \<and>
    rd s' 13 = rd s 13 \<and> pcr s' = rd s 14"
  using assms unfolding push_one_def by (simp add: arm_simps branch_to_arm)

lemma push_two_runs:
  assumes "mode_bank (psr s) \<noteq> Fiq" and "psr s AND 0x20 = 0" and "rd s 14 AND 3 = 0" and "(rd s 0 - 8) AND 3 = 0"
  shows "\<exists>s'. arun push_two s = Inr s' \<and> rd s' 0 = rd s 0 - 8 \<and> ldm (ram s') (rd s 0 - 8) 2 = [rd s 1, rd s 2] \<and>
    rd s' 13 = rd s 13 \<and> pcr s' = rd s 14"
  using assms unfolding push_two_def by (simp add: arm_simps branch_to_arm)


subsection \<open>Leaving and entering modes\<close>

text \<open>\<open>rfe\<close> on the last two words of a register block.\<close>

lemma blk_rfe_runs:
  assumes "\<not> user_mode (psr s)" and "rd s 0 AND 3 = 0" and "valid_mode (ram s (rd s 0 + 64))"
  shows "\<exists>s'. arun blk_rfe_asm s = Inr s' \<and> pcr s' = ram s (rd s 0 + 60) \<and> psr s' = ram s (rd s 0 + 64)"
proof -
  have "(rd s 0 + 60) AND 3 = 0"
    using assms(2) by (intro aligned_add) auto
  then show ?thesis
    using assms unfolding blk_rfe_asm_def by (simp add: arm_simps add.assoc)
qed

text \<open>\<open>srs\<close> stores what \<open>rfe_user\<close> and the other returns read: the link register and the saved status register.\<close>

lemma srs_super_stores:
  assumes "in_super s" and "rd s 0 = p" and "p AND 3 = 0" and "rd s 1 = q" and "q AND 3 = 0" and "q \<noteq> p" and "q \<noteq> p + 4"
  shows "\<exists>s'. arun srs_super s = Inr s' \<and> ram s' = (ram s)(q := rd s 14, p := rd s 14, p + 4 := saved_psr s Svc) \<and>
    pcr s' = rd s 14 \<and> rd s' 13 = rd s 13"
proof -
  have "mode_bank SUPER_MODE = Svc"
    by (simp add: mode_bank_def mode_defs)
  then show ?thesis
    using super_facts [OF assms(1)] assms(2-) unfolding srs_super_def by (simp add: arm_simps branch_to_arm)
qed

text \<open>The trampoline of lab 13 saves every register: unlike \<open>syscall_full\<close> it stores r0 to r12 before it uses one.\<close>

lemma swi_trampoline_saves:
  assumes "user_mode (psr s)"
  shows "\<exists>t. arun (swi_trampoline fn) (take_exn Software_int s) = Inr t \<and> pcr t = fn \<and> rd t 0 = SAVE_BASE \<and>
    ldm (ram t) SAVE_BASE 17 = exn_ctx Swi s"
proof -
  let ?x = "take_exn Software_int s"
  note t = take_exn_facts [where e = Software_int and s = s, unfolded svc_bank]
  have h: "has_spsr (psr ?x)" using t(1) by (simp add: has_spsr_def)
  have "\<exists>t'. arun (swi_trampoline fn) ?x = Inr t' \<and> pcr t' = fn \<and> rd t' 0 = SAVE_BASE \<and>
    ldm (ram t') SAVE_BASE 17 = map (\<lambda>i. gpr ?x (Usr, i)) r0_r14 @ [gpr ?x (Svc, 14), saved_psr ?x Svc]"
    using h unfolding swi_trampoline_def by (simp add: t(1) INT_STACK_ADDR_def SAVE_BASE_def arm_simps)
  then show ?thesis
    unfolding user_ctx [OF assms] using t(2,3,5) by simp
qed

end
