(* ===== verification/Confine.thy ===== *)
theory Confine
  imports Traps
begin

text \<open>
  What the instructions of the processor model can do to it from user mode, until an exception: it stays in user mode and
  no register of another mode changes.  So the kernel of lab 14 gets the processor back as it left it.
\<close>

subsection \<open>One instruction\<close>

definition confined :: "arm \<Rightarrow> arm \<Rightarrow> bool" where
  "confined s s' \<longleftrightarrow> user_mode (psr s') \<and> saved_psr s' = saved_psr s \<and> (\<forall>b i. b \<noteq> Usr \<longrightarrow> gpr s' (b, i) = gpr s (b, i))"

lemma confined_refl: "user_mode (psr s) \<Longrightarrow> confined s s"
  by (simp add: confined_def)

lemma confined_trans: "confined s t \<Longrightarrow> confined t u \<Longrightarrow> confined s u"
  by (simp add: confined_def)

lemma confined_wr: "user_mode (psr s) \<Longrightarrow> confined s (wr i v s)"
  by (simp add: confined_def wr_def user_mode_bank)

lemma confined_more [simp]:
  "confined s (t\<lparr>ram := m\<rparr>) = confined s t" "confined s (t\<lparr>pcr := p\<rparr>) = confined s t"
  by (simp_all add: confined_def)

lemma confined_set_regs: "confined s t \<Longrightarrow> confined s (set_regs ws t)"
  unfolding set_regs_def
proof (induction ws arbitrary: t)
  case (Cons w ws)
  then have "user_mode (psr t)" by (simp add: confined_def)
  then show ?case
    using Cons confined_trans [OF Cons.prems confined_wr] by (cases w) simp
qed simp

lemma msr_user: "user_mode (psr s) \<Longrightarrow> msr f v s = Inr s' \<Longrightarrow> confined s s'"
  by (cases f) (auto simp: msr_def msr_mask_def confined_def user_mode_def merge_and_out Let_def unpredictable_def split: if_splits)

lemma thumb_bit_mode: "((p AND NOT 0x20) OR push_bit 5 w) AND 31 = (p :: u32) AND 31"
proof -
  have "(31 :: u32) = mask 5"
    by (simp add: mask_eq_exp_minus_1)
  then have "push_bit 5 w AND (31 :: u32) = 0"
    using take_bit_push_bit [of 5 5 w] take_bit_eq_mask [of 5 "push_bit 5 w"] by simp
  moreover have "(p AND NOT 0x20) AND 31 = p AND 31"
    by (simp add: and.assoc)
  ultimately show ?thesis
    by (simp only: bit.conj_disj_distrib2) simp
qed

lemma branch_user:
  assumes "branch_to v t = Inr s'" and "confined s t"
  shows "confined s s'"
proof -
  have "s' = t\<lparr>pcr := v AND 0xFFFFFFFE, psr := (psr t AND NOT 0x20) OR push_bit 5 (v AND 1)\<rparr>"
    using assms(1) by (simp add: branch_to_def unpredictable_def split: if_splits)
  moreover have "user_mode ((psr t AND NOT 0x20) OR push_bit 5 (v AND 1))"
    using assms(2) unfolding confined_def user_mode_def thumb_bit_mode by simp
  ultimately show ?thesis
    using assms(2) by (simp add: confined_def)
qed

lemma confined_wr_to: "confined s t \<Longrightarrow> confined s (wr i v t)"
  by (rule confined_trans [OF _ confined_wr]) (simp_all add: confined_def)

lemma ins_confined:
  assumes u: "user_mode (psr s)" and i: "ins_body i s = Inr s'" and "i \<noteq> SWI"
  shows "confined s s'"
proof -
  have "\<not> has_spsr (psr s)"
    using u by (simp add: has_spsr_def user_mode_bank)
  moreover have "confined s s" using u by (rule confined_refl)
  ultimately show ?thesis
    using assms(2,3) u
    by (cases i) (auto simp: bnd_eq_Inr Let_def unpredictable_def confined_wr_to confined_set_regs msr_user
        split: if_splits intro: branch_user confined_set_regs confined_wr_to)
qed

subsection \<open>User code\<close>

text \<open>What user code is made of here: the instructions of the processor model, the status and mode changing ones among
  them (\<open>msr\<close>, \<open>cps\<close>, \<open>rfe\<close>, \<open>srs\<close>, \<open>movs pc\<close>, \<open>ldm\<close> and \<open>stm\<close> of the user registers); and, for the data processing,
  load, store and branch instructions the model does not have, the effects an instruction is put together from: a
  value in a register the current mode names, a word in memory, new condition flags, a jump.  Coprocessor
  instructions and \<open>swi\<close>, which ends the run, are not among them.\<close>

datatype user_op = Ins ins | Put nat u32 | Store u32 u32 | Flags u32 | Jump u32

fun user_step :: "user_op \<Rightarrow> arm \<Rightarrow> arm res" where
  "user_step (Ins i) s =
     (if i = SWI then unpredictable else bnd (ins_body i s) (\<lambda>s1. Inr (if leaves i then s1 else nxt_pc s1)))"
| "user_step (Put d v) s = (if d < 15 then Inr (wr d v s) else unpredictable)"
| "user_step (Store a v) s = Inr (s\<lparr>ram := (ram s)(a := v)\<rparr>)"
| "user_step (Flags v) s = Inr (s\<lparr>psr := merge 0xF80F0000 v (psr s)\<rparr>)"
| "user_step (Jump a) s = Inr (s\<lparr>pcr := a\<rparr>)"

fun user_run :: "user_op list \<Rightarrow> arm \<Rightarrow> arm res" where
  "user_run [] s = Inr s"
| "user_run (x # xs) s = bnd (user_step x s) (user_run xs)"

lemma confined_flags: "user_mode (psr s) \<Longrightarrow> confined s (s\<lparr>psr := merge 0xF80F0000 v (psr s)\<rparr>)"
  by (simp add: confined_def user_mode_def merge_and_out)

lemma user_step_confined: "user_step x s = Inr s' \<Longrightarrow> user_mode (psr s) \<Longrightarrow> confined s s'"
  by (cases x) (auto simp: bnd_eq_Inr unpredictable_def nxt_pc_def confined_wr confined_flags
      intro: confined_refl dest: ins_confined split: if_splits)

lemma user_run_confined: "user_run xs s = Inr s' \<Longrightarrow> user_mode (psr s) \<Longrightarrow> confined s s'"
proof (induction xs arbitrary: s)
  case (Cons x xs)
  then obtain s1 where s1: "user_step x s = Inr s1" "user_run xs s1 = Inr s'"
    by (auto simp: bnd_eq_Inr)
  have c: "confined s s1"
    using user_step_confined [OF s1(1) Cons.prems(2)] .
  then have "user_mode (psr s1)"
    by (simp add: confined_def)
  then show ?case
    by (rule confined_trans [OF c Cons.IH [OF s1(2)]])
qed (simp add: confined_refl)

text \<open>C11: A thread started by \<open>switchto_user_asm\<close> that runs any sequence of instructions of the processor model other than
  \<open>swi\<close>, in any flow of control and mixed with any register writes, stores, flag changes and jumps, as long as none of
  them faults or is UNPREDICTABLE: the processor stays in user mode and every register and saved status register of
  the other modes keeps its value, but for the stack pointer that the switch itself used; and an exception that ends
  the run enters its C handler in a privileged mode with exactly the registers the thread has at that point.\<close>

theorem user_code_contained:
  assumes "has_spsr (psr s)" and "rd s 0 = p" and "p AND 3 = 0" and "ldm (ram s) p 17 ! 16 AND 31 = USER_MODE"
    and "arun switchto_user_asm s = Inr s1" and "user_run xs s1 = Inr u"
  shows "user_mode (psr u) \<and> saved_psr u = saved_psr s \<and>
    (\<forall>b i. b \<noteq> Usr \<longrightarrow> (b, i) \<noteq> (mode_bank (psr s), 13) \<longrightarrow> gpr u (b, i) = gpr s (b, i)) \<and>
    (\<exists>t. arun (handler_code e fn) (take_exn (exception_of e) u) = Inr t \<and> pcr t = fn \<and> has_spsr (psr t) \<and>
       ldm (ram t) (rd t 0) 17 = saved_regs e (exn_ctx e u))"
proof -
  have s1: "ctx s1 = ldm (ram s) p 17" "saved_psr s1 = saved_psr s"
    "\<And>b i. b \<noteq> Usr \<Longrightarrow> (b, i) \<noteq> (mode_bank (psr s), 13) \<Longrightarrow> gpr s1 (b, i) = gpr s (b, i)"
    using switchto_user_runs [OF assms(1-3) refl] assms(4) unfolding assms(5) by blast+
  have "psr s1 = ctx s1 ! 16"
    by (simp add: ctx_def)
  then have "user_mode (psr s1)"
    using assms(4) by (simp add: s1(1) user_mode_def)
  then have c: "confined s1 u"
    by (rule user_run_confined [OF assms(6)])
  then obtain t where "arun (handler_code e fn) (take_exn (exception_of e) u) = Inr t" "handler_entered e fn u t"
    using full_except_saves_lemma [of u e fn] by (auto simp: confined_def)
  then show ?thesis
    using c s1(2,3) by (auto simp: confined_def handler_entered_def)
qed

text \<open>A thread that tries to enter supervisor mode, first with \<open>msr\<close> and then with \<open>cps\<close>, overwrites its stack pointer and sets
  the carry flag.\<close>

theorem user_code_contained_witness:
  "\<exists>s1 u t. arun switchto_user_asm (ex_priv\<lparr>gpr := (gpr ex_priv)((Usr, 0) := 0x2000)\<rparr>) = Inr s1 \<and>
     user_run [Ins (MSRI All_fc SUPER_MODE), Ins (CPS SUPER_MODE), Put 13 7, Flags 0x20000013, Store 0x100 0x200] s1 = Inr u \<and>
     rd u 13 = 7 \<and> psr u = 0x20000010 \<and> gpr u (Svc, 14) = 0x8100 \<and>
     arun (handler_code Data_abort 0x9000) (take_exn Data_ab u) = Inr t \<and>
     ldm (ram t) (rd t 0) 17 = [0, 0, 0, 0, 0, 0, 0, 0, 0, 0, 0, 0, 0, 7, 0, 0x8008, 0x20000010]"
proof -
  let ?s = "ex_priv\<lparr>gpr := (gpr ex_priv)((Usr, 0) := 0x2000)\<rparr>"
  have f: "has_spsr (psr ?s)" "rd ?s 0 = 0x2000" "(0x2000 :: u32) AND 3 = 0" "ldm (ram ?s) 0x2000 17 ! 16 AND 31 = USER_MODE"
    by (simp_all add: ex_priv_def ex_arm_def has_spsr_def mode_bank_def mode_defs rd_def block_words)
  obtain s1 where s1: "arun switchto_user_asm ?s = Inr s1" "ctx s1 = ldm (ram ?s) 0x2000 17"
    using switchto_user_runs [OF f(1-3) refl] f(4) by auto
  then have c: "ctx s1 = [0, 0, 0, 0, 0, 0, 0, 0, 0, 0, 0, 0, 0, 0, 0, 0x8000, 0x10]"
    by (simp add: block_words ex_priv_def ex_arm_def)
  then have p: "psr s1 = 0x10" "pcr s1 = 0x8000" by (simp_all add: ctx_def)
  then have b: "mode_bank (psr s1) = Usr" by (simp add: mode_bank_def mode_defs)
  let ?u = "s1\<lparr>gpr := (gpr s1)((Usr, 13) := 7), pcr := 0x8008, psr := 0x20000010, ram := (ram s1)(0x100 := 0x200)\<rparr>"
  have r: "user_run [Ins (MSRI All_fc SUPER_MODE), Ins (CPS SUPER_MODE), Put 13 7, Flags 0x20000013, Store 0x100 0x200] s1 = Inr ?u"
    using p b by (simp add: msr_def msr_mask_def user_mode_def valid_mode_def modes_def mode_defs merge_def Let_def wr_def nxt_pc_def)
  have b2: "mode_bank (psr ?u) = Usr" by (simp add: mode_bank_def mode_defs)
  have "exn_ctx Data_abort ?u = [0, 0, 0, 0, 0, 0, 0, 0, 0, 0, 0, 0, 0, 7, 0, 0x8008, 0x20000010]"
    using c p b b2 by (simp add: exn_ctx_def ctx_def rd_def)
  moreover obtain t where "arun (handler_code Data_abort 0x9000) (take_exn Data_ab ?u) = Inr t"
    "ldm (ram t) (rd t 0) 17 = saved_regs Data_abort (exn_ctx Data_abort ?u)"
    and "\<forall>b i. b \<noteq> Usr \<longrightarrow> (b, i) \<noteq> (mode_bank (psr ?s), 13) \<longrightarrow> gpr ?u (b, i) = gpr ?s (b, i)"
    using user_code_contained [OF f s1(1) r, of Data_abort "0x9000"] unfolding exception_of.simps by (elim exE conjE)
  moreover from this have "gpr ?u (Svc, 14) = 0x8100"
    by (simp add: ex_priv_def ex_arm_def)
  moreover have "rd ?u 13 = 7" "saved_regs Data_abort q = q" for q
    using b2 by (simp_all add: rd_def saved_regs_def)
  ultimately show ?thesis
    using s1(1) r by (intro exI [of _ s1] exI [of _ ?u] exI [of _ t]) simp
qed

end
