(* ===== verification/EquivAsm.thy ===== *)
theory EquivAsm
  imports Traps Equiv
begin

text \<open>
  The system calls of the threads of lab 14, from the instructions of \<open>staff-start.S\<close> through the trampoline
  \<open>syscall_full\<close> to the handler of \<open>equiv-threads.c\<close>.
\<close>

lemma sys_equiv_putc_enters:
  assumes u: "user_mode (psr s)" and sp: "(rd s 13 - 4) AND 3 = 0"
  shows "\<exists>t. bnd (arun sys_equiv_putc s) (arun (syscall_full fn)) = Inr t \<and> pcr t = fn \<and> rd t 0 = SAVE_BASE \<and>
    ldm (ram t) SAVE_BASE 17 = (ctx s)[0 := 1, 1 := psr s, 13 := rd s 13 - 4, 15 := pcr s + 16]"
proof -
  note b = user_mode_bank [OF u]
  let ?s = "s\<lparr>ram := (ram s)(rd s 13 - 4 := rd s 14), gpr := (gpr s)((Usr, 13) := rd s 13 - 4, (Usr, 1) := rd s 0, (Usr, 0) := 1),
    pcr := 12 + pcr s\<rparr>"
  have code: "arun sys_equiv_putc s = Inr (take_exn Software_int ?s)"
    using sp b by (simp add: sys_equiv_putc_def arm_simps)
  obtain t where t: "arun (syscall_full fn) (take_exn Software_int ?s) = Inr t" "handler_entered Swi fn ?s t"
    using syscall_saves [of ?s fn] u by auto
  have us: "user_mode (psr ?s)" using u by simp
  have "saved_regs Swi (exn_ctx Swi ?s) = (ctx s)[0 := 1, 1 := psr s, 13 := rd s 13 - 4, 15 := pcr s + 16]"
    unfolding user_ctx [OF us] by (simp add: saved_regs_def ctx_def rd_def b)
  then show ?thesis
    using code t by (simp add: handler_entered_def)
qed

text \<open>C23: \<open>sys_equiv_putc(c)\<close> does not print \<open>c\<close>: the trampoline has replaced r1 by the status register when the handler takes
  the character from it, so the handler sends the low byte of the thread's status register, for every \<open>c\<close>.\<close>

theorem sys_equiv_putc_prints_status:
  assumes "user_mode (psr s)" and "(rd s 13 - 4) AND 3 = 0"
    and "eq_cur k \<noteq> 0" and "eq_heap k (eq_cur k) = Some th" and "stack_start th \<le> rd s 13 - 4" and "rd s 13 - 4 \<le> stack_end th"
    and "uart_flush_tx b fuel (sdev k) = Inr d" and "uart_put8 b fuel (ucast (psr s)) d = Inr (v, d1)"
  shows "\<exists>t. let r = (ctx s)[0 := EQUIV_PUTC, 1 := psr s, 13 := rd s 13 - 4, 15 := pcr s + 16];
        k1 = k\<lparr>eq_heap := (eq_heap k)(eq_cur k \<mapsto> th\<lparr>th_regs := r\<rparr>), sdev := d1\<rparr> in
      bnd (arun sys_equiv_putc s) (arun (syscall_full fn)) = Inr t \<and> ldm (ram t) (rd t 0) 17 = r \<and>
      equiv_syscall_handler b fuel r k = bnd (equiv_schedule b fuel k1) (\<lambda>(t, s). Inr (Switches t, s))"
proof -
  let ?r = "(ctx s)[0 := EQUIV_PUTC, 1 := psr s, 13 := rd s 13 - 4, 15 := pcr s + 16]"
  let ?k = "k\<lparr>eq_heap := (eq_heap k)(eq_cur k \<mapsto> th\<lparr>th_regs := ?r\<rparr>), sdev := d1\<rparr>"
  obtain t where t: "bnd (arun sys_equiv_putc s) (arun (syscall_full fn)) = Inr t" "ldm (ram t) (rd t 0) 17 = ?r"
    using sys_equiv_putc_enters [OF assms(1,2), of fn] by (auto simp: EQUIV_PUTC_def)
  have r: "?r ! 0 = EQUIV_PUTC" "?r ! 1 = psr s" "?r ! 13 = rd s 13 - 4"
    by (simp_all add: ctx_def)
  have c: "check_sp (th\<lparr>th_regs := ?r\<rparr>) = Inr ()"
    using assms(5,6) r(3) by (intro check_sp_ok) simp_all
  have "k\<lparr>eq_heap := h, sdev := d, sdev := d1\<rparr> = k\<lparr>eq_heap := h, sdev := d1\<rparr>" for h
    by simp
  then have "equiv_syscall_handler b fuel ?r k = bnd (equiv_schedule b fuel ?k) (\<lambda>(t, s). Inr (Switches t, s))"
    using assms(3,4,7,8) r c by (simp add: equiv_syscall_handler_def deref_def Let_def)
  then show ?thesis
    using t unfolding Let_def by blast
qed

definition ex_putc :: "unit equiv" where
  "ex_putc = ex_equiv\<lparr>eq_cur := 16, eq_heap := [16 \<mapsto> ex_th 0 0x8000]\<rparr>"

theorem sys_equiv_putc_prints_status_witness:
  "\<exists>t k1. bnd (arun sys_equiv_putc (ex_arm\<lparr>gpr := (gpr ex_arm)((Usr, 13) := 100)\<rparr>)) (arun (syscall_full 0x9300)) = Inr t \<and>
     ldm (ram t) (rd t 0) 17 ! 1 = 0x10 \<and>
     equiv_syscall_handler ex_bus 1 (ldm (ram t) (rd t 0) 17) ex_putc =
       bnd (equiv_schedule ex_bus 1 k1) (\<lambda>(t, s). Inr (Switches t, s))"
proof -
  let ?s = "ex_arm\<lparr>gpr := (gpr ex_arm)((Usr, 13) := 100)\<rparr>"
  have u: "user_mode (psr ?s)" "(rd ?s 13 - 4) AND 3 = 0" "rd ?s 13 = 100"
    by (simp_all add: ex_arm_def user_mode_def rd_def mode_bank_def mode_defs)
  have k: "eq_cur ex_putc \<noteq> 0" "eq_heap ex_putc (eq_cur ex_putc) = Some (ex_th 0 0x8000)"
    "stack_start (ex_th 0 0x8000) \<le> rd ?s 13 - 4" "rd ?s 13 - 4 \<le> stack_end (ex_th 0 0x8000)"
    unfolding u(3) by (simp_all add: ex_putc_def ex_th_def)
  have f: "uart_flush_tx ex_bus 1 (sdev ex_putc) = Inr ()"
    by (simp add: uart_flush_tx_def wait_for_def uart_tx_is_empty_def ex_bus_def Let_def)
  obtain v where w: "uart_put8 ex_bus 1 (ucast (psr ?s)) () = Inr (v, ())"
    by (simp add: uart_put8_def wait_for_def uart_can_put8_def ex_bus_def Let_def)
  let ?r = "(ctx ?s)[0 := EQUIV_PUTC, 1 := psr ?s, 13 := rd ?s 13 - 4, 15 := pcr ?s + 16]"
  obtain t where t: "bnd (arun sys_equiv_putc ?s) (arun (syscall_full 0x9300)) = Inr t" "ldm (ram t) (rd t 0) 17 = ?r"
    "\<exists>k1. equiv_syscall_handler ex_bus 1 ?r ex_putc = bnd (equiv_schedule ex_bus 1 k1) (\<lambda>(t, s). Inr (Switches t, s))"
    using sys_equiv_putc_prints_status [OF u(1,2) k f w, of "0x9300"] unfolding Let_def by blast
  have "?r ! 1 = 0x10"
    by (simp add: ctx_def ex_arm_def)
  then show ?thesis
    using t unfolding t(2) [symmetric] by blast
qed

end
