(* ===== verification/Spec2Isabelle.thy ===== *)
theory Spec2Isabelle
  imports Circular_SPSC ThreadRuns LibcMem Crc Printk PiRandom Timer Bootloader PinnedVm Fat32 Equiv Nrf Imu Mbox Unix DeviceInt Coherence Trust
    PageTyping Banks Confine EquivAsm
begin

text \<open>
  A verification development for the bare-metal Raspberry Pi operating system of cs140e: the C library
  and drivers \<open>libpi\<close>, the host library \<open>libunix\<close> and the code of the labs under \<open>labs\<close>.

  \<^bold>\<open>The program.\<close> The Pi runs a single image without an operating system.  \<open>libpi/libc\<close> has the
  containers, memory and string routines, \<open>printk\<close> and the random numbers; \<open>libpi/src\<close> and
  \<open>libpi/staff-src\<close> have the device drivers, which reach the hardware through \<open>GET32\<close>, \<open>PUT32\<close> and
  \<open>dev_barrier\<close>.  Each lab adds one part of the system: GPIO (3, 9), a simulator that replaces the device
  registers on the host and logs every access (4, 8), interrupts and a profiler (5), threads (6), a
  bootloader spoken over the serial line (7), the UART (8), device interrupts and a logic analyzer (9), single
  stepping and watchpoints (10), an IMU over I2C (11), the firmware mailbox (12), equivalence checking of
  pre-emptive threads (14), virtual memory with pinned TLB entries (15) and page tables (16), a radio over
  SPI (17), and a FAT32 reader (19).

  \<^bold>\<open>Common conventions\<close> (\<open>Prelude\<close>).  C integers are words of their width, so wrap-around is the
  arithmetic of the model.  A routine that can fail returns a \<open>res\<close>: \<open>Inl\<close> a fault (a panic, a failed
  assertion, a reboot, a null or out-of-bounds access the C code makes without a check) or \<open>Inr\<close> a
  value; \<open>bnd\<close> sequences them.  State is passed explicitly.  Loops over data recurse on the data, loops
  that wait for a device take fuel and end in \<open>OutOfFuel\<close> when it does not answer in so many reads:
  theorems about them either name the reads the device makes the code do (\<open>Script\<close>s in \<open>Bus\<close>) or prove
  that enough fuel gives a result.  Printed diagnostics are left out, the checks made while printing are
  kept.

  \<^bold>\<open>Parts, theories and sources.\<close>

  \<^item> Containers.  \<open>Circular\<close> is \<open>libpi/libc/circular.h\<close>: the buffer, its head and tail, every operation; the
    locale \<open>fifo\<close> is the contract of a bounded queue (push with room, push when full, pop) with its
    lemmas on sequences of operations.  \<open>Circular_SPSC\<close> splits push and pop into their reads and writes and
    runs an interrupt handler against the main program: every interleaving is a bounded queue.  \<open>Queue\<close> is
    \<open>Q.h\<close>: an intrusive list over a heap of blocks; the locale \<open>intrusive_queue\<close> is what its clients
    use.  \<open>Templates\<close> has the macro templates (\<open>circular-T.h\<close>, \<open>queue-ext-T.h\<close>, \<open>list-T.h\<close>, \<open>stack-T.h\<close>,
    \<open>vector-T.h\<close>, \<open>pointer-T.h\<close>) and interprets both locales a second time.

  \<^item> \<open>LibcMem\<close> (\<open>memcpy\<close>, \<open>memmove\<close>, \<open>memset\<close>, \<open>str*\<close>), \<open>Crc\<close> (\<open>crc.c\<close>, against the bitwise definition of
    CRC-32), \<open>Printk\<close> (\<open>printk.c\<close>, \<open>sprintk.c\<close>), \<open>PiRandom\<close> (\<open>random.c\<close>, \<open>pi-random.c\<close>), \<open>BitSupport\<close>
    (\<open>bit-support.h\<close>).  Memory is a map from addresses to bytes.  The width of \<open>long\<close>, which \<open>random.c\<close> computes
    with, is an argument of its model.

  \<^item> Devices.  \<open>Bus\<close> makes the hardware a parameter, a record of the access functions; \<open>gpio.c\<close> and
    \<open>gpio-int.c\<close> are there.  Its locale \<open>device\<close> is what registers promise.  \<open>FakePi\<close> is the simulator
    \<open>fake-pi.c\<close> with \<open>fake-random.c\<close>, which provides the locale, so drivers are run on it.  \<open>Uart\<close> is
    \<open>uart.c\<close> and the bit-banged \<open>sw-uart.c\<close>.  \<open>Timer\<close> holds the timers, \<open>timeout.h\<close>, the watchdog, the reboot,
    the interrupt set-up, the timer interrupt handlers, the profiler and the system calls of lab 5.

  \<^item> \<open>Threads\<close> is the package of lab 6 on a heap of thread blocks, the words of memory and the
    registers, with the context switch and the trampoline instruction by instruction; the run queue is
    \<open>Queue\<close> through its locale.  A system state is abstracted to the list of runnable threads.
    \<open>ThreadRuns\<close> makes a step relation of the operations and of threads computing on their own stacks.

  \<^item> \<open>Bootloader\<close> is both ends of the protocol of lab 7 as functions of the bytes they receive, with
    the checksum of \<open>Crc\<close>.  \<open>Unix\<close> is the host library \<open>libunix\<close> and the options of \<open>my-install.c\<close> over a record
    of the system calls they use.

  \<^item> \<open>DeviceInt\<close> is lab 9: the handler that tells timer and edge interrupts apart, and the logic analyzer, which
    puts a record per edge into the queue of \<open>Circular\<close>.

  \<^item> \<open>DebugHw\<close> is labs 10 and 14: the debug registers, exception causes, watchpoints (\<open>mini-watch.c\<close>) and single stepping
    (\<open>mini-step.c\<close>), with the processor that executes the stepped code as a parameter.  \<open>Equiv\<close> is
    \<open>equiv-threads.c\<close>: threads switched after every instruction, each with a hash of its registers, on the run queue
    of \<open>Queue\<close> and the stepping of \<open>DebugHw\<close>.

  \<^item> Modes and traps.  \<open>Ram\<close> has words of memory and block transfers; \<open>Arm\<close> is the processor: registers banked by mode,
    status registers, exception entry and the instructions the assembly files use, after the manual in \<open>docs\<close>.  \<open>Modes\<close>
    lists the routines of labs 5, 6, 9 and 13 and of the notes on mode bugs as instructions; \<open>Banks\<close> proves what they do.
    \<open>Traps\<close> is \<open>full-except-asm.S\<close> and \<open>switchto-asm.S\<close> of lab 14, the code under \<open>DebugHw\<close>; \<open>Confine\<close> is what
    the instructions of the model, run in user mode, can do between a switch and an exception; \<open>EquivAsm\<close> runs a system call of a thread of \<open>Equiv\<close> from its
    instructions to the handler in C.

  \<^item> \<open>Nrf\<close> is lab 17: the commands and registers of the radio over a SPI driver, the receive queues over \<open>Circular\<close>, sending
    and receiving with time-outs.  \<open>Imu\<close> is \<open>i2c.c\<close> and the accelerometer and gyroscope of lab 11.  \<open>Mbox\<close> is
    the mailbox of lab 12.

  \<^item> \<open>PageTable\<close> is lab 16 (\<open>mem-attr.h\<close>, \<open>procmap.h\<close>, \<open>pt-vm.c\<close>, \<open>mmu.c\<close>, \<open>mmu-helpers.c\<close>) on a memory of
    words, descriptors both as bit fields and as words; the locale \<open>mmu_coprocessor\<close> is what it needs of the
    coprocessor routines.  \<open>PinnedVm\<close> is lab 15 on a record of the coprocessor registers.  \<open>Coherence\<close> is the
    assembly of lab 15 (\<open>your-mmu-asm.S\<close>), instruction by instruction, with the ordering rules of the lab's notes
    as a machine of outstanding maintenance; it interprets \<open>mmu_coprocessor\<close>, for any \<open>staff_mmu_init\<close> (an object file).  \<open>PageTyping\<close> is the type of a page table.

  \<^item> \<open>Trust\<close> is lab 2, the self-reproducing attack on a compiler, on program texts; the texts of \<open>seed.c\<close>, \<open>compiler.c\<close>
    and \<open>attack-seed.c\<close> themselves are definitions.

  \<^item> \<open>Utf8\<close> and \<open>Fat32\<close> are lab 19: on-disk structures and their checks, FAT entries, 8.3 and long
    names, the SD card veneer.

  \<^bold>\<open>What the theorems show.\<close> Containers refine lists, with the window kept by \<open>push_w_drop\<close> and the
  overflow of \<open>stack-T.h\<close>; the buffer is linearizable between one producer and one consumer.  A yield
  rotates the list of runnable threads and resumes the next one with the registers it saved, a fork
  appends, an exit resumes the next or returns to the starter, and leaves the others runnable when the
  main thread ends early.  Every run of the package, in whatever order the threads do so, is a run of an abstract round-robin scheduler.  The two bootloader programs, run against each other, transfer the code, and a
  corrupted byte is rejected.  After \<open>vm_map_kernel\<close> exactly the addresses of the process map
  translate, each to itself; \<open>vm_map_sec\<close> and \<open>pin_mmu_sec\<close> install exactly the entry asked for.  The switch of the
  address space never mixes an old table with a new identifier and leaves no maintenance outstanding, enabling and
  disabling the MMU leave the flush of the branch predictor incomplete.  The UART
  driver waits before it writes, its initialization programs the registers and nothing else; the
  bit-banged frame has its edges at exact times.  Round trips: digits printed and read back, UTF-8, 8.3
  names, bit fields, 32-bit words in a buffer.  \<open>memmove\<close> copies as if all bytes were read first, the
  table-driven checksum is the bitwise one, the seeded generators of all five types are the recurrences they are to be.  Stepped code is
  shown instruction by instruction to its handler and runs as if it were not stepped, system calls and data aborts
  included; threads that share no memory exit
  with the hash each has alone, whatever the interleaving.  Reads from the radio deliver the received bytes in
  order, what was asked for exactly when that much has arrived; the analyzer prints every edge it was interrupted for, until
  the cycle counter reads 0; the sensor readings
  are the signed register pairs; the mailbox returns the reply of the firmware.  The records of the tag linker can be
  read back, and the shutdown detector sees a stream.  The quine of \<open>seed.c\<close> prints itself, and the infected compiler adds to
  every compiler the text that was added to its own.  An interrupt changes no register and no flag of the code it interrupts, in whatever mode; a full
  exception hands the handler in C the registers of the thread, except for r1 at a system call, and switching back
  resumes it; a voluntary context switch returns; no instruction of the processor model but \<open>swi\<close>, run in user mode, changes a
  register of another mode.  Every page
  table the code builds is well typed.  Where the code
  does not do what its comments say, the theorem states what it does.

  \<^bold>\<open>Parameters.\<close> The bus and its device state; the cycle counter and the environment of
  a waiting loop; the block allocator \<open>kmalloc\<close> and the MMU routines (object files in the source), of which the coherence
  assembly replaces all but the initialization;
  the translation instruction; the SD card driver (third party); the processor that runs stepped code, in \<open>DebugHw\<close>;
  the SPI driver and the routines of the radio that exist as object files; the firmware behind the
  mailbox and the memory it shares; the operating system of the host.  Their documented behaviour is a
  hypothesis of the theorems that need it, and each such theorem has a concrete instance.

  \<^bold>\<open>Bounds.\<close> Fuel bounds the reads of a waiting loop; the theorems about loops state how much suffices (the length of
  the script, or one more than the number of elements), or show that any amount ends in the same result.

  \<^bold>\<open>Not modelled.\<close> Tools of \<open>libunix\<close> that only start programs or set terminal modes; of the start-up assembly the entries
  that panic; the MMU routines that exist as object files; the third-party SD card code; the bit-banged I2C of lab 12, whose reads and writes are left to the student; earlier copies of files that a later lab
  holds again; the test programs; stubs (\<open>unimplemented()\<close>, \<open>todo\<close>) of the later labs, among them the operations
  of \<open>fat32.c\<close>.
\<close>

end
